(* ===== verification/Prelude.thy ===== *)
theory Prelude
  imports Main "HOL-Library.Word" "HOL-Library.Monad_Syntax"
begin

unbundle bit_operations_syntax

section \<open>Shared vocabulary\<close>

text \<open>
  Machine integers, errno values, the \<open>BUG_ON\<close> guard, reachable states of a transition
  system, and the generic facts on words, lists and the option monad that the component
  theories use. A function of the driver is a HOL function into \<open>option\<close>: \<open>None\<close> is a
  kernel stop (a \<open>BUG_ON\<close> that fires, a NULL or dangling pointer that is dereferenced, a
  spinlock taken twice), \<open>Some\<close> is a return with the value and the new state. The
  negative return codes of the driver are ordinary \<open>int\<close> values.
\<close>

named_theorems word_facts \<open>unat readings of the word arithmetic the driver does\<close>
named_theorems run \<open>unfoldings that execute one driver function symbolically\<close>

type_synonym u8 = "8 word"
type_synonym u16 = "16 word"
type_synonym u32 = "32 word"
type_synonym u64 = "64 word"
type_synonym addr = "64 word"

subsection \<open>errno\<close>

abbreviation (input) EIO :: int where "EIO \<equiv> 5"
abbreviation (input) ENOMEM :: int where "ENOMEM \<equiv> 12"
abbreviation (input) EFAULT :: int where "EFAULT \<equiv> 14"
abbreviation (input) EBUSY :: int where "EBUSY \<equiv> 16"
abbreviation (input) ENODEV :: int where "ENODEV \<equiv> 19"
abbreviation (input) EINVAL :: int where "EINVAL \<equiv> 22"
abbreviation (input) ENOTTY :: int where "ENOTTY \<equiv> 25"
abbreviation (input) EAGAIN :: int where "EAGAIN \<equiv> 11"
abbreviation (input) EPROTO :: int where "EPROTO \<equiv> 71"
abbreviation (input) ERESTARTSYS :: int where "ERESTARTSYS \<equiv> 512"
abbreviation (input) EIOCBQUEUED :: int where "EIOCBQUEUED \<equiv> 529"

subsection \<open>BUG\_ON and the option monad\<close>

definition bug_on :: "bool \<Rightarrow> unit option" where
  "bug_on c = (if c then None else Some ())"

lemma bug_on_simps [simp]: "bug_on False = Some ()" "bug_on True = None"
  by (simp_all add: bug_on_def)

lemma bug_on_eq_Some [simp]: "bug_on c = Some u \<longleftrightarrow> \<not> c"
  by (simp add: bug_on_def)

lemma bug_on_bind: "Option.bind (bug_on c) f = (if c then None else f ())"
  by (simp add: bug_on_def)

lemma bind_Some_iff: "Option.bind x f = Some y \<longleftrightarrow> (\<exists>a. x = Some a \<and> f a = Some y)"
  by (cases x) auto

subsection \<open>Words as bytes and addresses\<close>

lemma unat_add_small [word_facts]:
  "unat (a :: 'a::len word) + unat b < 2 ^ LENGTH('a) \<Longrightarrow> unat (a + b) = unat a + unat b"
  by (simp add: unat_word_ariths)

lemma unat_sub_le [word_facts]:
  "b \<le> a \<Longrightarrow> unat (a - b) = unat a - unat (b :: 'a::len word)"
  by (simp add: unat_sub)

lemma unat_mask_eq [word_facts]: "unat (a AND mask n) = unat (a :: 'a::len word) mod 2 ^ n"
  by (simp add: take_bit_eq_mask [symmetric] unsigned_take_bit_eq flip: take_bit_eq_mod)

lemma unat_drop_bit_eq [word_facts]: "unat (drop_bit n (a :: 'a::len word)) = unat a div 2 ^ n"
  unfolding unsigned_drop_bit_eq by (simp add: drop_bit_eq_div take_bit_eq_mod)

lemma unat_push_bit_small [word_facts]:
  "unat (a :: 'a::len word) * 2 ^ n < 2 ^ LENGTH('a) \<Longrightarrow> unat (push_bit n a) = unat a * 2 ^ n"
  unfolding unsigned_push_bit_eq by (simp add: take_bit_eq_mod push_bit_eq_mult)

lemma unat_of_nat_small [word_facts]:
  "n < 2 ^ LENGTH('a) \<Longrightarrow> unat (of_nat n :: 'a::len word) = n"
  by (simp add: unat_of_nat take_bit_eq_mod)

lemma mult_of_nat_small [word_facts]:
  "m * n < 2 ^ LENGTH('a) \<Longrightarrow> unat (of_nat m * of_nat n :: 'a::len word) = m * n"
  by (metis of_nat_mult unat_of_nat_small)

lemma unat_ucast_up [simp]: "unat (ucast (a :: u32) :: u64) = unat a"
  using unsigned_less [of a, where ?'a = nat] by (simp add: unsigned_ucast_eq take_bit_nat_eq_self)

lemma ucast_add_small:
  assumes "unat (a :: u32) + unat b < 2 ^ 32"
  shows "(ucast (a + b) :: u64) = ucast a + ucast b"
proof -
  have "unat (ucast a :: u64) + unat (ucast b :: u64) < 2 ^ LENGTH(64)"
    using assms by simp
  from unat_add_small [OF this] show ?thesis
    using assms by (intro word_unat_eq_iff [THEN iffD2]) (simp add: unat_add_small)
qed

lemma signed_take_bit_small:
  assumes "unat (a :: 'a::len word) < 2 ^ 31" shows "signed_take_bit 31 (uint a) = int (unat a)"
proof -
  have "int (unat a) < int (2 ^ 31)"
    using assms by (simp only: of_nat_less_iff)
  then have "uint a < 2 ^ 31"
    by (simp only: uint_nat [of a] of_nat_power of_nat_numeral)
  then have "signed_take_bit 31 (uint a) = uint a"
    using order_trans [OF _ uint_ge_0 [of a], of "- (2 ^ 31)"]
    by (intro signed_take_bit_int_eq_self) simp_all
  then show ?thesis by simp
qed

lemma sint_ucast_small: "unat (a :: u64) < 2 ^ 31 \<Longrightarrow> sint (ucast a :: u32) = int (unat a)"
  using signed_take_bit_small [of a] by (simp add: signed_ucast_eq)

lemma sint_small: "unat (a :: u32) < 2 ^ 31 \<Longrightarrow> sint a = int (unat a)"
  using signed_take_bit_small [of a] by (simp add: sint_uint)

subsection \<open>Lists\<close>

lemma concat_upt_blocks:
  "concat (map (\<lambda>i. map f [i * b ..< i * b + b]) [0..<n]) = map f [0 ..< n * b]"
proof (induction n)
  case (Suc n)
  have "[0 ..< Suc n * b] = [0 ..< n * b] @ [n * b ..< n * b + b]"
    using upt_add_eq_append [of 0 "n * b" b] by (simp add: add.commute)
  with Suc show ?case by simp
qed simp

lemma take_Suc_update:
  "j < length xs \<Longrightarrow> take (Suc j) (xs[j := x]) = take j xs @ [x]"
  by (simp add: take_Suc_conv_app_nth)

lemma map_upt_add:
  "map f [0 ..< m + n] = map f [0 ..< m] @ map (\<lambda>k. f (m + k)) [0 ..< n]"
proof -
  have "[0 ..< m + n] = [0 ..< m] @ [m ..< m + n]"
    using upt_add_eq_append [of 0 m n] by simp
  moreover have "[m ..< m + n] = map ((+) m) [0 ..< n]"
    by (rule nth_equalityI) simp_all
  ultimately show ?thesis by (simp add: o_def)
qed

section \<open>Transition systems\<close>

text \<open>
  The states a component can reach: from an initial state, by any number of steps. The
  contract of a component that keeps an invariant is the locale below; a client that
  reasons about runs uses \<open>reach_inv\<close> of an interpretation.
\<close>

inductive reach :: "('s \<Rightarrow> bool) \<Rightarrow> ('s \<Rightarrow> 's \<Rightarrow> bool) \<Rightarrow> 's \<Rightarrow> bool"
  for I :: "'s \<Rightarrow> bool" and R :: "'s \<Rightarrow> 's \<Rightarrow> bool"
  where
    reach_init: "I s \<Longrightarrow> reach I R s"
  | reach_step: "reach I R s \<Longrightarrow> R s t \<Longrightarrow> reach I R t"

locale transition_system =
  fixes I :: "'s \<Rightarrow> bool" and R :: "'s \<Rightarrow> 's \<Rightarrow> bool" and inv :: "'s \<Rightarrow> bool"
  assumes inv_init: "I s \<Longrightarrow> inv s"
    and inv_step: "inv s \<Longrightarrow> R s t \<Longrightarrow> inv t"
begin

lemma reach_inv: "reach I R s \<Longrightarrow> inv s"
  by (induction rule: reach.induct) (auto intro: inv_init inv_step)

lemma reach_weaken: "reach I R s \<Longrightarrow> (\<And>s. inv s \<Longrightarrow> P s) \<Longrightarrow> P s"
  by (blast dest: reach_inv)

end

end
