(* ===== verification/Kernel.thy ===== *)
theory Kernel
  imports Prelude
begin

section \<open>The kernel and the card as an environment\<close>

text \<open>
  The driver talks to code and hardware that are not part of it: the card behind the PCIe
  BARs, the DMA and page services of the kernel, user space. Every such interaction is an
  \<open>event\<close> of the trace, in the order the driver does them, and everything the
  environment answers is a function of that trace (\<open>kenv\<close>): a register may read
  differently at every access, an allocation may fail at any moment. A theorem that holds
  for every \<open>kenv\<close> holds for every behaviour of the card and the kernel.

  \<open>addr\<close> is a kernel virtual address of a mapped register (a BAR base plus an offset, as
  the driver computes it); the NULL pointer is 0.
\<close>

subsection \<open>Events\<close>

datatype wq = WqTransfer nat | WqShutdown | WqPerf | WqEvents

text \<open>The pointers to character devices in \<open>struct xdma_dev\<close>.\<close>

datatype char_slot =
    SlotUser | SlotCtrl | SlotBypassBase | SlotEvents nat | SlotSgdma nat nat | SlotBypass nat nat

text \<open>The four strings of a bitstream header.\<close>

datatype bit_field = DesignName | PartName | BitDate | BitTime

datatype kobj =
    ObjSgm | ObjSgPages | ObjSgl
  | ObjTransfer nat
  | ObjDesc nat u64
  | ObjEngine nat nat
  | ObjPollWb u64
  | ObjPerf
  | ObjRxBuffer
  | ObjRxResult u64
  | ObjChar char_slot
  | ObjDev
  | ObjBar nat
  | ObjBitField bit_field | ObjBitBuf | ObjStash | ObjPciCfg

datatype svc =
    SvcEnableDevice | SvcDisableDevice | SvcSetMaster | SvcRelaxedOrdering
  | SvcCheckMsi nat | SvcEnableMsix nat | SvcDisableMsix | SvcEnableMsi | SvcDisableMsi
  | SvcRequestRegions | SvcReleaseRegions
  | SvcDmaMask nat | SvcConsistentDmaMask nat
  | SvcReadConfigByte | SvcReadDevctl
  | SvcCreateFile | SvcRemoveFile
  | SvcAllocChrdev | SvcRegisterChrdev nat nat | SvcUnregisterChrdev nat nat nat
  | SvcSetName string | SvcCdevAdd nat nat | SvcCdevDel nat nat
  | SvcDeviceCreate nat nat string | SvcDeviceDestroy nat nat
  | SvcRemapPfn u64 u64 u64
  | SvcClassCreate | SvcClassDestroy | SvcRegisterDriver | SvcUnregisterDriver
  | SvcAccessOk u64 u64 | SvcRequestFirmware string | SvcReleaseFirmware

datatype event =
    IoRead addr u32
  | IoWrite addr u32
  | IoWrite8 addr u8
  | CfgRead nat u32
  | CfgWrite nat u32
  | RpRead u8
  | RpWrite u8
  | Alloc kobj
  | Free kobj
  | GetPages u64 int "nat list"
  | PutPage nat
  | DirtyPage nat
  | MapSg nat
  | UnmapSg nat bool
  | WakeUp wq
  | AioComplete nat int
  | ScheduleWork nat nat
  | Schedule
  | CopyToUser u64 "u8 list"
  | CopyFromUser u64 nat
  | RequestIrq u32
  | FreeIrq u32
  | SetReserved nat
  | ClearReserved nat
  | Svc svc int

subsection \<open>State and environment\<close>

record kworld =
  trace :: "event list"

record scatterlist =
  sg_page :: nat
  sg_offset :: u32
  sg_length :: u32
  sg_dma_address :: u64
  sg_dma_len :: u32

text \<open>
  \<^item> \<open>hw_read\<close>: what \<open>ioread32\<close> returns at an address.
  \<^item> \<open>mem_ok\<close>: whether \<open>kzalloc\<close>, \<open>kcalloc\<close>, \<open>kmalloc\<close> or
    \<open>vmalloc_32\<close> returns memory.
  \<^item> \<open>dma_alloc\<close>: the bus address \<open>pci_alloc_consistent\<close> gives for a number of bytes,
    or NULL; \<open>uninit\<close> is the content of the \<open>k\<close>-th 32-bit word of such memory.
  \<^item> \<open>user_pages\<close>: the return value of \<open>get_user_pages_fast\<close> and the pages it pinned.
  \<^item> \<open>vmalloc_page\<close>: \<open>vmalloc_to_page\<close>; \<open>page_high\<close>: \<open>PageHighMem\<close>.
  \<^item> \<open>map_sg\<close>: the (bus address, length) entries \<open>pci_map_sg\<close> maps a list to.
  \<^item> \<open>vmalloc_32\<close>: the address \<open>vmalloc_32\<close> gives for a number of bytes, or NULL;
    \<open>dma_mem\<close>: the byte the CPU finds at an address of memory the card writes to.
  \<^item> \<open>copy_fails\<close>: the number of bytes a user copy did not copy.
  \<^item> \<open>user_word\<close>: the 32-bit word a user copy finds at a user address; \<open>user_mem\<close>: the byte.
  \<^item> \<open>cfg_read\<close>: what \<open>pci_read_config_dword\<close> finds at an offset of the configuration space of the
    card, \<open>rp_read\<close>: the byte \<open>PCI_MIN_GNT\<close> of the root port.
  \<^item> \<open>irq_rc\<close>: what \<open>request_irq\<close> returns.
  \<^item> \<open>bar_start\<close>, \<open>bar_end\<close>: the bounds of the resource behind a BAR; \<open>iomap\<close>: the
    address \<open>pci_iomap\<close> maps it to, or NULL.
  \<^item> \<open>msix_vec\<close>: the vectors \<open>pci_enable_msix\<close> fills in; \<open>pci_irq\<close>: the line of
    \<open>pdev->irq\<close>; \<open>pci_no_msi\<close>, \<open>pci_bus_no_msi\<close>: the MSI flags of the device and of the buses
    above it.
  \<^item> \<open>svc_rc\<close>: what any other kernel service returns. \<open>SvcAllocChrdev\<close> answers the major
    number, or a negative error; a service that returns a pointer (\<open>SvcClassCreate\<close>,
    \<open>SvcDeviceCreate\<close>) answers it as a number: 0 is NULL, a negative number an error pointer.
  \<^item> \<open>poll_mode\<close>, \<open>enable_credit_mp\<close>: the module parameters.
\<close>

record kenv =
  hw_read :: "event list \<Rightarrow> addr \<Rightarrow> u32"
  mem_ok :: "event list \<Rightarrow> kobj \<Rightarrow> bool"
  dma_alloc :: "event list \<Rightarrow> nat \<Rightarrow> u64 option"
  uninit :: "event list \<Rightarrow> nat \<Rightarrow> u32"
  user_pages :: "event list \<Rightarrow> u64 \<Rightarrow> int \<Rightarrow> bool \<Rightarrow> int \<times> nat list"
  vmalloc_page :: "u64 \<Rightarrow> nat option"
  page_high :: "nat \<Rightarrow> bool"
  map_sg :: "event list \<Rightarrow> scatterlist list \<Rightarrow> (u64 \<times> u32) list"
  vmalloc_32 :: "event list \<Rightarrow> nat \<Rightarrow> u64 option"
  dma_mem :: "event list \<Rightarrow> u64 \<Rightarrow> u8"
  copy_fails :: "event list \<Rightarrow> nat"
  user_word :: "event list \<Rightarrow> u64 \<Rightarrow> u32"
  user_mem :: "event list \<Rightarrow> u64 \<Rightarrow> u8"
  cfg_read :: "event list \<Rightarrow> nat \<Rightarrow> u32"
  rp_read :: "event list \<Rightarrow> u8"
  irq_rc :: "event list \<Rightarrow> u32 \<Rightarrow> int"
  bar_start :: "nat \<Rightarrow> u64"
  bar_end :: "nat \<Rightarrow> u64"
  iomap :: "event list \<Rightarrow> nat \<Rightarrow> u64 \<Rightarrow> addr"
  msix_vec :: "nat \<Rightarrow> u32"
  pci_irq :: u32
  pci_no_msi :: bool
  pci_bus_no_msi :: "bool list"
  svc_rc :: "event list \<Rightarrow> svc \<Rightarrow> int"
  poll_mode :: bool
  enable_credit_mp :: u32

text \<open>A cooperative environment, on which the concrete examples run: every allocation
  succeeds, every register reads 0, the scatterlist is mapped one to one.\<close>

definition env0 :: kenv where
  "env0 = \<lparr>hw_read = (\<lambda>_ _. 0), mem_ok = (\<lambda>_ _. True),
     dma_alloc = (\<lambda>_ _. Some 0x10000), uninit = (\<lambda>_ _. 0),
     user_pages = (\<lambda>_ a n _. (n, map (\<lambda>i. unat (drop_bit 12 a) + i) [0..<nat n])),
     vmalloc_page = (\<lambda>a. Some (unat (drop_bit 12 a))), page_high = (\<lambda>_. False),
     map_sg = (\<lambda>_ sgl. map (\<lambda>s. (of_nat (sg_page s) * 4096 + ucast (sg_offset s), sg_length s)) sgl),
     vmalloc_32 = (\<lambda>_ _. Some 0x100000), dma_mem = (\<lambda>_ _. 0), copy_fails = (\<lambda>_. 0),
     user_word = (\<lambda>_ _. 0), user_mem = (\<lambda>_ _. 0), cfg_read = (\<lambda>_ _. 0), rp_read = (\<lambda>_. 0), irq_rc = (\<lambda>_ _. 0), bar_start = (\<lambda>_. 0), bar_end = (\<lambda>_. 0),
     iomap = (\<lambda>_ i _. 0x1000000 * (1 + of_nat i)), 
     msix_vec = (\<lambda>i. 32 + of_nat i), pci_irq = 16, pci_no_msi = False, pci_bus_no_msi = [],
     svc_rc = (\<lambda>_ c. case c of SvcAllocChrdev \<Rightarrow> 240 | SvcDeviceCreate _ _ _ \<Rightarrow> 1
                      | SvcClassCreate \<Rightarrow> 1 | _ \<Rightarrow> 0),
     poll_mode = False, enable_credit_mp = 0\<rparr>"

subsection \<open>Register access\<close>

definition emit :: "event \<Rightarrow> 'w kworld_scheme \<Rightarrow> 'w kworld_scheme" where
  "emit ev w = w\<lparr>trace := trace w @ [ev]\<rparr>"

definition write_register :: "u32 \<Rightarrow> addr \<Rightarrow> 'w kworld_scheme \<Rightarrow> 'w kworld_scheme" where
  "write_register v a w = emit (IoWrite a v) w"

definition read_register :: "kenv \<Rightarrow> addr \<Rightarrow> 'w kworld_scheme \<Rightarrow> u32 \<times> 'w kworld_scheme" where
  "read_register env a w = (let v = hw_read env (trace w) a in (v, emit (IoRead a v) w))"

text \<open>\<open>kzalloc\<close> and friends: whether memory was returned, and the bookkeeping event;
  \<open>kfree\<close>.\<close>

definition kalloc :: "kenv \<Rightarrow> kobj \<Rightarrow> 'w kworld_scheme \<Rightarrow> bool \<times> 'w kworld_scheme" where
  "kalloc env ob w =
    (if mem_ok env (trace w) ob then (True, emit (Alloc ob) w) else (False, w))"

definition kfree :: "kobj \<Rightarrow> 'w kworld_scheme \<Rightarrow> 'w kworld_scheme" where
  "kfree ob w = emit (Free ob) w"

definition emits :: "event list \<Rightarrow> 'w kworld_scheme \<Rightarrow> 'w kworld_scheme" where
  "emits evs w = w\<lparr>trace := trace w @ evs\<rparr>"

lemma trace_emits [simp]: "trace (emits evs w) = trace w @ evs"
  by (simp add: emits_def)

lemma trace_kfree [simp]: "trace (kfree ob w) = trace w @ [Free ob]"
  by (simp add: kfree_def emit_def)

lemma trace_emit [simp]: "trace (emit ev w) = trace w @ [ev]"
  by (simp add: emit_def)

lemma trace_write_register [simp]:
  "trace (write_register v a w) = trace w @ [IoWrite a v]"
  by (simp add: write_register_def)

lemma read_register_fst [simp]: "fst (read_register env a w) = hw_read env (trace w) a"
  by (simp add: read_register_def Let_def)

lemma trace_read_register [simp]:
  "trace (snd (read_register env a w)) = trace w @ [IoRead a (hw_read env (trace w) a)]"
  by (simp add: read_register_def Let_def)

lemma more_emit [simp]: "kworld.more (emit ev w) = kworld.more w"
  by (cases w) (simp add: emit_def)

subsection \<open>Other kernel services\<close>

text \<open>A service call and its return value; \<open>copy_to_user\<close>, whose value is the number of bytes
  that were not copied (only a complete copy is recorded).\<close>

definition svc_call :: "kenv \<Rightarrow> svc \<Rightarrow> 'w kworld_scheme \<Rightarrow> int \<times> 'w kworld_scheme" where
  "svc_call env c w = (let rc = svc_rc env (trace w) c in (rc, emit (Svc c rc) w))"

definition svc_void :: "svc \<Rightarrow> 'w kworld_scheme \<Rightarrow> 'w kworld_scheme" where
  "svc_void c w = emit (Svc c 0) w"

definition copy_to_user :: "kenv \<Rightarrow> u64 \<Rightarrow> u8 list \<Rightarrow> 'w kworld_scheme \<Rightarrow> nat \<times> 'w kworld_scheme" where
  "copy_to_user env buf bs w =
    (if copy_fails env (trace w) = 0 then (0, emit (CopyToUser buf bs) w)
     else (copy_fails env (trace w), w))"

subsection \<open>Waiting\<close>

text \<open>What happens around a thread that waits or polls, as functions of how often it has looked:
  \<open>c_act i\<close> is what interrupts, the work queue, the card and other threads do to the shared
  state between look \<open>i\<close> and the next, \<open>c_sig i\<close> whether a signal is then pending;
  \<open>c_wb\<close>, \<open>c_late\<close> and \<open>c_res\<close> are the write-back word, the expiry of the poll timeout
  and the result ring a polling thread sees.\<close>

record 's others =
  c_act :: "nat \<Rightarrow> 's \<Rightarrow> 's option"
  c_sig :: "nat \<Rightarrow> bool"
  c_wb :: "nat \<Rightarrow> u32"
  c_late :: "nat \<Rightarrow> bool"
  c_res :: "nat \<Rightarrow> (u32 \<times> u32) list"

text \<open>\<open>wait_event_interruptible\<close>: 0 as soon as the condition holds, \<open>-ERESTARTSYS\<close> when a
  signal comes first; a thread that is never woken does not return.\<close>

partial_function (option) wait_event ::
  "('s \<Rightarrow> bool) \<Rightarrow> 's others \<Rightarrow> nat \<Rightarrow> 's \<Rightarrow> (int \<times> 's) option" where
  "wait_event cond oth i s =
    (if cond s then Some (0, s)
     else if c_sig oth i then Some (- ERESTARTSYS, s)
     else Option.bind (c_act oth i s) (wait_event cond oth (Suc i)))"

text \<open>The register writes of a trace, in order: what the card is told.\<close>

fun io_writes :: "event list \<Rightarrow> (addr \<times> u32) list" where
  "io_writes [] = []"
| "io_writes (IoWrite a v # es) = (a, v) # io_writes es"
| "io_writes (_ # es) = io_writes es"

lemma io_writes_append [simp]: "io_writes (xs @ ys) = io_writes xs @ io_writes ys"
  by (induction xs rule: io_writes.induct) auto

text \<open>The objects of a trace that were allocated and not yet released.\<close>

fun allocs :: "event list \<Rightarrow> kobj list" where
  "allocs [] = []"
| "allocs (Alloc x # es) = x # allocs es"
| "allocs (_ # es) = allocs es"

fun frees :: "event list \<Rightarrow> kobj list" where
  "frees [] = []"
| "frees (Free x # es) = x # frees es"
| "frees (_ # es) = frees es"

lemma allocs_append [simp]: "allocs (xs @ ys) = allocs xs @ allocs ys"
  by (induction xs rule: allocs.induct) auto

lemma frees_append [simp]: "frees (xs @ ys) = frees xs @ frees ys"
  by (induction xs rule: frees.induct) auto

end
