(* ===== verification/Ledger.thy ===== *)
theory Ledger
  imports Kernel
begin

section \<open>Resource accounts\<close>

text \<open>
  What a trace still holds of a resource: how often it was acquired less how often it was
  released, an integer, so that releasing what was not held shows as a negative balance. Two
  accounts are kept: heap objects (\<open>Alloc\<close>, \<open>Free\<close>) and interrupt lines (\<open>RequestIrq\<close>,
  \<open>FreeIrq\<close>). The locale \<open>resource\<close> is the contract of a resource that is acquired one by
  one and given back when an acquisition in the middle fails.
\<close>

definition net_of :: "(event \<Rightarrow> 'r option) \<Rightarrow> (event \<Rightarrow> 'r option) \<Rightarrow> event list \<Rightarrow> 'r \<Rightarrow> int" where
  "net_of acq rel tr r = (\<Sum>e\<leftarrow>tr. of_bool (acq e = Some r) - of_bool (rel e = Some r))"

fun obj_acq :: "event \<Rightarrow> kobj option" where
  "obj_acq (Alloc ob) = Some ob"
| "obj_acq _ = None"

fun obj_rel :: "event \<Rightarrow> kobj option" where
  "obj_rel (Free ob) = Some ob"
| "obj_rel _ = None"

fun irq_acq :: "event \<Rightarrow> u32 option" where
  "irq_acq (RequestIrq v) = Some v"
| "irq_acq _ = None"

fun irq_rel :: "event \<Rightarrow> u32 option" where
  "irq_rel (FreeIrq v) = Some v"
| "irq_rel _ = None"

definition obj_net :: "event list \<Rightarrow> kobj \<Rightarrow> int" where "obj_net = net_of obj_acq obj_rel"
definition irq_net :: "event list \<Rightarrow> u32 \<Rightarrow> int" where "irq_net = net_of irq_acq irq_rel"

lemma net_of_Nil [simp]: "net_of acq rel [] = (\<lambda>_. 0)"
  by (simp add: net_of_def fun_eq_iff)

lemma net_of_append [simp]: "net_of acq rel (xs @ ys) = (\<lambda>r. net_of acq rel xs r + net_of acq rel ys r)"
  by (simp add: net_of_def fun_eq_iff)

lemma net_of_Cons [simp]:
  "net_of acq rel (e # es) = (\<lambda>r. of_bool (acq e = Some r) - of_bool (rel e = Some r) + net_of acq rel es r)"
  by (simp add: net_of_def fun_eq_iff)

lemma obj_net_Nil [simp]: "obj_net [] = (\<lambda>_. 0)" and irq_net_Nil [simp]: "irq_net [] = (\<lambda>_. 0)"
  by (simp_all add: obj_net_def irq_net_def)

lemma obj_net_append [simp]: "obj_net (xs @ ys) = (\<lambda>r. obj_net xs r + obj_net ys r)"
  and irq_net_append [simp]: "irq_net (xs @ ys) = (\<lambda>r. irq_net xs r + irq_net ys r)"
  by (simp_all add: obj_net_def irq_net_def)

lemma obj_net_Cons [simp]:
  "obj_net (e # es) = (\<lambda>r. of_bool (obj_acq e = Some r) - of_bool (obj_rel e = Some r) + obj_net es r)"
  by (simp add: obj_net_def)

lemma irq_net_Cons [simp]:
  "irq_net (e # es) = (\<lambda>r. of_bool (irq_acq e = Some r) - of_bool (irq_rel e = Some r) + irq_net es r)"
  by (simp add: irq_net_def)

subsection \<open>Acquiring several resources\<close>

text \<open>Acquire a list of resources in order, up to the first failure: whether all were acquired,
  which ones were, and the new state.\<close>

fun acquire_all :: "('k \<Rightarrow> 's \<Rightarrow> bool \<times> 's) \<Rightarrow> 'k list \<Rightarrow> 's \<Rightarrow> bool \<times> 'k list \<times> 's" where
  "acquire_all acq [] s = (True, [], s)"
| "acquire_all acq (k # ks) s =
    (let (ok, s) = acq k s in
     if \<not> ok then (False, [], s)
     else (let (ok, got, s) = acquire_all acq ks s in (ok, k # got, s)))"

locale resource =
  fixes acquire :: "'k \<Rightarrow> 's \<Rightarrow> bool \<times> 's" and release :: "'k \<Rightarrow> 's \<Rightarrow> 's" and net :: "'s \<Rightarrow> 'k \<Rightarrow> int"
  assumes acquired: "acquire k s = (True, s') \<Longrightarrow> net s' = (\<lambda>r. net s r + of_bool (r = k))"
    and refused: "acquire k s = (False, s') \<Longrightarrow> net s' = net s"
    and released: "net (release k s) = (\<lambda>r. net s r - of_bool (r = k))"
begin

lemma release_all: "net (fold release ks s) = (\<lambda>r. net s r - int (count_list ks r))"
  by (induction ks arbitrary: s) (auto simp: released fun_eq_iff)

lemma acquire_all_net:
  "acquire_all acquire ks s = (ok, got, s') \<Longrightarrow> net s' = (\<lambda>r. net s r + int (count_list got r))"
  by (induction ks arbitrary: s got)
    (fastforce simp: fun_eq_iff acquired refused split: prod.splits if_splits)+

lemma acquire_all_ok: "acquire_all acquire ks s = (True, got, s') \<Longrightarrow> got = ks"
  by (induction ks arbitrary: s got) (auto split: prod.splits if_splits)

lemma acquire_all_prefix: "acquire_all acquire ks s = (ok, got, s') \<Longrightarrow> \<exists>n. got = take n ks"
proof (induction ks arbitrary: s got)
  case (Cons k ks)
  show ?case
  proof (cases "fst (acquire k s)")
    case False
    with Cons.prems show ?thesis by (auto split: prod.splits intro!: exI [of _ 0])
  next
    case True
    with Cons.prems obtain s1 got' where
      "acquire k s = (True, s1)" "acquire_all acquire ks s1 = (ok, got', s')" "got = k # got'"
      by (auto split: prod.splits)
    with Cons.IH obtain n where "got' = take n ks" by blast
    with \<open>got = k # got'\<close> have "got = take (Suc n) (k # ks)" by simp
    then show ?thesis ..
  qed
qed simp

text \<open>All or nothing: giving back what a failing run acquired restores the account.\<close>

lemma unwind: "acquire_all acquire ks s = (ok, got, s') \<Longrightarrow> net (fold release (rev got) s') = net s"
  by (simp add: release_all acquire_all_net)

end

subsection \<open>Heap objects and interrupt lines\<close>

interpretation heap: resource "kalloc env" kfree "\<lambda>w :: 'w kworld_scheme. obj_net (trace w)"
  by unfold_locales (auto simp: kalloc_def kfree_def fun_eq_iff split: if_splits)

text \<open>\<open>request_irq\<close> of a line and \<open>free_irq\<close>.\<close>

definition request_irq :: "kenv \<Rightarrow> u32 \<Rightarrow> 'w kworld_scheme \<Rightarrow> int \<times> 'w kworld_scheme" where
  "request_irq env v w =
    (let rc = irq_rc env (trace w) v in (rc, if rc = 0 then emit (RequestIrq v) w else w))"

definition free_irq :: "u32 \<Rightarrow> 'w kworld_scheme \<Rightarrow> 'w kworld_scheme" where
  "free_irq v w = emit (FreeIrq v) w"

definition take_irq :: "kenv \<Rightarrow> u32 \<Rightarrow> 'w kworld_scheme \<Rightarrow> bool \<times> 'w kworld_scheme" where
  "take_irq env v w = (let (rc, w) = request_irq env v w in (rc = 0, w))"

interpretation irqs: resource "take_irq env" free_irq "\<lambda>w :: 'w kworld_scheme. irq_net (trace w)"
  by unfold_locales (auto simp: take_irq_def request_irq_def free_irq_def fun_eq_iff Let_def split: if_splits)

end
