(* ===== verification/Regs.thy ===== *)
theory Regs
  imports Kernel
begin

section \<open>Register map and register-level helpers\<close>

text \<open>
  The constants and register blocks of \<open>xdma-core.h\<close>, the word helpers of
  \<open>xdma-core.c\<close> (\<open>build_u32\<close>, \<open>build_u64\<close>, \<open>PCI_DMA_H\<close>,
  \<open>PCI_DMA_L\<close>), the interrupt enable/disable helpers and the MSI-X vector table.
  A register block is its base address; a register is a function of the base.
\<close>

subsection \<open>Constants\<close>

definition XDMA_CTRL_RUN_STOP :: u32 where "XDMA_CTRL_RUN_STOP = push_bit 0 1"
definition XDMA_CTRL_IE_DESC_STOPPED :: u32 where "XDMA_CTRL_IE_DESC_STOPPED = push_bit 1 1"
definition XDMA_CTRL_IE_DESC_COMPLETED :: u32 where "XDMA_CTRL_IE_DESC_COMPLETED = push_bit 2 1"
definition XDMA_CTRL_IE_DESC_ALIGN_MISMATCH :: u32 where
  "XDMA_CTRL_IE_DESC_ALIGN_MISMATCH = push_bit 3 1"
definition XDMA_CTRL_IE_MAGIC_STOPPED :: u32 where "XDMA_CTRL_IE_MAGIC_STOPPED = push_bit 4 1"
definition XDMA_CTRL_IE_IDLE_STOPPED :: u32 where "XDMA_CTRL_IE_IDLE_STOPPED = push_bit 6 1"
definition XDMA_CTRL_IE_READ_ERROR :: u32 where "XDMA_CTRL_IE_READ_ERROR = push_bit 9 0x1F"
definition XDMA_CTRL_IE_DESC_ERROR :: u32 where "XDMA_CTRL_IE_DESC_ERROR = push_bit 19 0x1F"
definition XDMA_CTRL_NON_INCR_ADDR :: u32 where "XDMA_CTRL_NON_INCR_ADDR = push_bit 25 1"
definition XDMA_CTRL_POLL_MODE_WB :: u32 where "XDMA_CTRL_POLL_MODE_WB = push_bit 26 1"

definition XDMA_STAT_BUSY :: u32 where "XDMA_STAT_BUSY = push_bit 0 1"
definition XDMA_STAT_DESC_STOPPED :: u32 where "XDMA_STAT_DESC_STOPPED = push_bit 1 1"
definition XDMA_STAT_DESC_COMPLETED :: u32 where "XDMA_STAT_DESC_COMPLETED = push_bit 2 1"
definition XDMA_STAT_ALIGN_MISMATCH :: u32 where "XDMA_STAT_ALIGN_MISMATCH = push_bit 3 1"
definition XDMA_STAT_MAGIC_STOPPED :: u32 where "XDMA_STAT_MAGIC_STOPPED = push_bit 4 1"
definition XDMA_STAT_FETCH_STOPPED :: u32 where "XDMA_STAT_FETCH_STOPPED = push_bit 5 1"
definition XDMA_STAT_IDLE_STOPPED :: u32 where "XDMA_STAT_IDLE_STOPPED = push_bit 6 1"
definition XDMA_STAT_READ_ERROR :: u32 where "XDMA_STAT_READ_ERROR = push_bit 9 0x1F"
definition XDMA_STAT_DESC_ERROR :: u32 where "XDMA_STAT_DESC_ERROR = push_bit 19 0x1F"

definition XDMA_DESC_STOPPED :: u32 where "XDMA_DESC_STOPPED = push_bit 0 1"
definition XDMA_DESC_COMPLETED :: u32 where "XDMA_DESC_COMPLETED = push_bit 1 1"
definition XDMA_DESC_EOP :: u32 where "XDMA_DESC_EOP = push_bit 4 1"

definition XDMA_PERF_RUN :: u32 where "XDMA_PERF_RUN = push_bit 0 1"
definition XDMA_PERF_CLEAR :: u32 where "XDMA_PERF_CLEAR = push_bit 1 1"
definition XDMA_PERF_AUTO :: u32 where "XDMA_PERF_AUTO = push_bit 2 1"

definition DESC_MAGIC :: u32 where "DESC_MAGIC = 0xAD4B0000"
definition C2H_WB :: u32 where "C2H_WB = 0x52B4"
definition LS_BYTE_MASK :: u32 where "LS_BYTE_MASK = 0xFF"
definition WB_COUNT_MASK :: u32 where "WB_COUNT_MASK = 0x00ffffff"
definition WB_ERR_MASK :: u32 where "WB_ERR_MASK = push_bit 31 1"
definition RX_STATUS_EOP :: u32 where "RX_STATUS_EOP = 1"
definition MAX_EXTRA_ADJ :: nat where "MAX_EXTRA_ADJ = 15"
definition RX_BUF_BLOCK :: nat where "RX_BUF_BLOCK = 4096"
definition RX_BUF_PAGES :: nat where "RX_BUF_PAGES = 256"
definition RX_BUF_SIZE :: nat where "RX_BUF_SIZE = RX_BUF_PAGES * RX_BUF_BLOCK"
definition XDMA_TRANSFER_MAX_BYTES :: nat where "XDMA_TRANSFER_MAX_BYTES = 2048 * 4096"
definition XDMA_DESC_MAX_BYTES :: nat where "XDMA_DESC_MAX_BYTES = 2 ^ 18 - 1"
definition XDMA_BAR_NUM :: nat where "XDMA_BAR_NUM = 6"
definition XDMA_BAR_SIZE :: nat where "XDMA_BAR_SIZE = 0x8000"
definition XDMA_CHANNEL_NUM_MAX :: nat where "XDMA_CHANNEL_NUM_MAX = 4"
definition XDMA_ENG_IRQ_NUM :: nat where "XDMA_ENG_IRQ_NUM = 1"
definition MAX_USER_IRQ :: nat where "MAX_USER_IRQ = 16"
definition XDMA_OFS_INT_CTRL :: addr where "XDMA_OFS_INT_CTRL = 0x2000"
definition XDMA_OFS_CONFIG :: addr where "XDMA_OFS_CONFIG = 0x3000"
definition IRQ_BLOCK_ID :: u32 where "IRQ_BLOCK_ID = 0x1fc20000"
definition CONFIG_BLOCK_ID :: u32 where "CONFIG_BLOCK_ID = 0x1fc30000"
definition XDMA_ID_H2C :: u32 where "XDMA_ID_H2C = 0x1fc0"
definition XDMA_ID_C2H :: u32 where "XDMA_ID_C2H = 0x1fc1"
definition H2C_CHANNEL_OFFSET :: addr where "H2C_CHANNEL_OFFSET = 0x1000"
definition SGDMA_OFFSET_FROM_CHANNEL :: addr where "SGDMA_OFFSET_FROM_CHANNEL = 0x4000"
definition CHANNEL_SPACING :: addr where "CHANNEL_SPACING = 0x100"
definition TARGET_SPACING :: addr where "TARGET_SPACING = 0x1000"
definition BYPASS_MODE_SPACING :: u32 where "BYPASS_MODE_SPACING = 0x0100"

lemmas ctrl_bits =
  XDMA_CTRL_RUN_STOP_def XDMA_CTRL_IE_DESC_STOPPED_def XDMA_CTRL_IE_DESC_COMPLETED_def
  XDMA_CTRL_IE_DESC_ALIGN_MISMATCH_def XDMA_CTRL_IE_MAGIC_STOPPED_def
  XDMA_CTRL_IE_IDLE_STOPPED_def XDMA_CTRL_IE_READ_ERROR_def XDMA_CTRL_IE_DESC_ERROR_def
  XDMA_CTRL_NON_INCR_ADDR_def XDMA_CTRL_POLL_MODE_WB_def

lemmas stat_bits =
  XDMA_STAT_BUSY_def XDMA_STAT_DESC_STOPPED_def XDMA_STAT_DESC_COMPLETED_def
  XDMA_STAT_ALIGN_MISMATCH_def XDMA_STAT_MAGIC_STOPPED_def XDMA_STAT_FETCH_STOPPED_def
  XDMA_STAT_IDLE_STOPPED_def XDMA_STAT_READ_ERROR_def XDMA_STAT_DESC_ERROR_def

lemmas desc_bits = XDMA_DESC_STOPPED_def XDMA_DESC_COMPLETED_def XDMA_DESC_EOP_def

text \<open>\<open>if (w & mask)\<close>.\<close>

definition bits_set :: "'a::len word \<Rightarrow> 'a word \<Rightarrow> bool" where
  "bits_set w m \<longleftrightarrow> w AND m \<noteq> 0"

lemma bits_set_zero [simp]: "bits_set 0 m = False" "bits_set w 0 = False"
  by (simp_all add: bits_set_def)

lemma bits_set_or: "bits_set (a OR b) m \<longleftrightarrow> bits_set a m \<or> bits_set b m"
  by (metis bits_set_def bit.conj_disj_distrib2 or_eq_0_iff)

subsection \<open>Register blocks\<close>

text \<open>\<open>struct engine_regs\<close>\<close>

definition engine_identifier :: "addr \<Rightarrow> addr" where "engine_identifier r = r"
definition engine_control :: "addr \<Rightarrow> addr" where "engine_control r = r + 0x4"
definition engine_control_w1s :: "addr \<Rightarrow> addr" where "engine_control_w1s r = r + 0x8"
definition engine_control_w1c :: "addr \<Rightarrow> addr" where "engine_control_w1c r = r + 0xc"
definition engine_status_reg :: "addr \<Rightarrow> addr" where "engine_status_reg r = r + 0x40"
definition engine_status_rc :: "addr \<Rightarrow> addr" where "engine_status_rc r = r + 0x44"
definition engine_completed_desc_count :: "addr \<Rightarrow> addr" where
  "engine_completed_desc_count r = r + 0x48"
definition engine_alignments_reg :: "addr \<Rightarrow> addr" where "engine_alignments_reg r = r + 0x4c"
definition engine_poll_mode_wb_lo :: "addr \<Rightarrow> addr" where "engine_poll_mode_wb_lo r = r + 0x88"
definition engine_poll_mode_wb_hi :: "addr \<Rightarrow> addr" where "engine_poll_mode_wb_hi r = r + 0x8c"
definition engine_interrupt_enable_mask :: "addr \<Rightarrow> addr" where
  "engine_interrupt_enable_mask r = r + 0x90"
definition engine_interrupt_enable_mask_w1s :: "addr \<Rightarrow> addr" where
  "engine_interrupt_enable_mask_w1s r = r + 0x94"
definition engine_interrupt_enable_mask_w1c :: "addr \<Rightarrow> addr" where
  "engine_interrupt_enable_mask_w1c r = r + 0x98"
definition engine_perf_ctrl :: "addr \<Rightarrow> addr" where "engine_perf_ctrl r = r + 0xc0"
definition engine_perf_cyc_lo :: "addr \<Rightarrow> addr" where "engine_perf_cyc_lo r = r + 0xc4"
definition engine_perf_cyc_hi :: "addr \<Rightarrow> addr" where "engine_perf_cyc_hi r = r + 0xc8"
definition engine_perf_dat_lo :: "addr \<Rightarrow> addr" where "engine_perf_dat_lo r = r + 0xcc"
definition engine_perf_dat_hi :: "addr \<Rightarrow> addr" where "engine_perf_dat_hi r = r + 0xd0"
definition engine_perf_pnd_lo :: "addr \<Rightarrow> addr" where "engine_perf_pnd_lo r = r + 0xd4"
definition engine_perf_pnd_hi :: "addr \<Rightarrow> addr" where "engine_perf_pnd_hi r = r + 0xd8"

lemmas engine_regs_defs =
  engine_identifier_def engine_control_def engine_control_w1s_def engine_control_w1c_def
  engine_status_reg_def engine_status_rc_def engine_completed_desc_count_def
  engine_alignments_reg_def engine_poll_mode_wb_lo_def engine_poll_mode_wb_hi_def
  engine_interrupt_enable_mask_def engine_interrupt_enable_mask_w1s_def
  engine_interrupt_enable_mask_w1c_def engine_perf_ctrl_def engine_perf_cyc_lo_def
  engine_perf_cyc_hi_def engine_perf_dat_lo_def engine_perf_dat_hi_def
  engine_perf_pnd_lo_def engine_perf_pnd_hi_def

text \<open>\<open>struct engine_sgdma_regs\<close>\<close>

definition sgdma_first_desc_lo :: "addr \<Rightarrow> addr" where "sgdma_first_desc_lo r = r + 0x80"
definition sgdma_first_desc_hi :: "addr \<Rightarrow> addr" where "sgdma_first_desc_hi r = r + 0x84"
definition sgdma_first_desc_adjacent :: "addr \<Rightarrow> addr" where
  "sgdma_first_desc_adjacent r = r + 0x88"
definition sgdma_credits :: "addr \<Rightarrow> addr" where "sgdma_credits r = r + 0x8c"

text \<open>\<open>struct interrupt_regs\<close>, \<open>sgdma_common_regs\<close>, \<open>msix_vec_table\<close>\<close>

definition user_int_enable_w1s :: "addr \<Rightarrow> addr" where "user_int_enable_w1s r = r + 0x8"
definition user_int_enable_w1c :: "addr \<Rightarrow> addr" where "user_int_enable_w1c r = r + 0xc"
definition channel_int_enable_w1s :: "addr \<Rightarrow> addr" where "channel_int_enable_w1s r = r + 0x14"
definition channel_int_enable_w1c :: "addr \<Rightarrow> addr" where "channel_int_enable_w1c r = r + 0x18"
definition user_int_request :: "addr \<Rightarrow> addr" where "user_int_request r = r + 0x40"
definition channel_int_request :: "addr \<Rightarrow> addr" where "channel_int_request r = r + 0x44"
definition user_msi_vector :: "addr \<Rightarrow> nat \<Rightarrow> addr" where
  "user_msi_vector r i = r + 0x80 + 4 * of_nat i"
definition channel_msi_vector :: "addr \<Rightarrow> nat \<Rightarrow> addr" where
  "channel_msi_vector r i = r + 0xa0 + 4 * of_nat i"
definition credit_feature_enable :: "addr \<Rightarrow> addr" where "credit_feature_enable r = r + 0x24"
definition msi_enable_reg :: "addr \<Rightarrow> addr" where "msi_enable_reg r = r + 0x14"

subsection \<open>Interrupt block\<close>

text \<open>\<open>cfg\<close> is the address of the configuration BAR, \<open>lro->bar[lro->config_bar_idx]\<close>.\<close>

definition channel_interrupts_enable :: "addr \<Rightarrow> u32 \<Rightarrow> 'w kworld_scheme \<Rightarrow> 'w kworld_scheme" where
  "channel_interrupts_enable cfg m w =
     write_register m (channel_int_enable_w1s (cfg + XDMA_OFS_INT_CTRL)) w"

definition channel_interrupts_disable :: "addr \<Rightarrow> u32 \<Rightarrow> 'w kworld_scheme \<Rightarrow> 'w kworld_scheme" where
  "channel_interrupts_disable cfg m w =
     write_register m (channel_int_enable_w1c (cfg + XDMA_OFS_INT_CTRL)) w"

definition user_interrupts_enable :: "addr \<Rightarrow> u32 \<Rightarrow> 'w kworld_scheme \<Rightarrow> 'w kworld_scheme" where
  "user_interrupts_enable cfg m w =
     write_register m (user_int_enable_w1s (cfg + XDMA_OFS_INT_CTRL)) w"

definition user_interrupts_disable :: "addr \<Rightarrow> u32 \<Rightarrow> 'w kworld_scheme \<Rightarrow> 'w kworld_scheme" where
  "user_interrupts_disable cfg m w =
     write_register m (user_int_enable_w1c (cfg + XDMA_OFS_INT_CTRL)) w"

subsection \<open>Joining and splitting words\<close>

definition build_u32 :: "u32 \<Rightarrow> u32 \<Rightarrow> u32" where
  "build_u32 hi lo = push_bit 16 (hi AND 0xFFFF) OR (lo AND 0xFFFF)"

definition read_interrupts :: "kenv \<Rightarrow> addr \<Rightarrow> 'w kworld_scheme \<Rightarrow> u32 \<times> 'w kworld_scheme" where
  "read_interrupts env cfg w =
    (let (hi, w) = read_register env (user_int_request (cfg + XDMA_OFS_INT_CTRL)) w;
         (lo, w) = read_register env (channel_int_request (cfg + XDMA_OFS_INT_CTRL)) w
     in (build_u32 hi lo, w))"

definition build_u64 :: "u64 \<Rightarrow> u64 \<Rightarrow> u64" where
  "build_u64 hi lo = push_bit 32 (hi AND 0xFFFFFFF) OR (lo AND 0xFFFFFFFF)"

text \<open>\<open>cpu_to_le32(PCI_DMA_H(a))\<close> and \<open>cpu_to_le32(PCI_DMA_L(a))\<close>: the value
  stored is the low 32 bits of the macro's 64-bit result.\<close>

definition PCI_DMA_H :: "u64 \<Rightarrow> u32" where
  "PCI_DMA_H a = ucast (drop_bit 16 (drop_bit 16 a))"

definition PCI_DMA_L :: "u64 \<Rightarrow> u32" where
  "PCI_DMA_L a = ucast (a AND 0xffffffff)"

text \<open>The address a high and a low register word stand for.\<close>

definition join64 :: "u32 \<Rightarrow> u32 \<Rightarrow> u64" where
  "join64 hi lo = push_bit 32 (ucast hi) OR ucast lo"

lemma bit_numeral_mask:
  "bit (0xffffffff :: u64) n \<longleftrightarrow> n < 32"
  "bit (0xFFFFFFF :: u64) n \<longleftrightarrow> n < 28"
  "bit (0xFFFFFFF :: u32) n \<longleftrightarrow> n < 28"
  "bit (0xFFFF :: u32) n \<longleftrightarrow> n < 16"
proof -
  have masks: "(0xffffffff :: u64) = mask 32" "(0xFFFFFFF :: u64) = mask 28"
    "(0xFFFFFFF :: u32) = mask 28" "(0xFFFF :: u32) = mask 16"
    by (simp_all add: mask_eq_exp_minus_1)
  show "bit (0xffffffff :: u64) n \<longleftrightarrow> n < 32" "bit (0xFFFFFFF :: u64) n \<longleftrightarrow> n < 28"
    "bit (0xFFFFFFF :: u32) n \<longleftrightarrow> n < 28" "bit (0xFFFF :: u32) n \<longleftrightarrow> n < 16"
    unfolding masks bit_mask_iff by auto
qed

lemma bit_PCI_DMA_H: "bit (PCI_DMA_H a) n \<longleftrightarrow> n < 32 \<and> bit a (n + 32)"
  by (auto simp: PCI_DMA_H_def bit_simps add.commute)

lemma bit_PCI_DMA_L: "bit (PCI_DMA_L a) n \<longleftrightarrow> n < 32 \<and> bit a n"
  unfolding PCI_DMA_L_def bit_ucast_iff bit_and_iff bit_numeral_mask by auto

lemma bit_join64:
  "bit (join64 hi lo) n \<longleftrightarrow> (if n < 32 then bit lo n else n < 64 \<and> bit hi (n - 32))"
  by (auto simp: join64_def bit_simps dest: bit_imp_le_length)

lemma join64_split: "join64 (PCI_DMA_H a) (PCI_DMA_L a) = a"
  by (rule bit_word_eqI) (auto simp: bit_join64 bit_PCI_DMA_H bit_PCI_DMA_L)

lemma split_join64: "PCI_DMA_H (join64 hi lo) = hi" "PCI_DMA_L (join64 hi lo) = lo"
  by (rule bit_word_eqI, auto simp: bit_join64 bit_PCI_DMA_H bit_PCI_DMA_L)+

lemma bit_build_u64:
  "bit (build_u64 hi lo) n \<longleftrightarrow> (if n < 32 then bit lo n else n < 60 \<and> bit hi (n - 32))"
  unfolding build_u64_def bit_or_iff bit_push_bit_iff bit_and_iff bit_numeral_mask
  by (auto dest: bit_imp_le_length)

text \<open>\<open>build_u64\<close> masks seven hexadecimal digits of the high word: it agrees with the
  full join exactly when the top four bits of the high word are clear.\<close>

lemma build_u64_masked:
  "build_u64 (ucast hi) (ucast lo) = join64 (hi AND 0x0FFFFFFF) lo"
  by (rule bit_word_eqI)
    (unfold bit_build_u64 bit_join64 bit_and_iff bit_numeral_mask bit_ucast_iff,
      auto dest: bit_imp_le_length)

lemma bit_build_u32:
  "bit (build_u32 hi lo) n \<longleftrightarrow> (if n < 16 then bit lo n else n < 32 \<and> bit hi (n - 16))"
  unfolding build_u32_def bit_or_iff bit_push_bit_iff bit_and_iff bit_numeral_mask
  by (auto dest: bit_imp_le_length)

subsection \<open>The split-address interface\<close>

text \<open>A 64-bit address kept as two 32-bit words. The clients (descriptors, engine start,
  write-back address, perf counters) only use that the two halves determine the address.\<close>

locale split_address =
  fixes high low :: "u64 \<Rightarrow> u32" and join :: "u32 \<Rightarrow> u32 \<Rightarrow> u64"
  assumes join_split: "join (high a) (low a) = a"
    and high_join: "high (join h l) = h"
    and low_join: "low (join h l) = l"
begin

lemma halves_inject: "high a = high b \<and> low a = low b \<longleftrightarrow> a = b"
  using join_split by metis

lemma join_inject: "join h l = join h' l' \<longleftrightarrow> h = h' \<and> l = l'"
  using high_join low_join by metis

end

interpretation pci_dma: split_address PCI_DMA_H PCI_DMA_L join64
  by unfold_locales (simp_all add: join64_split split_join64)

lemma PCI_DMA_0 [simp]: "PCI_DMA_H 0 = 0" "PCI_DMA_L 0 = 0"
  by (simp_all add: PCI_DMA_H_def PCI_DMA_L_def)

lemma join64_0 [simp]: "join64 0 0 = 0"
  using pci_dma.join_split [of 0] by simp

lemma unat_PCI_DMA_L_mod: "unat (PCI_DMA_L a AND 0xFFF) = unat a mod 4096"
proof -
  have "PCI_DMA_L a AND 0xFFF = ucast (a AND mask 12)"
    unfolding PCI_DMA_L_def by (simp add: mask_eq_exp_minus_1 and.assoc unsigned_and_eq)
  then show ?thesis
    using unat_mask_eq [of a 12] by (simp add: unsigned_ucast_eq take_bit_eq_mod)
qed

subsection \<open>Properties\<close>

lemma unat_and_28: "hi AND 0x0FFFFFFF = hi \<longleftrightarrow> unat (hi :: u32) < 2 ^ 28"
proof -
  have m: "(0x0FFFFFFF :: u32) = mask 28" by (simp add: mask_eq_exp_minus_1)
  have "unat (hi AND mask 28) = unat hi mod 2 ^ 28" by (rule unat_mask_eq)
  then have "unat (hi AND 0x0FFFFFFF) = unat hi \<longleftrightarrow> unat hi < 2 ^ 28"
    unfolding m by (simp add: mod_eq_self_iff_div_eq_0 div_eq_0_iff)
  then show ?thesis by (simp add: word_unat_eq_iff)
qed

text \<open>\<open>build_u64\<close> does not join every pair of 32-bit halves: its mask for the high half has
  seven hexadecimal digits, so it gives the 64-bit value exactly when the top four bits of
  the high half are clear; the performance counters read through it lose those bits.\<close>

theorem build_u64_exact_iff:
  "build_u64 (ucast hi) (ucast lo) = join64 hi lo \<longleftrightarrow> unat hi < 2 ^ 28"
  by (simp add: build_u64_masked pci_dma.join_inject unat_and_28)

end
