(* ===== verification/Sgm.thy ===== *)
theory Sgm
  imports Regs
begin

section \<open>Scatter-gather mapper\<close>

text \<open>
  \<open>driver/xdma-sgm.c\<close>: the mapper that pins the pages of a user buffer (or looks up
  the pages of a \<open>vmalloc\<close> buffer) and fills a scatterlist with one entry per page.
  \<open>struct page\<close> pointers are page frame numbers, NULL is \<open>None\<close>. The central
  statement is \<open>sgm_populate_bytes\<close>: the scatterlist enumerates exactly the bytes of the
  buffer, in order.
\<close>

definition PAGE_SIZE :: u64 where "PAGE_SIZE = 4096"
definition PAGE_SHIFT :: nat where "PAGE_SHIFT = 12"
definition PAGE_MASK :: u64 where "PAGE_MASK = NOT (PAGE_SIZE - 1)"

record sg_mapping_t =
  sgl :: "scatterlist list"
  sg_pages :: "nat option list"
  max_pages :: int
  mapped_pages :: int

subsection \<open>Creating and destroying a mapper\<close>

definition sg_entry0 :: scatterlist where
  "sg_entry0 = \<lparr>sg_page = 0, sg_offset = 0, sg_length = 0, sg_dma_address = 0, sg_dma_len = 0\<rparr>"

definition sg_create_mapper ::
  "kenv \<Rightarrow> u64 \<Rightarrow> 'w kworld_scheme \<Rightarrow> sg_mapping_t option \<times> 'w kworld_scheme" where
  "sg_create_mapper env max_len w =
    (if max_len = 0 then (None, w)
     else case kalloc env ObjSgm w of
       (False, w) \<Rightarrow> (None, w)
     | (True, w) \<Rightarrow>
        let mp = sint (ucast (max_len div PAGE_SIZE + 2) :: u32) in
        (case kalloc env ObjSgPages w of
           (False, w) \<Rightarrow> (None, kfree ObjSgm w)
         | (True, w) \<Rightarrow>
            (case kalloc env ObjSgl w of
               (False, w) \<Rightarrow> (None, kfree ObjSgm (kfree ObjSgPages w))
             | (True, w) \<Rightarrow>
                (Some \<lparr>sgl = replicate (nat mp) sg_entry0, sg_pages = replicate (nat mp) None,
                       max_pages = mp, mapped_pages = 0\<rparr>, w))))"

definition sg_destroy_mapper ::
  "sg_mapping_t \<Rightarrow> 'w kworld_scheme \<Rightarrow> (unit \<times> 'w kworld_scheme) option" where
  "sg_destroy_mapper sgm w = do {
     bug_on (mapped_pages sgm > 0);
     Some ((), kfree ObjSgm (kfree ObjSgPages (kfree ObjSgl w))) }"

subsection \<open>Filling the scatterlist\<close>

text \<open>\<open>sg_set_page\<close> on an entry that \<open>sg_init_table\<close> has just cleared.\<close>

definition sg_set_page :: "nat \<Rightarrow> u32 \<Rightarrow> u32 \<Rightarrow> scatterlist" where
  "sg_set_page p len off = sg_entry0\<lparr>sg_page := p, sg_offset := off, sg_length := len\<rparr>"

definition offset_in_page :: "u64 \<Rightarrow> u32" where
  "offset_in_page start = ucast (start AND NOT PAGE_MASK)"

text \<open>The entries after the first: a whole page each, and the remaining count in the last
  page (the \<open>for\<close> loop from 1 and the code after it).\<close>

fun sgm_fill_rest :: "nat list \<Rightarrow> u64 \<Rightarrow> scatterlist list option" where
  "sgm_fill_rest [] count = None"
| "sgm_fill_rest [p] count = do {
     bug_on (count > PAGE_SIZE);
     Some [sg_set_page p (ucast count) 0] }"
| "sgm_fill_rest (p # q # ps) count = do {
     bug_on (count < PAGE_SIZE);
     r \<leftarrow> sgm_fill_rest (q # ps) (count - PAGE_SIZE);
     Some (sg_set_page p (ucast PAGE_SIZE) 0 # r) }"

definition sgm_populate :: "nat list \<Rightarrow> u64 \<Rightarrow> u64 \<Rightarrow> scatterlist list option" where
  "sgm_populate pgs start count = (case pgs of
     [] \<Rightarrow> None
   | p # ps \<Rightarrow>
       (let e = sg_set_page p 0 (offset_in_page start) in
        if ps \<noteq> [] then
          (let len = ucast PAGE_SIZE - sg_offset e in do {
             r \<leftarrow> sgm_fill_rest ps (count - ucast len);
             Some (e\<lparr>sg_length := len\<rparr> # r) })
        else Some [e\<lparr>sg_length := ucast count\<rparr>]))"

text \<open>The number of pages a buffer touches, as the C code computes it, truncated to
  \<open>int\<close>.\<close>

definition sgm_nr_pages :: "u64 \<Rightarrow> u64 \<Rightarrow> int" where
  "sgm_nr_pages start count =
    (let first = drop_bit PAGE_SHIFT (start AND PAGE_MASK);
         last = drop_bit PAGE_SHIFT ((start + count - 1) AND PAGE_MASK)
     in sint (ucast (last - first + 1) :: u32))"

subsection \<open>User pages\<close>

definition put_pages :: "nat option list \<Rightarrow> 'w kworld_scheme \<Rightarrow> 'w kworld_scheme option" where
  "put_pages ps w = do { pgs \<leftarrow> those ps; Some (emits (map PutPage pgs) w) }"

definition sgm_get_user_pages ::
  "kenv \<Rightarrow> sg_mapping_t \<Rightarrow> u64 \<Rightarrow> u64 \<Rightarrow> bool \<Rightarrow> 'w kworld_scheme
   \<Rightarrow> (int \<times> sg_mapping_t \<times> 'w kworld_scheme) option" where
  "sgm_get_user_pages env sgm start count to_user w =
    (let nr_pages = sgm_nr_pages start count in do {
       bug_on (mapped_pages sgm > 0);
       if start + count < start then Some (- EINVAL, sgm, w)
       else if nr_pages > max_pages sgm then Some (- EINVAL, sgm, w)
       else if count = 0 then Some (0, sgm, w)
       else
         let n = nat nr_pages;
             (rc, got) = user_pages env (trace w) start nr_pages to_user;
             got = take (nat rc) got;
             w = emit (GetPages start nr_pages got) w;
             pages = map Some got
               @ drop (length got) (replicate (n - 1) None @ drop (n - 1) (sg_pages sgm));
             sgm = sgm\<lparr>sgl := replicate n sg_entry0 @ drop n (sgl sgm), sg_pages := pages\<rparr>
         in if rc < nr_pages then
              let mapped = (if rc > 0 then rc else mapped_pages sgm) in do {
              w \<leftarrow> put_pages (take (nat mapped) pages) w;
              Some (- ENOMEM, sgm\<lparr>mapped_pages := 0\<rparr>, w) }
            else do {
              bug_on (rc \<noteq> nr_pages);
              pgs \<leftarrow> those (take n pages);
              es \<leftarrow> sgm_populate pgs start count;
              Some (nr_pages, sgm\<lparr>sgl := es @ drop n (sgl sgm), mapped_pages := rc\<rparr>, w) } })"

definition sgm_dirty_pages ::
  "sg_mapping_t \<Rightarrow> 'w kworld_scheme \<Rightarrow> 'w kworld_scheme option" where
  "sgm_dirty_pages sgm w = do {
     pgs \<leftarrow> those (take (nat (mapped_pages sgm)) (sg_pages sgm));
     Some (emits (map DirtyPage pgs) w) }"

definition sgm_put_user_pages ::
  "sg_mapping_t \<Rightarrow> bool \<Rightarrow> 'w kworld_scheme \<Rightarrow> (int \<times> sg_mapping_t \<times> 'w kworld_scheme) option" where
  "sgm_put_user_pages sgm dirtied w = do {
     w \<leftarrow> (if dirtied then sgm_dirty_pages sgm w else Some w);
     w \<leftarrow> put_pages (take (nat (mapped_pages sgm)) (sg_pages sgm)) w;
     Some (0, sgm\<lparr>mapped_pages := 0\<rparr>, w) }"

subsection \<open>Kernel pages\<close>

text \<open>The look-up loop: \<open>Inl pages\<close> is the jump to \<open>err\<close> on a NULL page.\<close>

fun sgm_lookup_pages :: "kenv \<Rightarrow> nat \<Rightarrow> u64 \<Rightarrow> (nat list + nat list) option" where
  "sgm_lookup_pages env 0 virt = Some (Inr [])"
| "sgm_lookup_pages env (Suc n) virt =
    (case vmalloc_page env virt of
       None \<Rightarrow> Some (Inl [])
     | Some p \<Rightarrow> do {
         bug_on (page_high env p);
         r \<leftarrow> sgm_lookup_pages env n (virt + PAGE_SIZE);
         Some (case r of Inl ps \<Rightarrow> Inl (p # ps) | Inr ps \<Rightarrow> Inr (p # ps)) })"

definition sgm_kernel_pages ::
  "kenv \<Rightarrow> sg_mapping_t \<Rightarrow> u64 \<Rightarrow> u64 \<Rightarrow> bool \<Rightarrow> (int \<times> sg_mapping_t) option" where
  "sgm_kernel_pages env sgm start count to_user =
    (let nr_pages = sgm_nr_pages start count in do {
       bug_on (mapped_pages sgm > 0);
       if start + count < start then Some (- EINVAL, sgm)
       else if nr_pages > max_pages sgm then Some (- EINVAL, sgm)
       else if count = 0 then Some (0, sgm)
       else
         let n = nat nr_pages;
             sgm = sgm\<lparr>sgl := replicate n sg_entry0 @ drop n (sgl sgm)\<rparr>
         in do {
           r \<leftarrow> sgm_lookup_pages env n start;
           case r of
             Inl ps \<Rightarrow> Some (- ENOMEM,
               sgm\<lparr>sg_pages := map Some ps @ None # drop (Suc (length ps)) (sg_pages sgm),
                   mapped_pages := 0\<rparr>)
           | Inr ps \<Rightarrow> do {
               es \<leftarrow> sgm_populate ps start count;
               Some (nr_pages,
                 sgm\<lparr>sgl := es @ drop n (sgl sgm),
                     sg_pages := map Some ps @ drop n (sg_pages sgm),
                     mapped_pages := nr_pages\<rparr>) } } })"

subsection \<open>What a scatterlist enumerates\<close>

text \<open>The bytes an entry covers, as (page, offset in page), and those of a list.\<close>

definition sg_bytes :: "scatterlist \<Rightarrow> (nat \<times> nat) list" where
  "sg_bytes s = map (\<lambda>k. (sg_page s, unat (sg_offset s) + k)) [0 ..< unat (sg_length s)]"

definition sgl_bytes :: "scatterlist list \<Rightarrow> (nat \<times> nat) list" where
  "sgl_bytes ss = concat (map sg_bytes ss)"

text \<open>The bytes of a buffer that begins \<open>off\<close> bytes into the first of \<open>pgs\<close>.\<close>

definition buffer_bytes :: "nat list \<Rightarrow> nat \<Rightarrow> nat \<Rightarrow> (nat \<times> nat) list" where
  "buffer_bytes pgs off count =
     map (\<lambda>k. (pgs ! ((off + k) div 4096), (off + k) mod 4096)) [0 ..< count]"

definition sg_in_page :: "scatterlist \<Rightarrow> bool" where
  "sg_in_page s \<longleftrightarrow> 0 < unat (sg_length s) \<and> unat (sg_offset s) + unat (sg_length s) \<le> 4096"

lemma sgl_bytes_Cons [simp]: "sgl_bytes (s # ss) = sg_bytes s @ sgl_bytes ss"
  and sgl_bytes_Nil [simp]: "sgl_bytes [] = []"
  by (simp_all add: sgl_bytes_def)

lemma length_sgl_bytes: "length (sgl_bytes ss) = sum_list (map (unat \<circ> sg_length) ss)"
  by (induction ss) (simp_all add: sg_bytes_def)

lemma buffer_bytes_split:
  assumes "count = 4096 - off + c" "off < 4096"
  shows "buffer_bytes (p # ps) off count =
           map (\<lambda>k. (p, off + k)) [0 ..< 4096 - off] @ buffer_bytes ps 0 c"
proof -
  have *: "off + (4096 - off + k) = 4096 + k" for k
    using assms(2) by simp
  have **: "(4096 + k) div 4096 = Suc (k div 4096)" for k :: nat
    by simp
  show ?thesis
    unfolding buffer_bytes_def assms(1) map_upt_add * ** by (auto intro!: map_cong)
qed

lemma buffer_bytes_one:
  "off + count \<le> 4096 \<Longrightarrow> buffer_bytes (p # ps) off count = map (\<lambda>k. (p, off + k)) [0 ..< count]"
  unfolding buffer_bytes_def by (auto intro!: map_cong)

lemma sg_set_page_bytes:
  "unat len = n \<Longrightarrow> sg_bytes (sg_set_page p len off) = map (\<lambda>k. (p, unat off + k)) [0 ..< n]"
  by (simp add: sg_bytes_def sg_set_page_def)

lemma sgm_fill_rest_ok:
  assumes "pgs \<noteq> []" "(length pgs - 1) * 4096 < unat count" "unat count \<le> length pgs * 4096"
  shows "\<exists>es. sgm_fill_rest pgs count = Some es
           \<and> length es = length pgs
           \<and> sgl_bytes es = buffer_bytes pgs 0 (unat count)
           \<and> list_all sg_in_page es"
  using assms
proof (induction pgs count rule: sgm_fill_rest.induct)
  case (2 p count)
  then have le: "unat count \<le> 4096" "0 < unat count" by simp_all
  then have "\<not> count > PAGE_SIZE" by (simp add: PAGE_SIZE_def word_less_nat_alt)
  moreover have u: "unat (ucast count :: u32) = unat count"
    using le by (simp add: unsigned_ucast_eq take_bit_nat_eq_self)
  ultimately show ?case
    using le by (simp add: buffer_bytes_one sg_set_page_bytes [OF u] sg_in_page_def)
      (simp add: sg_set_page_def sg_entry0_def u)
next
  case (3 p q ps count)
  have ge: "PAGE_SIZE \<le> count"
    using 3(3) by (simp add: PAGE_SIZE_def word_le_nat_alt)
  have sub: "unat (count - PAGE_SIZE) = unat count - 4096"
    using unat_sub_le [OF ge] by (simp add: PAGE_SIZE_def)
  have c: "unat count = 4096 - 0 + (unat count - 4096)"
    using ge by (simp add: PAGE_SIZE_def word_le_nat_alt)
  have "\<exists>es. sgm_fill_rest (q # ps) (count - PAGE_SIZE) = Some es \<and> length es = length (q # ps)
    \<and> sgl_bytes es = buffer_bytes (q # ps) 0 (unat count - 4096) \<and> list_all sg_in_page es"
    using 3(1) [of "()"] ge 3(3,4) by (simp add: sub not_less)
  then obtain r where r:
    "sgm_fill_rest (q # ps) (count - PAGE_SIZE) = Some r" "length r = length (q # ps)"
    "sgl_bytes r = buffer_bytes (q # ps) 0 (unat count - 4096)" "list_all sg_in_page r"
    by blast
  have u: "unat (ucast PAGE_SIZE :: u32) = 4096" by (simp add: PAGE_SIZE_def)
  have in_page: "sg_in_page (sg_set_page p (ucast PAGE_SIZE) 0)"
    by (simp add: sg_in_page_def sg_set_page_def sg_entry0_def u)
  have "\<not> count < PAGE_SIZE" using ge by simp
  then show ?case
    using r in_page buffer_bytes_split [OF c, of p "q # ps"]
    by (simp add: sg_set_page_bytes [OF u])
qed simp

lemma offset_in_page_nat: "unat (offset_in_page start) = unat start mod 4096"
proof -
  have "start AND NOT PAGE_MASK = start AND mask 12"
    by (simp add: PAGE_MASK_def PAGE_SIZE_def mask_eq_exp_minus_1)
  then show ?thesis
    using unat_mask_eq [of start 12]
    by (simp add: offset_in_page_def unsigned_ucast_eq take_bit_eq_mod)
qed


text \<open>The central fact: with as many pages as the buffer touches, the \<open>BUG_ON\<close>s do not
  fire and the list enumerates the buffer.\<close>

lemma sgm_populate_bytes:
  assumes "0 < unat count"
    and "length pgs = (unat start mod 4096 + unat count - 1) div 4096 + 1"
  shows "\<exists>es. sgm_populate pgs start count = Some es
           \<and> length es = length pgs
           \<and> sgl_bytes es = buffer_bytes pgs (unat start mod 4096) (unat count)
           \<and> list_all sg_in_page es"
proof -
  define off where "off = unat start mod 4096"
  have off: "off < 4096" "unat (offset_in_page start) = off"
    by (simp_all add: off_def offset_in_page_nat)
  have n: "length pgs = (off + unat count - 1) div 4096 + 1"
    using assms(2) by (simp add: off_def)
  then obtain p ps where pgs: "pgs = p # ps" by (cases pgs) auto
  show ?thesis
  proof (cases "ps = []")
    case True
    with n pgs have "(off + unat count - 1) div 4096 = 0" by simp
    then have le: "off + unat count \<le> 4096" using assms(1) by (simp add: div_eq_0_iff)
    then have u: "unat (ucast count :: u32) = unat count"
      by (simp add: unsigned_ucast_eq take_bit_nat_eq_self)
    show ?thesis
      using le assms(1) True pgs off
      by (simp add: sgm_populate_def sg_set_page_def sg_entry0_def sg_bytes_def u
          buffer_bytes_one sg_in_page_def flip: off_def)
  next
    case False
    define len :: u32 where "len = ucast PAGE_SIZE - offset_in_page start"
    have ulen: "unat len = 4096 - off"
      using unat_sub_le [of "offset_in_page start" "ucast PAGE_SIZE"] off
      by (simp add: len_def PAGE_SIZE_def word_le_nat_alt)
    have lps: "length ps = (off + unat count - 1) div 4096" using n pgs by simp
    have "0 < length ps" using False by simp
    then have big: "4096 < off + unat count" using lps by (cases "off + unat count \<le> 4096") auto
    have le: "ucast len \<le> count"
      using big ulen by (simp add: word_le_nat_alt unsigned_ucast_eq take_bit_nat_eq_self)
    have c': "unat (count - ucast len) = off + unat count - 4096"
      using unat_sub_le [OF le] ulen off(1) big by (simp add: unsigned_ucast_eq take_bit_nat_eq_self)
    have count: "unat count = 4096 - off + (off + unat count - 4096)" using big off(1) by simp
    have bnd: "(length ps - 1) * 4096 < off + unat count - 4096"
      "off + unat count - 4096 \<le> length ps * 4096"
      using lps big by simp_all
    obtain r where r: "sgm_fill_rest ps (count - ucast len) = Some r" "length r = length ps"
      "sgl_bytes r = buffer_bytes ps 0 (off + unat count - 4096)" "list_all sg_in_page r"
      using sgm_fill_rest_ok [of ps "count - ucast len"] False bnd by (auto simp: c')
    show ?thesis
      using pgs False r off(1) buffer_bytes_split [OF count off(1), of p ps]
      by (simp add: sgm_populate_def sg_set_page_def sg_entry0_def sg_bytes_def off(2)
          ulen sg_in_page_def flip: len_def off_def)
  qed
qed

lemma drop_bit_page_mask: "drop_bit PAGE_SHIFT (a AND PAGE_MASK) = drop_bit 12 a"
proof (rule bit_word_eqI)
  fix n
  have m: "PAGE_SIZE - 1 = mask 12" by (simp add: PAGE_SIZE_def mask_eq_exp_minus_1)
  assume "n < LENGTH(64)"
  show "bit (drop_bit PAGE_SHIFT (a AND PAGE_MASK)) n = bit (drop_bit 12 a) n"
    unfolding PAGE_SHIFT_def PAGE_MASK_def m bit_drop_bit_eq o_apply bit_and_iff bit_not_iff
      bit_mask_iff by (auto dest: bit_imp_le_length)
qed

lemma sgm_nr_pages_nat:
  assumes "0 < unat count" "unat start + unat count < 2 ^ 64"
    and "(unat start mod 4096 + unat count - 1) div 4096 + 1 < 2 ^ 31"
  shows "sgm_nr_pages start count = int ((unat start mod 4096 + unat count - 1) div 4096 + 1)"
proof -
  let ?first = "drop_bit 12 start" and ?last = "drop_bit 12 (start + count - 1)"
  have sum: "unat (start + count) = unat start + unat count"
    using assms(2) by (simp add: unat_add_small)
  have "1 \<le> start + count" using sum assms(1) by (simp add: word_le_nat_alt)
  then have e: "unat (start + count - 1) = unat start + unat count - 1"
    using unat_sub_le [of 1 "start + count"] sum by simp
  have l: "unat ?last = (unat start + unat count - 1) div 4096"
    and f: "unat ?first = unat start div 4096"
    using e by (simp_all add: unat_drop_bit_eq)
  have div: "(unat start + unat count - 1) div 4096
      = unat start div 4096 + (unat start mod 4096 + unat count - 1) div 4096"
  proof -
    have "unat start + unat count - 1 =
        (unat start mod 4096 + unat count - 1) + unat start div 4096 * 4096"
      using assms(1) div_mult_mod_eq [of "unat start" 4096] by linarith
    then show ?thesis by (simp add: add.commute)
  qed
  have "?first \<le> ?last" using l f div by (simp add: word_le_nat_alt)
  then have d: "unat (?last - ?first) = (unat start mod 4096 + unat count - 1) div 4096"
    using unat_sub_le [of ?first ?last] l f div by simp
  then have "unat (?last - ?first + 1) = (unat start mod 4096 + unat count - 1) div 4096 + 1"
    using assms(3) unat_add_small [of "?last - ?first" 1] by simp
  then show ?thesis
    using assms(3) sint_ucast_small [of "?last - ?first + 1"]
    unfolding sgm_nr_pages_def Let_def drop_bit_page_mask by simp
qed


subsection \<open>The mapper's contract\<close>

lemma those_map_Some [simp]: "those (map Some xs) = Some xs"
  by (induction xs) simp_all

text \<open>The documented behaviour of \<open>get_user_pages_fast\<close>: it pins at most as many pages
  as asked for, and those it counts.\<close>

definition pins_counted :: "kenv \<Rightarrow> bool" where
  "pins_counted env \<longleftrightarrow> (\<forall>tr a n u. fst (user_pages env tr a n u) \<le> n
     \<and> length (snd (user_pages env tr a n u)) = nat (fst (user_pages env tr a n u)))"

text \<open>The pages a run pinned and the pages it released.\<close>

fun pinned :: "event list \<Rightarrow> nat list" where
  "pinned [] = []"
| "pinned (GetPages a n ps # es) = ps @ pinned es"
| "pinned (_ # es) = pinned es"

fun unpinned :: "event list \<Rightarrow> nat list" where
  "unpinned [] = []"
| "unpinned (PutPage p # es) = p # unpinned es"
| "unpinned (_ # es) = unpinned es"

lemma pinned_append [simp]: "pinned (xs @ ys) = pinned xs @ pinned ys"
  by (induction xs rule: pinned.induct) auto

lemma unpinned_append [simp]: "unpinned (xs @ ys) = unpinned xs @ unpinned ys"
  by (induction xs rule: unpinned.induct) auto

lemma pinned_pure [simp]: "pinned (map PutPage ps) = []" "pinned (map DirtyPage ps) = []"
  and unpinned_pure [simp]: "unpinned (map PutPage ps) = ps" "unpinned (map DirtyPage ps) = []"
  by (induction ps) simp_all

text \<open>A mapper that holds a buffer: its pages are the ones pinned for it, its list
  enumerates the buffer.\<close>

definition sgm_holds :: "sg_mapping_t \<Rightarrow> nat list \<Rightarrow> nat \<Rightarrow> nat \<Rightarrow> bool" where
  "sgm_holds sgm pgs off count \<longleftrightarrow>
     mapped_pages sgm = int (length pgs)
     \<and> take (length pgs) (sg_pages sgm) = map Some pgs
     \<and> length (take (length pgs) (sgl sgm)) = length pgs
     \<and> list_all sg_in_page (take (length pgs) (sgl sgm))
     \<and> sgl_bytes (take (length pgs) (sgl sgm)) = buffer_bytes pgs off count"

lemma get_user_pages_run:
  assumes idle: "mapped_pages sgm \<le> 0"
    and count: "0 < unat count" "unat start + unat count < 2 ^ 64"
    and n: "n = (unat start mod 4096 + unat count - 1) div 4096 + 1" "n < 2 ^ 31"
    and room: "int n \<le> max_pages sgm"
    and call: "user_pages env (trace w) start (int n) to_user = (rc, got)"
    and len: "length got = nat rc"
  shows "rc = int n \<Longrightarrow> \<exists>sgm'. sgm_get_user_pages env sgm start count to_user w
             = Some (int n, sgm', emit (GetPages start (int n) got) w)
           \<and> sgm_holds sgm' got (unat start mod 4096) (unat count)
           \<and> max_pages sgm' = max_pages sgm"
    and "rc < int n \<Longrightarrow> \<exists>sgm'. sgm_get_user_pages env sgm start count to_user w
             = Some (- ENOMEM, sgm', emits (map PutPage got) (emit (GetPages start (int n) got) w))
           \<and> mapped_pages sgm' \<le> 0"
proof -
  have nr: "sgm_nr_pages start count = int n"
    using sgm_nr_pages_nat [OF count] n by simp
  have nowrap: "\<not> start + count < start"
    using unat_add_small [of start count] count(2) by (simp add: word_less_nat_alt)
  have "count \<noteq> 0" using count(1) by auto
  note pre = nr nowrap this idle room call len
  show "rc = int n \<Longrightarrow> \<exists>sgm'. sgm_get_user_pages env sgm start count to_user w
             = Some (int n, sgm', emit (GetPages start (int n) got) w)
           \<and> sgm_holds sgm' got (unat start mod 4096) (unat count)
           \<and> max_pages sgm' = max_pages sgm"
  proof -
    assume rc: "rc = int n"
    then have ln: "length got = n" using len by simp
    obtain es where es: "sgm_populate got start count = Some es" "length es = length got"
      "sgl_bytes es = buffer_bytes got (unat start mod 4096) (unat count)" "list_all sg_in_page es"
      using sgm_populate_bytes [OF count(1), of got start] ln n(1) by auto
    then show ?thesis
      using pre rc ln by (simp add: sgm_get_user_pages_def sgm_holds_def Let_def)
  qed
  show "rc < int n \<Longrightarrow> \<exists>sgm'. sgm_get_user_pages env sgm start count to_user w
             = Some (- ENOMEM, sgm', emits (map PutPage got) (emit (GetPages start (int n) got) w))
           \<and> mapped_pages sgm' \<le> 0"
    using pre by (auto simp: sgm_get_user_pages_def put_pages_def Let_def)
qed

lemma put_user_pages_run:
  "sgm_holds sgm pgs off count \<Longrightarrow>
   sgm_put_user_pages sgm dirtied w =
     Some (0, sgm\<lparr>mapped_pages := 0\<rparr>,
       emits (map PutPage pgs) (if dirtied then emits (map DirtyPage pgs) w else w))"
  by (simp add: sgm_put_user_pages_def sgm_holds_def sgm_dirty_pages_def put_pages_def)

lemma lookup_pages_ok:
  assumes "length ps = n" "\<And>i. i < n \<Longrightarrow> vmalloc_page env (virt + of_nat i * PAGE_SIZE) = Some (ps ! i)
      \<and> \<not> page_high env (ps ! i)"
  shows "sgm_lookup_pages env n virt = Some (Inr ps)"
  using assms
proof (induction n arbitrary: ps virt)
  case (Suc n)
  then obtain p qs where ps: "ps = p # qs" "length qs = n" by (cases ps) auto
  have "vmalloc_page env (virt + PAGE_SIZE + of_nat i * PAGE_SIZE) = Some (qs ! i)
      \<and> \<not> page_high env (qs ! i)" if "i < n" for i
    using Suc.prems(2) [of "Suc i"] that ps by (simp add: algebra_simps)
  then have "sgm_lookup_pages env n (virt + PAGE_SIZE) = Some (Inr qs)"
    using ps(2) by (intro Suc.IH) auto
  then show ?case using Suc.prems(2) [of 0] ps by simp
qed simp

lemma kernel_pages_run:
  assumes idle: "mapped_pages sgm \<le> 0"
    and count: "0 < unat count" "unat start + unat count < 2 ^ 64"
    and n: "n = (unat start mod 4096 + unat count - 1) div 4096 + 1" "n < 2 ^ 31"
    and room: "int n \<le> max_pages sgm"
    and pages: "length ps = n" "\<And>i. i < n \<Longrightarrow> vmalloc_page env (start + of_nat i * PAGE_SIZE) = Some (ps ! i)
      \<and> \<not> page_high env (ps ! i)"
  shows "\<exists>sgm'. sgm_kernel_pages env sgm start count to_user = Some (int n, sgm')
           \<and> sgm_holds sgm' ps (unat start mod 4096) (unat count)"
proof -
  have nr: "sgm_nr_pages start count = int n"
    using sgm_nr_pages_nat [OF count] n by simp
  have nowrap: "\<not> start + count < start"
    using unat_add_small [of start count] count(2) by (simp add: word_less_nat_alt)
  have "count \<noteq> 0" using count(1) by auto
  moreover obtain es where "sgm_populate ps start count = Some es" "length es = length ps"
    "sgl_bytes es = buffer_bytes ps (unat start mod 4096) (unat count)" "list_all sg_in_page es"
    using sgm_populate_bytes [OF count(1), of ps start] pages(1) n(1) by auto
  ultimately show ?thesis
    using nr nowrap idle room pages(1) lookup_pages_ok [OF pages]
    by (simp add: sgm_kernel_pages_def sgm_holds_def Let_def)
qed

subsection \<open>Properties\<close>

text \<open>C13: a successful \<open>sgm_get_user_pages\<close> of a buffer pins all its pages and leaves a
  scatterlist that enumerates exactly the bytes of the buffer in order, every entry inside
  its page; none of the \<open>BUG_ON\<close>s in the fill loop fires.\<close>

theorem sgm_get_user_pages_maps_buffer:
  assumes "mapped_pages sgm \<le> 0" "0 < unat count" "unat start + unat count < 2 ^ 64"
    and "n = (unat start mod 4096 + unat count - 1) div 4096 + 1" "n < 2 ^ 31" "int n \<le> max_pages sgm"
    and "user_pages env (trace w) start (int n) to_user = (int n, pgs)" "length pgs = n"
  shows "\<exists>sgm'. sgm_get_user_pages env sgm start count to_user w
             = Some (int n, sgm', emit (GetPages start (int n) pgs) w)
           \<and> mapped_pages sgm' = int n
           \<and> list_all sg_in_page (take n (sgl sgm'))
           \<and> sgl_bytes (take n (sgl sgm')) = buffer_bytes pgs (unat start mod 4096) (unat count)"
  using get_user_pages_run(1) [OF assms(1-7)] assms(8) by (force simp: sgm_holds_def)

definition mapper4 :: sg_mapping_t where
  "mapper4 = \<lparr>sgl = replicate 4 sg_entry0, sg_pages = replicate 4 None, max_pages = 4, mapped_pages = 0\<rparr>"

lemma mapper4_ready:
  "mapped_pages mapper4 \<le> 0" "0 < unat (0x1000 :: u64)" "unat (0x1010 :: u64) + unat (0x1000 :: u64) < 2 ^ 64"
  "2 = (unat (0x1010 :: u64) mod 4096 + unat (0x1000 :: u64) - 1) div 4096 + 1" "(2 :: nat) < 2 ^ 31"
  "int 2 \<le> max_pages mapper4"
  by (simp_all add: mapper4_def)

lemma sgm_get_user_pages_maps_buffer_witness:
  "\<exists>sgm'. sgm_get_user_pages env0 mapper4 0x1010 0x1000 True \<lparr>trace = []\<rparr>
             = Some (2, sgm', emit (GetPages 0x1010 2 [1, 2]) \<lparr>trace = []\<rparr>)
           \<and> mapped_pages sgm' = 2 \<and> list_all sg_in_page (take 2 (sgl sgm'))
           \<and> sgl_bytes (take 2 (sgl sgm')) = buffer_bytes [1, 2] 16 4096"
proof -
  have "user_pages env0 (trace \<lparr>trace = []\<rparr>) 0x1010 (int 2) True = (int 2, [1, 2])"
    by (simp add: env0_def unat_drop_bit_eq upt_rec)
  from sgm_get_user_pages_maps_buffer [OF mapper4_ready this] show ?thesis by simp
qed

text \<open>when the kernel pins fewer pages than the buffer has, \<open>sgm_get_user_pages\<close> returns
  \<open>-ENOMEM\<close> and has released every page it got, each once.\<close>

theorem sgm_get_user_pages_failure_releases:
  assumes "mapped_pages sgm \<le> 0" "0 < unat count" "unat start + unat count < 2 ^ 64"
    and "n = (unat start mod 4096 + unat count - 1) div 4096 + 1" "n < 2 ^ 31" "int n \<le> max_pages sgm"
    and "user_pages env (trace w) start (int n) to_user = (rc, got)" "length got = nat rc" "rc < int n"
  shows "\<exists>sgm' w' evs. sgm_get_user_pages env sgm start count to_user w = Some (- ENOMEM, sgm', w')
           \<and> trace w' = trace w @ evs \<and> pinned evs = got \<and> unpinned evs = got
           \<and> mapped_pages sgm' \<le> 0"
proof -
  obtain sgm' where "sgm_get_user_pages env sgm start count to_user w
      = Some (- ENOMEM, sgm', emits (map PutPage got) (emit (GetPages start (int n) got) w))"
    "mapped_pages sgm' \<le> 0"
    using get_user_pages_run(2) [OF assms(1-9)] by blast
  then show ?thesis
    by (intro exI [of _ sgm'] exI [of _ "emits (map PutPage got) (emit (GetPages start (int n) got) w)"]
        exI [of _ "GetPages start (int n) got # map PutPage got"]) simp
qed

lemma sgm_get_user_pages_failure_releases_witness:
  "\<exists>sgm' w' evs. sgm_get_user_pages (env0\<lparr>user_pages := \<lambda>_ _ _ _. (1, [7])\<rparr>) mapper4 0x1010 0x1000 True \<lparr>trace = []\<rparr>
             = Some (- 12, sgm', w')
           \<and> trace w' = evs \<and> pinned evs = [7] \<and> unpinned evs = [7] \<and> mapped_pages sgm' \<le> 0"
proof -
  have "user_pages (env0\<lparr>user_pages := \<lambda>_ _ _ _. (1, [7])\<rparr>) (trace \<lparr>trace = []\<rparr>) 0x1010 (int 2) True = (1, [7])"
    by simp
  from sgm_get_user_pages_failure_releases [OF mapper4_ready this] show ?thesis by simp
qed

text \<open>\<open>sgm_kernel_pages\<close> on a \<open>vmalloc\<close> buffer whose pages are low memory gives the same
  enumeration of the buffer as pinning user pages would.\<close>

theorem sgm_kernel_pages_maps_buffer:
  assumes "mapped_pages sgm \<le> 0" "0 < unat count" "unat start + unat count < 2 ^ 64"
    and "n = (unat start mod 4096 + unat count - 1) div 4096 + 1" "n < 2 ^ 31" "int n \<le> max_pages sgm"
    and "length pgs = n" "\<And>i. i < n \<Longrightarrow> vmalloc_page env (start + of_nat i * PAGE_SIZE) = Some (pgs ! i)
      \<and> \<not> page_high env (pgs ! i)"
  shows "\<exists>sgm'. sgm_kernel_pages env sgm start count to_user = Some (int n, sgm')
           \<and> sgm_holds sgm' pgs (unat start mod 4096) (unat count)"
  by (rule kernel_pages_run [OF assms])

lemma sgm_kernel_pages_maps_buffer_witness:
  "\<exists>sgm'. sgm_kernel_pages env0 mapper4 0x3000 0x1001 True = Some (2, sgm')
           \<and> sgm_holds sgm' [3, 4] 0 0x1001"
proof -
  have "vmalloc_page env0 (0x3000 + of_nat i * PAGE_SIZE) = Some ([3, 4] ! i) \<and> \<not> page_high env0 ([3, 4] ! i)"
    if "i < 2" for i
  proof -
    have "i = 0 \<or> i = 1" using that by auto
    then show ?thesis by (auto simp: env0_def PAGE_SIZE_def unat_drop_bit_eq)
  qed
  note pages = this
  have "0 < unat (0x1001 :: u64)" "unat (0x3000 :: u64) + unat (0x1001 :: u64) < 2 ^ 64"
    "2 = (unat (0x3000 :: u64) mod 4096 + unat (0x1001 :: u64) - 1) div 4096 + 1" "length [3, 4 :: nat] = 2"
    by simp_all
  from sgm_kernel_pages_maps_buffer [OF mapper4_ready(1) this(1-3) mapper4_ready(5,6) this(4) pages]
  show ?thesis by simp
qed

text \<open>whatever allocation fails, \<open>sg_create_mapper\<close> leaks nothing: it either returns NULL
  with every allocation freed again, the last first, or a mapper that \<open>sg_destroy_mapper\<close> releases in full.\<close>

theorem sg_create_mapper_no_leak:
  "\<exists>evs. trace (snd (sg_create_mapper env max_len w)) = trace w @ evs
     \<and> (case fst (sg_create_mapper env max_len w) of
          None \<Rightarrow> frees evs = rev (allocs evs)
        | Some sgm \<Rightarrow> frees evs = [] \<and> (\<exists>w2 fevs. sg_destroy_mapper sgm w = Some ((), w2)
            \<and> trace w2 = trace w @ fevs \<and> frees fevs = rev (allocs evs)))"
  by (auto simp: sg_create_mapper_def kalloc_def sg_destroy_mapper_def Let_def)

end
