(* ===== verification/Desc.thy ===== *)
theory Desc
  imports Sgm
begin

section \<open>DMA descriptors\<close>

text \<open>
  The descriptor operations of \<open>driver/xdma-core.c\<close> on \<open>struct xdma_desc\<close>: building the
  singly linked list in one coherent allocation, linking, the adjacency count, the control
  byte, source/destination addresses. A descriptor array is the list of its elements; the
  fields are the little-endian words the card reads (the host is little endian, so
  \<open>cpu_to_le32\<close> is the identity). The last section gives the card's reading of a
  descriptor, over which the transfer theorems are stated.
\<close>

record xdma_desc =
  d_control :: u32
  d_bytes :: u32
  d_src_addr_lo :: u32
  d_src_addr_hi :: u32
  d_dst_addr_lo :: u32
  d_dst_addr_hi :: u32
  d_next_lo :: u32
  d_next_hi :: u32

definition sizeof_xdma_desc :: nat where "sizeof_xdma_desc = 32"

subsection \<open>Allocation\<close>

text \<open>The words of a fresh coherent allocation are whatever the memory held.\<close>

definition uninit_desc :: "kenv \<Rightarrow> event list \<Rightarrow> nat \<Rightarrow> xdma_desc" where
  "uninit_desc env tr i = (let u = (\<lambda>k. uninit env tr (8 * i + k)) in
    \<lparr>d_control = u 0, d_bytes = u 1, d_src_addr_lo = u 2, d_src_addr_hi = u 3,
     d_dst_addr_lo = u 4, d_dst_addr_hi = u 5, d_next_lo = u 6, d_next_hi = u 7\<rparr>)"

fun desc_alloc_loop :: "u64 \<Rightarrow> int \<Rightarrow> xdma_desc list \<Rightarrow> xdma_desc list" where
  "desc_alloc_loop desc_bus adj [] = []"
| "desc_alloc_loop desc_bus adj [d] =
    [d\<lparr>d_next_lo := 0, d_next_hi := 0, d_bytes := 0, d_control := DESC_MAGIC\<rparr>]"
| "desc_alloc_loop desc_bus adj (d # e # ds) =
    (let desc_bus = desc_bus + of_nat sizeof_xdma_desc;
         (extra_adj, adj) =
           (if adj > 0 then
              (if adj - 1 > int MAX_EXTRA_ADJ then int MAX_EXTRA_ADJ else adj - 1, adj - 1)
            else (0, adj));
         temp_control = DESC_MAGIC OR push_bit 8 (of_int extra_adj)
     in d\<lparr>d_next_lo := PCI_DMA_L desc_bus, d_next_hi := PCI_DMA_H desc_bus,
          d_bytes := 0, d_control := temp_control\<rparr>
        # desc_alloc_loop desc_bus adj (e # ds))"

definition xdma_desc_alloc ::
  "kenv \<Rightarrow> int \<Rightarrow> 'w kworld_scheme \<Rightarrow> ((xdma_desc list \<times> u64) option \<times> 'w kworld_scheme) option"
where
  "xdma_desc_alloc env number w = do {
     bug_on (number < 1);
     case dma_alloc env (trace w) (nat number * sizeof_xdma_desc) of
       None \<Rightarrow> Some (None, w)
     | Some desc_bus \<Rightarrow>
         Some (Some (desc_alloc_loop desc_bus (number - 1)
                 (map (uninit_desc env (trace w)) [0 ..< nat number]), desc_bus),
               emit (Alloc (ObjDesc (nat number) desc_bus)) w) }"

definition xdma_desc_free ::
  "int \<Rightarrow> xdma_desc list option \<Rightarrow> u64 \<Rightarrow> 'w kworld_scheme \<Rightarrow> (unit \<times> 'w kworld_scheme) option"
where
  "xdma_desc_free number desc_virt desc_bus w = do {
     bug_on (desc_virt = None);
     bug_on (number < 0);
     Some ((), kfree (ObjDesc (nat number) desc_bus) w) }"

subsection \<open>Field operations\<close>

text \<open>\<open>second\<close> is given with its bus address, or NULL.\<close>

definition xdma_desc_link :: "xdma_desc \<Rightarrow> u64 option \<Rightarrow> xdma_desc" where
  "xdma_desc_link first second =
    (let control = d_control first AND 0x0000f0ff;
         first = (case second of
           Some second_bus \<Rightarrow> first\<lparr>d_next_lo := PCI_DMA_L second_bus,
                                    d_next_hi := PCI_DMA_H second_bus\<rparr>
         | None \<Rightarrow> first\<lparr>d_next_lo := 0, d_next_hi := 0\<rparr>)
     in first\<lparr>d_control := control OR DESC_MAGIC\<rparr>)"

text \<open>The number of descriptors that fit in the 4 kB page of the next one, less one, in
  unsigned arithmetic; the comparison \<open>extra_adj > max_adj_4k\<close> is unsigned too.\<close>

definition max_adj_4k :: "xdma_desc \<Rightarrow> u32" where
  "max_adj_4k d = (0x1000 - (d_next_lo d AND 0xFFF)) div 32 - 1"

definition xdma_desc_adjacent :: "xdma_desc \<Rightarrow> int \<Rightarrow> xdma_desc" where
  "xdma_desc_adjacent d next_adjacent =
    (let control = d_control d AND 0x0000f0ff;
         extra_adj =
           (if next_adjacent > 0 then
              let e = next_adjacent - 1;
                  e = (if e > int MAX_EXTRA_ADJ then int MAX_EXTRA_ADJ else e);
                  e = (if (of_int e :: u32) > max_adj_4k d then sint (max_adj_4k d) else e);
                  e = (if e < 0 then 0 else e)
              in e
            else 0)
     in d\<lparr>d_control := control OR (0xAD4B0000 OR push_bit 8 (of_int extra_adj))\<rparr>)"

definition xdma_desc_control :: "xdma_desc \<Rightarrow> u32 \<Rightarrow> xdma_desc option" where
  "xdma_desc_control first control_field = do {
     bug_on (bits_set control_field (NOT LS_BYTE_MASK));
     Some (first\<lparr>d_control := (d_control first AND NOT LS_BYTE_MASK) OR control_field\<rparr>) }"

definition xdma_desc_control_clear :: "xdma_desc \<Rightarrow> u32 \<Rightarrow> xdma_desc option" where
  "xdma_desc_control_clear first clear_mask = do {
     bug_on (bits_set clear_mask (NOT LS_BYTE_MASK));
     Some (first\<lparr>d_control := d_control first AND NOT clear_mask\<rparr>) }"

definition xdma_desc_control_set :: "xdma_desc \<Rightarrow> u32 \<Rightarrow> xdma_desc option" where
  "xdma_desc_control_set first set_mask = do {
     bug_on (bits_set set_mask (NOT LS_BYTE_MASK));
     Some (first\<lparr>d_control := d_control first OR set_mask\<rparr>) }"

definition xdma_desc_set :: "xdma_desc \<Rightarrow> u64 \<Rightarrow> u64 \<Rightarrow> u32 \<Rightarrow> bool \<Rightarrow> xdma_desc" where
  "xdma_desc_set desc rc_bus_addr ep_addr len dir_to_dev =
    (let desc = desc\<lparr>d_bytes := len\<rparr> in
     if dir_to_dev then
       desc\<lparr>d_src_addr_lo := PCI_DMA_L rc_bus_addr, d_src_addr_hi := PCI_DMA_H rc_bus_addr,
            d_dst_addr_lo := PCI_DMA_L ep_addr, d_dst_addr_hi := PCI_DMA_H ep_addr\<rparr>
     else
       desc\<lparr>d_src_addr_lo := PCI_DMA_L ep_addr, d_src_addr_hi := PCI_DMA_H ep_addr,
            d_dst_addr_lo := PCI_DMA_L rc_bus_addr, d_dst_addr_hi := PCI_DMA_H rc_bus_addr\<rparr>)"

definition xdma_desc_set_source :: "xdma_desc \<Rightarrow> u64 \<Rightarrow> xdma_desc" where
  "xdma_desc_set_source desc source =
    desc\<lparr>d_src_addr_lo := PCI_DMA_L source, d_src_addr_hi := PCI_DMA_H source\<rparr>"

text \<open>An operation on element \<open>i\<close> of a descriptor array: outside the array the driver
  would write over foreign memory.\<close>

definition upd_desc ::
  "nat \<Rightarrow> (xdma_desc \<Rightarrow> xdma_desc option) \<Rightarrow> xdma_desc list \<Rightarrow> xdma_desc list option" where
  "upd_desc i f ds = (if i < length ds then do { d \<leftarrow> f (ds ! i); Some (ds[i := d]) } else None)"

subsection \<open>The card's reading of a descriptor\<close>

definition desc_src :: "xdma_desc \<Rightarrow> u64" where
  "desc_src d = join64 (d_src_addr_hi d) (d_src_addr_lo d)"
definition desc_dst :: "xdma_desc \<Rightarrow> u64" where
  "desc_dst d = join64 (d_dst_addr_hi d) (d_dst_addr_lo d)"
definition desc_next :: "xdma_desc \<Rightarrow> u64" where
  "desc_next d = join64 (d_next_hi d) (d_next_lo d)"

text \<open>The magic in the upper half word, the number of extra adjacent descriptors in bits
  8 to 13, the control flags in the low byte.\<close>

definition desc_magic :: "xdma_desc \<Rightarrow> u32" where "desc_magic d = d_control d AND 0xFFFF0000"
definition desc_extra_adj :: "xdma_desc \<Rightarrow> nat" where
  "desc_extra_adj d = unat (drop_bit 8 (d_control d) AND 0x3F)"
definition desc_flags :: "xdma_desc \<Rightarrow> u32" where "desc_flags d = d_control d AND LS_BYTE_MASK"

definition host_addr :: "bool \<Rightarrow> xdma_desc \<Rightarrow> u64" where
  "host_addr dir_to_dev d = (if dir_to_dev then desc_src d else desc_dst d)"
definition card_addr :: "bool \<Rightarrow> xdma_desc \<Rightarrow> u64" where
  "card_addr dir_to_dev d = (if dir_to_dev then desc_dst d else desc_src d)"

subsection \<open>Field lemmas\<close>

text \<open>A well-formed control word: the magic is in place and bits 12 to 15 are clear.\<close>

definition desc_wf :: "xdma_desc \<Rightarrow> bool" where
  "desc_wf d \<longleftrightarrow> d_control d AND 0xFFFFF000 = DESC_MAGIC"

lemma and_split: "x AND m = c \<Longrightarrow> x AND (m AND n) = c AND n" for x :: u32
  by (metis and.assoc)

lemma desc_wf_bits:
  assumes "desc_wf d"
  shows "d_control d AND 0xF000 = 0" "d_control d AND 0x3000 = 0"
    "d_control d AND 0xFFFF0000 = DESC_MAGIC"
  using and_split [OF assms [unfolded desc_wf_def], of "0xF000"]
    and_split [OF assms [unfolded desc_wf_def], of "0x3000"]
    and_split [OF assms [unfolded desc_wf_def], of "0xFFFF0000"]
  by (simp_all add: DESC_MAGIC_def)

lemma desc_wf_magic: "desc_wf d \<Longrightarrow> desc_magic d = DESC_MAGIC"
  by (simp add: desc_magic_def desc_wf_bits)

lemma low_byte_mask: "\<not> bits_set f (NOT LS_BYTE_MASK) \<Longrightarrow> f = f AND 0xFF"
proof -
  assume "\<not> bits_set f (NOT LS_BYTE_MASK)"
  then have z: "f AND NOT LS_BYTE_MASK = 0" by (simp add: bits_set_def)
  have "f = f AND (LS_BYTE_MASK OR NOT LS_BYTE_MASK)" by simp
  also have "\<dots> = f AND LS_BYTE_MASK OR f AND NOT LS_BYTE_MASK"
    by (rule bit.conj_disj_distrib)
  finally show ?thesis unfolding z by (simp add: LS_BYTE_MASK_def)
qed

lemma adj_nibble:
  fixes e :: u32
  assumes "unat e \<le> 15"
  shows "push_bit 8 e AND 0xFFFFF000 = 0" "push_bit 8 e AND 0xFF = 0"
    "e AND 0x3F = e"
proof -
  have e: "e = e AND 0xF"
  proof -
    have "e AND mask 4 = e"
      by (rule word_unat_eq_iff [THEN iffD2]) (use assms in \<open>simp add: unat_mask_eq\<close>)
    then show ?thesis by (simp add: mask_eq_exp_minus_1)
  qed
  show "e AND 0x3F = e" by (subst e, subst (2) e) (simp add: and.assoc)
  have p: "push_bit 8 e = push_bit 8 e AND 0xF00"
    by (subst e) (simp add: push_bit_and)
  show "push_bit 8 e AND 0xFFFFF000 = 0" "push_bit 8 e AND 0xFF = 0"
    by (subst p, simp add: and.assoc)+
qed

lemmas and_or_simps = bit.conj_disj_distrib2 and.assoc

lemma desc_flags_fields:
  "desc_flags (d\<lparr>d_control := ((c AND 0xf0ff) OR (0xAD4B0000 OR x))\<rparr>)
     = (c AND 0xFF) OR (x AND 0xFF)"
  by (simp add: desc_flags_def LS_BYTE_MASK_def and_or_simps)

lemma desc_set_fields [simp]:
  "host_addr dir (xdma_desc_set d rc ep len dir) = rc"
  "card_addr dir (xdma_desc_set d rc ep len dir) = ep"
  "d_bytes (xdma_desc_set d rc ep len dir) = len"
  "d_control (xdma_desc_set d rc ep len dir) = d_control d"
  "desc_next (xdma_desc_set d rc ep len dir) = desc_next d"
  "d_next_lo (xdma_desc_set d rc ep len dir) = d_next_lo d"
  "d_next_hi (xdma_desc_set d rc ep len dir) = d_next_hi d"
  by (simp_all add: xdma_desc_set_def host_addr_def card_addr_def desc_src_def desc_dst_def
      desc_next_def join64_split Let_def)

lemma desc_control_ok:
  assumes "\<not> bits_set f (NOT LS_BYTE_MASK)"
  shows "\<exists>d'. xdma_desc_control d f = Some d' \<and> desc_flags d' = f \<and> (desc_wf d \<longrightarrow> desc_wf d')
    \<and> desc_extra_adj d' = desc_extra_adj d \<and> d' = d\<lparr>d_control := d_control d'\<rparr>"
proof -
  have f: "f = f AND 0xFF" using low_byte_mask [OF assms] .
  have flags: "desc_flags (d\<lparr>d_control := (d_control d AND - 256) OR f\<rparr>) = f"
    by (subst f, subst (2) f) (simp add: desc_flags_def LS_BYTE_MASK_def and_or_simps)
  have "(f AND 0xFF) AND 0xFFFFF000 = 0" by (simp add: and.assoc)
  then have w: "f AND 0xFFFFF000 = 0" using f by simp
  have "drop_bit 8 (f AND 0xFF) = 0" by (simp add: drop_bit_and)
  then have x: "drop_bit 8 f = 0" using f by simp
  show ?thesis
    using assms flags w x
    by (simp add: xdma_desc_control_def LS_BYTE_MASK_def desc_wf_def and_or_simps
        desc_extra_adj_def drop_bit_and drop_bit_or)
qed

text \<open>Linking: the next pointer is the given bus address, or 0; the flags stay.\<close>

lemma desc_link_fields:
  "desc_next (xdma_desc_link d s) = (case s of None \<Rightarrow> 0 | Some b \<Rightarrow> b)"
  "desc_flags (xdma_desc_link d s) = desc_flags d"
  "desc_wf d \<Longrightarrow> desc_wf (xdma_desc_link d s)"
  "d_bytes (xdma_desc_link d s) = d_bytes d"
  "host_addr dir (xdma_desc_link d s) = host_addr dir d"
  "card_addr dir (xdma_desc_link d s) = card_addr dir d"
proof -
  show "desc_wf d \<Longrightarrow> desc_wf (xdma_desc_link d s)"
    using desc_wf_bits [of d]
    by (simp add: xdma_desc_link_def Let_def desc_wf_def DESC_MAGIC_def and_or_simps split: option.splits)
qed (simp_all add: xdma_desc_link_def desc_next_def join64_split desc_flags_def DESC_MAGIC_def
    LS_BYTE_MASK_def and_or_simps host_addr_def card_addr_def desc_src_def desc_dst_def Let_def
    split: option.splits)

text \<open>The adjacency count the driver computes.\<close>

definition adj_count :: "xdma_desc \<Rightarrow> int \<Rightarrow> nat" where
  "adj_count d next_adjacent =
     (if next_adjacent > 0 then
        min (min (nat (next_adjacent - 1)) MAX_EXTRA_ADJ)
          ((4096 - unat (d_next_lo d) mod 4096) div 32 - 1)
      else 0)"

lemma max_adj_4k_nat:
  assumes "unat (d_next_lo d) mod 32 = 0"
  shows "unat (max_adj_4k d) = (4096 - unat (d_next_lo d) mod 4096) div 32 - 1"
    and "unat (max_adj_4k d) \<le> 127"
proof -
  have m: "unat (d_next_lo d AND 0xFFF) = unat (d_next_lo d) mod 4096"
    using unat_mask_eq [of "d_next_lo d" 12] by (simp add: mask_eq_exp_minus_1)
  have "(unat (d_next_lo d) mod 4096) mod 32 = 0"
    using assms by (simp add: mod_mod_cancel)
  then obtain k where "unat (d_next_lo d) mod 4096 = 32 * k" by auto
  moreover have "unat (d_next_lo d) mod 4096 < 4096" by simp
  ultimately have "32 * k < 32 * 128" by simp
  then have "k \<le> 127" by simp
  with \<open>unat (d_next_lo d) mod 4096 = 32 * k\<close>
  have lim: "unat (d_next_lo d) mod 4096 \<le> 4064" by simp
  have le: "d_next_lo d AND 0xFFF \<le> 0x1000"
    using m by (simp add: word_le_nat_alt)
  have s: "unat (0x1000 - (d_next_lo d AND 0xFFF)) = 4096 - unat (d_next_lo d) mod 4096"
    using unat_sub_le [OF le] m by simp
  have dv: "unat ((0x1000 - (d_next_lo d AND 0xFFF)) div 32) = (4096 - unat (d_next_lo d) mod 4096) div 32"
    using s by (simp add: unat_div)
  have ge: "1 \<le> (0x1000 - (d_next_lo d AND 0xFFF)) div 32"
    using dv lim by (simp add: word_le_nat_alt)
  show 1: "unat (max_adj_4k d) = (4096 - unat (d_next_lo d) mod 4096) div 32 - 1"
    using unat_sub_le [OF ge] dv by (simp add: max_adj_4k_def)
  have "(4096 - unat (d_next_lo d) mod 4096) div 32 \<le> 4096 div 32"
    by (rule div_le_mono) simp
  then have "(4096 - unat (d_next_lo d) mod 4096) div 32 - 1 \<le> 127" by linarith
  then show "unat (max_adj_4k d) \<le> 127" unfolding 1 .
qed

lemma desc_adjacent_fields:
  assumes wf: "desc_wf d" and al: "unat (d_next_lo d) mod 32 = 0"
  shows "desc_extra_adj (xdma_desc_adjacent d n) = adj_count d n"
    and "desc_wf (xdma_desc_adjacent d n)"
    and "desc_flags (xdma_desc_adjacent d n) = desc_flags d"
    and "xdma_desc_adjacent d n = d\<lparr>d_control := d_control (xdma_desc_adjacent d n)\<rparr>"
proof -
  note m = max_adj_4k_nat [OF al]
  obtain e :: u32 where e: "xdma_desc_adjacent d n =
      d\<lparr>d_control := (d_control d AND 0x0000f0ff) OR (0xAD4B0000 OR push_bit 8 e)\<rparr>"
    and ue: "unat e = adj_count d n"
  proof (cases "n > 0")
    case False
    then show ?thesis using that [of 0] by (simp add: xdma_desc_adjacent_def adj_count_def Let_def)
  next
    case True
    define e0 where "e0 = (if n - 1 > int MAX_EXTRA_ADJ then int MAX_EXTRA_ADJ else n - 1)"
    have e0: "0 \<le> e0" "e0 \<le> 15" "nat e0 = min (nat (n - 1)) MAX_EXTRA_ADJ"
      using True by (auto simp: e0_def MAX_EXTRA_ADJ_def)
    have ue0: "unat (of_int e0 :: u32) = nat e0"
    proof -
      have "of_int e0 = (of_nat (nat e0) :: u32)" using e0(1) by simp
      then show ?thesis using e0(2) by (simp only:) (rule unat_of_nat_small, simp)
    qed
    have sm: "sint (max_adj_4k d) = int (unat (max_adj_4k d))"
      using sint_small [of "max_adj_4k d"] m(2) by simp
    define e1 where "e1 = (if (of_int e0 :: u32) > max_adj_4k d then sint (max_adj_4k d) else e0)"
    have "(of_int e0 :: u32) > max_adj_4k d \<longleftrightarrow> unat (max_adj_4k d) < nat e0"
      unfolding word_less_nat_alt ue0 ..
    then have e1_nat: "e1 = (if unat (max_adj_4k d) < nat e0 then int (unat (max_adj_4k d)) else e0)"
      unfolding e1_def sm by (simp only:)
    have cnt: "adj_count d n = min (nat e0) (unat (max_adj_4k d))"
      using True unfolding adj_count_def e0(3) m(1) by (simp only: if_True)
    have e1: "0 \<le> e1" "e1 \<le> 127" "nat e1 = adj_count d n"
    proof -
      obtain M where M: "M = unat (max_adj_4k d)" by blast
      show "0 \<le> e1" "e1 \<le> 127" "nat e1 = adj_count d n"
        using e0(1,2) m(2) unfolding cnt e1_nat M [symmetric] by auto
    qed
    have "unat (of_int e1 :: u32) = adj_count d n"
    proof -
      have "of_int e1 = (of_nat (nat e1) :: u32)" using e1(1) by simp
      then show ?thesis using e1(2,3) by (simp only:) (rule unat_of_nat_small, simp)
    qed
    moreover have "xdma_desc_adjacent d n =
      d\<lparr>d_control := (d_control d AND 0x0000f0ff) OR (0xAD4B0000 OR push_bit 8 (of_int e1))\<rparr>"
    proof -
      have "xdma_desc_adjacent d n = d\<lparr>d_control := (d_control d AND 0x0000f0ff)
          OR (0xAD4B0000 OR push_bit 8 (of_int (if e1 < 0 then 0 else e1)))\<rparr>"
        unfolding xdma_desc_adjacent_def Let_def if_P [OF True] e1_def e0_def ..
      then show ?thesis using e1(1) by (simp only: not_less [symmetric] if_False)
    qed
    ultimately show ?thesis using that by blast
  qed
  have "adj_count d n \<le> 15"
    unfolding adj_count_def MAX_EXTRA_ADJ_def by (simp only: min.coboundedI1 min.cobounded2 split: if_split) simp
  then have e15: "unat e \<le> 15" using ue by simp
  note nib = adj_nibble [OF e15]
  show "desc_extra_adj (xdma_desc_adjacent d n) = adj_count d n"
  proof -
    have "drop_bit 8 (d_control d AND 0x3000) = 0" using desc_wf_bits [OF wf] by simp
    then have r: "drop_bit 8 (d_control d) AND 0x30 = 0" by (simp add: drop_bit_and)
    have p: "drop_bit 8 (push_bit 8 e) = e"
      by (rule word_unat_eq_iff [THEN iffD2])
        (use e15 in \<open>simp add: unat_drop_bit_eq unat_push_bit_small\<close>)
    show ?thesis
      using nib r by (simp add: e desc_extra_adj_def drop_bit_or drop_bit_and and_or_simps p flip: ue)
  qed
  show "desc_wf (xdma_desc_adjacent d n)"
    using nib desc_wf_bits [OF wf] by (simp add: e desc_wf_def DESC_MAGIC_def and_or_simps)
  show "desc_flags (xdma_desc_adjacent d n) = desc_flags d"
    using nib by (simp add: e desc_flags_fields) (simp add: desc_flags_def LS_BYTE_MASK_def)
  show "xdma_desc_adjacent d n = d\<lparr>d_control := d_control (xdma_desc_adjacent d n)\<rparr>"
    by (simp add: e)
qed

subsection \<open>The freshly allocated list\<close>

lemma length_desc_alloc_loop [simp]: "length (desc_alloc_loop bus adj ds) = length ds"
  by (induction bus adj ds rule: desc_alloc_loop.induct) (simp_all add: Let_def)

lemma desc_alloc_ctrl:
  assumes "0 \<le> e" "e \<le> 15"
  shows "(DESC_MAGIC OR push_bit 8 (of_int e :: u32)) AND 0xFFFFF000 = DESC_MAGIC"
    and "(DESC_MAGIC OR push_bit 8 (of_int e :: u32)) AND LS_BYTE_MASK = 0"
proof -
  have "of_int e = (of_nat (nat e) :: u32)" using assms by simp
  then have "unat (of_int e :: u32) \<le> 15"
    using assms by (simp only:) (subst unat_of_nat_small, simp_all)
  note nib = adj_nibble [OF this]
  then show "(DESC_MAGIC OR push_bit 8 (of_int e :: u32)) AND 0xFFFFF000 = DESC_MAGIC"
    "(DESC_MAGIC OR push_bit 8 (of_int e :: u32)) AND LS_BYTE_MASK = 0"
    by (simp_all add: DESC_MAGIC_def LS_BYTE_MASK_def bit.conj_disj_distrib2)
qed

definition desc_fresh :: "xdma_desc \<Rightarrow> bool" where
  "desc_fresh d \<longleftrightarrow> desc_wf d \<and> desc_flags d = 0 \<and> d_bytes d = 0"

lemma desc_alloc_loop_fresh: "list_all desc_fresh (desc_alloc_loop bus adj ds)"
proof (induction bus adj ds rule: desc_alloc_loop.induct)
  case (2 bus adj d)
  then show ?case
    by (simp add: desc_fresh_def desc_wf_def desc_flags_def DESC_MAGIC_def LS_BYTE_MASK_def)
next
  case (3 bus adj d e ds)
  then show ?case
    using desc_alloc_ctrl [of 0] desc_alloc_ctrl [of "adj - 1"] desc_alloc_ctrl [of 15]
    by (simp add: desc_fresh_def desc_wf_def desc_flags_def Let_def MAX_EXTRA_ADJ_def)
qed simp

lemma desc_alloc_loop_next:
  "i < length ds \<Longrightarrow> desc_next (desc_alloc_loop bus adj ds ! i)
     = (if Suc i < length ds then bus + of_nat (Suc i) * 32 else 0)"
proof (induction ds arbitrary: bus adj i rule: induct_list012)
  case (2 d)
  then show ?case by (simp add: desc_next_def)
next
  case (3 d e ds)
  show ?case
  proof (cases i)
    case 0
    then show ?thesis
      by (simp add: Let_def desc_next_def join64_split sizeof_xdma_desc_def)
  next
    case (Suc k)
    then show ?thesis
      using "3.IH"(2) [of k] "3.prems"
      by (auto simp: Let_def sizeof_xdma_desc_def algebra_simps split: if_splits)
  qed
qed simp

end
