(* ===== verification/Dma_Transfer.thy ===== *)
theory Dma_Transfer
  imports Desc
begin

section \<open>Transfers\<close>

text \<open>
  \<open>struct xdma_transfer\<close> and its life: \<open>transfer_create\<close> (map the buffer, allocate the
  descriptors, \<open>transfer_build\<close>, terminate and set the adjacency counts) and
  \<open>transfer_destroy\<close>. Transfers live in a heap (\<open>world\<close>), keyed by an identifier that
  stands for the pointer; \<open>kfree\<close> removes the key, so that a use after it is \<open>None\<close>.
\<close>

datatype transfer_state =
    TRANSFER_STATE_NEW | TRANSFER_STATE_SUBMITTED | TRANSFER_STATE_COMPLETED | TRANSFER_STATE_FAILED

record xdma_transfer =
  desc_virt :: "xdma_desc list option"
  desc_bus :: u64
  desc_adjacent :: nat
  desc_num :: nat
  t_dir_to_dev :: bool
  iocb :: "nat option"
  sgl_nents :: int
  t_sgm :: "sg_mapping_t option"
  userspace :: bool
  t_state :: transfer_state
  t_cyclic :: bool
  last_in_request :: bool
  size_of_request :: int

record world = kworld +
  transfers :: "nat \<rightharpoonup> xdma_transfer"
  next_tid :: nat

text \<open>\<open>kzalloc\<close> of a transfer: all fields zero.\<close>

definition transfer0 :: xdma_transfer where
  "transfer0 = \<lparr>desc_virt = None, desc_bus = 0, desc_adjacent = 0, desc_num = 0,
     t_dir_to_dev = False, iocb = None, sgl_nents = 0, t_sgm = None, userspace = False,
     t_state = TRANSFER_STATE_NEW, t_cyclic = False, last_in_request = False,
     size_of_request = 0\<rparr>"

definition put_transfer :: "nat \<Rightarrow> xdma_transfer \<Rightarrow> 'w world_scheme \<Rightarrow> 'w world_scheme" where
  "put_transfer t x w = w\<lparr>transfers := (transfers w)(t \<mapsto> x)\<rparr>"

definition alloc_transfer :: "kenv \<Rightarrow> 'w world_scheme \<Rightarrow> nat option \<times> 'w world_scheme" where
  "alloc_transfer env w = (let t = next_tid w in
     case kalloc env (ObjTransfer t) w of
       (False, w) \<Rightarrow> (None, w)
     | (True, w) \<Rightarrow> (Some t, put_transfer t transfer0 (w\<lparr>next_tid := Suc t\<rparr>)))"

definition free_transfer :: "nat \<Rightarrow> 'w world_scheme \<Rightarrow> 'w world_scheme" where
  "free_transfer t w = kfree (ObjTransfer t) (w\<lparr>transfers := (transfers w)(t := None)\<rparr>)"

subsection \<open>Operations on the descriptors of a transfer\<close>

definition upd_transfer_desc ::
  "nat \<Rightarrow> (xdma_desc \<Rightarrow> xdma_desc option) \<Rightarrow> xdma_transfer \<Rightarrow> xdma_transfer option" where
  "upd_transfer_desc i f x = do {
     ds \<leftarrow> desc_virt x; ds \<leftarrow> upd_desc i f ds; Some (x\<lparr>desc_virt := Some ds\<rparr>) }"

text \<open>\<open>desc_virt + desc_num - 1\<close>; with no descriptor this is before the array.\<close>

definition upd_last_desc ::
  "(xdma_desc \<Rightarrow> xdma_desc option) \<Rightarrow> xdma_transfer \<Rightarrow> xdma_transfer option" where
  "upd_last_desc f x =
     (if desc_num x = 0 then None else upd_transfer_desc (desc_num x - 1) f x)"

definition xdma_transfer_cyclic :: "xdma_transfer \<Rightarrow> xdma_transfer option" where
  "xdma_transfer_cyclic x = do {
     x \<leftarrow> upd_last_desc (\<lambda>d. Some (xdma_desc_link d (Some (desc_bus x)))) x;
     Some (x\<lparr>t_cyclic := True\<rparr>) }"

fun set_result_addresses_loop ::
  "nat \<Rightarrow> nat \<Rightarrow> u64 \<Rightarrow> xdma_desc list \<Rightarrow> xdma_desc list option" where
  "set_result_addresses_loop 0 i result_bus ds = Some ds"
| "set_result_addresses_loop (Suc n) i result_bus ds = do {
     ds \<leftarrow> upd_desc i (\<lambda>d. Some (xdma_desc_set_source d result_bus)) ds;
     set_result_addresses_loop n (Suc i) (result_bus + 32) ds }"

definition transfer_set_result_addresses :: "xdma_transfer \<Rightarrow> u64 \<Rightarrow> xdma_transfer option" where
  "transfer_set_result_addresses x result_bus = do {
     ds \<leftarrow> desc_virt x;
     ds \<leftarrow> set_result_addresses_loop (desc_num x) 0 result_bus ds;
     Some (x\<lparr>desc_virt := Some ds\<rparr>) }"

fun set_all_control_loop :: "nat \<Rightarrow> nat \<Rightarrow> u32 \<Rightarrow> xdma_desc list \<Rightarrow> xdma_desc list option" where
  "set_all_control_loop 0 i control ds = Some ds"
| "set_all_control_loop (Suc n) i control ds = do {
     ds \<leftarrow> upd_desc i (\<lambda>d. xdma_desc_control_clear d LS_BYTE_MASK) ds;
     ds \<leftarrow> upd_desc i (\<lambda>d. xdma_desc_control_set d control) ds;
     set_all_control_loop n (Suc i) control ds }"

definition transfer_set_all_control :: "xdma_transfer \<Rightarrow> u32 \<Rightarrow> xdma_transfer option" where
  "transfer_set_all_control x control = do {
     ds \<leftarrow> desc_virt x;
     ds \<leftarrow> set_all_control_loop (desc_num x) 0 control ds;
     Some (x\<lparr>desc_virt := Some ds\<rparr>) }"

definition desc_set_at ::
  "nat \<Rightarrow> u64 \<Rightarrow> u64 \<Rightarrow> u32 \<Rightarrow> bool \<Rightarrow> xdma_desc list \<Rightarrow> xdma_desc list option" where
  "desc_set_at j rc ep len dir ds = upd_desc j (\<lambda>d. Some (xdma_desc_set d rc ep len dir)) ds"

subsection \<open>transfer\_build\<close>

text \<open>The loop over the mapped entries; \<open>e\<close> is entry \<open>i\<close>, \<open>addr\<close> its bus address as
  the loop carries it. \<open>step_ep\<close> is whether the card address advances from block to block:
  always for a kernel buffer, only in incrementing mode for a user buffer. The result is the
  index of the last descriptor.\<close>

fun transfer_build_loop ::
  "bool \<Rightarrow> bool \<Rightarrow> bool \<Rightarrow> int \<Rightarrow> scatterlist list
   \<Rightarrow> u64 \<Rightarrow> u64 \<Rightarrow> u32 \<Rightarrow> u64 \<Rightarrow> nat \<Rightarrow> xdma_desc list \<Rightarrow> (nat \<times> xdma_desc list) option" where
  "transfer_build_loop dir step_ep force nents [] addr cont_addr cont_len ep j ds = None"
| "transfer_build_loop dir step_ep force nents [e] addr cont_addr cont_len ep j ds = do {
     bug_on (int j > nents);
     ds \<leftarrow> desc_set_at j cont_addr ep (cont_len + sg_dma_len e) dir ds;
     Some (j, ds) }"
| "transfer_build_loop dir step_ep force nents (e # e' # es) addr cont_addr cont_len ep j ds =
    (let next = sg_dma_address e';
         len = sg_dma_len e;
         cont_len = cont_len + len;
         new_desc = (next \<noteq> addr + ucast len
           \<or> ucast cont_len > of_nat XDMA_DESC_MAX_BYTES - PAGE_SIZE
           \<or> force)
     in if new_desc then do {
          ds \<leftarrow> desc_set_at j cont_addr ep cont_len dir ds;
          transfer_build_loop dir step_ep force nents (e' # es) next next 0
            (if step_ep then ep + ucast cont_len else ep) (Suc j) ds }
        else transfer_build_loop dir step_ep force nents (e' # es) next cont_addr cont_len ep j ds)"

definition transfer_build ::
  "xdma_transfer \<Rightarrow> u64 \<Rightarrow> bool \<Rightarrow> bool \<Rightarrow> bool \<Rightarrow> bool \<Rightarrow> (nat \<times> xdma_transfer) option" where
  "transfer_build x ep dir_to_dev non_incr_addr force_new_desc user = do {
     sgm \<leftarrow> t_sgm x;
     ds \<leftarrow> desc_virt x;
     (let es = take (nat (max 1 (sgl_nents x))) (sgl sgm) in
      if es = [] \<or> int (length es) < sgl_nents x then None
      else do {
        let a0 = sg_dma_address (hd es);
        (lst, ds) \<leftarrow> transfer_build_loop dir_to_dev (\<not> user \<or> \<not> non_incr_addr)
          (force_new_desc \<and> \<not> user) (sgl_nents x) es a0 a0 0 ep 0 ds;
        Some (lst, x\<lparr>desc_virt := Some ds\<rparr>) }) }"

text \<open>\<open>transfer_perf\<close> without \<open>XDMA_PERFORMANCE_TEST\<close>: end the list at \<open>last\<close>.\<close>

definition last_desc_control :: u32 where
  "last_desc_control = XDMA_DESC_STOPPED OR XDMA_DESC_EOP OR XDMA_DESC_COMPLETED"

definition transfer_perf :: "xdma_transfer \<Rightarrow> nat \<Rightarrow> xdma_transfer option" where
  "transfer_perf x lst = do {
     x \<leftarrow> upd_transfer_desc lst (\<lambda>d. Some (xdma_desc_link d None)) x;
     upd_transfer_desc lst (\<lambda>d. xdma_desc_control d last_desc_control) x }"

fun adjacent_loop :: "nat \<Rightarrow> nat \<Rightarrow> nat \<Rightarrow> xdma_desc list \<Rightarrow> xdma_desc list option" where
  "adjacent_loop 0 i num ds = Some ds"
| "adjacent_loop (Suc n) i num ds = do {
     ds \<leftarrow> upd_desc i (\<lambda>d. Some (xdma_desc_adjacent d (int num - int i - 1))) ds;
     adjacent_loop n (Suc i) num ds }"

subsection \<open>transfer\_create and transfer\_destroy\<close>

text \<open>\<open>pci_map_sg\<close> writes the bus addresses into the first entries of the list.\<close>

fun set_dma :: "(u64 \<times> u32) list \<Rightarrow> scatterlist list \<Rightarrow> scatterlist list" where
  "set_dma ((a, l) # ms) (s # ss) = s\<lparr>sg_dma_address := a, sg_dma_len := l\<rparr> # set_dma ms ss"
| "set_dma _ ss = ss"

definition pci_map_sg :: "kenv \<Rightarrow> sg_mapping_t \<Rightarrow> 'w kworld_scheme \<Rightarrow> int \<times> sg_mapping_t \<times> 'w kworld_scheme"
where
  "pci_map_sg env sgm w =
    (let ms = map_sg env (trace w) (take (nat (mapped_pages sgm)) (sgl sgm))
     in (int (length ms), sgm\<lparr>sgl := set_dma ms (sgl sgm)\<rparr>, emit (MapSg (length ms)) w))"

text \<open>The second half of \<open>transfer_create\<close>, from \<open>pci_map_sg\<close> to the adjacency loop.\<close>

definition transfer_fill ::
  "kenv \<Rightarrow> xdma_transfer \<Rightarrow> sg_mapping_t \<Rightarrow> u64 \<Rightarrow> bool \<Rightarrow> bool \<Rightarrow> bool \<Rightarrow> bool \<Rightarrow> 'w kworld_scheme
   \<Rightarrow> (xdma_transfer \<times> 'w kworld_scheme) option" where
  "transfer_fill env x sgm ep dir_to_dev non_incr_addr force_new_desc user w = do {
     let (nents, sgm, w) = pci_map_sg env sgm w;
     (dv, w) \<leftarrow> xdma_desc_alloc env nents w;
     let x = x\<lparr>t_sgm := Some sgm, sgl_nents := nents, desc_virt := map_option fst dv,
               desc_bus := (case dv of Some (_, b) \<Rightarrow> b | None \<Rightarrow> 0)\<rparr>;
     (lst, x) \<leftarrow> transfer_build x ep dir_to_dev non_incr_addr force_new_desc user;
     x \<leftarrow> (if user then transfer_perf x lst
           else do {
             x \<leftarrow> upd_transfer_desc lst (\<lambda>d. Some (xdma_desc_link d None)) x;
             upd_transfer_desc lst (\<lambda>d. xdma_desc_control d last_desc_control) x });
     let x = x\<lparr>desc_num := Suc lst, desc_adjacent := Suc lst\<rparr>;
     ds \<leftarrow> desc_virt x;
     ds \<leftarrow> adjacent_loop (desc_num x) 0 (desc_num x) ds;
     Some (x\<lparr>desc_virt := Some ds\<rparr>, w) }"

definition transfer_create ::
  "kenv \<Rightarrow> u64 \<Rightarrow> u64 \<Rightarrow> u64 \<Rightarrow> bool \<Rightarrow> bool \<Rightarrow> bool \<Rightarrow> bool \<Rightarrow> 'w world_scheme
   \<Rightarrow> (nat option \<times> 'w world_scheme) option" where
  "transfer_create env start cnt ep dir_to_dev non_incr_addr force_new_desc user w =
    (case alloc_transfer env w of
       (None, w) \<Rightarrow> Some (None, w)
     | (Some t, w) \<Rightarrow> do {
         let x = transfer0\<lparr>t_dir_to_dev := dir_to_dev\<rparr>;
         let (msgm, w) = sg_create_mapper env cnt w;
         bug_on (msgm = None);
         sgm \<leftarrow> msgm;
         let x = x\<lparr>userspace := user\<rparr>;
         (rc, sgm, w) \<leftarrow>
           (if user then sgm_get_user_pages env sgm start cnt (\<not> dir_to_dev) w
            else do { (rc, sgm) \<leftarrow> sgm_kernel_pages env sgm start cnt (\<not> dir_to_dev);
                      Some (rc, sgm, w) });
         bug_on (rc < 0);
         bug_on (mapped_pages sgm = 0);
         (x, w) \<leftarrow> transfer_fill env x sgm ep dir_to_dev non_incr_addr force_new_desc user w;
         Some (Some t, put_transfer t x w) })"

definition transfer_destroy :: "nat \<Rightarrow> 'w world_scheme \<Rightarrow> (unit \<times> 'w world_scheme) option" where
  "transfer_destroy t w = do {
     x \<leftarrow> transfers w t;
     (_, w) \<leftarrow>
       (case t_sgm x of
          None \<Rightarrow> Some ((), w)
        | Some sgm \<Rightarrow> do {
            let w = emit (UnmapSg (nat (mapped_pages sgm)) (t_dir_to_dev x)) w;
            (_, sgm, w) \<leftarrow>
              (if userspace x then sgm_put_user_pages sgm (\<not> t_dir_to_dev x) w
               else Some (0, sgm, w));
            sg_destroy_mapper (sgm\<lparr>mapped_pages := 0\<rparr>) w });
     (_, w) \<leftarrow> xdma_desc_free (sgl_nents x) (desc_virt x) (desc_bus x) w;
     Some ((), free_transfer t w) }"

subsection \<open>What transfer\_build writes\<close>

text \<open>Consecutive addresses, and the bytes that mapped entries and descriptors cover.\<close>

definition addr_range :: "u64 \<Rightarrow> nat \<Rightarrow> u64 list" where
  "addr_range a n = map (\<lambda>k. a + of_nat k) [0 ..< n]"

definition dma_bytes :: "scatterlist list \<Rightarrow> u64 list" where
  "dma_bytes es = concat (map (\<lambda>e. addr_range (sg_dma_address e) (unat (sg_dma_len e))) es)"

definition dma_total :: "scatterlist list \<Rightarrow> nat" where
  "dma_total es = sum_list (map (\<lambda>e. unat (sg_dma_len e)) es)"

text \<open>The byte moves a descriptor stands for: (host address, card address) pairs.\<close>

definition desc_moves :: "bool \<Rightarrow> xdma_desc \<Rightarrow> (u64 \<times> u64) list" where
  "desc_moves dir d =
     zip (addr_range (host_addr dir d) (unat (d_bytes d))) (addr_range (card_addr dir d) (unat (d_bytes d)))"

lemma length_addr_range [simp]: "length (addr_range a n) = n"
  by (simp add: addr_range_def)

lemma addr_range_0 [simp]: "addr_range a 0 = []"
  by (simp add: addr_range_def)

lemma addr_range_add: "addr_range a (m + n) = addr_range a m @ addr_range (a + of_nat m) n"
  by (simp add: addr_range_def map_upt_add algebra_simps)

lemma dma_simps [simp]:
  "dma_bytes [] = []" "dma_total [] = 0"
  "dma_bytes (e # es) = addr_range (sg_dma_address e) (unat (sg_dma_len e)) @ dma_bytes es"
  "dma_total (e # es) = unat (sg_dma_len e) + dma_total es"
  by (simp_all add: dma_bytes_def dma_total_def)

text \<open>The contiguous blocks the loop finds, as (host address, card address, length).\<close>

fun sg_blocks ::
  "bool \<Rightarrow> bool \<Rightarrow> scatterlist list \<Rightarrow> u64 \<Rightarrow> u64 \<Rightarrow> u32 \<Rightarrow> u64 \<Rightarrow> (u64 \<times> u64 \<times> u32) list" where
  "sg_blocks step_ep force [] addr ca cl ep = []"
| "sg_blocks step_ep force [e] addr ca cl ep = [(ca, ep, cl + sg_dma_len e)]"
| "sg_blocks step_ep force (e # e' # es) addr ca cl ep =
    (let next = sg_dma_address e'; cl' = cl + sg_dma_len e in
     if next \<noteq> addr + ucast (sg_dma_len e) \<or> ucast cl' > of_nat XDMA_DESC_MAX_BYTES - PAGE_SIZE
       \<or> force
     then (ca, ep, cl')
       # sg_blocks step_ep force (e' # es) next next 0 (if step_ep then ep + ucast cl' else ep)
     else sg_blocks step_ep force (e' # es) next ca cl' ep)"

lemma sg_blocks_length:
  "es \<noteq> [] \<Longrightarrow> 0 < length (sg_blocks step_ep force es addr ca cl ep)
    \<and> length (sg_blocks step_ep force es addr ca cl ep) \<le> length es"
  by (induction step_ep force es addr ca cl ep rule: sg_blocks.induct)
    (auto simp: Let_def intro: le_SucI)

definition write_blocks ::
  "bool \<Rightarrow> nat \<Rightarrow> (u64 \<times> u64 \<times> u32) list \<Rightarrow> xdma_desc list \<Rightarrow> xdma_desc list" where
  "write_blocks dir j bs ds = take j ds
     @ map2 (\<lambda>(a, ep, l) d. xdma_desc_set d a ep l dir) bs (drop j ds)
     @ drop (j + length bs) ds"

lemma desc_set_at_Some:
  "j < length ds \<Longrightarrow> desc_set_at j rc ep len dir ds = Some (ds[j := xdma_desc_set (ds ! j) rc ep len dir])"
  by (simp add: desc_set_at_def upd_desc_def)

lemma write_blocks_Cons:
  assumes "j < length ds"
  shows "write_blocks dir (Suc j) bs (ds[j := xdma_desc_set (ds ! j) a ep l dir])
    = write_blocks dir j ((a, ep, l) # bs) ds"
  using assms
  by (simp add: write_blocks_def take_Suc_update drop_update_cancel)
    (simp add: Cons_nth_drop_Suc [symmetric])

lemma transfer_build_loop_blocks:
  assumes "es \<noteq> []" "j + length es \<le> length ds" "int (j + length es) \<le> nents + 1"
  shows "transfer_build_loop dir step_ep force nents es addr ca cl ep j ds
    = (let bs = sg_blocks step_ep force es addr ca cl ep
       in Some (j + length bs - 1, write_blocks dir j bs ds))"
  using assms
proof (induction dir step_ep force nents es addr ca cl ep j ds rule: transfer_build_loop.induct)
  case (2 dir step_ep force nents e addr ca cl ep j ds)
  then have j: "j < length ds" by simp
  have "write_blocks dir j [(ca, ep, cl + sg_dma_len e)] ds
      = ds[j := xdma_desc_set (ds ! j) ca ep (cl + sg_dma_len e) dir]"
    using j by (simp add: write_blocks_def upd_conv_take_nth_drop)
      (simp add: Cons_nth_drop_Suc [symmetric])
  then show ?case using 2 j by (simp add: desc_set_at_Some)
next
  case (3 dir step_ep force nents e e' es addr ca cl ep j ds)
  have j: "j < length ds" using "3.prems" by simp
  show ?case
  proof (cases "sg_dma_address e' \<noteq> addr + ucast (sg_dma_len e)
      \<or> ucast (cl + sg_dma_len e) > of_nat XDMA_DESC_MAX_BYTES - PAGE_SIZE \<or> force")
    case True
    let ?ds = "ds[j := xdma_desc_set (ds ! j) ca ep (cl + sg_dma_len e) dir]"
    have "transfer_build_loop dir step_ep force nents (e' # es) (sg_dma_address e') (sg_dma_address e') 0
        (if step_ep then ep + ucast (cl + sg_dma_len e) else ep) (Suc j) ?ds
      = (let bs = sg_blocks step_ep force (e' # es) (sg_dma_address e') (sg_dma_address e') 0
            (if step_ep then ep + ucast (cl + sg_dma_len e) else ep)
         in Some (Suc j + length bs - 1, write_blocks dir (Suc j) bs ?ds))"
      using "3.prems" by (intro "3.IH"(1) [OF refl refl refl refl True]) (simp_all add: desc_set_at_Some [OF j])
    then show ?thesis
      using True j sg_blocks_length [of "e' # es" step_ep force "sg_dma_address e'" "sg_dma_address e'" 0
          "if step_ep then ep + ucast (cl + sg_dma_len e) else ep"]
      by (simp add: desc_set_at_Some [OF j] Let_def write_blocks_Cons [OF j])
  next
    case False
    then show ?thesis
      using "3.IH"(2) [OF refl refl refl refl False] "3.prems" by (simp add: Let_def)
  qed
qed simp

text \<open>The blocks cover the mapped bytes in order.\<close>

definition block_host :: "u64 \<times> u64 \<times> u32 \<Rightarrow> u64 list" where
  "block_host = (\<lambda>(a, ep, l). addr_range a (unat l))"

definition block_moves :: "u64 \<times> u64 \<times> u32 \<Rightarrow> (u64 \<times> u64) list" where
  "block_moves = (\<lambda>(a, ep, l). zip (addr_range a (unat l)) (addr_range ep (unat l)))"

lemma sg_blocks_host:
  assumes "es \<noteq> []" "sg_dma_address (hd es) = addr" "addr = ca + ucast cl"
    and "unat cl + dma_total es < 2 ^ 32"
  shows "concat (map block_host (sg_blocks step_ep force es addr ca cl ep))
    = addr_range ca (unat cl) @ dma_bytes es"
  using assms
proof (induction step_ep force es addr ca cl ep rule: sg_blocks.induct)
  case (2 step_ep force e addr ca cl ep)
  then show ?case
    by (simp add: block_host_def unat_add_small addr_range_add)
next
  case (3 step_ep force e e' es addr ca cl ep)
  have sum: "unat (cl + sg_dma_len e) = unat cl + unat (sg_dma_len e)"
    using "3.prems" by (simp add: unat_add_small)
  have rng: "addr_range ca (unat cl + unat (sg_dma_len e))
      = addr_range ca (unat cl) @ addr_range (sg_dma_address e) (unat (sg_dma_len e))"
    using "3.prems" by (simp add: addr_range_add)
  show ?case
  proof (cases "sg_dma_address e' \<noteq> addr + ucast (sg_dma_len e)
      \<or> ucast (cl + sg_dma_len e) > of_nat XDMA_DESC_MAX_BYTES - PAGE_SIZE \<or> force")
    case True
    then show ?thesis
      using "3.IH"(1) [OF refl refl True] "3.prems" sum by (simp add: Let_def rng block_host_def)
  next
    case False
    have "ca + ucast (cl + sg_dma_len e) = addr + ucast (sg_dma_len e)"
      using "3.prems" by (simp add: ucast_add_small add.assoc)
    then show ?thesis
      using "3.IH"(2) [OF refl refl False] "3.prems" False sum
      by (simp add: Let_def rng add.assoc)
  qed
qed simp

lemma zip_addr_range_add:
  "zip (addr_range a m @ xs) (addr_range b (m + n))
     = zip (addr_range a m) (addr_range b m) @ zip xs (addr_range (b + of_nat m) n)"
  by (simp add: addr_range_add zip_append)

lemma sg_blocks_moves:
  assumes "es \<noteq> []" "sg_dma_address (hd es) = addr" "addr = ca + ucast cl"
    and "unat cl + dma_total es < 2 ^ 32"
  shows "concat (map block_moves (sg_blocks True force es addr ca cl ep))
    = zip (addr_range ca (unat cl) @ dma_bytes es) (addr_range ep (unat cl + dma_total es))"
  using assms
proof (induction True force es addr ca cl ep rule: sg_blocks.induct)
  case (2 force e addr ca cl ep)
  then show ?case
    by (simp add: block_moves_def unat_add_small addr_range_add)
next
  case (3 force e e' es addr ca cl ep)
  have sum: "unat (cl + sg_dma_len e) = unat cl + unat (sg_dma_len e)"
    using "3.prems" by (simp add: unat_add_small)
  have rng: "addr_range ca (unat cl + unat (sg_dma_len e))
      = addr_range ca (unat cl) @ addr_range (sg_dma_address e) (unat (sg_dma_len e))"
    using "3.prems" by (simp add: addr_range_add)
  show ?case
  proof (cases "sg_dma_address e' \<noteq> addr + ucast (sg_dma_len e)
      \<or> ucast (cl + sg_dma_len e) > of_nat XDMA_DESC_MAX_BYTES - PAGE_SIZE \<or> force")
    case True
    have mv: "zip (addr_range ca (unat cl + unat (sg_dma_len e)) @ xs)
        (addr_range ep (unat cl + (unat (sg_dma_len e) + n)))
      = zip (addr_range ca (unat cl + unat (sg_dma_len e))) (addr_range ep (unat cl + unat (sg_dma_len e)))
        @ zip xs (addr_range (ep + ucast (cl + sg_dma_len e)) n)" for xs n
      using zip_addr_range_add [of ca "unat (cl + sg_dma_len e)" xs ep n]
      using "3.prems" by (simp add: sum add.assoc ucast_add_small)
    have tl: "concat (map block_moves (sg_blocks True force (e' # es) (sg_dma_address e')
         (sg_dma_address e') 0 (ep + ucast (cl + sg_dma_len e))))
      = zip (dma_bytes (e' # es)) (addr_range (ep + ucast (cl + sg_dma_len e)) (dma_total (e' # es)))"
      using "3.hyps"(1) [OF refl refl True] "3.prems" by simp
    show ?thesis
      using True tl mv [of "dma_bytes (e' # es)" "dma_total (e' # es)"]
      by (simp add: Let_def block_moves_def sum) (simp add: rng add.assoc)
  next
    case False
    have "ca + ucast (cl + sg_dma_len e) = addr + ucast (sg_dma_len e)"
      using "3.prems" by (simp add: ucast_add_small add.assoc)
    then show ?thesis
      using "3.hyps"(2) [OF refl refl False] "3.prems" False sum
      by (simp add: Let_def rng add.assoc)
  qed
qed simp

lemma sg_blocks_fixed_ep:
  "b \<in> set (sg_blocks False force es addr ca cl ep) \<Longrightarrow> fst (snd b) = ep"
  by (induction False force es addr ca cl ep rule: sg_blocks.induct)
    (auto simp: Let_def split: if_splits)

text \<open>Entries of at most a page: no block is longer than a descriptor may be, none is
  empty.\<close>

lemma sg_blocks_bounds:
  assumes "list_all (\<lambda>e. 0 < unat (sg_dma_len e) \<and> unat (sg_dma_len e) \<le> 4096) es"
    and "unat cl \<le> XDMA_DESC_MAX_BYTES - 4096"
    and "b \<in> set (sg_blocks step_ep force es addr ca cl ep)"
  shows "0 < unat (snd (snd b)) \<and> unat (snd (snd b)) \<le> XDMA_DESC_MAX_BYTES"
  using assms
proof (induction step_ep force es addr ca cl ep rule: sg_blocks.induct)
  case (2 step_ep force e addr ca cl ep)
  then have "unat (cl + sg_dma_len e) = unat cl + unat (sg_dma_len e)"
    by (intro unat_add_small) (simp add: XDMA_DESC_MAX_BYTES_def)
  then show ?case using 2 by (simp add: XDMA_DESC_MAX_BYTES_def)
next
  case (3 step_ep force e e' es addr ca cl ep)
  have sum: "unat (cl + sg_dma_len e) = unat cl + unat (sg_dma_len e)"
    using "3.prems" by (intro unat_add_small) (simp add: XDMA_DESC_MAX_BYTES_def)
  have lim: "unat (of_nat XDMA_DESC_MAX_BYTES - PAGE_SIZE :: u64) = XDMA_DESC_MAX_BYTES - 4096"
    by (simp add: XDMA_DESC_MAX_BYTES_def PAGE_SIZE_def)
  show ?case
  proof (cases "sg_dma_address e' \<noteq> addr + ucast (sg_dma_len e)
      \<or> ucast (cl + sg_dma_len e) > of_nat XDMA_DESC_MAX_BYTES - PAGE_SIZE \<or> force")
    case True
    then show ?thesis
      using "3.IH"(1) [OF refl refl True] "3.prems" sum
      by (auto simp: Let_def XDMA_DESC_MAX_BYTES_def)
  next
    case False
    then have "unat (cl + sg_dma_len e) \<le> XDMA_DESC_MAX_BYTES - 4096"
      using lim by (simp add: word_less_nat_alt)
    then show ?thesis
      using "3.IH"(2) [OF refl refl False] "3.prems" False by (auto simp: Let_def)
  qed
qed simp

subsection \<open>The finished descriptor list\<close>

text \<open>The first \<open>n\<close> descriptors form a list the card can walk from \<open>bus\<close>: each points to
  the next in the array, the last one ends the list and asks for the completion interrupt,
  the adjacency counts stay inside the list and inside a 4 kB page.\<close>

definition desc_chain :: "u64 \<Rightarrow> nat \<Rightarrow> xdma_desc list \<Rightarrow> bool" where
  "desc_chain bus n ds \<longleftrightarrow> 0 < n \<and> n \<le> length ds \<and>
     (\<forall>i<n. desc_wf (ds ! i)
        \<and> desc_flags (ds ! i) = (if Suc i = n then last_desc_control else 0)
        \<and> desc_next (ds ! i) = (if Suc i = n then 0 else bus + of_nat (Suc i) * 32))"

definition adjacency_safe :: "u64 \<Rightarrow> nat \<Rightarrow> xdma_desc list \<Rightarrow> bool" where
  "adjacency_safe bus n ds \<longleftrightarrow>
     (\<forall>i<n. desc_extra_adj (ds ! i) \<le> MAX_EXTRA_ADJ
        \<and> (if Suc i = n then desc_extra_adj (ds ! i) = 0
           else Suc (i + desc_extra_adj (ds ! i)) < n
             \<and> unat (desc_next (ds ! i)) mod 4096 + 32 * Suc (desc_extra_adj (ds ! i)) \<le> 4096))"

text \<open>The order in which the card fetches descriptors: it reads the one at the given bus
  address and follows \<open>next\<close> until one has the STOPPED flag. \<open>None\<close>: it has followed a pointer
  out of the list, or has not met the flag after \<open>f\<close> fetches.\<close>

fun card_fetch :: "nat \<Rightarrow> u64 \<Rightarrow> xdma_desc list \<Rightarrow> u64 \<Rightarrow> nat list option" where
  "card_fetch 0 bus ds a = None"
| "card_fetch (Suc f) bus ds a =
    (let i = unat (a - bus) div 32 in
     if unat (a - bus) mod 32 = 0 \<and> i < length ds then
       if bits_set (desc_flags (ds ! i)) XDMA_DESC_STOPPED then Some [i]
       else map_option ((#) i) (card_fetch f bus ds (desc_next (ds ! i)))
     else None)"

lemma last_desc_control_val: "last_desc_control = 0x13"
  by (simp add: last_desc_control_def desc_bits)

lemma card_fetch_chain_from:
  assumes ch: "desc_chain bus n ds" and small: "length ds * 32 < 2 ^ 64"
  shows "i < n \<Longrightarrow> n - i \<le> f \<Longrightarrow> card_fetch f bus ds (bus + of_nat i * 32) = Some [i ..< n]"
proof (induction f arbitrary: i)
  case (Suc f)
  have "i < length ds" using ch Suc.prems by (simp add: desc_chain_def)
  then have "i * 32 < 2 ^ LENGTH(64)" using small by simp
  then have u: "unat (bus + of_nat i * 32 - bus) = i * 32"
    using mult_of_nat_small [of i 32, where ?'a = 64] by simp
  have stop: "bits_set (desc_flags (ds ! i)) XDMA_DESC_STOPPED \<longleftrightarrow> Suc i = n"
    using ch Suc.prems
    by (auto simp: desc_chain_def last_desc_control_val XDMA_DESC_STOPPED_def bits_set_def)
  show ?case
  proof (cases "Suc i = n")
    case True
    then show ?thesis using u stop \<open>i < length ds\<close> by (simp add: Let_def upt_rec)
  next
    case False
    then have "card_fetch f bus ds (desc_next (ds ! i)) = Some [Suc i ..< n]"
      using ch Suc.prems Suc.IH [of "Suc i"] by (simp add: desc_chain_def)
    then show ?thesis using u stop False Suc.prems \<open>i < length ds\<close> by (simp add: upt_rec)
  qed
qed simp

lemma card_fetch_chain:
  "desc_chain bus n ds \<Longrightarrow> length ds * 32 < 2 ^ 64 \<Longrightarrow> n \<le> f \<Longrightarrow> card_fetch f bus ds bus = Some [0 ..< n]"
  using card_fetch_chain_from [of bus n ds 0 f] by (simp add: desc_chain_def)

lemma PCI_DMA_L_mod32: "unat (PCI_DMA_L a) mod 4096 = unat a mod 4096"
  "unat (PCI_DMA_L a) mod 32 = unat a mod 32"
proof -
  have *: "unat (PCI_DMA_L a) mod 4096 = unat a mod 4096"
    using unat_PCI_DMA_L_mod [of a] unat_mask_eq [of "PCI_DMA_L a" 12]
    by (simp add: mask_eq_exp_minus_1)
  then have "unat (PCI_DMA_L a) mod 4096 mod 32 = unat a mod 4096 mod 32" by simp
  then show "unat (PCI_DMA_L a) mod 32 = unat a mod 32" by (simp add: mod_mod_cancel)
  show "unat (PCI_DMA_L a) mod 4096 = unat a mod 4096" by (rule *)
qed

lemma d_next_lo_next: "d_next_lo d = PCI_DMA_L (desc_next d)"
  by (simp add: desc_next_def split_join64)

lemma chain_next_aligned:
  assumes "desc_chain bus n ds" "unat bus mod 32 = 0" "i < n"
  shows "unat (desc_next (ds ! i)) mod 32 = 0"
proof -
  have "of_nat (Suc i) * 32 = (of_nat (Suc i * 32) :: u64)" by simp
  then have "unat (bus + of_nat (Suc i) * 32) = (unat bus + Suc i * 32 mod 2 ^ 64) mod 2 ^ 64"
    by (simp only: unat_word_ariths unat_of_nat take_bit_eq_mod) simp
  then have "unat (bus + of_nat (Suc i) * 32) mod 32 = (unat bus + Suc i * 32) mod 32"
    by (simp add: mod_mod_cancel mod_add_right_eq)
  also have "\<dots> = 0" using assms(2) by (simp add: mod_add_eq [symmetric])
  finally have "unat (bus + of_nat (Suc i) * 32) mod 32 = 0" .
  then show ?thesis using assms by (auto simp: desc_chain_def)
qed

lemma adjacent_loop_nth:
  "i + n \<le> length ds \<Longrightarrow> \<exists>r. adjacent_loop n i num ds = Some r \<and> length r = length ds
     \<and> (\<forall>k. r ! k = (if i \<le> k \<and> k < i + n
          then xdma_desc_adjacent (ds ! k) (int num - int k - 1) else ds ! k))"
proof (induction n arbitrary: i ds)
  case (Suc n)
  let ?ds = "ds[i := xdma_desc_adjacent (ds ! i) (int num - int i - 1)]"
  obtain r where r: "adjacent_loop n (Suc i) num ?ds = Some r" "length r = length ds"
    "\<forall>k. r ! k = (if Suc i \<le> k \<and> k < Suc i + n
        then xdma_desc_adjacent (?ds ! k) (int num - int k - 1) else ?ds ! k)"
    using Suc.IH [of "Suc i" ?ds] Suc.prems by auto
  then show ?case using Suc.prems
    by (auto simp: upd_desc_def nth_list_update)
qed auto

lemma adj_count_bounds:
  assumes "unat (d_next_lo d) mod 32 = 0" "0 < n"
  shows "int (adj_count d n) \<le> n - 1" "adj_count d n \<le> MAX_EXTRA_ADJ"
    "unat (d_next_lo d) mod 4096 + 32 * Suc (adj_count d n) \<le> 4096"
proof -
  define m where "m = unat (d_next_lo d) mod 4096"
  have m: "m < 4096" "m mod 32 = 0"
    using assms(1) by (simp_all add: m_def mod_mod_cancel)
  then obtain k where k: "m = 32 * k" by auto
  then have "k < 128" using m(1) by simp
  have "4096 - m = 32 * (128 - k)" by (simp add: k diff_mult_distrib2)
  then have q: "(4096 - m) div 32 = 128 - k" by simp
  have c: "adj_count d n \<le> nat (n - 1)" "adj_count d n \<le> MAX_EXTRA_ADJ" "adj_count d n \<le> 127 - k"
    using q by (auto simp: adj_count_def m_def [symmetric])
  show "int (adj_count d n) \<le> n - 1" using c(1) assms(2) by linarith
  show "adj_count d n \<le> MAX_EXTRA_ADJ" by (rule c(2))
  show "unat (d_next_lo d) mod 4096 + 32 * Suc (adj_count d n) \<le> 4096"
    using c(3) k \<open>k < 128\<close> by (simp flip: m_def)
qed

definition same_moves :: "xdma_desc \<Rightarrow> xdma_desc \<Rightarrow> bool" where
  "same_moves d d' \<longleftrightarrow> d' = d\<lparr>d_control := d_control d', d_next_lo := d_next_lo d', d_next_hi := d_next_hi d'\<rparr>"

lemma same_moves_read:
  assumes "same_moves d d'"
  shows "host_addr dir d' = host_addr dir d" "card_addr dir d' = card_addr dir d"
    "d_bytes d' = d_bytes d" "desc_moves dir d' = desc_moves dir d"
  using assms unfolding same_moves_def
  by (cases d; cases d'; simp add: host_addr_def card_addr_def desc_src_def desc_dst_def desc_moves_def)+

lemma adjacent_loop_chain:
  assumes ch: "desc_chain bus n ds" and al: "unat bus mod 32 = 0"
  obtains r where "adjacent_loop n 0 n ds = Some r" "length r = length ds" "desc_chain bus n r"
    "adjacency_safe bus n r" "\<And>i. i < n \<Longrightarrow> same_moves (ds ! i) (r ! i)"
proof -
  obtain r where r: "adjacent_loop n 0 n ds = Some r" "length r = length ds"
    "\<forall>k. r ! k = (if k < n then xdma_desc_adjacent (ds ! k) (int n - int k - 1) else ds ! k)"
    using adjacent_loop_nth [of 0 n ds n] ch by (auto simp: desc_chain_def)
  have al': "unat (d_next_lo (ds ! i)) mod 32 = 0" if "i < n" for i
    using chain_next_aligned [OF ch al that] by (simp add: d_next_lo_next PCI_DMA_L_mod32)
  have wf: "desc_wf (ds ! i)" if "i < n" for i
    using ch that by (simp add: desc_chain_def)
  note f = desc_adjacent_fields [OF wf al']
  have ri: "r ! i = xdma_desc_adjacent (ds ! i) (int n - int i - 1)" if "i < n" for i
    using r(3) that by simp
  have nx: "desc_next (r ! i) = desc_next (ds ! i)" if "i < n" for i
    unfolding ri [OF that] by (subst f(4)) (use that in \<open>simp_all add: desc_next_def\<close>)
  have chain: "desc_chain bus n r"
    using ch r(2) ri f nx by (simp add: desc_chain_def)
  have "adjacency_safe bus n r"
    unfolding adjacency_safe_def
  proof (intro allI impI)
    fix i assume i: "i < n"
    let ?c = "adj_count (ds ! i) (int n - int i - 1)"
    have x: "desc_extra_adj (r ! i) = ?c" using f(1) [OF i i] ri [OF i] by simp
    show "desc_extra_adj (r ! i) \<le> MAX_EXTRA_ADJ
        \<and> (if Suc i = n then desc_extra_adj (r ! i) = 0
           else Suc (i + desc_extra_adj (r ! i)) < n
             \<and> unat (desc_next (r ! i)) mod 4096 + 32 * Suc (desc_extra_adj (r ! i)) \<le> 4096)"
    proof (cases "Suc i = n")
      case True
      then show ?thesis by (simp add: x adj_count_def)
    next
      case False
      then have pos: "0 < int n - int i - 1" using i by simp
      note b = adj_count_bounds [OF al' [OF i] pos]
      show ?thesis
        using b False i by (simp add: x nx d_next_lo_next PCI_DMA_L_mod32)
    qed
  qed
  moreover have "same_moves (ds ! i) (r ! i)" if "i < n" for i
    unfolding ri [OF that] same_moves_def
    by (subst (1 2 3 4) f(4)) (use that in simp_all)
  ultimately show ?thesis using that r chain by blast
qed

text \<open>From the allocation to the finished list.\<close>

lemma write_blocks_facts:
  assumes "length bs \<le> length ds"
  shows "length (write_blocks dir 0 bs ds) = length ds"
    and "i < length bs \<Longrightarrow> write_blocks dir 0 bs ds ! i
      = xdma_desc_set (ds ! i) (fst (bs ! i)) (fst (snd (bs ! i))) (snd (snd (bs ! i))) dir"
    and "i \<ge> length bs \<Longrightarrow> i < length ds \<Longrightarrow> write_blocks dir 0 bs ds ! i = ds ! i"
  using assms by (auto simp: write_blocks_def nth_append split: prod.split)

lemma block_moves_set:
  "desc_moves dir (xdma_desc_set d (fst b) (fst (snd b)) (snd (snd b)) dir) = block_moves b"
  by (cases b) (simp add: desc_moves_def block_moves_def)

lemma desc_set_keeps [simp]:
  "desc_wf (xdma_desc_set d rc ep len dir) = desc_wf d"
  "desc_flags (xdma_desc_set d rc ep len dir) = desc_flags d"
  by (simp_all add: desc_wf_def desc_flags_def)

lemma set_control_reads [simp]:
  "host_addr dir (d\<lparr>d_control := c\<rparr>) = host_addr dir d"
  "card_addr dir (d\<lparr>d_control := c\<rparr>) = card_addr dir d"
  "desc_next (d\<lparr>d_control := c\<rparr>) = desc_next d"
  by (simp_all add: host_addr_def card_addr_def desc_src_def desc_dst_def desc_next_def)

lemma control_field_ok: "\<not> bits_set last_desc_control (NOT LS_BYTE_MASK)"
  by (simp add: last_desc_control_val LS_BYTE_MASK_def bits_set_def)

definition finish_list :: "nat \<Rightarrow> xdma_desc list \<Rightarrow> xdma_desc list option" where
  "finish_list lst ds = do {
     ds \<leftarrow> upd_desc lst (\<lambda>d. Some (xdma_desc_link d None)) ds;
     upd_desc lst (\<lambda>d. xdma_desc_control d last_desc_control) ds }"

lemma finish_list_chain:
  assumes us: "ds = desc_alloc_loop bus adj us" and bs: "bs \<noteq> []" "length bs \<le> length us"
  obtains ds2 where "finish_list (length bs - 1) (write_blocks dir 0 bs ds) = Some ds2"
    "length ds2 = length us" "desc_chain bus (length bs) ds2"
    "\<And>i. i < length bs \<Longrightarrow> desc_moves dir (ds2 ! i) = block_moves (bs ! i)"
    "\<And>i. i < length bs \<Longrightarrow> d_bytes (ds2 ! i) = snd (snd (bs ! i))"
    "\<And>i. i < length bs \<Longrightarrow> card_addr dir (ds2 ! i) = fst (snd (bs ! i))"
    "\<And>i. i < length bs \<Longrightarrow> host_addr dir (ds2 ! i) = fst (bs ! i)"
proof -
  let ?n = "length bs" and ?ds1 = "write_blocks dir 0 bs ds"
  have len: "length ds = length us" by (simp add: us)
  note wb = write_blocks_facts [of bs ds, unfolded len, OF bs(2)]
  have n: "?n - 1 < length ds" "?n - 1 < ?n" using bs len by (cases bs, simp_all)+
  define d where "d = xdma_desc_link (?ds1 ! (?n - 1)) None"
  obtain d' where d': "xdma_desc_control d last_desc_control = Some d'"
    "desc_flags d' = last_desc_control" "desc_wf d \<longrightarrow> desc_wf d'" "d' = d\<lparr>d_control := d_control d'\<rparr>"
    using desc_control_ok [OF control_field_ok, of d] by auto
  define ds2 where "ds2 = ?ds1[?n - 1 := d']"
  have fin: "finish_list (?n - 1) ?ds1 = Some ds2"
    using n d'(1) wb(1) len by (simp add: finish_list_def upd_desc_def ds2_def d_def)
  have fresh: "desc_fresh (ds ! i)" if "i < length us" for i
    using desc_alloc_loop_fresh [of bus adj us] that us by (simp add: list_all_length)
  have nxt: "desc_next (ds ! i) = (if Suc i < length us then bus + of_nat (Suc i) * 32 else 0)"
    if "i < length us" for i
    using desc_alloc_loop_next [OF that, of bus adj] us by simp
  have "d_bytes d' = d_bytes d" "host_addr dir d' = host_addr dir d" "card_addr dir d' = card_addr dir d"
    "desc_next d' = desc_next d"
    by (subst d'(4), simp)+
  then have rd: "d_bytes d' = d_bytes (?ds1 ! (?n - 1))" "host_addr dir d' = host_addr dir (?ds1 ! (?n - 1))"
    "card_addr dir d' = card_addr dir (?ds1 ! (?n - 1))" "desc_next d' = 0"
    by (simp_all add: d_def desc_link_fields)
  have wfd: "desc_wf d'"
    using d'(3) desc_link_fields(3) [of "?ds1 ! (?n - 1)" None] wb(2) [OF n(2)] fresh [of "?n - 1"] n len
    by (simp add: d_def desc_fresh_def)
  have other: "ds2 ! i = ?ds1 ! i" if "i < ?n" "Suc i \<noteq> ?n" for i
    using that by (auto simp: ds2_def nth_list_update)
  have lst: "ds2 ! (?n - 1) = d'" using n wb(1) len by (simp add: ds2_def)
  have rd_all: "d_bytes (ds2 ! i) = snd (snd (bs ! i))" "host_addr dir (ds2 ! i) = fst (bs ! i)"
    "card_addr dir (ds2 ! i) = fst (snd (bs ! i))" if "i < ?n" for i
  proof -
    have "d_bytes (ds2 ! i) = d_bytes (?ds1 ! i) \<and> host_addr dir (ds2 ! i) = host_addr dir (?ds1 ! i)
        \<and> card_addr dir (ds2 ! i) = card_addr dir (?ds1 ! i)"
    proof (cases "Suc i = ?n")
      case True
      then have "i = ?n - 1" by simp
      then show ?thesis using lst rd by simp
    qed (simp add: other [OF that])
    then show "d_bytes (ds2 ! i) = snd (snd (bs ! i))" "host_addr dir (ds2 ! i) = fst (bs ! i)"
      "card_addr dir (ds2 ! i) = fst (snd (bs ! i))"
      by (simp_all add: wb(2) [OF that])
  qed
  have "desc_chain bus ?n ds2"
    unfolding desc_chain_def
  proof (intro conjI allI impI)
    show "0 < ?n" "?n \<le> length ds2" using bs wb(1) by (auto simp: ds2_def)
    fix i assume i: "i < ?n"
    then have iu: "i < length us" using bs(2) by simp
    have f: "desc_wf (?ds1 ! i)" "desc_flags (?ds1 ! i) = 0" "desc_next (?ds1 ! i) = desc_next (ds ! i)"
      using fresh [OF iu] by (simp_all add: wb(2) [OF i] desc_fresh_def)
    show "desc_wf (ds2 ! i)" "desc_flags (ds2 ! i) = (if Suc i = ?n then last_desc_control else 0)"
      "desc_next (ds2 ! i) = (if Suc i = ?n then 0 else bus + of_nat (Suc i) * 32)"
    proof (atomize (full), cases "Suc i = ?n")
      case True
      then have "i = ?n - 1" by simp
      then show "desc_wf (ds2 ! i) \<and> desc_flags (ds2 ! i) = (if Suc i = ?n then last_desc_control else 0)
        \<and> desc_next (ds2 ! i) = (if Suc i = ?n then 0 else bus + of_nat (Suc i) * 32)"
        using True lst wfd d'(2) rd(4) by simp
    next
      case False
      then have "Suc i < length us" using i bs(2) by simp
      then show "desc_wf (ds2 ! i) \<and> desc_flags (ds2 ! i) = (if Suc i = ?n then last_desc_control else 0)
        \<and> desc_next (ds2 ! i) = (if Suc i = ?n then 0 else bus + of_nat (Suc i) * 32)"
        using False f nxt [OF iu] by (simp only: other [OF i False] if_False if_True simp_thms)
    qed
  qed
  moreover have "desc_moves dir (ds2 ! i) = block_moves (bs ! i)" if "i < ?n" for i
    using rd_all [OF that] by (cases "bs ! i") (simp add: desc_moves_def block_moves_def)
  ultimately show ?thesis
    using that [OF fin] rd_all wb(1) len by (simp add: ds2_def)
qed

subsection \<open>transfer\_create delivers\<close>

text \<open>The bytes of the (bus address, length) pairs \<open>pci_map_sg\<close> returned.\<close>

definition ms_bytes :: "(u64 \<times> u32) list \<Rightarrow> u64 list" where
  "ms_bytes ms = concat (map (\<lambda>(a, l). addr_range a (unat l)) ms)"

definition ms_total :: "(u64 \<times> u32) list \<Rightarrow> nat" where
  "ms_total ms = sum_list (map (\<lambda>(a, l). unat l) ms)"

lemma set_dma_take:
  "length ms \<le> length ss \<Longrightarrow>
    map (\<lambda>e. (sg_dma_address e, sg_dma_len e)) (take (length ms) (set_dma ms ss)) = ms"
  by (induction ms ss rule: set_dma.induct) auto

lemma length_set_dma [simp]: "length (set_dma ms ss) = length ss"
  by (induction ms ss rule: set_dma.induct) auto

lemma set_dma_keeps: "length ms \<le> n \<Longrightarrow> map (\<lambda>s. (sg_page s, sg_offset s, sg_length s)) (take n (set_dma ms ss))
    = map (\<lambda>s. (sg_page s, sg_offset s, sg_length s)) (take n ss)"
  by (induction ms ss arbitrary: n rule: set_dma.induct) (auto simp: take_Cons')

lemma dma_bytes_ms:
  "dma_bytes es = ms_bytes (map (\<lambda>e. (sg_dma_address e, sg_dma_len e)) es)"
  "dma_total es = ms_total (map (\<lambda>e. (sg_dma_address e, sg_dma_len e)) es)"
  by (induction es) (simp_all add: ms_bytes_def ms_total_def)

text \<open>A transfer ready for the engine: its descriptors form a chain the card can walk, and
  move exactly the mapped bytes, in order; the card address advances with them when
  \<open>step_ep\<close>, else every descriptor has the same one.\<close>

definition transfer_ready :: "xdma_transfer \<Rightarrow> bool \<Rightarrow> u64 \<Rightarrow> bool \<Rightarrow> (u64 \<times> u32) list \<Rightarrow> bool" where
  "transfer_ready x dir ep step_ep ms \<longleftrightarrow> (\<exists>ds. desc_virt x = Some ds
     \<and> int (length ds) = sgl_nents x \<and> length ds = length ms
     \<and> desc_chain (desc_bus x) (desc_num x) ds
     \<and> adjacency_safe (desc_bus x) (desc_num x) ds
     \<and> concat (map (\<lambda>d. addr_range (host_addr dir d) (unat (d_bytes d))) (take (desc_num x) ds))
         = ms_bytes ms
     \<and> (step_ep \<longrightarrow> concat (map (desc_moves dir) (take (desc_num x) ds))
         = zip (ms_bytes ms) (addr_range ep (ms_total ms)))
     \<and> (\<not> step_ep \<longrightarrow> (\<forall>i<desc_num x. card_addr dir (ds ! i) = ep))
     \<and> (list_all (\<lambda>(a, l). 0 < unat l \<and> unat l \<le> 4096) ms
         \<longrightarrow> (\<forall>i<desc_num x. 0 < unat (d_bytes (ds ! i)) \<and> unat (d_bytes (ds ! i)) \<le> XDMA_DESC_MAX_BYTES)))"

lemma take_map_nth: "n \<le> length xs \<Longrightarrow> map f (take n xs) = map (\<lambda>i. f (xs ! i)) [0 ..< n]"
  by (rule nth_equalityI) simp_all

lemma transfer_perf_finish:
  "desc_virt x = Some ds \<Longrightarrow> finish_list lst ds = Some ds2 \<Longrightarrow>
    transfer_perf x lst = Some (x\<lparr>desc_virt := Some ds2\<rparr>)"
  by (auto simp: transfer_perf_def finish_list_def upd_transfer_desc_def bind_Some_iff)

lemma transfer_fill_ok:
  assumes ms: "map_sg env (trace w) (take (nat (mapped_pages sgm)) (sgl sgm)) = ms"
    and ne: "ms \<noteq> []" and le: "length ms \<le> length (sgl sgm)" and tot: "ms_total ms < 2 ^ 32"
    and bus: "dma_alloc env (trace w @ [MapSg (length ms)]) (length ms * 32) = Some bus"
    and al: "unat bus mod 32 = 0"
  obtains n ds where
    "transfer_fill env x sgm ep dir ni force user w =
       Some (x\<lparr>t_sgm := Some (sgm\<lparr>sgl := set_dma ms (sgl sgm)\<rparr>), sgl_nents := int (length ms),
               desc_virt := Some ds, desc_bus := bus, desc_num := n, desc_adjacent := n\<rparr>,
             emit (Alloc (ObjDesc (length ms) bus)) (emit (MapSg (length ms)) w))"
    "\<And>x'. desc_virt x' = Some ds \<Longrightarrow> desc_num x' = n \<Longrightarrow> desc_bus x' = bus
       \<Longrightarrow> sgl_nents x' = int (length ms) \<Longrightarrow> transfer_ready x' dir ep (\<not> user \<or> \<not> ni) ms"
proof -
  define sgm' where "sgm' = sgm\<lparr>sgl := set_dma ms (sgl sgm)\<rparr>"
  define w1 where "w1 = emit (MapSg (length ms)) w"
  define us where "us = map (uninit_desc env (trace w1)) [0 ..< length ms]"
  define ds0 where "ds0 = desc_alloc_loop bus (int (length ms) - 1) us"
  define es where "es = take (length ms) (sgl sgm')"
  define step where "step = (\<not> user \<or> \<not> ni)"
  have es: "map (\<lambda>e. (sg_dma_address e, sg_dma_len e)) es = ms" "length es = length ms" "es \<noteq> []"
    using set_dma_take [OF le] le ne by (auto simp: es_def sgm'_def)
  define a0 where "a0 = sg_dma_address (hd es)"
  define bs where "bs = sg_blocks step (force \<and> \<not> user) es a0 a0 0 ep"
  have bsl: "bs \<noteq> []" "length bs \<le> length us"
    using sg_blocks_length [OF es(3), of step "force \<and> \<not> user" a0 a0 0 ep] es(2)
    by (auto simp: bs_def us_def)
  have ldm: "length ds0 = length ms" "length us = length ms" by (simp_all add: ds0_def us_def)
  have build: "transfer_build_loop dir step (force \<and> \<not> user) (int (length ms)) es a0 a0 0 ep 0 ds0
      = Some (length bs - 1, write_blocks dir 0 bs ds0)"
    using transfer_build_loop_blocks [of es 0 ds0 "int (length ms)" dir step "force \<and> \<not> user" a0 a0 0 ep]
      es ldm by (simp add: bs_def Let_def)
  obtain ds2 where ds2: "finish_list (length bs - 1) (write_blocks dir 0 bs ds0) = Some ds2"
    "length ds2 = length us" "desc_chain bus (length bs) ds2"
    "\<And>i. i < length bs \<Longrightarrow> desc_moves dir (ds2 ! i) = block_moves (bs ! i)"
    "\<And>i. i < length bs \<Longrightarrow> d_bytes (ds2 ! i) = snd (snd (bs ! i))"
    "\<And>i. i < length bs \<Longrightarrow> card_addr dir (ds2 ! i) = fst (snd (bs ! i))"
    "\<And>i. i < length bs \<Longrightarrow> host_addr dir (ds2 ! i) = fst (bs ! i)"
    using finish_list_chain [OF ds0_def bsl] by metis
  obtain ds3 where ds3: "adjacent_loop (length bs) 0 (length bs) ds2 = Some ds3" "length ds3 = length ds2"
    "desc_chain bus (length bs) ds3" "adjacency_safe bus (length bs) ds3"
    "\<And>i. i < length bs \<Longrightarrow> same_moves (ds2 ! i) (ds3 ! i)"
    using adjacent_loop_chain [OF ds2(3) al] by metis
  have rd: "desc_moves dir (ds3 ! i) = block_moves (bs ! i)" "d_bytes (ds3 ! i) = snd (snd (bs ! i))"
    "card_addr dir (ds3 ! i) = fst (snd (bs ! i))" "host_addr dir (ds3 ! i) = fst (bs ! i)"
    if "i < length bs" for i
    using same_moves_read(1,2,4) [OF ds3(5) [OF that], of dir] same_moves_read(3) [OF ds3(5) [OF that]]
      ds2(4-7) [OF that] by simp_all
  have lens: "length bs \<le> length ds3" using ds3(2) ds2(2) bsl(2) by simp
  have tot': "unat (0 :: u32) + dma_total es < 2 ^ 32" using tot es(1) by (simp add: dma_bytes_ms)
  have hd: "sg_dma_address (hd es) = a0" "a0 = a0 + ucast (0 :: u32)" by (simp_all add: a0_def)
  have host: "concat (map (\<lambda>d. addr_range (host_addr dir d) (unat (d_bytes d))) (take (length bs) ds3)) = ms_bytes ms"
  proof -
    have "map (\<lambda>d. addr_range (host_addr dir d) (unat (d_bytes d))) (take (length bs) ds3) = map block_host bs"
      using lens by (intro nth_equalityI) (simp_all add: rd block_host_def split: prod.split)
    then show ?thesis
      using sg_blocks_host [OF es(3) hd tot', of step "force \<and> \<not> user" ep] es(1)
      by (simp add: bs_def dma_bytes_ms)
  qed
  have moves: "concat (map (desc_moves dir) (take (length bs) ds3)) = zip (ms_bytes ms) (addr_range ep (ms_total ms))"
    if step
  proof -
    have "map (desc_moves dir) (take (length bs) ds3) = map block_moves bs"
      using lens by (intro nth_equalityI) (simp_all add: rd)
    then show ?thesis
      using that sg_blocks_moves [OF es(3) hd tot', of "force \<and> \<not> user" ep] es(1)
      by (simp add: bs_def dma_bytes_ms)
  qed
  have fixed: "card_addr dir (ds3 ! i) = ep" if "\<not> step" "i < length bs" for i
    using rd(3) [OF that(2)] sg_blocks_fixed_ep [where b = "bs ! i" and ep = ep]
      nth_mem [OF that(2)] that(1) by (simp add: bs_def)
  have bound: "0 < unat (d_bytes (ds3 ! i)) \<and> unat (d_bytes (ds3 ! i)) \<le> XDMA_DESC_MAX_BYTES"
    if "list_all (\<lambda>(a, l). 0 < unat l \<and> unat l \<le> 4096) ms" "i < length bs" for i
  proof -
    have "list_all (\<lambda>e. 0 < unat (sg_dma_len e) \<and> unat (sg_dma_len e) \<le> 4096) es"
      using that(1) unfolding es(1) [symmetric] by (simp add: list.pred_map o_def)
    from sg_blocks_bounds [OF this, of 0 "bs ! i" step "force \<and> \<not> user" a0 a0 ep]
    show ?thesis using rd(2) [OF that(2)] nth_mem [OF that(2)] by (simp add: bs_def)
  qed
  have fill: "transfer_fill env x sgm ep dir ni force user w =
       Some (x\<lparr>t_sgm := Some sgm', sgl_nents := int (length ms),
               desc_virt := Some ds3, desc_bus := bus, desc_num := length bs, desc_adjacent := length bs\<rparr>,
             emit (Alloc (ObjDesc (length ms) bus)) w1)"
  proof -
    have map: "pci_map_sg env sgm w = (int (length ms), sgm', w1)"
      by (simp add: pci_map_sg_def Let_def ms sgm'_def w1_def)
    have alloc: "xdma_desc_alloc env (int (length ms)) w1
        = Some (Some (ds0, bus), emit (Alloc (ObjDesc (length ms) bus)) w1)"
    proof -
      have "\<not> int (length ms) < 1" using ne by (cases ms) simp_all
      moreover have "dma_alloc env (trace w1) (nat (int (length ms)) * sizeof_xdma_desc) = Some bus"
        using bus by (simp add: w1_def sizeof_xdma_desc_def)
      ultimately show ?thesis
        unfolding xdma_desc_alloc_def ds0_def us_def by (simp add: bug_on_def)
    qed
    have tb: "transfer_build x1 ep dir ni force user
        = Some (length bs - 1, x1\<lparr>desc_virt := Some (write_blocks dir 0 bs ds0)\<rparr>)"
      if "t_sgm x1 = Some sgm'" "desc_virt x1 = Some ds0" "sgl_nents x1 = int (length ms)" for x1
    proof -
      have "nat (max 1 (int (length ms))) = length ms" using ne by (cases ms) simp_all
      moreover have ls: "length ms \<le> length (sgl sgm')"
        using le unfolding sgm'_def by simp
      moreover have "sgl sgm' \<noteq> []"
        using ls ne by (cases "sgl sgm'") simp_all
      ultimately show ?thesis
        using that es build ne by (simp add: transfer_build_def Let_def es_def [symmetric] a0_def step_def)
    qed
    have same: "(if user then transfer_perf y l else do {
           y \<leftarrow> upd_transfer_desc l (\<lambda>d. Some (xdma_desc_link d None)) y;
           upd_transfer_desc l (\<lambda>d. xdma_desc_control d last_desc_control) y }) = transfer_perf y l" for y l
      by (simp add: transfer_perf_def)
    have l: "Suc (length bs - 1) = length bs" using bsl by (cases bs) simp_all
    show ?thesis
      unfolding transfer_fill_def map Let_def prod.case alloc Option.bind.simps same
      using ds2(1) ds3(1) l by (simp add: tb transfer_perf_finish del: adjacent_loop.simps)
  qed
  show ?thesis
  proof (rule that [of "length bs" ds3])
    fix x' :: xdma_transfer
    assume x': "desc_virt x' = Some ds3" "desc_num x' = length bs" "desc_bus x' = bus"
      "sgl_nents x' = int (length ms)"
    show "transfer_ready x' dir ep (\<not> user \<or> \<not> ni) ms"
      unfolding transfer_ready_def
      using x' ds3(2-4) ds2(2) ldm host moves fixed bound by (simp add: step_def)
  qed (use fill in \<open>simp add: sgm'_def w1_def\<close>)
qed

text \<open>A cooperative kernel: memory is there, the pages of the buffer are pinned, coherent
  memory is page aligned, and \<open>pci_map_sg\<close> maps as many bytes as the list has.\<close>

definition kernel_good :: "kenv \<Rightarrow> bool" where
  "kernel_good env \<longleftrightarrow> (\<forall>tr ob. mem_ok env tr ob)
     \<and> (\<forall>tr a n u. 0 \<le> n \<longrightarrow> fst (user_pages env tr a n u) = n
          \<and> length (snd (user_pages env tr a n u)) = nat n)
     \<and> (\<forall>tr n. \<exists>b. dma_alloc env tr n = Some b \<and> unat b mod 4096 = 0)
     \<and> (\<forall>tr ss. ss \<noteq> [] \<longrightarrow> map_sg env tr ss \<noteq> [] \<and> length (map_sg env tr ss) \<le> length ss
          \<and> ms_total (map_sg env tr ss) = sum_list (map (unat \<circ> sg_length) ss))"

lemma env0_good: "kernel_good env0"
  by (auto simp: kernel_good_def env0_def ms_total_def o_def)

lemma emits_world [simp]:
  "transfers (emits evs w) = transfers w" "next_tid (emits evs w) = next_tid w"
  "transfers (emit ev w) = transfers w" "next_tid (emit ev w) = next_tid w"
  "transfers (kfree ob w) = transfers w" "next_tid (kfree ob w) = next_tid w"
  by (simp_all add: emits_def emit_def kfree_def)

lemma put_transfer_world [simp]:
  "transfers (put_transfer t x w) = (transfers w)(t \<mapsto> x)"
  "next_tid (put_transfer t x w) = next_tid w" "trace (put_transfer t x w) = trace w"
  by (simp_all add: put_transfer_def)

text \<open>The list \<open>ms\<close> comes from the buffer of \<open>cnt\<close> bytes at \<open>start\<close>: \<open>get_user_pages\<close> was asked,
  after the events \<open>tr\<close>, for the pages from that address on, and \<open>pci_map_sg\<close> was given a list
  that enumerates the bytes of the buffer in the pages it returned.\<close>

definition maps_buffer :: "kenv \<Rightarrow> event list \<Rightarrow> u64 \<Rightarrow> nat \<Rightarrow> bool \<Rightarrow> (u64 \<times> u32) list \<Rightarrow> bool" where
  "maps_buffer env tr start cnt dir ms \<longleftrightarrow>
     (let n = (unat start mod 4096 + cnt - 1) div 4096 + 1;
          pgs = snd (user_pages env tr start (int n) (\<not> dir))
      in length pgs = n \<and> (\<exists>es. list_all sg_in_page es \<and> length es = n
           \<and> sgl_bytes es = buffer_bytes pgs (unat start mod 4096) cnt
           \<and> ms = map_sg env (tr @ [GetPages start (int n) pgs]) es))"

text \<open>Where the bytes of the user's address space are, when its page table \<open>pt\<close> (virtual page to
  page) and the bus addresses \<open>pb\<close> of pages do not change: \<open>get_user_pages\<close> answers from \<open>pt\<close>, and
  \<open>pci_map_sg\<close> returns ranges, merged or not, that enumerate the bus addresses of the listed bytes.
  \<open>host_byte pt pb v\<close> is the bus address of the byte at user address \<open>v\<close>.\<close>

definition host_map :: "kenv \<Rightarrow> (nat \<Rightarrow> nat) \<Rightarrow> (nat \<Rightarrow> u64) \<Rightarrow> bool" where
  "host_map env pt pb \<longleftrightarrow>
     (\<forall>tr a n u. snd (user_pages env tr a n u) = map pt [unat a div 4096 ..< unat a div 4096 + nat n])
   \<and> (\<forall>tr es. list_all sg_in_page es
        \<longrightarrow> ms_bytes (map_sg env tr es) = map (\<lambda>(p, k). pb p + of_nat k) (sgl_bytes es))"

definition host_byte :: "(nat \<Rightarrow> nat) \<Rightarrow> (nat \<Rightarrow> u64) \<Rightarrow> nat \<Rightarrow> u64" where
  "host_byte pt pb v = pb (pt (v div 4096)) + of_nat (v mod 4096)"

lemma maps_buffer_bytes:
  assumes "maps_buffer env tr start cnt dir ms" "host_map env pt pb"
  shows "ms_bytes ms = map (host_byte pt pb) [unat start ..< unat start + cnt]"
proof -
  define s n where "s = unat start" and "n = (s mod 4096 + cnt - 1) div 4096 + 1"
  define pgs where "pgs = snd (user_pages env tr start (int n) (\<not> dir))"
  obtain es where es: "list_all sg_in_page es" "sgl_bytes es = buffer_bytes pgs (s mod 4096) cnt"
    "ms = map_sg env (tr @ [GetPages start (int n) pgs]) es"
    using assms(1) unfolding maps_buffer_def Let_def s_def [symmetric] n_def [symmetric] pgs_def [symmetric] by blast
  have pgs: "pgs = map pt [s div 4096 ..< s div 4096 + n]"
    using assms(2) by (simp add: pgs_def host_map_def s_def)
  have byte: "pgs ! ((s mod 4096 + k) div 4096) = pt ((s + k) div 4096)" if "k < cnt" for k
  proof -
    have "s mod 4096 + k \<le> s mod 4096 + cnt - 1" using that by simp
    then have "(s mod 4096 + k) div 4096 < n" unfolding n_def by (simp add: div_le_mono less_Suc_eq_le)
    moreover have "(s + k) div 4096 = s div 4096 + (s mod 4096 + k) div 4096"
    proof -
      have "s + k = s mod 4096 + k + s div 4096 * 4096" by simp
      then show ?thesis by (metis add.commute div_mult_self1 zero_neq_numeral)
    qed
    ultimately show ?thesis by (simp add: pgs)
  qed
  have "ms_bytes ms = map (\<lambda>(p, k). pb p + of_nat k) (buffer_bytes pgs (s mod 4096) cnt)"
    using assms(2) es unfolding host_map_def by simp
  also have "\<dots> = map (host_byte pt pb) (map (\<lambda>k. s + k) [0 ..< cnt])"
    by (simp add: buffer_bytes_def host_byte_def byte mod_add_left_eq)
  also have "map (\<lambda>k. s + k) [0 ..< cnt] = [s ..< s + cnt]"
    by (simp add: add.commute [of s] map_add_upt)
  finally show ?thesis by (simp add: s_def)
qed

lemma env0_host_map: "host_map env0 id (\<lambda>p. of_nat p * 4096)"
proof -
  have "snd (user_pages env0 tr a n u) = map id [unat a div 4096 ..< unat a div 4096 + nat n]" for tr a n u
    by (simp add: env0_def unat_drop_bit_eq map_add_upt [symmetric] add.commute)
  moreover have "ms_bytes (map_sg env0 tr es) = map (\<lambda>(p, k). of_nat p * 4096 + of_nat k) (sgl_bytes es)" for tr es
    by (induction es) (simp_all add: env0_def ms_bytes_def sg_bytes_def addr_range_def)
  ultimately show ?thesis by (simp add: host_map_def)
qed

text \<open>The host addresses a transfer reads or writes, and its byte moves, in the order of its
  descriptors.\<close>

definition host_side :: "bool \<Rightarrow> xdma_transfer \<Rightarrow> u64 list" where
  "host_side dir x = concat (map (\<lambda>d. addr_range (host_addr dir d) (unat (d_bytes d)))
     (take (desc_num x) (case desc_virt x of None \<Rightarrow> [] | Some ds \<Rightarrow> ds)))"

definition transfer_moves :: "bool \<Rightarrow> xdma_transfer \<Rightarrow> (u64 \<times> u64) list" where
  "transfer_moves dir x = concat (map (desc_moves dir)
     (take (desc_num x) (case desc_virt x of None \<Rightarrow> [] | Some ds \<Rightarrow> ds)))"

lemma transfer_ready_sides:
  assumes "transfer_ready x dir ep step_ep ms"
  shows "host_side dir x = ms_bytes ms"
    and "step_ep \<Longrightarrow> transfer_moves dir x = zip (ms_bytes ms) (addr_range ep (ms_total ms))"
  using assms by (auto simp: transfer_ready_def host_side_def transfer_moves_def)

lemma create_mapper_run:
  assumes "kernel_good env" "0 < unat cnt" "unat cnt div 4096 + 2 < 2 ^ 31"
  shows "\<exists>sgm. sg_create_mapper env cnt w
      = (Some sgm, emit (Alloc ObjSgl) (emit (Alloc ObjSgPages) (emit (Alloc ObjSgm) w)))
    \<and> max_pages sgm = int (unat cnt div 4096 + 2) \<and> mapped_pages sgm = 0"
proof -
  have ne: "cnt \<noteq> 0" using assms(2) by auto
  have m: "mem_ok env tr ob" for tr ob using assms(1) by (simp add: kernel_good_def)
  have d: "unat (cnt div PAGE_SIZE) = unat cnt div 4096" by (simp add: unat_div PAGE_SIZE_def)
  then have "unat (cnt div PAGE_SIZE) + unat (2 :: u64) < 2 ^ LENGTH(64)" using assms(3) by simp
  then have u: "unat (cnt div PAGE_SIZE + 2) = unat cnt div 4096 + 2"
    using unat_add_small d by fastforce
  have "sint (ucast (cnt div PAGE_SIZE + 2) :: u32) = int (unat cnt div 4096 + 2)"
    using sint_ucast_small [of "cnt div PAGE_SIZE + 2"] u assms(3) by simp
  then show ?thesis
    using ne m by (simp add: sg_create_mapper_def kalloc_def Let_def)
qed

lemma nr_pages_le_max:
  assumes "0 < (c :: nat)" shows "(s mod 4096 + c - 1) div 4096 + 1 \<le> c div 4096 + 2"
proof -
  have "s mod 4096 + c - 1 \<le> c + 4096" by (simp add: less_imp_le)
  then have "(s mod 4096 + c - 1) div 4096 \<le> (c + 4096) div 4096" by (rule div_le_mono)
  then show ?thesis by simp
qed

lemma set_dma_sgl_bytes:
  assumes "length ms \<le> n"
  shows "sgl_bytes (take n (set_dma ms ss)) = sgl_bytes (take n ss)"
    and "list_all sg_in_page (take n (set_dma ms ss)) = list_all sg_in_page (take n ss)"
proof -
  let ?f = "\<lambda>s. (sg_page s, sg_offset s, sg_length s)"
  have b: "sgl_bytes xs = concat (map ((\<lambda>(p, off, l). map (\<lambda>k. (p, unat off + k)) [0 ..< unat l]) \<circ> ?f) xs)" for xs
    by (simp add: sgl_bytes_def sg_bytes_def [abs_def] o_def)
  have q: "list_all sg_in_page xs
      = list_all (\<lambda>(p, off, l). 0 < unat l \<and> unat off + unat l \<le> 4096) (map ?f xs)" for xs
    by (simp add: list.pred_map o_def sg_in_page_def [abs_def])
  show "sgl_bytes (take n (set_dma ms ss)) = sgl_bytes (take n ss)"
    unfolding b using set_dma_keeps [OF assms, of ss] by (simp flip: map_map)
  show "list_all sg_in_page (take n (set_dma ms ss)) = list_all sg_in_page (take n ss)"
    unfolding q set_dma_keeps [OF assms] ..
qed

lemma sgm_holds_set_dma:
  "sgm_holds sgm pgs off c \<Longrightarrow> length ms \<le> length pgs \<Longrightarrow>
    sgm_holds (sgm\<lparr>sgl := set_dma ms (sgl sgm)\<rparr>) pgs off c"
  by (simp add: sgm_holds_def set_dma_sgl_bytes)

theorem transfer_create_user_run:
  assumes good: "kernel_good env"
    and cnt: "0 < unat cnt" "unat cnt < 2 ^ 31" "unat start + unat cnt < 2 ^ 64"
  obtains x sgm pgs ms bus n w' where
    "transfer_create env start cnt ep dir ni force True w = Some (Some (next_tid w), w')"
    "transfers w' = (transfers w)(next_tid w \<mapsto> x)" "next_tid w' = Suc (next_tid w)"
    "trace w' = trace w @ [Alloc (ObjTransfer (next_tid w)), Alloc ObjSgm, Alloc ObjSgPages, Alloc ObjSgl,
       GetPages start n pgs, MapSg (length ms), Alloc (ObjDesc (length ms) bus)]"
    "transfer_ready x dir ep (\<not> ni) ms" "ms_total ms = unat cnt"
    "t_sgm x = Some sgm" "sgm_holds sgm pgs (unat start mod 4096) (unat cnt)"
    "sgl_nents x = int (length ms)" "desc_bus x = bus" "desc_virt x \<noteq> None"
    "t_dir_to_dev x = dir" "userspace x" "t_state x = TRANSFER_STATE_NEW" "iocb x = None"
    "\<not> t_cyclic x" "0 < desc_num x" "length ms \<le> unat cnt div 4096 + 2"
    "maps_buffer env (trace w @ [Alloc (ObjTransfer (next_tid w)), Alloc ObjSgm, Alloc ObjSgPages, Alloc ObjSgl])
       start (unat cnt) dir ms"
proof -
  let ?t = "next_tid w"
  define w0 where "w0 = put_transfer ?t transfer0 (emit (Alloc (ObjTransfer ?t)) w\<lparr>next_tid := Suc ?t\<rparr>)"
  have al: "alloc_transfer env w = (Some ?t, w0)"
    using good by (simp add: alloc_transfer_def kernel_good_def kalloc_def w0_def Let_def)
  have small: "unat cnt div 4096 + 2 < 2 ^ 31" using cnt(2) by simp
  obtain sgm0 where c: "sg_create_mapper env cnt w0
      = (Some sgm0, emit (Alloc ObjSgl) (emit (Alloc ObjSgPages) (emit (Alloc ObjSgm) w0)))"
    "max_pages sgm0 = int (unat cnt div 4096 + 2)" "mapped_pages sgm0 = 0"
    using create_mapper_run [OF good cnt(1) small] by blast
  define w1 where "w1 = emit (Alloc ObjSgl) (emit (Alloc ObjSgPages) (emit (Alloc ObjSgm) w0))"
  define n where "n = (unat start mod 4096 + unat cnt - 1) div 4096 + 1"
  have n: "n \<le> unat cnt div 4096 + 2" using nr_pages_le_max [OF cnt(1)] by (simp add: n_def)
  obtain rc pgs where up: "user_pages env (trace w1) start (int n) (\<not> dir) = (rc, pgs)"
    by fastforce
  have rc: "rc = int n" "length pgs = n"
    using good up unfolding kernel_good_def by (metis fst_conv snd_conv of_nat_0_le_iff nat_int)+
  obtain sgm1 where g: "sgm_get_user_pages env sgm0 start cnt (\<not> dir) w1
      = Some (int n, sgm1, emit (GetPages start (int n) pgs) w1)"
    "sgm_holds sgm1 pgs (unat start mod 4096) (unat cnt)"
  proof -
    have "mapped_pages sgm0 \<le> 0" "n < 2 ^ 31" "int n \<le> max_pages sgm0" "length pgs = nat rc"
      using c n small rc by simp_all
    from get_user_pages_run(1) [OF this(1) cnt(1,3) n_def this(2,3) up this(4) rc(1)]
    show ?thesis using that by blast
  qed
  define w2 where "w2 = emit (GetPages start (int n) pgs) w1"
  have held: "mapped_pages sgm1 = int n" "n \<le> length (sgl sgm1)"
    using g(2) rc(2) by (auto simp: sgm_holds_def min_def split: if_splits)
  have n0: "0 < n" by (simp add: n_def)
  let ?ss = "take n (sgl sgm1)"
  have ss: "?ss \<noteq> []" "length ?ss = n" using held n0 by auto
  define ms where "ms = map_sg env (trace w2) ?ss"
  have ms: "ms \<noteq> []" "length ms \<le> n" "ms_total ms = sum_list (map (unat \<circ> sg_length) ?ss)"
    using good ss unfolding kernel_good_def ms_def by metis+
  have tot: "ms_total ms = unat cnt"
    using ms(3) g(2) rc(2) length_sgl_bytes [of ?ss] by (simp add: sgm_holds_def buffer_bytes_def)
  obtain bus where bus: "dma_alloc env (trace w2 @ [MapSg (length ms)]) (length ms * 32) = Some bus"
    "unat bus mod 4096 = 0"
    using good unfolding kernel_good_def by metis
  have "unat bus mod 4096 mod 32 = unat bus mod 32" by (rule mod_mod_cancel) simp
  then have al32: "unat bus mod 32 = 0" using bus(2) by simp
  define x0 where "x0 = transfer0\<lparr>t_dir_to_dev := dir, userspace := True\<rparr>"
  obtain m ds where f: "transfer_fill env x0 sgm1 ep dir ni force True w2 =
       Some (x0\<lparr>t_sgm := Some (sgm1\<lparr>sgl := set_dma ms (sgl sgm1)\<rparr>), sgl_nents := int (length ms),
               desc_virt := Some ds, desc_bus := bus, desc_num := m, desc_adjacent := m\<rparr>,
             emit (Alloc (ObjDesc (length ms) bus)) (emit (MapSg (length ms)) w2))"
    "\<And>x'. desc_virt x' = Some ds \<Longrightarrow> desc_num x' = m \<Longrightarrow> desc_bus x' = bus
       \<Longrightarrow> sgl_nents x' = int (length ms) \<Longrightarrow> transfer_ready x' dir ep (\<not> True \<or> \<not> ni) ms"
    by (rule transfer_fill_ok [of env w2 sgm1 ms bus x0 ep dir ni force True])
      (use held ms tot cnt(2) bus al32 in \<open>simp_all add: ms_def\<close>)
  define x where "x = x0\<lparr>t_sgm := Some (sgm1\<lparr>sgl := set_dma ms (sgl sgm1)\<rparr>), sgl_nents := int (length ms),
               desc_virt := Some ds, desc_bus := bus, desc_num := m, desc_adjacent := m\<rparr>"
  define w3 where "w3 = put_transfer ?t x (emit (Alloc (ObjDesc (length ms) bus)) (emit (MapSg (length ms)) w2))"
  have run: "transfer_create env start cnt ep dir ni force True w = Some (Some ?t, w3)"
    using c g(1) f(1) held(1) n0
    by (simp add: transfer_create_def al w1_def [symmetric] w2_def [symmetric] x0_def [symmetric]
        x_def [symmetric] w3_def)
  have ready: "transfer_ready x dir ep (\<not> ni) ms"
    using f(2) [of x] by (simp add: x_def)
  show ?thesis
  proof (rule that [OF run _ _ _ ready tot])
    show "sgm_holds (sgm1\<lparr>sgl := set_dma ms (sgl sgm1)\<rparr>) pgs (unat start mod 4096) (unat cnt)"
      using sgm_holds_set_dma [OF g(2)] ms(2) rc(2) by simp
    show "0 < desc_num x" using ready by (auto simp: transfer_ready_def desc_chain_def)
    show "length ms \<le> unat cnt div 4096 + 2" using ms(2) n by simp
    have tr1: "trace w @ [Alloc (ObjTransfer ?t), Alloc ObjSgm, Alloc ObjSgPages, Alloc ObjSgl] = trace w1"
      by (simp add: w1_def w0_def)
    have "sgl_bytes ?ss = buffer_bytes pgs (unat start mod 4096) (unat cnt)" "list_all sg_in_page ?ss"
      using g(2) rc(2) by (simp_all add: sgm_holds_def)
    then show "maps_buffer env (trace w @ [Alloc (ObjTransfer ?t), Alloc ObjSgm, Alloc ObjSgPages, Alloc ObjSgl])
        start (unat cnt) dir ms"
      unfolding maps_buffer_def tr1 Let_def n_def [symmetric]
      using up rc(2) ss(2) by (auto simp: ms_def w2_def intro!: exI [of _ ?ss])
  qed (auto simp: w3_def w2_def w1_def w0_def x_def x0_def transfer0_def)
qed

subsection \<open>transfer\_destroy\<close>

text \<open>What \<open>transfer_destroy\<close> needs: a descriptor array, and for a user buffer the pinned
  pages in its page array.\<close>

definition destroyable :: "xdma_transfer \<Rightarrow> bool" where
  "destroyable x \<longleftrightarrow> desc_virt x \<noteq> None \<and> 0 \<le> sgl_nents x
     \<and> (\<forall>sgm. t_sgm x = Some sgm \<longrightarrow> userspace x
          \<longrightarrow> those (take (nat (mapped_pages sgm)) (sg_pages sgm)) \<noteq> None)"

lemma put_user_pages_events:
  assumes "those (take (nat (mapped_pages sgm)) (sg_pages sgm)) = Some pgs"
  shows "sgm_put_user_pages sgm dirtied w = Some (0, sgm\<lparr>mapped_pages := 0\<rparr>,
    emits (map PutPage pgs) (if dirtied then emits (map DirtyPage pgs) w else w))"
  using assms by (simp add: sgm_put_user_pages_def sgm_dirty_pages_def put_pages_def)

lemma free_transfer_world [simp]:
  "transfers (free_transfer t w) = (transfers w)(t := None)"
  "next_tid (free_transfer t w) = next_tid w"
  "trace (free_transfer t w) = trace w @ [Free (ObjTransfer t)]"
  by (simp_all add: free_transfer_def)

lemma io_writes_pure [simp]:
  "io_writes (map PutPage ps) = []" "io_writes (map DirtyPage ps) = []"
  by (induction ps) simp_all

lemma pure_events [simp]:
  "allocs (map PutPage ps) = []" "allocs (map DirtyPage ps) = []"
  "frees (map PutPage ps) = []" "frees (map DirtyPage ps) = []"
  by (induction ps) simp_all

lemma transfer_destroy_run:
  assumes x: "transfers w t = Some x" and d: "destroyable x"
  obtains evs w' where "transfer_destroy t w = Some ((), w')"
    "transfers w' = (transfers w)(t := None)" "next_tid w' = next_tid w" "trace w' = trace w @ evs"
    "io_writes evs = []" "allocs evs = []" "pinned evs = []"
    "frees evs = (if t_sgm x = None then [] else [ObjSgl, ObjSgPages, ObjSgm])
       @ [ObjDesc (nat (sgl_nents x)) (desc_bus x), ObjTransfer t]"
    "\<And>sgm pgs. t_sgm x = Some sgm \<Longrightarrow> userspace x
       \<Longrightarrow> those (take (nat (mapped_pages sgm)) (sg_pages sgm)) = Some pgs \<Longrightarrow> unpinned evs = pgs"
proof -
  obtain ds where ds: "desc_virt x = Some ds" using d by (auto simp: destroyable_def)
  have nents: "\<not> sgl_nents x < 0" using d by (simp add: destroyable_def)
  define fin where "fin = (\<lambda>u. free_transfer t (kfree (ObjDesc (nat (sgl_nents x)) (desc_bus x)) u)
    :: 'a world_scheme)"
  define fevs where "fevs = [Free (ObjDesc (nat (sgl_nents x)) (desc_bus x)), Free (ObjTransfer t)]"
  show ?thesis
  proof (cases "t_sgm x")
    case None
    show ?thesis
    proof (rule that [of "fin w" fevs])
      show "transfer_destroy t w = Some ((), fin w)"
        using x ds nents None by (simp add: transfer_destroy_def xdma_desc_free_def fin_def)
    qed (use None in \<open>simp_all add: fin_def fevs_def\<close>)
  next
    case (Some sgm)
    define unm where "unm = UnmapSg (nat (mapped_pages sgm)) (t_dir_to_dev x)"
    define sg_free where "sg_free = (\<lambda>u. kfree ObjSgm (kfree ObjSgPages (kfree ObjSgl u)) :: 'a world_scheme)"
    define sevs where "sevs = [Free ObjSgl, Free ObjSgPages, Free ObjSgm]"
    show ?thesis
    proof (cases "userspace x")
      case False
      show ?thesis
      proof (rule that [of "fin (sg_free (emit unm w))" "unm # sevs @ fevs"])
        show "transfer_destroy t w = Some ((), fin (sg_free (emit unm w)))"
          using x ds nents Some False
          by (simp add: transfer_destroy_def xdma_desc_free_def fin_def sg_destroy_mapper_def sg_free_def unm_def)
      qed (use Some False in \<open>simp_all add: fin_def fevs_def sevs_def sg_free_def unm_def\<close>)
    next
      case True
      then obtain pgs where pgs: "those (take (nat (mapped_pages sgm)) (sg_pages sgm)) = Some pgs"
        using d Some by (auto simp: destroyable_def)
      define dirty where "dirty = (if t_dir_to_dev x then [] else map DirtyPage pgs)"
      define w1 where "w1 = emits (map PutPage pgs) (if \<not> t_dir_to_dev x then emits (map DirtyPage pgs) (emit unm w) else emit unm w)"
      show ?thesis
      proof (rule that [of "fin (sg_free w1)" "unm # dirty @ map PutPage pgs @ sevs @ fevs"])
        show "transfer_destroy t w = Some ((), fin (sg_free w1))"
          using x ds nents Some True put_user_pages_events [OF pgs, of "\<not> t_dir_to_dev x" "emit unm w"]
          by (simp add: transfer_destroy_def xdma_desc_free_def fin_def sg_destroy_mapper_def sg_free_def
              unm_def w1_def)
      qed (use Some True pgs in \<open>simp_all add: fin_def fevs_def sevs_def sg_free_def unm_def w1_def dirty_def\<close>)
    qed
  qed
qed

subsection \<open>Properties\<close>

definition world0 :: world where
  "world0 = \<lparr>trace = [], transfers = Map.empty, next_tid = 0\<rparr>"

lemma write_blocks_maps:
  assumes "length bs \<le> length ds"
  shows "map (\<lambda>d. addr_range (host_addr dir d) (unat (d_bytes d))) (take (length bs) (write_blocks dir 0 bs ds)) = map block_host bs"
    and "map (desc_moves dir) (take (length bs) (write_blocks dir 0 bs ds)) = map block_moves bs"
proof -
  have tk: "take (length bs) (write_blocks dir 0 bs ds) = map2 (\<lambda>(a, ep, l) d. xdma_desc_set d a ep l dir) bs ds"
    using assms by (simp add: write_blocks_def)
  show "map (\<lambda>d. addr_range (host_addr dir d) (unat (d_bytes d))) (take (length bs) (write_blocks dir 0 bs ds)) = map block_host bs"
    using assms unfolding tk by (intro nth_equalityI) (auto simp: block_host_def split: prod.splits)
  show "map (desc_moves dir) (take (length bs) (write_blocks dir 0 bs ds)) = map block_moves bs"
    using assms unfolding tk by (intro nth_equalityI) (auto simp: desc_moves_def block_moves_def split: prod.splits)
qed

text \<open>C14: over any mapped scatterlist of less than 4 GB, the merge loop of \<open>transfer_build\<close>
  writes descriptors that move exactly the mapped bytes in order, to consecutive card
  addresses when the address increments; with entries of at most a page no descriptor is
  empty or longer than the hardware limit.\<close>

theorem transfer_build_loop_moves:
  assumes "es \<noteq> []" "length es \<le> length ds" "dma_total es < 2 ^ 32"
  shows "\<exists>lst ds'. transfer_build_loop dir step_ep force (int (length es)) es
             (sg_dma_address (hd es)) (sg_dma_address (hd es)) 0 ep 0 ds = Some (lst, ds')
    \<and> lst < length es \<and> length ds' = length ds
    \<and> concat (map (\<lambda>d. addr_range (host_addr dir d) (unat (d_bytes d))) (take (Suc lst) ds')) = dma_bytes es
    \<and> (step_ep \<longrightarrow> concat (map (desc_moves dir) (take (Suc lst) ds')) = zip (dma_bytes es) (addr_range ep (dma_total es)))
    \<and> (\<not> step_ep \<longrightarrow> (\<forall>i\<le>lst. card_addr dir (ds' ! i) = ep))
    \<and> (list_all (\<lambda>e. 0 < unat (sg_dma_len e) \<and> unat (sg_dma_len e) \<le> 4096) es \<longrightarrow>
         (\<forall>i\<le>lst. 0 < unat (d_bytes (ds' ! i)) \<and> unat (d_bytes (ds' ! i)) \<le> XDMA_DESC_MAX_BYTES))"
proof -
  let ?a = "sg_dma_address (hd es)"
  define bs where "bs = sg_blocks step_ep force es ?a ?a 0 ep"
  have bl: "0 < length bs" "length bs \<le> length es"
    using sg_blocks_length [OF assms(1)] by (simp_all add: bs_def)
  then have ld: "length bs \<le> length ds" using assms(2) by simp
  note wb = write_blocks_facts [OF ld, where dir = dir]
  have loop: "transfer_build_loop dir step_ep force (int (length es)) es ?a ?a 0 ep 0 ds
      = Some (length bs - 1, write_blocks dir 0 bs ds)"
    using transfer_build_loop_blocks [of es 0 ds "int (length es)" dir step_ep force ?a ?a 0 ep] assms(1,2)
    by (simp add: bs_def Let_def)
  have hyps: "?a = ?a + ucast (0 :: u32)" "unat (0 :: u32) + dma_total es < 2 ^ 32" using assms(3) by simp_all
  have S: "Suc (length bs - 1) = length bs" using bl by simp
  note host = write_blocks_maps(1) [OF ld, where dir = dir] and mv = write_blocks_maps(2) [OF ld, where dir = dir]
  have idx: "i < length bs" if "i \<le> length bs - 1" for i using that bl(1) by linarith
  show ?thesis
  proof (intro exI conjI impI allI)
    show "transfer_build_loop dir step_ep force (int (length es)) es ?a ?a 0 ep 0 ds
      = Some (length bs - 1, write_blocks dir 0 bs ds)" by (rule loop)
    show "length bs - 1 < length es" using bl by linarith
    show "length (write_blocks dir 0 bs ds) = length ds" by (rule wb(1))
    show "concat (map (\<lambda>d. addr_range (host_addr dir d) (unat (d_bytes d)))
        (take (Suc (length bs - 1)) (write_blocks dir 0 bs ds))) = dma_bytes es"
      unfolding S host unfolding bs_def using sg_blocks_host [OF assms(1) refl hyps] by simp
    show "concat (map (desc_moves dir) (take (Suc (length bs - 1)) (write_blocks dir 0 bs ds)))
        = zip (dma_bytes es) (addr_range ep (dma_total es))" if step_ep
      unfolding S mv using that sg_blocks_moves [OF assms(1) refl hyps] by (simp add: bs_def)
    show "card_addr dir (write_blocks dir 0 bs ds ! i) = ep" if "\<not> step_ep" "i \<le> length bs - 1" for i
    proof -
      have "bs ! i \<in> set (sg_blocks False force es ?a ?a 0 ep)"
        using nth_mem [OF idx [OF that(2)]] that(1) by (simp add: bs_def)
      then have "fst (snd (bs ! i)) = ep" by (rule sg_blocks_fixed_ep)
      then show ?thesis by (simp add: wb(2) [OF idx [OF that(2)]])
    qed
    fix i assume le: "list_all (\<lambda>e. 0 < unat (sg_dma_len e) \<and> unat (sg_dma_len e) \<le> 4096) es" and i: "i \<le> length bs - 1"
    have "bs ! i \<in> set (sg_blocks step_ep force es ?a ?a 0 ep)"
      using nth_mem [OF idx [OF i]] by (simp add: bs_def)
    from sg_blocks_bounds [OF le _ this]
    show "0 < unat (d_bytes (write_blocks dir 0 bs ds ! i))"
      "unat (d_bytes (write_blocks dir 0 bs ds ! i)) \<le> XDMA_DESC_MAX_BYTES"
      by (simp_all add: wb(2) [OF idx [OF i]])
  qed
qed

definition two_entries :: "scatterlist list" where
  "two_entries = [sg_entry0\<lparr>sg_dma_address := 0x1000, sg_dma_len := 2\<rparr>,
                  sg_entry0\<lparr>sg_dma_address := 0x9000, sg_dma_len := 1\<rparr>]"

lemma transfer_build_loop_moves_witness:
  "\<exists>lst ds'. transfer_build_loop True True False 2 two_entries 0x1000 0x1000 0 0x40 0
      [uninit_desc env0 [] 0, uninit_desc env0 [] 1] = Some (lst, ds')
    \<and> lst < 2 \<and> concat (map (desc_moves True) (take (Suc lst) ds')) = [(0x1000, 0x40), (0x1001, 0x41), (0x9000, 0x42)]"
proof -
  have "two_entries \<noteq> []" "length two_entries \<le> length [uninit_desc env0 [] 0, uninit_desc env0 [] 1]"
    "dma_total two_entries < 2 ^ 32" "hd two_entries = two_entries ! 0"
    by (simp_all add: two_entries_def sg_entry0_def)
  from transfer_build_loop_moves [OF this(1-3), of True True False "0x40"] show ?thesis
    by (auto simp: two_entries_def sg_entry0_def addr_range_def upt_rec)
qed

text \<open>C1: \<open>transfer_create\<close> for a user buffer of up to 2 GB delivers, in a cooperative kernel: it
  returns a new transfer whose descriptors form a chain the card can walk and move, in order,
  exactly what \<open>pci_map_sg\<close> returned for the pages \<open>get_user_pages\<close> gave for this buffer. With the page
  table \<open>pt\<close> and the bus addresses \<open>pb\<close> of its pages, the host addresses of the descriptors are the
  bus addresses of the bytes \<open>start\<close>, \<open>start + 1\<close>, up to the end of the buffer, and each goes to or
  from the card address as far from \<open>ep\<close> (unless the card address is fixed).\<close>

theorem transfer_create_delivers:
  assumes "kernel_good env" "0 < unat cnt" "unat cnt < 2 ^ 31" "unat start + unat cnt < 2 ^ 64"
  shows "\<exists>x ms w'. transfer_create env start cnt ep dir ni force True w = Some (Some (next_tid w), w')
    \<and> transfers w' = (transfers w)(next_tid w \<mapsto> x)
    \<and> transfer_ready x dir ep (\<not> ni) ms \<and> ms_total ms = unat cnt
    \<and> maps_buffer env (trace w @ [Alloc (ObjTransfer (next_tid w)), Alloc ObjSgm, Alloc ObjSgPages, Alloc ObjSgl])
        start (unat cnt) dir ms
    \<and> (\<forall>pt pb. host_map env pt pb \<longrightarrow>
         host_side dir x = map (host_byte pt pb) [unat start ..< unat start + unat cnt]
       \<and> (\<not> ni \<longrightarrow> transfer_moves dir x
            = zip (map (host_byte pt pb) [unat start ..< unat start + unat cnt]) (addr_range ep (unat cnt))))"
proof -
  obtain x ms w' where r: "transfer_create env start cnt ep dir ni force True w = Some (Some (next_tid w), w')"
    "transfers w' = (transfers w)(next_tid w \<mapsto> x)" "transfer_ready x dir ep (\<not> ni) ms" "ms_total ms = unat cnt"
    "maps_buffer env (trace w @ [Alloc (ObjTransfer (next_tid w)), Alloc ObjSgm, Alloc ObjSgPages, Alloc ObjSgl])
       start (unat cnt) dir ms"
    by (rule transfer_create_user_run [OF assms, of ep dir ni force w]) blast
  note sides = transfer_ready_sides [OF r(3)] and bytes = maps_buffer_bytes [OF r(5)]
  show ?thesis
    by (intro exI [of _ x] exI [of _ ms] exI [of _ w'] conjI allI impI)
      (simp_all only: r sides bytes not_False_eq_True)
qed

lemma transfer_create_delivers_witness:
  "\<exists>x ms w'. transfer_create env0 0x1010 0x1800 0x40 True False False True world0 = Some (Some 0, w')
    \<and> transfers w' = [0 \<mapsto> x] \<and> transfer_ready x True 0x40 True ms \<and> ms_total ms = 0x1800
    \<and> transfer_moves True x = zip (map (host_byte id (\<lambda>p. of_nat p * 4096)) [0x1010 ..< 0x2810]) (addr_range 0x40 0x1800)"
proof -
  have "0 < unat (0x1800 :: u64)" "unat (0x1800 :: u64) < 2 ^ 31" "unat (0x1010 :: u64) + unat (0x1800 :: u64) < 2 ^ 64"
    by simp_all
  from transfer_create_delivers [OF env0_good this, of "0x40" True False False world0] obtain x ms w' where r:
    "transfer_create env0 0x1010 0x1800 0x40 True False False True world0 = Some (Some (next_tid world0), w')"
    "transfers w' = (transfers world0)(next_tid world0 \<mapsto> x)" "transfer_ready x True 0x40 (\<not> False) ms"
    "ms_total ms = unat (0x1800 :: u64)"
    "\<forall>pt pb. host_map env0 pt pb \<longrightarrow>
         host_side True x = map (host_byte pt pb) [unat (0x1010 :: u64) ..< unat (0x1010 :: u64) + unat (0x1800 :: u64)]
       \<and> (\<not> False \<longrightarrow> transfer_moves True x
            = zip (map (host_byte pt pb) [unat (0x1010 :: u64) ..< unat (0x1010 :: u64) + unat (0x1800 :: u64)])
                (addr_range 0x40 (unat (0x1800 :: u64))))"
    by blast
  have "unat (0x1010 :: u64) = 0x1010" "unat (0x1800 :: u64) = 0x1800" "(0x1010 :: nat) + 0x1800 = 0x2810" by simp_all
  with r(1-4) r(5) [rule_format, OF env0_host_map] show ?thesis
    by (intro exI [of _ x] exI [of _ ms] exI [of _ w']) (simp only: world0_def world.simps kworld.simps not_False_eq_True simp_thms)
qed

text \<open>C5: the card can walk what \<open>transfer_create\<close> built: starting at the bus address of the
  list it fetches exactly the \<open>desc_num\<close> descriptors in array order and stops, however many
  fetches it is allowed, because the last of them has the STOPPED flag; every adjacency count
  stays inside the list and inside the 4 kB page of the next descriptor.\<close>

theorem transfer_create_fetch_order:
  assumes "kernel_good env" "0 < unat cnt" "unat cnt < 2 ^ 31" "unat start + unat cnt < 2 ^ 64"
  shows "\<exists>x ds w'. transfer_create env start cnt ep dir ni force True w = Some (Some (next_tid w), w')
    \<and> transfers w' (next_tid w) = Some x \<and> desc_virt x = Some ds
    \<and> (\<forall>f\<ge>desc_num x. card_fetch f (desc_bus x) ds (desc_bus x) = Some [0 ..< desc_num x])
    \<and> adjacency_safe (desc_bus x) (desc_num x) ds"
proof -
  obtain x ms w' where r: "transfer_create env start cnt ep dir ni force True w = Some (Some (next_tid w), w')"
    "transfers w' = (transfers w)(next_tid w \<mapsto> x)" "transfer_ready x dir ep (\<not> ni) ms"
    "length ms \<le> unat cnt div 4096 + 2"
    by (rule transfer_create_user_run [OF assms, of ep dir ni force w]) blast
  then obtain ds where ds: "desc_virt x = Some ds" "length ds = length ms"
    "desc_chain (desc_bus x) (desc_num x) ds" "adjacency_safe (desc_bus x) (desc_num x) ds"
    by (auto simp: transfer_ready_def)
  have "length ds * 32 < 2 ^ 64" using ds(2) r(4) assms(3) by simp
  then show ?thesis using r(1,2) ds card_fetch_chain [OF ds(3)] by simp
qed

lemma transfer_create_fetch_order_witness:
  "\<exists>x ds w'. transfer_create env0 0x1010 0x1800 0x40 False True False True world0 = Some (Some 0, w')
    \<and> transfers w' 0 = Some x \<and> desc_virt x = Some ds
    \<and> (\<forall>f\<ge>desc_num x. card_fetch f (desc_bus x) ds (desc_bus x) = Some [0 ..< desc_num x])
    \<and> adjacency_safe (desc_bus x) (desc_num x) ds"
  using transfer_create_fetch_order [OF env0_good, of "0x1800" "0x1010" "0x40" False True False world0]
  by (simp add: world0_def)

lemma sgm_holds_pages:
  "sgm_holds sgm pgs off c \<Longrightarrow> those (take (nat (mapped_pages sgm)) (sg_pages sgm)) = Some pgs"
  by (simp add: sgm_holds_def)

text \<open>C19: \<open>transfer_destroy\<close> undoes \<open>transfer_create\<close>: after the two, every kernel object that was
  allocated has been freed as often, every page that was pinned has been released, and the
  heap of transfers is the old one.\<close>

theorem transfer_create_destroy_balanced:
  assumes "kernel_good env" "0 < unat cnt" "unat cnt < 2 ^ 31" "unat start + unat cnt < 2 ^ 64"
    and "transfers w (next_tid w) = None"
  shows "\<exists>w1 w2 evs. transfer_create env start cnt ep dir ni force True w = Some (Some (next_tid w), w1)
    \<and> transfer_destroy (next_tid w) w1 = Some ((), w2) \<and> transfers w2 = transfers w
    \<and> trace w2 = trace w @ evs \<and> unpinned evs = pinned evs
    \<and> (\<forall>ob. count_list (allocs evs) ob = count_list (frees evs) ob)"
proof -
  let ?t = "next_tid w"
  obtain x sgm pgs and ms :: "(u64 \<times> u32) list" and bus n w1 where r:
    "transfer_create env start cnt ep dir ni force True w = Some (Some ?t, w1)"
    "transfers w1 = (transfers w)(?t \<mapsto> x)"
    "trace w1 = trace w @ [Alloc (ObjTransfer ?t), Alloc ObjSgm, Alloc ObjSgPages, Alloc ObjSgl,
       GetPages start n pgs, MapSg (length ms), Alloc (ObjDesc (length ms) bus)]"
    "t_sgm x = Some sgm" "sgm_holds sgm pgs (unat start mod 4096) (unat cnt)"
    "sgl_nents x = int (length ms)" "desc_bus x = bus" "desc_virt x \<noteq> None" "userspace x"
    by (rule transfer_create_user_run [OF assms(1-4), of ep dir ni force w]) (rule that, assumption+)
  have x1: "transfers w1 ?t = Some x" using r(2) by simp
  have d: "destroyable x" using r sgm_holds_pages [OF r(5)] by (simp add: destroyable_def)
  obtain evs w2 where e: "transfer_destroy ?t w1 = Some ((), w2)" "transfers w2 = (transfers w1)(?t := None)"
    "trace w2 = trace w1 @ evs" "allocs evs = []" "pinned evs = []"
    "frees evs = (if t_sgm x = None then [] else [ObjSgl, ObjSgPages, ObjSgm])
       @ [ObjDesc (nat (sgl_nents x)) (desc_bus x), ObjTransfer ?t]"
    "\<And>sgm pgs. t_sgm x = Some sgm \<Longrightarrow> userspace x
       \<Longrightarrow> those (take (nat (mapped_pages sgm)) (sg_pages sgm)) = Some pgs \<Longrightarrow> unpinned evs = pgs"
    by (rule transfer_destroy_run [OF x1 d]) blast
  have up: "unpinned evs = pgs" by (rule e(7) [OF r(4,9) sgm_holds_pages [OF r(5)]])
  have "transfers w2 = transfers w" using e(2) r(2) assms(5) by auto
  then show ?thesis
    using r(1,3,4,6,7) e(1,3-6) up by (intro exI [of _ w1] exI [of _ w2]) auto
qed

lemma transfer_create_destroy_balanced_witness:
  "\<exists>w1 w2 evs. transfer_create env0 0x1010 0x1800 0x40 False False False True world0 = Some (Some 0, w1)
    \<and> transfer_destroy 0 w1 = Some ((), w2) \<and> transfers w2 = Map.empty
    \<and> trace w2 = evs \<and> unpinned evs = pinned evs
    \<and> (\<forall>ob. count_list (allocs evs) ob = count_list (frees evs) ob)"
  using transfer_create_destroy_balanced [OF env0_good, of "0x1800" "0x1010" world0 "0x40" False False False]
  by (simp add: world0_def)

text \<open>a user buffer that is not mapped stops the kernel: when \<open>get_user_pages_fast\<close> cannot pin
  every page, \<open>transfer_create\<close> runs into \<open>BUG_ON(rc < 0)\<close> instead of returning an error to
  the caller.\<close>

theorem transfer_create_bad_buffer_stops:
  assumes "\<And>tr ob. mem_ok env tr ob" "0 < unat cnt" "unat cnt < 2 ^ 31" "unat start + unat cnt < 2 ^ 64"
    and "\<And>tr n u. 0 < n \<Longrightarrow> fst (user_pages env tr start n u) < n
           \<and> length (snd (user_pages env tr start n u)) = nat (fst (user_pages env tr start n u))"
  shows "transfer_create env start cnt ep dir ni force True w = None"
proof -
  let ?t = "next_tid w"
  define w0 where "w0 = put_transfer ?t transfer0 (emit (Alloc (ObjTransfer ?t)) w\<lparr>next_tid := Suc ?t\<rparr>)"
  have al: "alloc_transfer env w = (Some ?t, w0)"
    using assms(1) by (simp add: alloc_transfer_def kalloc_def w0_def Let_def)
  have ne: "cnt \<noteq> 0" using assms(2) by auto
  have d: "unat (cnt div PAGE_SIZE) = unat cnt div 4096" by (simp add: unat_div PAGE_SIZE_def)
  then have "unat (cnt div PAGE_SIZE) + unat (2 :: u64) < 2 ^ LENGTH(64)" using assms(3) by simp
  then have u: "unat (cnt div PAGE_SIZE + 2) = unat cnt div 4096 + 2"
    using unat_add_small d by fastforce
  define mp where "mp = sint (ucast (cnt div PAGE_SIZE + 2) :: u32)"
  have mp: "mp = int (unat cnt div 4096 + 2)"
    using sint_ucast_small [of "cnt div PAGE_SIZE + 2"] u assms(3) by (simp add: mp_def)
  define sgm0 where "sgm0 = \<lparr>sgl = replicate (nat mp) sg_entry0, sg_pages = replicate (nat mp) None,
      max_pages = mp, mapped_pages = 0\<rparr>"
  define w1 where "w1 = emit (Alloc ObjSgl) (emit (Alloc ObjSgPages) (emit (Alloc ObjSgm) w0))"
  have c: "sg_create_mapper env cnt w0 = (Some sgm0, w1)"
    using ne assms(1) by (simp add: sg_create_mapper_def kalloc_def Let_def sgm0_def w1_def mp_def)
  define n where "n = (unat start mod 4096 + unat cnt - 1) div 4096 + 1"
  have n: "n \<le> unat cnt div 4096 + 2" "0 < n" using nr_pages_le_max [OF assms(2)] by (simp_all add: n_def)
  obtain rc got where up: "user_pages env (trace w1) start (int n) (\<not> dir) = (rc, got)" by fastforce
  have rc: "rc < int n" "length got = nat rc" using assms(5) [of "int n" "trace w1" "\<not> dir"] n(2) up by simp_all
  have pre: "mapped_pages sgm0 \<le> 0" "n < 2 ^ 31" "int n \<le> max_pages sgm0"
    using n(1) assms(3) mp by (simp_all add: sgm0_def)
  obtain sgm' w' where "sgm_get_user_pages env sgm0 start cnt (\<not> dir) w1 = Some (- ENOMEM, sgm', w')"
    using get_user_pages_run(2) [OF pre(1) assms(2,4) n_def pre(2,3) up rc(2,1)] by blast
  then show ?thesis by (simp add: transfer_create_def al c)
qed

lemma transfer_create_bad_buffer_stops_witness:
  "transfer_create (env0\<lparr>user_pages := \<lambda>_ _ _ _. (- 14, [])\<rparr>) 0x1010 0x1800 0x40 True False False True world0 = None"
  by (rule transfer_create_bad_buffer_stops) (simp_all add: env0_def)

end
