(* ===== verification/Engine.thy ===== *)
theory Engine
  imports Dma_Transfer
begin

section \<open>The SG DMA engine\<close>

text \<open>
  \<open>struct xdma_engine\<close> and the operations that start, stop, queue on and service an
  engine. An operation takes the engine record and the world and returns them updated; the
  transfer queue is the list of identifiers of the transfers in the heap of the world. A
  spinlock is a flag: taking a taken one never returns, which is \<open>None\<close>.
\<close>

subsection \<open>State\<close>

record xdma_performance_ioctl =
  p_version :: u32
  p_transfer_size :: u32
  p_stopped :: u32
  p_iterations :: u32
  p_clock_cycle_count :: u64
  p_data_cycle_count :: u64
  p_pending_count :: u64

record xdma_engine =
  e_magic :: u64
  e_regs :: addr
  e_sgdma_regs :: addr
  bypass_offset :: u32
  shutdown :: u32
  running :: bool
  streaming :: bool
  non_incr_addr :: bool
  dir_to_dev :: bool
  addr_align :: u32
  len_granularity :: u32
  addr_bits :: u32
  channel :: nat
  number_in_channel :: nat
  desc_dequeued :: u32
  status :: u32
  interrupt_enable_mask_value :: u32
  transfer_list :: "nat list"
  e_sgm :: "sg_mapping_t option"
  rx_tail :: nat
  rx_head :: nat
  rx_overrun :: bool
  rx_buffer :: "u64 option"
  rx_transfer_cyclic :: "nat option"
  rx_result_buffer :: "(u32 \<times> u32) list option"
  rx_result_buffer_bus :: u64
  poll_mode_wb :: "u32 option"
  poll_mode_bus :: u64
  locked :: bool
  msix_irq_line :: u32
  irq_bitmask :: u32
  xdma_perf :: "xdma_performance_ioctl option"
  eop_found :: bool
  user_buffer_index :: nat

definition MAGIC_ENGINE :: u64 where "MAGIC_ENGINE = 0xEEEEEEEE"
definition ENGINE_SHUTDOWN_NONE :: u32 where "ENGINE_SHUTDOWN_NONE = 0"
definition ENGINE_SHUTDOWN_REQUEST :: u32 where "ENGINE_SHUTDOWN_REQUEST = 1"
definition ENGINE_SHUTDOWN_IDLE :: u32 where "ENGINE_SHUTDOWN_IDLE = 2"
definition NUM_POLLS_PER_SCHED :: nat where "NUM_POLLS_PER_SCHED = 100"

text \<open>\<open>kzalloc\<close> of an engine, with its magic set.\<close>

definition engine0 :: xdma_engine where
  "engine0 = \<lparr>e_magic = MAGIC_ENGINE, e_regs = 0, e_sgdma_regs = 0, bypass_offset = 0,
     shutdown = 0, running = False, streaming = False, non_incr_addr = False, dir_to_dev = False,
     addr_align = 0, len_granularity = 0, addr_bits = 0, channel = 0, number_in_channel = 0,
     desc_dequeued = 0, status = 0, interrupt_enable_mask_value = 0, transfer_list = [],
     e_sgm = None, rx_tail = 0, rx_head = 0, rx_overrun = False, rx_buffer = None,
     rx_transfer_cyclic = None, rx_result_buffer = None, rx_result_buffer_bus = 0,
     poll_mode_wb = None, poll_mode_bus = 0, locked = False, msix_irq_line = 0, irq_bitmask = 0,
     xdma_perf = None, eop_found = False, user_buffer_index = 0\<rparr>"

definition spin_lock :: "xdma_engine \<Rightarrow> xdma_engine option" where
  "spin_lock e = (if locked e then None else Some (e\<lparr>locked := True\<rparr>))"

definition spin_unlock :: "xdma_engine \<Rightarrow> xdma_engine" where
  "spin_unlock e = e\<lparr>locked := False\<rparr>"

subsection \<open>Alignment capabilities\<close>

definition engine_alignments ::
  "kenv \<Rightarrow> xdma_engine \<Rightarrow> 'w kworld_scheme \<Rightarrow> xdma_engine \<times> 'w kworld_scheme" where
  "engine_alignments env e w =
    (let (v, w) = read_register env (engine_alignments_reg (e_regs e)) w;
         align_bytes = drop_bit 16 (v AND 0x00ff0000);
         granularity_bytes = drop_bit 8 (v AND 0x0000ff00);
         address_bits = v AND 0x000000ff
     in if v \<noteq> 0
        then (e\<lparr>addr_align := align_bytes, len_granularity := granularity_bytes,
                addr_bits := address_bits\<rparr>, w)
        else (e\<lparr>addr_align := 1, len_granularity := 1, addr_bits := 64\<rparr>, w))"

subsection \<open>Status, stop, start\<close>

definition engine_status_read ::
  "kenv \<Rightarrow> bool \<Rightarrow> xdma_engine \<Rightarrow> 'w kworld_scheme \<Rightarrow> u32 \<times> xdma_engine \<times> 'w kworld_scheme" where
  "engine_status_read env clear e w =
    (let (value, w) = read_register env
           (if clear then engine_status_rc (e_regs e) else engine_status_reg (e_regs e)) w
     in (value, e\<lparr>status := value\<rparr>, w))"

definition stop_word :: "kenv \<Rightarrow> xdma_engine \<Rightarrow> u32" where
  "stop_word env e =
    (let w = 0;
         w = w OR XDMA_CTRL_IE_DESC_ALIGN_MISMATCH;
         w = w OR XDMA_CTRL_IE_MAGIC_STOPPED;
         w = w OR XDMA_CTRL_IE_READ_ERROR;
         w = w OR XDMA_CTRL_IE_DESC_ERROR
     in if poll_mode env then w OR XDMA_CTRL_POLL_MODE_WB
        else
          let w = w OR XDMA_CTRL_IE_DESC_STOPPED;
              w = w OR XDMA_CTRL_IE_DESC_COMPLETED
          in if (streaming e \<and> \<not> dir_to_dev e) \<or> xdma_perf e \<noteq> None
             then w OR XDMA_CTRL_IE_IDLE_STOPPED else w)"

definition xdma_engine_stop :: "kenv \<Rightarrow> xdma_engine \<Rightarrow> 'w kworld_scheme \<Rightarrow> 'w kworld_scheme" where
  "xdma_engine_stop env e w = write_register (stop_word env e) (engine_control (e_regs e)) w"

definition start_word :: "kenv \<Rightarrow> xdma_engine \<Rightarrow> u32" where
  "start_word env e =
    (let w = XDMA_CTRL_RUN_STOP;
         w = w OR XDMA_CTRL_IE_READ_ERROR;
         w = w OR XDMA_CTRL_IE_DESC_ERROR;
         w = w OR XDMA_CTRL_IE_DESC_ALIGN_MISMATCH;
         w = w OR XDMA_CTRL_IE_MAGIC_STOPPED
     in if poll_mode env then w OR XDMA_CTRL_POLL_MODE_WB
        else
          let w = w OR XDMA_CTRL_IE_DESC_STOPPED;
              w = w OR XDMA_CTRL_IE_DESC_COMPLETED;
              w = (if streaming e \<and> \<not> dir_to_dev e then w OR XDMA_CTRL_IE_IDLE_STOPPED else w);
              w = (if xdma_perf e \<noteq> None then w OR XDMA_CTRL_IE_IDLE_STOPPED else w)
          in if non_incr_addr e then w OR XDMA_CTRL_NON_INCR_ADDR else w)"

definition perf_interrupt_word :: u32 where
  "perf_interrupt_word =
    (let w = XDMA_CTRL_IE_DESC_STOPPED;
         w = w OR XDMA_CTRL_IE_DESC_COMPLETED;
         w = w OR XDMA_CTRL_IE_DESC_ALIGN_MISMATCH;
         w = w OR XDMA_CTRL_IE_MAGIC_STOPPED;
         w = w OR XDMA_CTRL_IE_IDLE_STOPPED;
         w = w OR XDMA_CTRL_IE_READ_ERROR
     in w OR XDMA_CTRL_IE_DESC_ERROR)"

definition engine_start_mode_config ::
  "kenv \<Rightarrow> xdma_engine \<Rightarrow> 'w kworld_scheme \<Rightarrow> 'w kworld_scheme" where
  "engine_start_mode_config env e w =
    (let w = (if xdma_perf e \<noteq> None
              then write_register perf_interrupt_word (engine_interrupt_enable_mask (e_regs e)) w
              else w);
         w = write_register (start_word env e) (engine_control (e_regs e)) w;
         (_, w) = read_register env (engine_status_reg (e_regs e)) w
     in w)"

definition engine_start ::
  "kenv \<Rightarrow> xdma_engine \<Rightarrow> 'w world_scheme \<Rightarrow> (nat \<times> xdma_engine \<times> 'w world_scheme) option" where
  "engine_start env e w = do {
     bug_on (running e);
     case transfer_list e of
       [] \<Rightarrow> None
     | t # _ \<Rightarrow> do {
         x \<leftarrow> transfers w t;
         let e = e\<lparr>shutdown := ENGINE_SHUTDOWN_NONE\<rparr>;
         let e = e\<lparr>desc_dequeued := 0\<rparr>;
         let w = write_register (PCI_DMA_L (desc_bus x)) (sgdma_first_desc_lo (e_sgdma_regs e)) w;
         let w = write_register (PCI_DMA_H (desc_bus x)) (sgdma_first_desc_hi (e_sgdma_regs e)) w;
         let extra_adj = (if desc_adjacent x > 0 then
                            (if desc_adjacent x - 1 > MAX_EXTRA_ADJ then MAX_EXTRA_ADJ
                             else desc_adjacent x - 1)
                          else 0);
         let w = write_register (of_nat extra_adj) (sgdma_first_desc_adjacent (e_sgdma_regs e)) w;
         let w = engine_start_mode_config env e w;
         Some (t, e\<lparr>running := True\<rparr>, w) } }"

text \<open>Stop the cyclic transfer at the head of the queue; NULL when the queue is empty.\<close>

definition engine_cyclic_stop ::
  "kenv \<Rightarrow> xdma_engine \<Rightarrow> 'w world_scheme \<Rightarrow> (nat option \<times> 'w world_scheme) option" where
  "engine_cyclic_stop env e w =
    (case transfer_list e of
       [] \<Rightarrow> Some (None, w)
     | t # _ \<Rightarrow> do {
         x \<leftarrow> transfers w t;
         let w = xdma_engine_stop env e w;
         (if t_cyclic x then do {
            x \<leftarrow> upd_last_desc
                  (\<lambda>d. xdma_desc_control d (XDMA_DESC_COMPLETED OR XDMA_DESC_STOPPED)) x;
            Some (Some t, put_transfer t x w) }
          else Some (Some t, w)) })"

subsection \<open>Servicing a stopped engine\<close>

definition engine_service_shutdown ::
  "kenv \<Rightarrow> xdma_engine \<Rightarrow> 'w kworld_scheme \<Rightarrow> xdma_engine \<times> 'w kworld_scheme" where
  "engine_service_shutdown env e w =
    (let w = xdma_engine_stop env e w;
         e = e\<lparr>running := False\<rparr>
     in (e, emit (WakeUp WqShutdown) w))"

text \<open>\<open>list_del\<close> of the first transfer of the queue.\<close>

definition dequeue_head :: "xdma_engine \<Rightarrow> xdma_engine" where
  "dequeue_head e = e\<lparr>transfer_list := tl (transfer_list e)\<rparr>"

definition engine_transfer_dequeue :: "xdma_engine \<Rightarrow> xdma_engine option" where
  "engine_transfer_dequeue e = (case transfer_list e of
     [] \<Rightarrow> None
   | t # _ \<Rightarrow> do { bug_on (Some t \<noteq> rx_transfer_cyclic e); Some (dequeue_head e) })"

text \<open>The transfer that is left for the caller: NULL once an asynchronous one is freed.\<close>

definition engine_transfer_completion ::
  "nat \<Rightarrow> 'w world_scheme \<Rightarrow> (nat option \<times> 'w world_scheme) option" where
  "engine_transfer_completion t w = do {
     x \<leftarrow> transfers w t;
     (case iocb x of
        Some k \<Rightarrow>
          if last_in_request x then do {
            let done = size_of_request x;
            (_, w) \<leftarrow> transfer_destroy t w;
            Some (None, emit (AioComplete k done) w) }
          else Some (Some t, emit (WakeUp (WqTransfer t)) w)
      | None \<Rightarrow> Some (Some t, emit (WakeUp (WqTransfer t)) w)) }"

definition set_state :: "nat \<Rightarrow> transfer_state \<Rightarrow> 'w world_scheme \<Rightarrow> 'w world_scheme option" where
  "set_state t st w = do { x \<leftarrow> transfers w t; Some (put_transfer t (x\<lparr>t_state := st\<rparr>) w) }"

text \<open>The loop over the completed transfers but the last; its first argument is the queue.\<close>

fun service_list_loop ::
  "nat list \<Rightarrow> xdma_engine \<Rightarrow> u32 \<Rightarrow> 'w world_scheme
   \<Rightarrow> (nat option \<times> u32 \<times> xdma_engine \<times> 'w world_scheme) option" where
  "service_list_loop [] e desc_completed w = Some (None, desc_completed, e, w)"
| "service_list_loop (t # ts) e desc_completed w = do {
     x \<leftarrow> transfers w t;
     if \<not> t_cyclic x \<and> desc_completed > of_nat (desc_num x) then do {
       let desc_completed = desc_completed - of_nat (desc_num x);
       let e = e\<lparr>transfer_list := ts\<rparr>;
       let e = e\<lparr>desc_dequeued := desc_dequeued e + of_nat (desc_num x)\<rparr>;
       w \<leftarrow> set_state t TRANSFER_STATE_COMPLETED w;
       (_, w) \<leftarrow> engine_transfer_completion t w;
       service_list_loop ts e desc_completed w }
     else Some (Some t, desc_completed, e, w) }"

definition engine_service_transfer_list ::
  "xdma_engine \<Rightarrow> nat option \<Rightarrow> u32 \<Rightarrow> 'w world_scheme
   \<Rightarrow> (nat option \<times> u32 \<times> xdma_engine \<times> 'w world_scheme) option" where
  "engine_service_transfer_list e transfer desc_completed w = do {
     bug_on (transfer = None);
     service_list_loop (transfer_list e) e desc_completed w }"

definition engine_err_handle ::
  "kenv \<Rightarrow> xdma_engine \<Rightarrow> nat \<Rightarrow> 'w world_scheme \<Rightarrow> 'w world_scheme option" where
  "engine_err_handle env e t w = do {
     let w = (if bits_set (status e) XDMA_STAT_BUSY
              then snd (read_register env (engine_status_reg (e_regs e)) w) else w);
     w \<leftarrow> set_state t TRANSFER_STATE_FAILED w;
     Some (xdma_engine_stop env e w) }"

definition err_flags :: u32 where
  "err_flags = XDMA_STAT_MAGIC_STOPPED OR XDMA_STAT_ALIGN_MISMATCH OR XDMA_STAT_READ_ERROR
     OR XDMA_STAT_DESC_ERROR"

definition engine_service_final_transfer ::
  "kenv \<Rightarrow> xdma_engine \<Rightarrow> nat option \<Rightarrow> u32 \<Rightarrow> 'w world_scheme
   \<Rightarrow> (nat option \<times> xdma_engine \<times> 'w world_scheme) option" where
  "engine_service_final_transfer env e transfer desc_completed w =
    (case transfer of
       None \<Rightarrow> None
     | Some t \<Rightarrow>
         if bits_set (status e) err_flags then do {
           w \<leftarrow> engine_err_handle env e t w;
           Some (Some t, e, w) }
         else do {
           x \<leftarrow> transfers w t;
           w \<leftarrow> (if desc_completed < of_nat (desc_num x)
                 then set_state t TRANSFER_STATE_FAILED w
                 else set_state t TRANSFER_STATE_COMPLETED w);
           let e = dequeue_head e;
           let e = e\<lparr>desc_dequeued := desc_dequeued e + of_nat (desc_num x)\<rparr>;
           (r, w) \<leftarrow> engine_transfer_completion t w;
           Some (r, e, w) })"

definition engine_service_perf ::
  "xdma_engine \<Rightarrow> u32 \<Rightarrow> 'w kworld_scheme \<Rightarrow> xdma_engine \<times> 'w kworld_scheme" where
  "engine_service_perf e desc_completed w = (case xdma_perf e of
     None \<Rightarrow> (e, w)
   | Some p \<Rightarrow>
       (let p = (if bits_set (status e) XDMA_STAT_DESC_COMPLETED
                 then p\<lparr>p_iterations := desc_completed\<rparr> else p)
        in if bits_set (status e) XDMA_STAT_DESC_STOPPED
           then (e\<lparr>xdma_perf := Some (p\<lparr>p_stopped := 1\<rparr>)\<rparr>, emit (WakeUp WqPerf) w)
           else (e\<lparr>xdma_perf := Some p\<rparr>, w)))"

definition engine_service_resume ::
  "kenv \<Rightarrow> xdma_engine \<Rightarrow> 'w world_scheme \<Rightarrow> (xdma_engine \<times> 'w world_scheme) option" where
  "engine_service_resume env e w =
    (if \<not> running e then
       if bits_set (shutdown e) ENGINE_SHUTDOWN_REQUEST then
         Some (e\<lparr>shutdown := shutdown e OR ENGINE_SHUTDOWN_IDLE\<rparr>, emit (WakeUp WqShutdown) w)
       else if transfer_list e \<noteq> [] then do {
         (_, e, w) \<leftarrow> engine_start env e w;
         Some (e, w) }
       else Some (e, w)
     else Some (e, w))"

text \<open>\<open>engine_service\<close>: \<open>desc_writeback\<close> is the word found by polling, 0 from an
  interrupt. The result is the return code.\<close>

definition engine_service ::
  "kenv \<Rightarrow> u32 \<Rightarrow> xdma_engine \<Rightarrow> 'w world_scheme \<Rightarrow> (int \<times> xdma_engine \<times> 'w world_scheme) option"
where
  "engine_service env desc_writeback e w =
    (let desc_count = desc_writeback AND WB_COUNT_MASK;
         err_flag = desc_writeback AND WB_ERR_MASK;
         rc = (if err_flag \<noteq> 0 then - 1 else 0)
     in if \<not> running e then
          (if desc_writeback = 0 then
             (let (_, e, w) = engine_status_read env True e w in Some (0, e, w))
           else Some (0, e, w))
        else do {
          let (_, e, w) = (if desc_count = 0 \<or> err_flag \<noteq> 0
                           then engine_status_read env True e w else (0, e, w));
          let (e, w) = (if running e \<and> \<not> bits_set (status e) XDMA_STAT_BUSY \<or> desc_count \<noteq> 0
                        then engine_service_shutdown env e w else (e, w));
          let (desc_count, w) = (if desc_count = 0
                                 then read_register env (engine_completed_desc_count (e_regs e)) w
                                 else (desc_count, w));
          let (transfer, e, w) = (case transfer_list e of
              [] \<Rightarrow> (None, e, w)
            | t # _ \<Rightarrow> (let (e, w) = engine_service_perf e desc_count w in (Some t, e, w)));
          let desc_count = desc_count - desc_dequeued e;
          (transfer, desc_count, e, w) \<leftarrow> engine_service_transfer_list e transfer desc_count w;
          (_, e, w) \<leftarrow> engine_service_final_transfer env e transfer desc_count w;
          e \<leftarrow> (if poll_mode env then do { _ \<leftarrow> poll_mode_wb e; Some (e\<lparr>poll_mode_wb := Some 0\<rparr>) }
               else Some e);
          (e, w) \<leftarrow> engine_service_resume env e w;
          Some (rc, e, w) })"

subsection \<open>Queueing\<close>

definition transfer_queue ::
  "kenv \<Rightarrow> xdma_engine \<Rightarrow> nat \<Rightarrow> 'w world_scheme \<Rightarrow> (int \<times> xdma_engine \<times> 'w world_scheme) option"
where
  "transfer_queue env e t w = do {
     x \<leftarrow> transfers w t;
     bug_on (desc_num x = 0);
     e \<leftarrow> spin_lock e;
     if bits_set (shutdown e) ENGINE_SHUTDOWN_REQUEST then Some (- 1, spin_unlock e, w)
     else do {
       w \<leftarrow> set_state t TRANSFER_STATE_SUBMITTED w;
       let e = e\<lparr>transfer_list := transfer_list e @ [t]\<rparr>;
       (e, w) \<leftarrow> (if \<not> running e then do {
                    (_, e, w) \<leftarrow> engine_start env e w;
                    Some (e, w) }
                  else Some (e, w));
       Some (0, spin_unlock e, w) } }"

text \<open>The receive ring: follow the results the card has written, from \<open>rx_tail\<close>, until
  one is not written or the tail meets the head. The loop runs over the snapshot of the
  result buffer at the call; a tail outside the buffer is a stray read. It may run forever
  for a head outside the ring, so it is a partial function.\<close>

partial_function (option) ring_process_loop ::
  "(u32 \<times> u32) list \<Rightarrow> nat \<Rightarrow> nat \<Rightarrow> bool \<Rightarrow> nat \<Rightarrow> (nat \<times> bool \<times> nat) option" where
  "ring_process_loop result head tail overrun eop_count =
    (if tail < length result then
       if fst (result ! tail) \<noteq> 0 \<and> \<not> overrun then
         (let eop_count = (if bits_set (fst (result ! tail)) RX_STATUS_EOP then eop_count + 1
                           else eop_count);
              tail = (tail + 1) mod RX_BUF_PAGES;
              overrun = (if tail = head then True else overrun)
          in ring_process_loop result head tail overrun eop_count)
       else Some (tail, overrun, eop_count)
     else None)"

definition engine_ring_process :: "xdma_engine \<Rightarrow> (nat \<times> xdma_engine) option" where
  "engine_ring_process e = do {
     result \<leftarrow> rx_result_buffer e;
     (tail, ov, eop) \<leftarrow> ring_process_loop result (rx_head e) (rx_tail e) (rx_overrun e) 0;
     Some (eop, e\<lparr>rx_tail := tail, rx_overrun := ov\<rparr>) }"

text \<open>What the end of both cyclic service routines does: on an idle engine, drop the
  transfer and shut down.\<close>

definition cyclic_idle_check ::
  "kenv \<Rightarrow> xdma_engine \<Rightarrow> 'w kworld_scheme \<Rightarrow> (xdma_engine \<times> 'w kworld_scheme) option" where
  "cyclic_idle_check env e w =
    (if running e \<and> \<not> bits_set (status e) XDMA_STAT_BUSY then do {
       e \<leftarrow> (if transfer_list e \<noteq> [] then engine_transfer_dequeue e else Some e);
       Some (engine_service_shutdown env e w) }
     else Some (e, w))"

text \<open>The polling loop of the cyclic service: \<open>wb i\<close> and \<open>res i\<close> are the write-back word
  and the result buffer as the card has left them when poll \<open>i\<close> looks.\<close>

partial_function (option) cyclic_poll_loop ::
  "(nat \<Rightarrow> u32) \<Rightarrow> (nat \<Rightarrow> (u32 \<times> u32) list) \<Rightarrow> nat \<Rightarrow> nat \<Rightarrow> xdma_engine \<Rightarrow> 'w kworld_scheme
   \<Rightarrow> (int \<times> nat \<times> xdma_engine \<times> 'w kworld_scheme) option" where
  "cyclic_poll_loop wb res i eop_count e w =
    (if eop_count = 0 then
       (let w = (if i \<noteq> 0 \<and> i mod NUM_POLLS_PER_SCHED = 0 then emit Schedule w else w) in
        if bits_set (wb i) WB_ERR_MASK then Some (- 1, eop_count, e, w)
        else Option.bind (engine_ring_process (e\<lparr>rx_result_buffer := Some (res i)\<rparr>))
          (\<lambda>(eop, e). cyclic_poll_loop wb res (Suc i) eop e w))
     else Some (0, eop_count, e, w))"

definition engine_service_cyclic_polled ::
  "kenv \<Rightarrow> (nat \<Rightarrow> u32) \<Rightarrow> (nat \<Rightarrow> (u32 \<times> u32) list) \<Rightarrow> xdma_engine \<Rightarrow> 'w kworld_scheme
   \<Rightarrow> (int \<times> xdma_engine \<times> 'w kworld_scheme) option" where
  "engine_service_cyclic_polled env wb res e w = do {
     bug_on (e_magic e \<noteq> MAGIC_ENGINE);
     _ \<leftarrow> poll_mode_wb e;
     (rc, eop, e, w) \<leftarrow> cyclic_poll_loop wb res 0 0 e w;
     if eop = 0 then do {
       let (_, e, w) = engine_status_read env True e w;
       (e, w) \<leftarrow> cyclic_idle_check env e w;
       Some (rc, e, w) }
     else Some (rc, e, w) }"

definition engine_service_cyclic_interrupt ::
  "kenv \<Rightarrow> xdma_engine \<Rightarrow> 'w kworld_scheme \<Rightarrow> (int \<times> xdma_engine \<times> 'w kworld_scheme) option" where
  "engine_service_cyclic_interrupt env e w = do {
     bug_on (e_magic e \<noteq> MAGIC_ENGINE);
     let (_, e, w) = engine_status_read env True e w;
     (eop_count, e) \<leftarrow> engine_ring_process e;
     (e, w) \<leftarrow>
       (if enable_credit_mp env \<noteq> 0 then do {
          t \<leftarrow> rx_transfer_cyclic e;
          Some (e, emit (WakeUp (WqTransfer t)) w) }
        else if eop_count > 0 then do {
          let e = e\<lparr>eop_found := True\<rparr>;
          t \<leftarrow> rx_transfer_cyclic e;
          Some (e, emit (WakeUp (WqTransfer t)) w) }
        else Some (e, w));
     (e, w) \<leftarrow> cyclic_idle_check env e w;
     Some (0, e, w) }"

definition engine_service_cyclic ::
  "kenv \<Rightarrow> (nat \<Rightarrow> u32) \<Rightarrow> (nat \<Rightarrow> (u32 \<times> u32) list) \<Rightarrow> xdma_engine \<Rightarrow> 'w kworld_scheme
   \<Rightarrow> (int \<times> xdma_engine \<times> 'w kworld_scheme) option" where
  "engine_service_cyclic env wb res e w = do {
     bug_on (e_magic e \<noteq> MAGIC_ENGINE);
     if poll_mode env then engine_service_cyclic_polled env wb res e w
     else engine_service_cyclic_interrupt env e w }"

subsection \<open>Entry points: work queue and polling\<close>

text \<open>The bottom half: \<open>cfg\<close> and \<open>msix_enabled\<close> are fields of the parent device.\<close>

definition engine_service_work ::
  "kenv \<Rightarrow> addr \<Rightarrow> bool \<Rightarrow> (nat \<Rightarrow> u32) \<Rightarrow> (nat \<Rightarrow> (u32 \<times> u32) list) \<Rightarrow> xdma_engine
   \<Rightarrow> 'w world_scheme \<Rightarrow> (xdma_engine \<times> 'w world_scheme) option" where
  "engine_service_work env cfg msix_enabled wb res e w = do {
     bug_on (e_magic e \<noteq> MAGIC_ENGINE);
     e \<leftarrow> spin_lock e;
     (_, e, w) \<leftarrow> (if rx_transfer_cyclic e \<noteq> None then engine_service_cyclic env wb res e w
                 else engine_service env 0 e w);
     let w = (if msix_enabled
              then write_register (interrupt_enable_mask_value e)
                     (engine_interrupt_enable_mask_w1s (e_regs e)) w
              else channel_interrupts_enable cfg (irq_bitmask e) w);
     Some (spin_unlock e, w) }"

text \<open>Polling the write-back word: \<open>wb i\<close> is what look \<open>i\<close> finds, \<open>late i\<close> whether the
  ten seconds are over then.\<close>

partial_function (option) wb_monitor_loop ::
  "(nat \<Rightarrow> u32) \<Rightarrow> (nat \<Rightarrow> bool) \<Rightarrow> u32 \<Rightarrow> nat \<Rightarrow> 'w kworld_scheme \<Rightarrow> (u32 \<times> 'w kworld_scheme) option"
where
  "wb_monitor_loop wb late expected_wb i w =
    (let desc_wb = wb i in
     if bits_set desc_wb WB_ERR_MASK then Some (desc_wb, w)
     else if desc_wb = expected_wb then Some (desc_wb, w)
     else if late i then
       Some (if desc_wb AND WB_COUNT_MASK > expected_wb then expected_wb OR WB_ERR_MASK
             else desc_wb, w)
     else wb_monitor_loop wb late expected_wb (Suc i)
            (if i \<noteq> 0 \<and> i mod NUM_POLLS_PER_SCHED = 0 then emit Schedule w else w))"

definition engine_service_wb_monitor ::
  "(nat \<Rightarrow> u32) \<Rightarrow> (nat \<Rightarrow> bool) \<Rightarrow> xdma_engine \<Rightarrow> u32 \<Rightarrow> 'w kworld_scheme
   \<Rightarrow> (u32 \<times> 'w kworld_scheme) option" where
  "engine_service_wb_monitor wb late e expected_wb w =
    (if expected_wb \<noteq> 0 then do {
       _ \<leftarrow> poll_mode_wb e;
       wb_monitor_loop wb late expected_wb 0 w }
     else Some (0, w))"

definition engine_service_poll ::
  "kenv \<Rightarrow> (nat \<Rightarrow> u32) \<Rightarrow> (nat \<Rightarrow> bool) \<Rightarrow> (nat \<Rightarrow> (u32 \<times> u32) list) \<Rightarrow> u32 \<Rightarrow> xdma_engine
   \<Rightarrow> 'w world_scheme \<Rightarrow> (int \<times> xdma_engine \<times> 'w world_scheme) option" where
  "engine_service_poll env wb late res expected_desc_count e w = do {
     bug_on (e_magic e \<noteq> MAGIC_ENGINE);
     if expected_desc_count AND WB_COUNT_MASK \<noteq> expected_desc_count then Some (- 1, e, w)
     else do {
       (desc_wb, w) \<leftarrow> engine_service_wb_monitor wb late e expected_desc_count w;
       e \<leftarrow> spin_lock e;
       (rc, e, w) \<leftarrow> (if rx_transfer_cyclic e \<noteq> None then engine_service_cyclic env wb res e w
                     else engine_service env desc_wb e w);
       Some (rc, spin_unlock e, w) } }"

subsection \<open>Performance run\<close>

text \<open>Without coherent memory \<open>buffer_bus\<close> stays uninitialised; the code goes on.\<close>

fun perf_fill_loop :: "nat \<Rightarrow> nat \<Rightarrow> u64 \<Rightarrow> int \<Rightarrow> bool \<Rightarrow> xdma_desc list \<Rightarrow> xdma_desc list option" where
  "perf_fill_loop 0 i buffer_bus sz dir ds = Some ds"
| "perf_fill_loop (Suc n) i buffer_bus sz dir ds = do {
     ds \<leftarrow> upd_desc i (\<lambda>d. Some (xdma_desc_set d (buffer_bus + of_int (sz * int i)) 0
             (of_int sz) dir)) ds;
     perf_fill_loop n (Suc i) buffer_bus sz dir ds }"

definition xdma_performance_submit ::
  "kenv \<Rightarrow> xdma_engine \<Rightarrow> 'w world_scheme \<Rightarrow> (int \<times> xdma_engine \<times> 'w world_scheme) option" where
  "xdma_performance_submit env e w = do {
     p \<leftarrow> xdma_perf e;
     let max_consistent_size = (128 * 32 * 1024 :: int);
     let size_in_desc = sint (p_transfer_size p);
     bug_on ((of_int size_in_desc :: u32) > of_int max_consistent_size);
     let sz = size_in_desc * 128;
     let (sz, num) = (if sz > max_consistent_size
                        then (max_consistent_size, max_consistent_size div size_in_desc)
                        else (sz, 128));
     let (buffer_bus, w) = (case dma_alloc env (trace w) (nat sz) of
         Some b \<Rightarrow> (b, emit (Alloc (ObjDesc (nat sz) b)) w)
       | None \<Rightarrow> (join64 (uninit env (trace w) 1) (uninit env (trace w) 0), w));
     let (mt, w) = alloc_transfer env w;
     bug_on (mt = None);
     t \<leftarrow> mt;
     (dv, w) \<leftarrow> xdma_desc_alloc env num w;
     bug_on (dv = None);
     (ds, bus) \<leftarrow> dv;
     ds \<leftarrow> perf_fill_loop (nat num) 0 buffer_bus size_in_desc (dir_to_dev e) ds;
     ds \<leftarrow> upd_desc 0 (\<lambda>d. xdma_desc_control d 0) ds;
     ds \<leftarrow> upd_desc (nat num - 1) (\<lambda>d. Some (xdma_desc_link d (Some bus))) ds;
     let x = transfer0\<lparr>t_dir_to_dev := dir_to_dev e, desc_num := nat num, desc_virt := Some ds,
                       desc_bus := bus, t_cyclic := True\<rparr>;
     let w = put_transfer t x w;
     (_, e, w) \<leftarrow> transfer_queue env e t w;
     Some (0, e, w) }"

subsection \<open>Control words\<close>

lemmas word_bits_or = bit.conj_disj_distrib2 bit.conj_disj_distrib

text \<open>The start word is the stop word with RUN, and in interrupt mode with the address mode;
  in poll mode the address mode is lost.\<close>

lemma start_word_stop_word:
  "start_word env e = stop_word env e OR XDMA_CTRL_RUN_STOP
     OR (if non_incr_addr e \<and> \<not> poll_mode env then XDMA_CTRL_NON_INCR_ADDR else 0)"
  by (simp add: start_word_def stop_word_def ctrl_bits)

lemma stop_word_no_run: "\<not> bits_set (stop_word env e) XDMA_CTRL_RUN_STOP"
  by (simp add: stop_word_def ctrl_bits bits_set_def Let_def)

lemma start_word_addr_mode:
  "bits_set (start_word env e) XDMA_CTRL_NON_INCR_ADDR \<longleftrightarrow> non_incr_addr e \<and> \<not> poll_mode env"
  by (simp add: start_word_def ctrl_bits bits_set_def Let_def)

subsection \<open>What starting writes\<close>

lemma register_world [simp]:
  "transfers (write_register v a w) = transfers w" "next_tid (write_register v a w) = next_tid w"
  "transfers (snd (read_register env a w)) = transfers w"
  "next_tid (snd (read_register env a w)) = next_tid w"
  by (simp_all add: write_register_def read_register_def Let_def)

lemma mode_config_world [simp]:
  "transfers (engine_start_mode_config env e w) = transfers w"
  "next_tid (engine_start_mode_config env e w) = next_tid w"
  "io_writes (trace (engine_start_mode_config env e w)) = io_writes (trace w)
     @ (if xdma_perf e \<noteq> None then [(engine_interrupt_enable_mask (e_regs e), perf_interrupt_word)] else [])
     @ [(engine_control (e_regs e), start_word env e)]"
  by (simp_all add: engine_start_mode_config_def Let_def split_beta)

lemma engine_stop_world [simp]:
  "transfers (xdma_engine_stop env e w) = transfers w"
  "next_tid (xdma_engine_stop env e w) = next_tid w"
  "trace (xdma_engine_stop env e w) = trace w @ [IoWrite (engine_control (e_regs e)) (stop_word env e)]"
  by (simp_all add: xdma_engine_stop_def)

definition start_adj :: "xdma_transfer \<Rightarrow> nat" where
  "start_adj x = min (desc_adjacent x - 1) MAX_EXTRA_ADJ"

lemma start_word_frame [simp]:
  "start_word env (e\<lparr>shutdown := a, desc_dequeued := b\<rparr>) = start_word env e"
  by (simp add: start_word_def Let_def)

text \<open>The register writes that start the engine \<open>e\<close> on transfer \<open>x\<close>.\<close>

definition start_writes :: "kenv \<Rightarrow> xdma_engine \<Rightarrow> xdma_transfer \<Rightarrow> (addr \<times> u32) list" where
  "start_writes env e x =
     [(sgdma_first_desc_lo (e_sgdma_regs e), PCI_DMA_L (desc_bus x)),
      (sgdma_first_desc_hi (e_sgdma_regs e), PCI_DMA_H (desc_bus x)),
      (sgdma_first_desc_adjacent (e_sgdma_regs e), of_nat (start_adj x))]
     @ (if xdma_perf e \<noteq> None then [(engine_interrupt_enable_mask (e_regs e), perf_interrupt_word)] else [])
     @ [(engine_control (e_regs e), start_word env e)]"

lemma engine_start_run:
  assumes "\<not> running e" "transfer_list e = t # ts" "transfers w t = Some x"
  obtains w' where
    "engine_start env e w = Some (t, e\<lparr>shutdown := 0, desc_dequeued := 0, running := True\<rparr>, w')"
    "transfers w' = transfers w" "next_tid w' = next_tid w"
    "io_writes (trace w') = io_writes (trace w) @ start_writes env e x"
proof -
  have adj: "(if desc_adjacent x > 0 then
                (if desc_adjacent x - 1 > MAX_EXTRA_ADJ then MAX_EXTRA_ADJ else desc_adjacent x - 1)
              else 0) = start_adj x"
    by (simp add: start_adj_def min_def)
  let ?r = "e_sgdma_regs e"
  let ?w' = "engine_start_mode_config env (e\<lparr>shutdown := 0, desc_dequeued := 0\<rparr>)
    (write_register (of_nat (start_adj x)) (sgdma_first_desc_adjacent ?r)
      (write_register (PCI_DMA_H (desc_bus x)) (sgdma_first_desc_hi ?r)
        (write_register (PCI_DMA_L (desc_bus x)) (sgdma_first_desc_lo ?r) w)))"
  show ?thesis
  proof (rule that [of ?w'])
    show "engine_start env e w = Some (t, e\<lparr>shutdown := 0, desc_dequeued := 0, running := True\<rparr>, ?w')"
      using assms(1) unfolding engine_start_def assms(2) list.case assms(3) Option.bind.simps Let_def adj
      by (simp add: ENGINE_SHUTDOWN_NONE_def)
  qed (simp_all add: start_writes_def)
qed

subsection \<open>The receive ring\<close>

lemma ring_process_loop_stop:
  "tail < length res \<Longrightarrow> fst (res ! tail) = 0 \<or> ov \<Longrightarrow>
    ring_process_loop res head tail ov eop = Some (tail, ov, eop)"
  by (subst ring_process_loop.simps) auto

lemma ring_process_loop_go:
  "tail < length res \<Longrightarrow> fst (res ! tail) \<noteq> 0 \<Longrightarrow> \<not> ov \<Longrightarrow>
    ring_process_loop res head tail ov eop
      = ring_process_loop res head ((tail + 1) mod RX_BUF_PAGES) ((tail + 1) mod RX_BUF_PAGES = head)
          (if bits_set (fst (res ! tail)) RX_STATUS_EOP then eop + 1 else eop)"
  by (subst ring_process_loop.simps) (simp add: Let_def)

text \<open>The number of slots from \<open>a\<close> forward to \<open>b\<close>, a whole turn when they are equal.\<close>

definition ring_gap :: "nat \<Rightarrow> nat \<Rightarrow> nat" where
  "ring_gap a b = (if a < b then b - a else b + RX_BUF_PAGES - a)"

text \<open>The \<open>k\<close> slots from \<open>a\<close>.\<close>

definition ring_slots :: "nat \<Rightarrow> nat \<Rightarrow> nat list" where
  "ring_slots a k = map (\<lambda>j. (a + j) mod RX_BUF_PAGES) [0 ..< k]"

definition eops :: "(u32 \<times> u32) list \<Rightarrow> nat list \<Rightarrow> nat" where
  "eops res is = length (filter (\<lambda>i. bits_set (fst (res ! i)) RX_STATUS_EOP) is)"

lemma ring_slots_Suc:
  "a < RX_BUF_PAGES \<Longrightarrow> ring_slots a (Suc k) = a # ring_slots ((a + 1) mod RX_BUF_PAGES) k"
  unfolding ring_slots_def map_upt_Suc by (simp add: mod_add_left_eq)

lemma ring_gap_step:
  assumes "a < RX_BUF_PAGES" "b < RX_BUF_PAGES" "(a + 1) mod RX_BUF_PAGES \<noteq> b"
  shows "ring_gap a b = Suc (ring_gap ((a + 1) mod RX_BUF_PAGES) b)"
proof (cases "a + 1 = RX_BUF_PAGES")
  case True
  then show ?thesis using assms by (auto simp: ring_gap_def)
next
  case False
  then have "(a + 1) mod RX_BUF_PAGES = a + 1" using assms by simp
  then show ?thesis using assms by (auto simp: ring_gap_def)
qed

lemma ring_gap_pos: "a < RX_BUF_PAGES \<Longrightarrow> 0 < ring_gap a b"
  by (auto simp: ring_gap_def)

lemma ring_gap_meets: "a < RX_BUF_PAGES \<Longrightarrow> b < RX_BUF_PAGES \<Longrightarrow> (a + 1) mod RX_BUF_PAGES = b \<Longrightarrow> ring_gap a b = 1"
  by (cases "a + 1 = RX_BUF_PAGES") (auto simp: ring_gap_def)

text \<open>The ring loop ends for every head inside the ring: it takes the slots that are
  written, at most up to the head, and counts the end-of-packet marks in them.\<close>

lemma ring_process_loop_spec:
  assumes "length res = RX_BUF_PAGES" "tail < RX_BUF_PAGES" "head < RX_BUF_PAGES"
  shows "\<exists>k ov. ring_process_loop res head tail False eop
      = Some ((tail + k) mod RX_BUF_PAGES, ov, eop + eops res (ring_slots tail k))
    \<and> k \<le> ring_gap tail head \<and> (ov \<longleftrightarrow> k = ring_gap tail head)
    \<and> (\<forall>i\<in>set (ring_slots tail k). fst (res ! i) \<noteq> 0)
    \<and> (\<not> ov \<longrightarrow> fst (res ! ((tail + k) mod RX_BUF_PAGES)) = 0)"
  using assms
proof (induction "ring_gap tail head" arbitrary: tail eop rule: less_induct)
  case less
  note tl = less.prems
  show ?case
  proof (cases "fst (res ! tail) = 0")
    case True
    then show ?thesis
      using ring_process_loop_stop [of tail res False head eop] tl ring_gap_pos [of tail head]
      by (intro exI [of _ 0] exI [of _ False]) (simp add: ring_slots_def eops_def)
  next
    case False
    let ?t = "(tail + 1) mod RX_BUF_PAGES"
    let ?eop = "if bits_set (fst (res ! tail)) RX_STATUS_EOP then eop + 1 else eop"
    have go: "ring_process_loop res head tail False eop = ring_process_loop res head ?t (?t = head) ?eop"
      using False tl by (intro ring_process_loop_go) simp_all
    have t: "?t < RX_BUF_PAGES" by (simp add: RX_BUF_PAGES_def)
    show ?thesis
    proof (cases "?t = head")
      case True
      then have "ring_process_loop res head tail False eop = Some (?t, True, ?eop)"
        using go t tl ring_process_loop_stop [of ?t res True head ?eop] by simp
      then show ?thesis
        using True False ring_gap_meets [OF tl(2,3) True] tl(2)
        by (intro exI [of _ 1] exI [of _ True]) (simp add: ring_slots_def eops_def)
    next
      case neq: False
      have gap: "ring_gap tail head = Suc (ring_gap ?t head)"
        by (rule ring_gap_step [OF tl(2,3) neq])
      obtain k ov where k: "ring_process_loop res head ?t False ?eop
            = Some ((?t + k) mod RX_BUF_PAGES, ov, ?eop + eops res (ring_slots ?t k))"
        "k \<le> ring_gap ?t head" "ov \<longleftrightarrow> k = ring_gap ?t head"
        "\<forall>i\<in>set (ring_slots ?t k). fst (res ! i) \<noteq> 0"
        "\<not> ov \<longrightarrow> fst (res ! ((?t + k) mod RX_BUF_PAGES)) = 0"
        using less.hyps [of ?t ?eop] gap t tl by auto
      have m: "(Suc tail mod RX_BUF_PAGES + k) mod RX_BUF_PAGES = Suc (tail + k) mod RX_BUF_PAGES"
        using mod_add_left_eq [of "Suc tail" RX_BUF_PAGES k] by simp
      show ?thesis
        using go neq k False gap ring_slots_Suc [OF tl(2), of k]
        by (intro exI [of _ "Suc k"] exI [of _ ov]) (simp add: eops_def m)
    qed
  qed
qed

subsection \<open>Polling the write-back word\<close>

lemma wb_monitor_loop_ends:
  assumes "late n" "i \<le> n"
  shows "\<exists>j v w'. wb_monitor_loop wb late ex i w = Some (v, w') \<and> i \<le> j \<and> j \<le> n
    \<and> transfers w' = transfers w \<and> next_tid w' = next_tid w \<and> io_writes (trace w') = io_writes (trace w)
    \<and> (v = wb j \<and> (bits_set v WB_ERR_MASK \<or> v = ex \<or> late j \<and> \<not> v AND WB_COUNT_MASK > ex)
       \<or> v = ex OR WB_ERR_MASK \<and> late j \<and> wb j AND WB_COUNT_MASK > ex)"
  using assms(2)
proof (induction "n - i" arbitrary: i w)
  case 0
  then have "i = n" by simp
  then show ?case using assms(1) by (subst wb_monitor_loop.simps) (auto simp: Let_def)
next
  case (Suc d)
  show ?case
  proof (cases "bits_set (wb i) WB_ERR_MASK \<or> wb i = ex \<or> late i")
    case True
    then show ?thesis using Suc.prems by (subst wb_monitor_loop.simps) (auto simp: Let_def)
  next
    case False
    define u where "u = (if i \<noteq> 0 \<and> i mod NUM_POLLS_PER_SCHED = 0 then emit Schedule w else w)"
    have go: "wb_monitor_loop wb late ex i w = wb_monitor_loop wb late ex (Suc i) u"
      using False by (subst wb_monitor_loop.simps) (simp add: Let_def u_def)
    have u: "transfers u = transfers w" "next_tid u = next_tid w" "io_writes (trace u) = io_writes (trace w)"
      by (simp_all add: u_def)
    have "d = n - Suc i" "Suc i \<le> n" using Suc.hyps(2) by simp_all
    from Suc.hyps(1) [OF this, of u] show ?thesis unfolding go u
      by (blast intro: Suc_leD)
  qed
qed

subsection \<open>Completing transfers\<close>

definition is_async :: "xdma_transfer \<Rightarrow> bool" where
  "is_async x \<longleftrightarrow> iocb x \<noteq> None \<and> last_in_request x"

text \<open>A transfer that ends in state \<open>st\<close>: an asynchronous one is freed.\<close>

definition end_transfer ::
  "transfer_state \<Rightarrow> nat \<Rightarrow> (nat \<rightharpoonup> xdma_transfer) \<Rightarrow> (nat \<rightharpoonup> xdma_transfer)" where
  "end_transfer st t h = (case h t of
     None \<Rightarrow> h
   | Some x \<Rightarrow> if is_async x then h(t := None) else h(t \<mapsto> x\<lparr>t_state := st\<rparr>))"

definition end_event :: "xdma_transfer \<Rightarrow> nat \<Rightarrow> event" where
  "end_event x t = (if is_async x then AioComplete (the (iocb x)) (size_of_request x)
                    else WakeUp (WqTransfer t))"

lemma end_transfer_other [simp]: "t' \<noteq> t \<Longrightarrow> end_transfer st t h t' = h t'"
  by (simp add: end_transfer_def split: option.split)

lemma complete_one:
  assumes "transfers w t = Some x" "destroyable x"
  obtains w' evs where
    "Option.bind (set_state t st w) (engine_transfer_completion t)
       = Some (if is_async x then None else Some t, w')"
    "transfers w' = end_transfer st t (transfers w)" "next_tid w' = next_tid w"
    "trace w' = trace w @ evs @ [end_event x t]" "io_writes evs = []"
proof -
  define w1 where "w1 = put_transfer t (x\<lparr>t_state := st\<rparr>) w"
  have st: "set_state t st w = Some w1" using assms by (simp add: set_state_def w1_def)
  have x1: "transfers w1 t = Some (x\<lparr>t_state := st\<rparr>)" by (simp add: w1_def)
  show ?thesis
  proof (cases "is_async x")
    case True
    then obtain k where k: "iocb x = Some k" "last_in_request x" by (auto simp: is_async_def)
    have "destroyable (x\<lparr>t_state := st\<rparr>)" using assms(2) by (simp add: destroyable_def)
    from transfer_destroy_run [OF x1 this] obtain evs w2 where
      w2: "transfer_destroy t w1 = Some ((), w2)" "transfers w2 = (transfers w1)(t := None)"
        "next_tid w2 = next_tid w1" "trace w2 = trace w1 @ evs" "io_writes evs = []" by metis
    show ?thesis
    proof (rule that [of "emit (AioComplete k (size_of_request x)) w2" evs])
      show "Option.bind (set_state t st w) (engine_transfer_completion t)
        = Some (if is_async x then None else Some t, emit (AioComplete k (size_of_request x)) w2)"
        using st x1 k True w2(1) by (simp add: engine_transfer_completion_def)
    qed (use w2 True k assms in \<open>simp_all add: w1_def end_transfer_def end_event_def\<close>)
  next
    case False
    show ?thesis
    proof (rule that [of "emit (WakeUp (WqTransfer t)) w1" "[]"])
      show "Option.bind (set_state t st w) (engine_transfer_completion t)
        = Some (if is_async x then None else Some t, emit (WakeUp (WqTransfer t)) w1)"
        using st x1 False by (auto simp: engine_transfer_completion_def is_async_def split: option.split)
    qed (use False assms in \<open>simp_all add: w1_def end_transfer_def end_event_def\<close>)
  qed
qed

text \<open>A queue in good order: the transfers are live, not cyclic, have descriptors and can be
  freed.\<close>

definition queue_live :: "(nat \<rightharpoonup> xdma_transfer) \<Rightarrow> nat list \<Rightarrow> bool" where
  "queue_live h ts \<longleftrightarrow> distinct ts
     \<and> (\<forall>t\<in>set ts. \<exists>x. h t = Some x \<and> \<not> t_cyclic x \<and> 0 < desc_num x \<and> destroyable x)"

definition descs :: "(nat \<rightharpoonup> xdma_transfer) \<Rightarrow> nat list \<Rightarrow> nat" where
  "descs h ts = sum_list (map (\<lambda>t. case h t of Some x \<Rightarrow> desc_num x | None \<Rightarrow> 0) ts)"

definition end_all ::
  "nat list \<Rightarrow> (nat \<rightharpoonup> xdma_transfer) \<Rightarrow> (nat \<rightharpoonup> xdma_transfer)" where
  "end_all ts h = fold (end_transfer TRANSFER_STATE_COMPLETED) ts h"

lemma queue_live_Cons:
  assumes "queue_live h (t # ts)"
  shows "queue_live (end_transfer st t h) ts" "descs (end_transfer st t h) ts = descs h ts"
    "queue_live h ts"
proof -
  have eq: "end_transfer st t h u = h u" if "u \<in> set ts" for u
    using assms that by (intro end_transfer_other) (auto simp: queue_live_def)
  show "queue_live (end_transfer st t h) ts" "queue_live h ts"
    using assms by (auto simp: queue_live_def eq)
  show "descs (end_transfer st t h) ts = descs h ts"
    unfolding descs_def by (intro arg_cong [where f = sum_list] map_cong) (simp_all add: eq)
qed

lemma service_list_loop_run:
  assumes "queue_live (transfers w) (pre @ t # post)" "transfers w t = Some x"
    and "0 < m" "m \<le> desc_num x" "unat c = descs (transfers w) pre + m"
    and "descs (transfers w) pre + desc_num x < 2 ^ 32"
  shows "\<exists>e' w'. service_list_loop (pre @ t # post) e c w = Some (Some t, of_nat m, e', w')
    \<and> e' = e\<lparr>transfer_list := (if pre = [] then transfer_list e else t # post),
            desc_dequeued := desc_dequeued e + of_nat (descs (transfers w) pre)\<rparr>
    \<and> transfers w' = end_all pre (transfers w) \<and> next_tid w' = next_tid w
    \<and> io_writes (trace w') = io_writes (trace w)"
  using assms
proof (induction pre arbitrary: e c w)
  case Nil
  have m: "m < 2 ^ LENGTH(32)" "desc_num x < 2 ^ LENGTH(32)" using Nil.prems by (simp_all add: descs_def)
  have "unat c = m" using Nil.prems(5) by (simp add: descs_def)
  then have "c = of_nat m"
    by (intro word_unat_eq_iff [THEN iffD2]) (simp only: unat_of_nat_small [OF m(1)])
  moreover have "\<not> (of_nat m :: u32) > of_nat (desc_num x)"
    using Nil.prems(4) unat_of_nat_small [OF m(1)] unat_of_nat_small [OF m(2)]
    by (simp add: word_less_nat_alt)
  ultimately show ?case using Nil.prems by (simp add: descs_def end_all_def)
next
  case (Cons p pre)
  let ?h = "transfers w"
  obtain y where y: "?h p = Some y" "\<not> t_cyclic y" "0 < desc_num y" "destroyable y"
    using Cons.prems(1) by (auto simp: queue_live_def)
  have d: "descs ?h (p # pre) = desc_num y + descs ?h pre" using y(1) by (simp add: descs_def)
  have small: "desc_num y < 2 ^ LENGTH(32)" using Cons.prems(6) d by simp
  have u: "unat (of_nat (desc_num y) :: u32) = desc_num y" by (rule unat_of_nat_small [OF small])
  have gt: "c > of_nat (desc_num y)" using Cons.prems(3,5) d u by (simp add: word_less_nat_alt)
  have c': "unat (c - of_nat (desc_num y)) = descs ?h pre + m"
    using unat_sub_le [of "of_nat (desc_num y)" c] gt Cons.prems(5) d u by simp
  obtain w1 evs where w1: "Option.bind (set_state p TRANSFER_STATE_COMPLETED w) (engine_transfer_completion p)
       = Some (if is_async y then None else Some p, w1)"
    "transfers w1 = end_transfer TRANSFER_STATE_COMPLETED p ?h" "next_tid w1 = next_tid w"
    "trace w1 = trace w @ evs @ [end_event y p]" "io_writes evs = []"
    using complete_one [OF y(1,4)] by metis
  have ql: "queue_live (transfers w1) (pre @ t # post)"
    using queue_live_Cons(1) Cons.prems(1) w1(2) by simp
  have ds: "descs (transfers w1) pre = descs ?h pre"
    using queue_live_Cons(2) [of ?h p "pre"] Cons.prems(1) w1(2) by (simp add: queue_live_def)
  have "t \<noteq> p" using Cons.prems(1) by (auto simp: queue_live_def)
  then have xt: "transfers w1 t = Some x" using w1(2) Cons.prems(2) by simp
  let ?e = "e\<lparr>transfer_list := pre @ t # post, desc_dequeued := desc_dequeued e + of_nat (desc_num y)\<rparr>"
  obtain e' w' where r: "service_list_loop (pre @ t # post) ?e (c - of_nat (desc_num y)) w1
      = Some (Some t, of_nat m, e', w')"
    "e' = ?e\<lparr>transfer_list := (if pre = [] then transfer_list ?e else t # post),
        desc_dequeued := desc_dequeued ?e + of_nat (descs (transfers w1) pre)\<rparr>"
    "transfers w' = end_all pre (transfers w1)" "next_tid w' = next_tid w1"
    "io_writes (trace w') = io_writes (trace w1)"
    using Cons.IH [OF ql xt Cons.prems(3,4), of "c - of_nat (desc_num y)" ?e] c' ds Cons.prems(6) d by auto
  have nio: "io_writes (trace w1) = io_writes (trace w)"
    using w1(4,5) by (simp add: end_event_def)
  obtain w0 where w0: "set_state p TRANSFER_STATE_COMPLETED w = Some w0"
    "engine_transfer_completion p w0 = Some (if is_async y then None else Some p, w1)"
    using w1(1) by (auto simp: bind_Some_iff)
  have "service_list_loop ((p # pre) @ t # post) e c w = Some (Some t, of_nat m, e', w')"
    using y gt w0 r(1) by simp
  moreover have "e' = e\<lparr>transfer_list := t # post,
      desc_dequeued := desc_dequeued e + of_nat (descs ?h (p # pre))\<rparr>"
    using r(2) ds d by (cases "pre = []") (simp_all add: add.assoc)
  ultimately show ?case
    using r(3-5) w1(2,3) nio by (simp add: end_all_def)
qed

lemma word_frame [simp]:
  "stop_word env (e\<lparr>status := s\<rparr>) = stop_word env e"
  "start_writes env (e\<lparr>status := s\<rparr>) x = start_writes env e x"
  "start_writes env (e\<lparr>running := r\<rparr>) x = start_writes env e x"
  "start_writes env (e\<lparr>transfer_list := l\<rparr>) x = start_writes env e x"
  "start_writes env (e\<lparr>desc_dequeued := q\<rparr>) x = start_writes env e x"
  by (simp_all add: stop_word_def start_writes_def start_word_def Let_def)

lemma service_resume_run:
  assumes "\<not> running e" "\<forall>t\<in>set (transfer_list e). transfers w t \<noteq> None"
  obtains e' w' where "engine_service_resume env e w = Some (e', w')"
    "transfers w' = transfers w" "next_tid w' = next_tid w" "transfer_list e' = transfer_list e"
    "locked e' = locked e" "xdma_perf e' = xdma_perf e" "e_magic e' = e_magic e"
    "rx_transfer_cyclic e' = rx_transfer_cyclic e" "poll_mode_wb e' = poll_mode_wb e"
    "bits_set (shutdown e) ENGINE_SHUTDOWN_REQUEST \<Longrightarrow>
       \<not> running e' \<and> shutdown e' = shutdown e OR ENGINE_SHUTDOWN_IDLE \<and> io_writes (trace w') = io_writes (trace w)"
    "\<not> bits_set (shutdown e) ENGINE_SHUTDOWN_REQUEST \<Longrightarrow> transfer_list e = [] \<Longrightarrow>
       \<not> running e' \<and> io_writes (trace w') = io_writes (trace w)"
    "\<And>t ts x. \<not> bits_set (shutdown e) ENGINE_SHUTDOWN_REQUEST \<Longrightarrow> transfer_list e = t # ts
       \<Longrightarrow> transfers w t = Some x \<Longrightarrow>
       running e' \<and> shutdown e' = 0 \<and> desc_dequeued e' = 0
       \<and> io_writes (trace w') = io_writes (trace w) @ start_writes env e x"
proof (cases "bits_set (shutdown e) ENGINE_SHUTDOWN_REQUEST")
  case True
  then show ?thesis
    using assms that [of "e\<lparr>shutdown := shutdown e OR ENGINE_SHUTDOWN_IDLE\<rparr>" "emit (WakeUp WqShutdown) w"]
    by (simp add: engine_service_resume_def)
next
  case False
  show ?thesis
  proof (cases "transfer_list e")
    case Nil
    then show ?thesis using assms False that [of e w] by (simp add: engine_service_resume_def)
  next
    case (Cons t ts)
    then obtain x where x: "transfers w t = Some x" using assms(2) by auto
    obtain w' where "engine_start env e w = Some (t, e\<lparr>shutdown := 0, desc_dequeued := 0, running := True\<rparr>, w')"
      "transfers w' = transfers w" "next_tid w' = next_tid w"
      "io_writes (trace w') = io_writes (trace w) @ start_writes env e x"
      using engine_start_run [OF assms(1) Cons x] by metis
    then show ?thesis
      by (intro that [of "e\<lparr>shutdown := 0, desc_dequeued := 0, running := True\<rparr>" w'])
        (use False Cons x assms in \<open>auto simp: engine_service_resume_def\<close>)
  qed
qed

lemma end_all_other: "t \<notin> set ts \<Longrightarrow> end_all ts h t = h t"
  unfolding end_all_def by (induction ts arbitrary: h) auto

theorem engine_service_run:
  assumes run: "running e" and irq: "\<not> poll_mode env" and perf: "xdma_perf e = None"
    and q: "transfer_list e = pre @ t # post" "queue_live (transfers w) (transfer_list e)"
    and x: "transfers w t = Some x"
    and s: "s = hw_read env (trace w) (engine_status_rc (e_regs e))"
      "\<not> bits_set s XDMA_STAT_BUSY" "\<not> bits_set s err_flags"
    and c: "c = hw_read env (trace w @ [IoRead (engine_status_rc (e_regs e)) s,
           IoWrite (engine_control (e_regs e)) (stop_word env e), WakeUp WqShutdown])
         (engine_completed_desc_count (e_regs e))"
      "unat (c - desc_dequeued e) = descs (transfers w) pre + m" "0 < m" "m \<le> desc_num x"
      "descs (transfers w) pre + desc_num x < 2 ^ 32"
  obtains e' w' where "engine_service env 0 e w = Some (0, e', w')"
    "transfer_list e' = post"
    "transfers w' = end_transfer (if m < desc_num x then TRANSFER_STATE_FAILED else TRANSFER_STATE_COMPLETED)
       t (end_all pre (transfers w))"
    "next_tid w' = next_tid w" "locked e' = locked e" "xdma_perf e' = None" "e_magic e' = e_magic e"
    "rx_transfer_cyclic e' = rx_transfer_cyclic e"
    "running e' \<longleftrightarrow> post \<noteq> [] \<and> \<not> bits_set (shutdown e) ENGINE_SHUTDOWN_REQUEST"
    "bits_set (shutdown e) ENGINE_SHUTDOWN_REQUEST \<Longrightarrow> shutdown e' = shutdown e OR ENGINE_SHUTDOWN_IDLE"
    "io_writes (trace w') = io_writes (trace w) @ [(engine_control (e_regs e), stop_word env e)]
       @ (case post of [] \<Rightarrow> [] | u # _ \<Rightarrow>
            if bits_set (shutdown e) ENGINE_SHUTDOWN_REQUEST then []
            else start_writes env e (the (transfers w u)))"
  proof -
  define w1 where "w1 = emit (IoRead (engine_status_rc (e_regs e)) s) w"
  define w2 where "w2 = emit (WakeUp WqShutdown) (xdma_engine_stop env (e\<lparr>status := s\<rparr>) w1)"
  define w3 where "w3 = emit (IoRead (engine_completed_desc_count (e_regs e)) c) w2"
  define e2 where "e2 = e\<lparr>status := s, running := False\<rparr>"
  have st: "engine_status_read env True e w = (s, e\<lparr>status := s\<rparr>, w1)"
    by (simp add: engine_status_read_def read_register_def s(1) w1_def Let_def)
  have sd: "engine_service_shutdown env (e\<lparr>status := s\<rparr>) w1 = (e2, w2)"
    by (simp add: engine_service_shutdown_def Let_def w2_def e2_def)
  have tr2: "trace w2 = trace w @ [IoRead (engine_status_rc (e_regs e)) s,
      IoWrite (engine_control (e_regs e)) (stop_word env e), WakeUp WqShutdown]"
    by (simp add: w2_def w1_def)
  have rd: "read_register env (engine_completed_desc_count (e_regs e)) w2 = (c, w3)"
    using c(1) by (simp add: read_register_def Let_def w3_def tr2)
  have h3: "transfers w3 = transfers w" "next_tid w3 = next_tid w"
    "io_writes (trace w3) = io_writes (trace w) @ [(engine_control (e_regs e), stop_word env e)]"
    by (simp_all add: w3_def w2_def w1_def)
  obtain t0 ts0 where ht: "transfer_list e = t0 # ts0" using q(1) by (cases pre) auto
  obtain e4 w4 where l: "service_list_loop (pre @ t # post) e2 (c - desc_dequeued e) w3
      = Some (Some t, of_nat m, e4, w4)"
    "e4 = e2\<lparr>transfer_list := (if pre = [] then transfer_list e2 else t # post),
        desc_dequeued := desc_dequeued e2 + of_nat (descs (transfers w3) pre)\<rparr>"
    "transfers w4 = end_all pre (transfers w3)" "next_tid w4 = next_tid w3"
    "io_writes (trace w4) = io_writes (trace w3)"
    using service_list_loop_run [of w3 pre t post x m "c - desc_dequeued e" e2] q x c h3 by auto
  have e4: "status e4 = s" "transfer_list e4 = t # post" "running e4 = False"
    using l(2) q(1) by (simp_all add: e2_def)
  have tpre: "t \<notin> set pre" using q by (simp add: queue_live_def)
  then have x4: "transfers w4 t = Some x" using l(3) x h3 by (simp add: end_all_other)
  have dx: "destroyable x" using q x by (auto simp: queue_live_def)
  have small: "m < 2 ^ LENGTH(32)" "desc_num x < 2 ^ LENGTH(32)" using c by simp_all
  have lt: "(of_nat m :: u32) < of_nat (desc_num x) \<longleftrightarrow> m < desc_num x"
    unfolding word_less_nat_alt unat_of_nat_small [OF small(1)] unat_of_nat_small [OF small(2)] ..
  define st' where "st' = (if m < desc_num x then TRANSFER_STATE_FAILED else TRANSFER_STATE_COMPLETED)"
  obtain w5 evs where f: "Option.bind (set_state t st' w4) (engine_transfer_completion t)
       = Some (if is_async x then None else Some t, w5)"
    "transfers w5 = end_transfer st' t (transfers w4)" "next_tid w5 = next_tid w4"
    "trace w5 = trace w4 @ evs @ [end_event x t]" "io_writes evs = []"
    using complete_one [OF x4 dx] by metis
  obtain w4' where w4': "set_state t st' w4 = Some w4'"
    "engine_transfer_completion t w4' = Some (if is_async x then None else Some t, w5)"
    using f(1) by (auto simp: bind_Some_iff)
  define e5 where "e5 = e4\<lparr>transfer_list := post, desc_dequeued := desc_dequeued e4 + of_nat (desc_num x)\<rparr>"
  have final: "engine_service_final_transfer env e4 (Some t) (of_nat m) w4
      = Some (if is_async x then None else Some t, e5, w5)"
    using w4' x4 s(3) e4 lt
    by (auto simp: engine_service_final_transfer_def dequeue_head_def e5_def st'_def split: if_splits)
  have live: "transfers w5 u = transfers w u" if "u \<in> set post" for u
  proof -
    have "u \<noteq> t" "u \<notin> set pre" using that q by (auto simp: queue_live_def)
    then show ?thesis by (simp add: f(2) l(3) h3 end_all_other)
  qed
  have live': "\<forall>u\<in>set (transfer_list e5). transfers w5 u \<noteq> None"
    using q live by (auto simp: e5_def queue_live_def)
  have nr: "\<not> running e5" using e4 by (simp add: e5_def)
  have fr: "shutdown e5 = shutdown e" "locked e5 = locked e" "xdma_perf e5 = None" "e_magic e5 = e_magic e"
    "rx_transfer_cyclic e5 = rx_transfer_cyclic e" "transfer_list e5 = post"
    "start_writes env e5 y = start_writes env e y" for y
    using l(2) perf by (simp_all add: e5_def e2_def)
  obtain e' w' where r: "engine_service_resume env e5 w5 = Some (e', w')"
    "transfers w' = transfers w5" "next_tid w' = next_tid w5" "transfer_list e' = transfer_list e5"
    "locked e' = locked e5" "xdma_perf e' = xdma_perf e5" "e_magic e' = e_magic e5"
    "rx_transfer_cyclic e' = rx_transfer_cyclic e5"
    "bits_set (shutdown e5) ENGINE_SHUTDOWN_REQUEST \<Longrightarrow>
       \<not> running e' \<and> shutdown e' = shutdown e5 OR ENGINE_SHUTDOWN_IDLE \<and> io_writes (trace w') = io_writes (trace w5)"
    "\<not> bits_set (shutdown e5) ENGINE_SHUTDOWN_REQUEST \<Longrightarrow> transfer_list e5 = [] \<Longrightarrow>
       \<not> running e' \<and> io_writes (trace w') = io_writes (trace w5)"
    "\<And>t ts x. \<not> bits_set (shutdown e5) ENGINE_SHUTDOWN_REQUEST \<Longrightarrow> transfer_list e5 = t # ts
       \<Longrightarrow> transfers w5 t = Some x \<Longrightarrow>
       running e' \<and> shutdown e' = 0 \<and> desc_dequeued e' = 0
       \<and> io_writes (trace w') = io_writes (trace w5) @ start_writes env e5 x"
    using service_resume_run [OF nr live', of env] by metis
  have io5: "io_writes (trace w5) = io_writes (trace w) @ [(engine_control (e_regs e), stop_word env e)]"
    using f(4,5) l(5) h3(3) by (simp add: end_event_def)
  have svc: "engine_service env 0 e w = Some (0, e', w')"
    using run s(2) ht l(1) [folded q(1), unfolded ht] final r(1) irq perf st sd rd
    by (simp add: engine_service_def Let_def engine_service_perf_def engine_service_transfer_list_def e2_def
        del: service_list_loop.simps)
  show ?thesis
  proof (rule that [OF svc])
    show "running e' \<longleftrightarrow> post \<noteq> [] \<and> \<not> bits_set (shutdown e) ENGINE_SHUTDOWN_REQUEST"
      using r(9-11) fr live' by (cases post) auto
    show "io_writes (trace w') = io_writes (trace w) @ [(engine_control (e_regs e), stop_word env e)]
       @ (case post of [] \<Rightarrow> [] | u # _ \<Rightarrow> if bits_set (shutdown e) ENGINE_SHUTDOWN_REQUEST then []
            else start_writes env e (the (transfers w u)))"
      using r(9-11) fr live live' io5 by (cases post) (auto split: if_splits)
  qed (use r f l h3 fr in \<open>simp_all add: st'_def\<close>)
qed

subsection \<open>Queueing a transfer\<close>

lemma transfer_queue_refused:
  "transfers w t = Some x \<Longrightarrow> desc_num x \<noteq> 0 \<Longrightarrow> \<not> locked e
    \<Longrightarrow> bits_set (shutdown e) ENGINE_SHUTDOWN_REQUEST
    \<Longrightarrow> transfer_queue env e t w = Some (- 1, e, w)"
  by (simp add: transfer_queue_def spin_lock_def spin_unlock_def)

lemma lock_frame [simp]:
  "start_writes env (e\<lparr>locked := l\<rparr>) x = start_writes env e x"
  "start_writes env (e\<lparr>locked := l, transfer_list := q\<rparr>) x = start_writes env e x"
  by (simp_all add: start_writes_def start_word_def Let_def)

lemma transfer_queue_run:
  assumes t: "transfers w t = Some x" "desc_num x \<noteq> 0"
    and e: "\<not> locked e" "\<not> bits_set (shutdown e) ENGINE_SHUTDOWN_REQUEST"
    and h: "hd (transfer_list e @ [t]) = u"
      "((transfers w)(t \<mapsto> x\<lparr>t_state := TRANSFER_STATE_SUBMITTED\<rparr>)) u = Some y"
  obtains e' w' where "transfer_queue env e t w = Some (0, e', w')"
    "transfer_list e' = transfer_list e @ [t]" "running e'" "\<not> locked e'"
    "transfers w' = (transfers w)(t \<mapsto> x\<lparr>t_state := TRANSFER_STATE_SUBMITTED\<rparr>)"
    "next_tid w' = next_tid w" "xdma_perf e' = xdma_perf e" "e_magic e' = e_magic e"
    "rx_transfer_cyclic e' = rx_transfer_cyclic e" "poll_mode_wb e' = poll_mode_wb e"
    "\<not> bits_set (shutdown e') ENGINE_SHUTDOWN_REQUEST"
    "io_writes (trace w') = io_writes (trace w) @ (if running e then [] else start_writes env e y)"
proof -
  define w1 where "w1 = put_transfer t (x\<lparr>t_state := TRANSFER_STATE_SUBMITTED\<rparr>) w"
  define e1 where "e1 = e\<lparr>locked := True, transfer_list := transfer_list e @ [t]\<rparr>"
  have st: "set_state t TRANSFER_STATE_SUBMITTED w = Some w1" using t by (simp add: set_state_def w1_def)
  show ?thesis
  proof (cases "running e")
    case True
    show ?thesis
      by (rule that [of "e1\<lparr>locked := False\<rparr>" w1])
        (use t e st True in \<open>simp_all add: transfer_queue_def spin_lock_def spin_unlock_def e1_def w1_def\<close>)
  next
    case False
    have ex: "\<exists>ts. transfer_list e1 = u # ts" using h(1) by (cases "transfer_list e") (simp_all add: e1_def)
    then obtain ts where ts: "transfer_list e1 = u # ts" ..
    have u: "transfers w1 u = Some y" using h(2) by (simp add: w1_def)
    have nr: "\<not> running e1" using False by (simp add: e1_def)
    obtain w' where w': "engine_start env e1 w1 = Some (u, e1\<lparr>shutdown := 0, desc_dequeued := 0, running := True\<rparr>, w')"
      "transfers w' = transfers w1" "next_tid w' = next_tid w1"
      "io_writes (trace w') = io_writes (trace w1) @ start_writes env e1 y"
      using engine_start_run [OF nr ts u] by metis
    show ?thesis
      by (rule that [of "e1\<lparr>shutdown := 0, desc_dequeued := 0, running := True, locked := False\<rparr>" w'])
        (use t e st False w' in \<open>simp_all add: transfer_queue_def spin_lock_def spin_unlock_def e1_def w1_def\<close>)
  qed
qed

subsection \<open>The error path\<close>

text \<open>With an error flag in the status the transfer at the head is marked failed and stays
  at the head; the engine is started again on it.\<close>

lemma engine_service_error_run:
  assumes run: "running e" and irq: "\<not> poll_mode env" and perf: "xdma_perf e = None"
    and sh: "\<not> bits_set (shutdown e) ENGINE_SHUTDOWN_REQUEST"
    and q: "transfer_list e = t # post" and x: "transfers w t = Some x" "\<not> t_cyclic x"
    and s: "s = hw_read env (trace w) (engine_status_rc (e_regs e))"
      "\<not> bits_set s XDMA_STAT_BUSY" "bits_set s err_flags"
    and c: "c = hw_read env (trace w @ [IoRead (engine_status_rc (e_regs e)) s,
           IoWrite (engine_control (e_regs e)) (stop_word env e), WakeUp WqShutdown])
         (engine_completed_desc_count (e_regs e))"
      "c - desc_dequeued e \<le> of_nat (desc_num x)"
  obtains e' w' where "engine_service env 0 e w = Some (0, e', w')"
    "transfer_list e' = t # post" "running e'" "locked e' = locked e" "xdma_perf e' = None"
    "transfers w' = (transfers w)(t \<mapsto> x\<lparr>t_state := TRANSFER_STATE_FAILED\<rparr>)"
    "io_writes (trace w') = io_writes (trace w) @ [(engine_control (e_regs e), stop_word env e),
       (engine_control (e_regs e), stop_word env e)] @ start_writes env e x"
proof -
  define w1 where "w1 = emit (IoRead (engine_status_rc (e_regs e)) s) w"
  define w2 where "w2 = emit (WakeUp WqShutdown) (xdma_engine_stop env (e\<lparr>status := s\<rparr>) w1)"
  define w3 where "w3 = emit (IoRead (engine_completed_desc_count (e_regs e)) c) w2"
  define e2 where "e2 = e\<lparr>status := s, running := False\<rparr>"
  have st: "engine_status_read env True e w = (s, e\<lparr>status := s\<rparr>, w1)"
    by (simp add: engine_status_read_def read_register_def s(1) w1_def Let_def)
  have sd: "engine_service_shutdown env (e\<lparr>status := s\<rparr>) w1 = (e2, w2)"
    by (simp add: engine_service_shutdown_def Let_def w2_def e2_def)
  have tr2: "trace w2 = trace w @ [IoRead (engine_status_rc (e_regs e)) s,
      IoWrite (engine_control (e_regs e)) (stop_word env e), WakeUp WqShutdown]"
    by (simp add: w2_def w1_def)
  have rd: "read_register env (engine_completed_desc_count (e_regs e)) w2 = (c, w3)"
    using c(1) by (simp add: read_register_def Let_def w3_def tr2)
  have h3: "transfers w3 = transfers w" by (simp add: w3_def w2_def w1_def)
  define w4 where "w4 = put_transfer t (x\<lparr>t_state := TRANSFER_STATE_FAILED\<rparr>) w3"
  define w5 where "w5 = xdma_engine_stop env e2 w4"
  have fail: "engine_err_handle env e2 t w3 = Some w5"
    using x s h3 by (simp add: engine_err_handle_def set_state_def e2_def w5_def w4_def)
  have l: "service_list_loop (transfer_list e2) e2 (c - desc_dequeued e) w3 = Some (Some t, c - desc_dequeued e, e2, w3)"
  proof -
    have "\<not> of_nat (desc_num x) < c - desc_dequeued e" using c(2) by (simp only: not_less)
    then show ?thesis using q x h3 by (simp add: e2_def)
  qed
  have nr: "\<not> running e2" by (simp add: e2_def)
  have tl2: "transfer_list e2 = t # post" using q by (simp add: e2_def)
  have x5: "transfers w5 t = Some (x\<lparr>t_state := TRANSFER_STATE_FAILED\<rparr>)" by (simp add: w5_def w4_def)
  obtain w6 where w6: "engine_start env e2 w5 = Some (t, e2\<lparr>shutdown := 0, desc_dequeued := 0, running := True\<rparr>, w6)"
    "transfers w6 = transfers w5"
    "io_writes (trace w6) = io_writes (trace w5) @ start_writes env e2 (x\<lparr>t_state := TRANSFER_STATE_FAILED\<rparr>)"
    using engine_start_run [OF nr tl2 x5] by metis
  have sw: "start_writes env e2 (x\<lparr>t_state := TRANSFER_STATE_FAILED\<rparr>) = start_writes env e x"
    "stop_word env e2 = stop_word env e" "e_regs e2 = e_regs e"
    by (simp_all add: e2_def start_writes_def start_word_def stop_word_def start_adj_def Let_def)
  show ?thesis
  proof (rule that [of "e2\<lparr>shutdown := 0, desc_dequeued := 0, running := True\<rparr>" w6])
    show "engine_service env 0 e w = Some (0, e2\<lparr>shutdown := 0, desc_dequeued := 0, running := True\<rparr>, w6)"
      using run s(2,3) q irq perf st sd rd l fail w6(1) sh
      by (simp add: engine_service_def Let_def engine_service_perf_def engine_service_transfer_list_def
          engine_service_final_transfer_def engine_service_resume_def e2_def del: service_list_loop.simps)
    show "io_writes (trace w6) = io_writes (trace w) @ [(engine_control (e_regs e), stop_word env e),
       (engine_control (e_regs e), stop_word env e)] @ start_writes env e x"
      using w6(3) sw by (simp add: w5_def w4_def w3_def w2_def w1_def)
  qed (use w6 h3 q perf in \<open>simp_all add: e2_def w5_def w4_def\<close>)
qed

subsection \<open>The engine as a transition system\<close>

text \<open>
  The steps that touch an interrupt-mode engine without a cyclic transfer: a new transfer is
  queued, the bottom half runs on a status without error flags, a waiter frees a transfer
  whose state it saw change. With \<open>calm\<close> the bottom half only runs when the status is not
  busy; without, also while the card is still at work. \<open>engine_inv\<close> is what the driver relies
  on: the lock is free between the steps, the queue holds live, submitted transfers once
  each, and, in calm runs, a running engine has work.
\<close>

definition engine_inv :: "bool \<Rightarrow> xdma_engine \<times> world \<Rightarrow> bool" where
  "engine_inv calm = (\<lambda>(e, w). \<not> locked e \<and> e_magic e = MAGIC_ENGINE \<and> rx_transfer_cyclic e = None
     \<and> xdma_perf e = None
     \<and> queue_live (transfers w) (transfer_list e)
     \<and> (\<forall>t\<in>set (transfer_list e). \<forall>x. transfers w t = Some x \<longrightarrow> t_state x = TRANSFER_STATE_SUBMITTED)
     \<and> (calm \<and> running e \<longrightarrow> transfer_list e \<noteq> [])
     \<and> \<not> bits_set (shutdown e) ENGINE_SHUTDOWN_REQUEST)"

definition status_ok :: "kenv \<Rightarrow> bool \<Rightarrow> xdma_engine \<Rightarrow> world \<Rightarrow> bool" where
  "status_ok env calm e w \<longleftrightarrow>
     (let s = hw_read env (trace w) (engine_status_rc (e_regs e)) in
      \<not> bits_set s err_flags \<and> (calm \<longrightarrow> \<not> bits_set s XDMA_STAT_BUSY))"

inductive engine_step :: "kenv \<Rightarrow> addr \<Rightarrow> bool \<Rightarrow> bool \<Rightarrow> xdma_engine \<times> world \<Rightarrow> xdma_engine \<times> world \<Rightarrow> bool"
  for env :: kenv and cfg :: addr and msix :: bool and calm :: bool
  where
    submit: "transfers w t = Some x \<Longrightarrow> t_state x = TRANSFER_STATE_NEW \<Longrightarrow> \<not> t_cyclic x
      \<Longrightarrow> destroyable x \<Longrightarrow> transfer_queue env e t w = Some (rc, e', w')
      \<Longrightarrow> engine_step env cfg msix calm (e, w) (e', w')"
  | service: "\<not> poll_mode env \<Longrightarrow> status_ok env calm e w
      \<Longrightarrow> engine_service_work env cfg msix wb res e w = Some (e', w')
      \<Longrightarrow> engine_step env cfg msix calm (e, w) (e', w')"
  | reap: "transfers w t = Some x \<Longrightarrow> t_state x \<noteq> TRANSFER_STATE_SUBMITTED
      \<Longrightarrow> transfer_destroy t w = Some ((), w')
      \<Longrightarrow> engine_step env cfg msix calm (e, w) (e, w')"

inductive_cases engine_stepE: "engine_step env cfg msix calm s s'"

lemma service_list_loop_inv:
  assumes "service_list_loop ts e c w = Some (topt, c', e', w')" "queue_live (transfers w) ts"
    "transfer_list e = ts"
  shows "\<exists>pre post. ts = pre @ post \<and> topt = (case post of [] \<Rightarrow> None | t # _ \<Rightarrow> Some t)
    \<and> e' = e\<lparr>transfer_list := post, desc_dequeued := desc_dequeued e'\<rparr>
    \<and> transfers w' = end_all pre (transfers w)"
  using assms
proof (induction ts arbitrary: e c w)
  case Nil
  then show ?case by (auto simp: end_all_def)
next
  case (Cons t ts)
  obtain x where x: "transfers w t = Some x" "destroyable x" "\<not> t_cyclic x"
    using Cons.prems(2) by (auto simp: queue_live_def)
  show ?case
  proof (cases "c > of_nat (desc_num x)")
    case False
    then show ?thesis
      using Cons.prems x by (intro exI [of _ "[]"] exI [of _ "t # ts"]) (simp add: end_all_def)
  next
    case True
    obtain w1 evs where w1: "Option.bind (set_state t TRANSFER_STATE_COMPLETED w) (engine_transfer_completion t)
         = Some (if is_async x then None else Some t, w1)"
      "transfers w1 = end_transfer TRANSFER_STATE_COMPLETED t (transfers w)"
      using complete_one [OF x(1,2)] by metis
    obtain w0 where w0: "set_state t TRANSFER_STATE_COMPLETED w = Some w0"
      "engine_transfer_completion t w0 = Some (if is_async x then None else Some t, w1)"
      using w1(1) by (auto simp: bind_Some_iff)
    let ?e = "e\<lparr>transfer_list := ts, desc_dequeued := desc_dequeued e + of_nat (desc_num x)\<rparr>"
    have rec: "service_list_loop ts ?e (c - of_nat (desc_num x)) w1 = Some (topt, c', e', w')"
      using Cons.prems(1) True x w0 by simp
    have ql: "queue_live (transfers w1) ts" using queue_live_Cons(1) Cons.prems(2) w1(2) by simp
    obtain pre post where p: "ts = pre @ post" "topt = (case post of [] \<Rightarrow> None | t # _ \<Rightarrow> Some t)"
      "e' = ?e\<lparr>transfer_list := post, desc_dequeued := desc_dequeued e'\<rparr>"
      "transfers w' = end_all pre (transfers w1)"
      using Cons.IH [OF rec ql] by auto
    show ?thesis
      using p w1(2) by (intro exI [of _ "t # pre"] exI [of _ post]) (simp add: end_all_def)
  qed
qed

lemma put_user_pages_heap:
  "sgm_put_user_pages sgm dirtied w = Some (rc, sgm', w') \<Longrightarrow>
    transfers w' = transfers w \<and> next_tid w' = next_tid w"
  by (auto simp: sgm_put_user_pages_def sgm_dirty_pages_def put_pages_def bind_Some_iff split: if_splits)

lemma transfer_destroy_frame:
  "transfer_destroy t w = Some (u, w') \<Longrightarrow> transfers w' = (transfers w)(t := None)"
  by (auto simp: transfer_destroy_def bind_Some_iff xdma_desc_free_def sg_destroy_mapper_def Let_def
      split: option.splits if_splits dest!: put_user_pages_heap)

lemma end_transfer_states:
  "distinct ts \<Longrightarrow> u \<in> set ts \<Longrightarrow> u \<notin> set pre \<Longrightarrow> end_all pre h u = h u"
  by (rule end_all_other)

lemma resume_keeps:
  assumes r: "engine_service_resume env e w = Some (e', w')"
    and live: "\<forall>u\<in>set (transfer_list e). transfers w u \<noteq> None"
    and sh: "\<not> bits_set (shutdown e) ENGINE_SHUTDOWN_REQUEST"
    and "transfer_list e = ts" "locked e = lk" "xdma_perf e = xp" "e_magic e = mg" "rx_transfer_cyclic e = cyc" "running e = b"
  shows "transfers w' = transfers w \<and> transfer_list e' = ts \<and> locked e' = lk \<and> xdma_perf e' = xp \<and> e_magic e' = mg
    \<and> rx_transfer_cyclic e' = cyc \<and> (running e' \<longleftrightarrow> ts \<noteq> [] \<or> b) \<and> \<not> bits_set (shutdown e') ENGINE_SHUTDOWN_REQUEST"
proof (cases "running e \<or> transfer_list e = []")
  case True
  then have "e' = e" "w' = w" using r sh by (auto simp: engine_service_resume_def split: if_splits)
  then show ?thesis using True assms(3-9) by auto
next
  case False
  then obtain t us where tl: "transfer_list e = t # us" by (cases "transfer_list e") auto
  then obtain x where x: "transfers w t = Some x" using live by auto
  obtain e2 w2 where s: "engine_service_resume env e w = Some (e2, w2)" "transfers w2 = transfers w"
    "transfer_list e2 = transfer_list e" "locked e2 = locked e" "xdma_perf e2 = xdma_perf e" "e_magic e2 = e_magic e"
    "rx_transfer_cyclic e2 = rx_transfer_cyclic e" "running e2" "shutdown e2 = 0"
    using service_resume_run [OF _ live, of env] False sh tl x by metis
  then have "e2 = e'" "w2 = w'" using r by simp_all
  then show ?thesis using s tl assms(4-9) by (auto simp: bits_set_def)
qed

lemma engine_service_no_error:
  assumes inv: "queue_live (transfers w) (transfer_list e)" "running e" "\<not> poll_mode env" "xdma_perf e = None"
      "\<not> bits_set (shutdown e) ENGINE_SHUTDOWN_REQUEST"
    and s: "s = hw_read env (trace w) (engine_status_rc (e_regs e))" "\<not> bits_set s err_flags"
    and r: "engine_service env 0 e w = Some (rc, e', w')"
  obtains pre t post st where "transfer_list e = pre @ t # post" "transfer_list e' = post"
    "transfers w' = end_transfer st t (end_all pre (transfers w))"
    "running e' \<longleftrightarrow> post \<noteq> [] \<or> bits_set s XDMA_STAT_BUSY" "locked e' = locked e" "xdma_perf e' = None" "e_magic e' = e_magic e"
    "rx_transfer_cyclic e' = rx_transfer_cyclic e" "\<not> bits_set (shutdown e') ENGINE_SHUTDOWN_REQUEST"
  proof -
  define b where "b = bits_set s XDMA_STAT_BUSY"
  define w1 where "w1 = emit (IoRead (engine_status_rc (e_regs e)) s) w"
  define e2 where "e2 = e\<lparr>status := s, running := b\<rparr>"
  define w2 where "w2 = (if b then w1 else emit (WakeUp WqShutdown) (xdma_engine_stop env (e\<lparr>status := s\<rparr>) w1))"
  obtain c w3 where rd: "read_register env (engine_completed_desc_count (e_regs e)) w2 = (c, w3)" by fastforce
  have st: "engine_status_read env True e w = (s, e\<lparr>status := s\<rparr>, w1)"
    by (simp add: engine_status_read_def read_register_def s(1) w1_def Let_def)
  have keep: "e\<lparr>status := s\<rparr> = e\<lparr>status := s, running := True\<rparr>" using inv(2) by (cases e) simp
  have sd: "(if \<not> b then engine_service_shutdown env (e\<lparr>status := s\<rparr>) w1 else (e\<lparr>status := s\<rparr>, w1)) = (e2, w2)"
    using keep by (simp add: engine_service_shutdown_def Let_def w2_def e2_def)
  have h3: "transfers w3 = transfers w"
    using register_world(3) [of env "engine_completed_desc_count (e_regs e)" w2] unfolding rd
    by (simp add: w2_def w1_def)
  have tl2: "transfer_list e2 = transfer_list e" "xdma_perf e2 = None" "desc_dequeued e2 = desc_dequeued e"
    "e_regs e2 = e_regs e"
    using inv(4) by (simp_all add: e2_def)
  have "transfer_list e \<noteq> []"
    using r inv(2) tl2 by (auto simp: engine_service_def Let_def st rd engine_service_transfer_list_def
        b_def [symmetric] sd)
  then obtain t0 ts0 where tl: "transfer_list e = t0 # ts0" by (cases "transfer_list e") auto
  have "Option.bind (service_list_loop (transfer_list e2) e2 (c - desc_dequeued e) w3)
      (\<lambda>(transfer, dc, e, w). Option.bind (engine_service_final_transfer env e transfer dc w)
         (\<lambda>(_, e, w). Option.bind (engine_service_resume env e w) (\<lambda>(e, w). Some (0, e, w))))
      = Some (rc, e', w')"
    using r inv(2,3) tl tl2
    by (simp add: engine_service_def Let_def st b_def [symmetric] sd rd engine_service_perf_def
        engine_service_transfer_list_def del: service_list_loop.simps)
  then obtain topt dc e4 w4 r5 e5 w5 where l: "service_list_loop (transfer_list e2) e2 (c - desc_dequeued e) w3
      = Some (topt, dc, e4, w4)"
    "engine_service_final_transfer env e4 topt dc w4 = Some (r5, e5, w5)"
    "engine_service_resume env e5 w5 = Some (e', w')"
    by (auto simp: bind_Some_iff)
  have ql: "queue_live (transfers w3) (transfer_list e2)" using inv(1) h3 by (simp add: e2_def)
  obtain pre post where p: "transfer_list e2 = pre @ post" "topt = (case post of [] \<Rightarrow> None | t # _ \<Rightarrow> Some t)"
    "e4 = e2\<lparr>transfer_list := post, desc_dequeued := desc_dequeued e4\<rparr>" "transfers w4 = end_all pre (transfers w3)"
    using service_list_loop_inv [OF l(1) ql refl] by auto
  have e4: "status e4 = s" "transfer_list e4 = post" "running e4 = b" "shutdown e4 = shutdown e"
    "locked e4 = locked e" "xdma_perf e4 = None" "e_magic e4 = e_magic e" "rx_transfer_cyclic e4 = rx_transfer_cyclic e"
    using inv(4) by (subst p(3), simp add: e2_def)+
  obtain t post' where post: "post = t # post'" "topt = Some t"
    using l(2) p(2) by (cases post) (auto simp: engine_service_final_transfer_def)
  have tq: "transfer_list e = pre @ t # post'" using p(1) post by (simp add: e2_def)
  then have tpre: "t \<notin> set pre" "queue_live (transfers w) (pre @ t # post')"
    using inv(1) by (auto simp: queue_live_def)
  then obtain x where x: "transfers w4 t = Some x" "destroyable x"
    using p(4) h3 by (auto simp: queue_live_def end_all_other)
  define st' where "st' = (if dc < of_nat (desc_num x) then TRANSFER_STATE_FAILED else TRANSFER_STATE_COMPLETED)"
  obtain w6 evs where f: "Option.bind (set_state t st' w4) (engine_transfer_completion t)
       = Some (if is_async x then None else Some t, w6)"
    "transfers w6 = end_transfer st' t (transfers w4)"
    using complete_one [OF x] by metis
  have fin: "e5 = e4\<lparr>transfer_list := post', desc_dequeued := desc_dequeued e4 + of_nat (desc_num x)\<rparr>" "w5 = w6"
    using l(2) post x(1) f(1) s(2) e4
    by (auto simp: engine_service_final_transfer_def dequeue_head_def bind_Some_iff st'_def split: if_splits)
  have live: "transfers w5 u = transfers w u" if "u \<in> set post'" for u
  proof -
    have "u \<noteq> t" "u \<notin> set pre" using that tpre(2) by (auto simp: queue_live_def)
    then show ?thesis by (simp add: fin f(2) p(4) h3 end_all_other)
  qed
  have live5: "\<forall>u\<in>set (transfer_list e5). transfers w5 u \<noteq> None"
    using live tpre(2) fin by (auto simp: queue_live_def)
  have e5: "running e5 = b" "transfer_list e5 = post'" "locked e5 = locked e" "xdma_perf e5 = None"
    "e_magic e5 = e_magic e" "rx_transfer_cyclic e5 = rx_transfer_cyclic e" "\<not> bits_set (shutdown e5) ENGINE_SHUTDOWN_REQUEST"
    using inv(5) e4 fin by simp_all
  have res: "transfers w' = transfers w5 \<and> transfer_list e' = post' \<and> locked e' = locked e \<and> xdma_perf e' = None
      \<and> e_magic e' = e_magic e \<and> rx_transfer_cyclic e' = rx_transfer_cyclic e
      \<and> (running e' \<longleftrightarrow> post' \<noteq> [] \<or> b) \<and> \<not> bits_set (shutdown e') ENGINE_SHUTDOWN_REQUEST"
    by (rule resume_keeps [OF l(3) live5 e5(7)]) (simp_all add: e5)
  show ?thesis
  proof (rule that [OF tq])
    show "transfers w' = end_transfer st' t (end_all pre (transfers w))"
      using res fin f(2) p(4) h3 by simp
  qed (use res in \<open>simp_all add: b_def\<close>)
qed

text \<open>An engine as \<open>engine_create\<close> leaves it.\<close>

definition engine_fresh :: "xdma_engine \<times> world \<Rightarrow> bool" where
  "engine_fresh = (\<lambda>(e, w). \<not> locked e \<and> e_magic e = MAGIC_ENGINE \<and> rx_transfer_cyclic e = None
     \<and> xdma_perf e = None \<and> transfer_list e = [] \<and> \<not> running e \<and> shutdown e = 0)"

lemma engine_fresh_inv: "engine_fresh s \<Longrightarrow> engine_inv calm s"
  by (auto simp: engine_fresh_def engine_inv_def queue_live_def)

lemma engine_inv_submit:
  assumes inv: "engine_inv calm (e, w)" and t: "transfers w t = Some x" "t_state x = TRANSFER_STATE_NEW"
      "\<not> t_cyclic x" "destroyable x"
    and r: "transfer_queue env e t w = Some (rc, e', w')"
  shows "engine_inv calm (e', w')"
proof -
  have nq: "t \<notin> set (transfer_list e)" using inv t by (auto simp: engine_inv_def)
  have dn: "desc_num x \<noteq> 0" using r t(1) by (simp add: transfer_queue_def bug_on_def split: if_splits)
  let ?x = "x\<lparr>t_state := TRANSFER_STATE_SUBMITTED\<rparr>"
  have live: "\<exists>y. ((transfers w)(t \<mapsto> ?x)) (hd (transfer_list e @ [t])) = Some y"
    using inv nq by (cases "transfer_list e") (auto simp: engine_inv_def queue_live_def)
  then obtain y where y: "((transfers w)(t \<mapsto> ?x)) (hd (transfer_list e @ [t])) = Some y" ..
  have lk: "\<not> locked e" "\<not> bits_set (shutdown e) ENGINE_SHUTDOWN_REQUEST"
    using inv by (simp_all add: engine_inv_def)
  obtain e1 w1 where "transfer_queue env e t w = Some (0, e1, w1)"
    "transfer_list e1 = transfer_list e @ [t]" "running e1" "\<not> locked e1"
    "transfers w1 = (transfers w)(t \<mapsto> ?x)" "xdma_perf e1 = xdma_perf e" "e_magic e1 = e_magic e"
    "rx_transfer_cyclic e1 = rx_transfer_cyclic e" "\<not> bits_set (shutdown e1) ENGINE_SHUTDOWN_REQUEST"
    using transfer_queue_run [OF t(1) dn lk refl y] by metis
  with r have q: "transfer_list e' = transfer_list e @ [t]" "running e'" "\<not> locked e'"
    "transfers w' = (transfers w)(t \<mapsto> ?x)" "xdma_perf e' = xdma_perf e" "e_magic e' = e_magic e"
    "rx_transfer_cyclic e' = rx_transfer_cyclic e" "\<not> bits_set (shutdown e') ENGINE_SHUTDOWN_REQUEST"
    by simp_all
  have "destroyable ?x" using t(4) by (simp add: destroyable_def)
  then have "queue_live (transfers w') (transfer_list e')"
    using inv q nq t dn by (auto simp: engine_inv_def queue_live_def)
  moreover have "\<forall>u\<in>set (transfer_list e'). \<forall>z. transfers w' u = Some z \<longrightarrow> t_state z = TRANSFER_STATE_SUBMITTED"
    using inv q(1,4) by (auto simp: engine_inv_def)
  ultimately show ?thesis using inv q by (simp add: engine_inv_def)
qed

lemma queue_live_append: "queue_live h (pre @ t # post) \<Longrightarrow> queue_live h post"
  by (auto simp: queue_live_def)

lemma queue_live_cong:
  "(\<And>u. u \<in> set ts \<Longrightarrow> h' u = h u) \<Longrightarrow> queue_live h ts \<Longrightarrow> queue_live h' ts"
  by (auto simp: queue_live_def)

lemma engine_inv_service:
  assumes inv: "engine_inv calm (e, w)" and pm: "\<not> poll_mode env" and cl: "status_ok env calm e w"
    and r: "engine_service_work env cfg msix wb res e w = Some (e', w')"
  shows "engine_inv calm (e', w')"
proof -
  let ?e = "e\<lparr>locked := True\<rparr>"
  obtain rc e1 w1 where s: "engine_service env 0 ?e w = Some (rc, e1, w1)" "e' = spin_unlock e1"
    "transfers w' = transfers w1"
    using r inv by (auto simp: engine_service_work_def spin_lock_def engine_inv_def bind_Some_iff Let_def
        channel_interrupts_enable_def split: if_splits)
  show ?thesis
  proof (cases "running e")
    case False
    then show ?thesis
      using s inv by (auto simp: engine_service_def engine_status_read_def read_register_def Let_def
          spin_unlock_def engine_inv_def emit_def)
  next
    case True
    have q: "queue_live (transfers w) (transfer_list ?e)" "running ?e" "xdma_perf ?e = None"
      "\<not> bits_set (shutdown ?e) ENGINE_SHUTDOWN_REQUEST"
      using inv True by (simp_all add: engine_inv_def)
    define s where "s = hw_read env (trace w) (engine_status_rc (e_regs ?e))"
    have ok: "\<not> bits_set s err_flags" "calm \<longrightarrow> \<not> bits_set s XDMA_STAT_BUSY"
      using cl by (simp_all add: status_ok_def s_def Let_def)
    obtain pre t post st where p: "transfer_list ?e = pre @ t # post" "transfer_list e1 = post"
      "transfers w1 = end_transfer st t (end_all pre (transfers w))"
      "running e1 \<longleftrightarrow> post \<noteq> [] \<or> bits_set s XDMA_STAT_BUSY" "xdma_perf e1 = None" "e_magic e1 = e_magic ?e"
      "rx_transfer_cyclic e1 = rx_transfer_cyclic ?e" "\<not> bits_set (shutdown e1) ENGINE_SHUTDOWN_REQUEST"
      using engine_service_no_error [OF q(1,2) pm q(3,4) s_def ok(1) s(1)] by metis
    have keep: "transfers w1 u = transfers w u" if "u \<in> set post" for u
    proof -
      have "u \<noteq> t" "u \<notin> set pre" using that q(1) p(1) by (auto simp: queue_live_def)
      then show ?thesis by (simp add: p(3) end_all_other)
    qed
    have "queue_live (transfers w) post" using q(1) p(1) queue_live_append by metis
    then have "queue_live (transfers w1) post" using keep by (rule queue_live_cong [rotated])
    moreover have "\<forall>u\<in>set post. \<forall>z. transfers w1 u = Some z \<longrightarrow> t_state z = TRANSFER_STATE_SUBMITTED"
      using inv keep p(1) by (auto simp: engine_inv_def)
    ultimately show ?thesis
      using p s ok(2) inv by (auto simp add: engine_inv_def spin_unlock_def)
  qed
qed

lemma engine_inv_reap:
  assumes inv: "engine_inv calm (e, w)" and t: "transfers w t = Some x" "t_state x \<noteq> TRANSFER_STATE_SUBMITTED"
    and r: "transfer_destroy t w = Some ((), w')"
  shows "engine_inv calm (e, w')"
proof -
  have "t \<notin> set (transfer_list e)" using inv t by (auto simp: engine_inv_def)
  moreover have "transfers w' = (transfers w)(t := None)" by (rule transfer_destroy_frame [OF r])
  ultimately show ?thesis
    using inv by (auto simp: engine_inv_def queue_live_def split: if_splits)
qed

interpretation engine_ts: transition_system engine_fresh "engine_step env cfg msix calm" "engine_inv calm"
  for env cfg msix calm
proof unfold_locales
  fix s t
  show "engine_fresh s \<Longrightarrow> engine_inv calm s" by (rule engine_fresh_inv)
  show "engine_inv calm s \<Longrightarrow> engine_step env cfg msix calm s t \<Longrightarrow> engine_inv calm t"
    by (erule engine_stepE) (auto dest: engine_inv_submit engine_inv_service engine_inv_reap)
qed

subsection \<open>Where the service routine stops the kernel\<close>

lemma shutdown_heap [simp]:
  "transfers (snd (engine_service_shutdown env e w)) = transfers w"
  "transfer_list (fst (engine_service_shutdown env e w)) = transfer_list e"
  by (simp_all add: engine_service_shutdown_def Let_def)

lemma engine_service_empty_stops:
  "running e \<Longrightarrow> transfer_list e = [] \<Longrightarrow> engine_service env 0 e w = None"
  by (simp add: engine_service_def Let_def engine_status_read_def read_register_def
      engine_service_shutdown_def engine_service_transfer_list_def)

lemma engine_service_dangling_stops:
  "running e \<Longrightarrow> transfer_list e = t # ts \<Longrightarrow> transfers w t = None \<Longrightarrow> xdma_perf e = None
    \<Longrightarrow> engine_service env 0 e w = None"
  by (simp add: engine_service_def Let_def engine_status_read_def read_register_def
      engine_service_shutdown_def engine_service_transfer_list_def engine_service_perf_def split_beta)

lemma engine_service_busy_run:
  assumes run: "running e" and irq: "\<not> poll_mode env" and perf: "xdma_perf e = None"
    and q: "transfer_list e = [t]" and x: "transfers w t = Some x" "destroyable x"
    and s: "s = hw_read env (trace w) (engine_status_rc (e_regs e))"
      "bits_set s XDMA_STAT_BUSY" "\<not> bits_set s err_flags"
    and c: "c = hw_read env (trace w @ [IoRead (engine_status_rc (e_regs e)) s])
         (engine_completed_desc_count (e_regs e))"
      "c - desc_dequeued e < of_nat (desc_num x)"
  obtains e' w' where "engine_service env 0 e w = Some (0, e', w')"
    "transfer_list e' = []" "running e'"
    "transfers w' = end_transfer TRANSFER_STATE_FAILED t (transfers w)"
proof -
  define w1 where "w1 = emit (IoRead (engine_status_rc (e_regs e)) s) w"
  define w3 where "w3 = emit (IoRead (engine_completed_desc_count (e_regs e)) c) w1"
  define e1 where "e1 = e\<lparr>status := s\<rparr>"
  have st: "engine_status_read env True e w = (s, e1, w1)"
    by (simp add: engine_status_read_def read_register_def s(1) w1_def e1_def Let_def)
  have rd: "read_register env (engine_completed_desc_count (e_regs e)) w1 = (c, w3)"
    using c(1) by (simp add: read_register_def Let_def w3_def w1_def)
  have x3: "transfers w3 t = Some x" "transfers w3 = transfers w" using x by (simp_all add: w3_def w1_def)
  have l: "service_list_loop (transfer_list e1) e1 (c - desc_dequeued e) w3
      = Some (Some t, c - desc_dequeued e, e1, w3)"
  proof -
    have "\<not> of_nat (desc_num x) < c - desc_dequeued e" using c(2) by simp
    then show ?thesis using q x3 by (simp add: e1_def)
  qed
  obtain w5 evs where f: "Option.bind (set_state t TRANSFER_STATE_FAILED w3) (engine_transfer_completion t)
       = Some (if is_async x then None else Some t, w5)"
    "transfers w5 = end_transfer TRANSFER_STATE_FAILED t (transfers w3)"
    using complete_one [OF x3(1) x(2)] by metis
  define e5 where "e5 = e1\<lparr>transfer_list := [], desc_dequeued := desc_dequeued e1 + of_nat (desc_num x)\<rparr>"
  obtain w4 where w4: "set_state t TRANSFER_STATE_FAILED w3 = Some w4"
    "engine_transfer_completion t w4 = Some (if is_async x then None else Some t, w5)"
    using f(1) by (auto simp: bind_Some_iff)
  have fin: "engine_service_final_transfer env e1 (Some t) (c - desc_dequeued e) w3
      = Some (if is_async x then None else Some t, e5, w5)"
    using w4 s(3) x3 c(2) q by (simp add: engine_service_final_transfer_def e1_def e5_def dequeue_head_def)
  show ?thesis
  proof (rule that [of e5 w5])
    show "engine_service env 0 e w = Some (0, e5, w5)"
      using run s(2) q irq perf st rd l fin
      by (simp add: engine_service_def Let_def engine_service_perf_def engine_service_transfer_list_def
          engine_service_resume_def e1_def e5_def del: service_list_loop.simps)
  qed (use run f x3 in \<open>simp_all add: e5_def e1_def\<close>)
qed

text \<open>A polled cyclic service with the overrun flag already set: the ring loop takes nothing, so
  the poll loop goes on as long as no error is reported.\<close>

definition poll_stuck :: "(nat \<Rightarrow> u32) \<Rightarrow> (nat \<Rightarrow> (u32 \<times> u32) list) \<Rightarrow> nat \<Rightarrow> xdma_engine \<Rightarrow> bool" where
  "poll_stuck wb res eop e \<longleftrightarrow> rx_overrun e \<and> eop = 0 \<and> (\<forall>i. \<not> bits_set (wb i) WB_ERR_MASK)
     \<and> (\<forall>i. rx_tail e < length (res i))"

lemma cyclic_poll_loop_overrun_aux:
  fixes w :: "'w kworld_scheme"
  assumes r: "cyclic_poll_loop wb res i eop e w = Some y"
  shows "\<not> poll_stuck wb res eop e"
proof (rule cyclic_poll_loop.raw_induct [where P = "\<lambda>wb res i eop e w y. \<not> poll_stuck wb res eop e", OF _ r])
  fix f and wb :: "nat \<Rightarrow> u32" and res :: "nat \<Rightarrow> (u32 \<times> u32) list" and i eop :: nat
    and e :: xdma_engine and w :: "'w kworld_scheme" and y :: "int \<times> nat \<times> xdma_engine \<times> 'w kworld_scheme"
  assume IH: "\<And>wb res i eop e w y. f wb res i eop e w = Some y \<Longrightarrow> \<not> poll_stuck wb res eop e"
    and body: "(if eop = 0
      then let w = if i \<noteq> 0 \<and> i mod NUM_POLLS_PER_SCHED = 0 then emit Schedule w else w
           in if bits_set (wb i) WB_ERR_MASK then Some (- 1, eop, e, w)
              else engine_ring_process (e\<lparr>rx_result_buffer := Some (res i)\<rparr>) \<bind>
                   (\<lambda>(eop, e). f wb res (Suc i) eop e w)
      else Some (0, eop, e, w)) = Some y"
  show "\<not> poll_stuck wb res eop e"
  proof
    assume h: "poll_stuck wb res eop e"
    then have "engine_ring_process (e\<lparr>rx_result_buffer := Some (res i)\<rparr>)
        = Some (0, e\<lparr>rx_result_buffer := Some (res i)\<rparr>)"
      by (simp add: engine_ring_process_def ring_process_loop_stop poll_stuck_def)
    with body h obtain w' where "f wb res (Suc i) 0 (e\<lparr>rx_result_buffer := Some (res i)\<rparr>) w' = Some y"
      by (auto simp: Let_def poll_stuck_def)
    from IH [OF this] h show False by (simp add: poll_stuck_def)
  qed
qed

lemma cyclic_poll_loop_overrun:
  assumes "rx_overrun e" "\<And>i. \<not> bits_set (wb i) WB_ERR_MASK" "\<And>i. rx_tail e < length (res i)"
  shows "cyclic_poll_loop wb res i 0 e w = None"
  using cyclic_poll_loop_overrun_aux [of wb res i 0 e w] assms
  by (cases "cyclic_poll_loop wb res i 0 e w") (auto simp: poll_stuck_def)

subsection \<open>Properties\<close>

text \<open>A small scene for the concrete instances: an engine at register base \<open>0x1000\<close>, one
  transfer of one descriptor, a card that reports one completed descriptor and the status
  \<open>s\<close>.\<close>

definition xfer1 :: xdma_transfer where
  "xfer1 = transfer0\<lparr>desc_virt := Some [uninit_desc env0 [] 0], desc_bus := 0x1200010000,
     desc_num := 1, desc_adjacent := 1, sgl_nents := 1\<rparr>"

definition engine1 :: xdma_engine where
  "engine1 = engine0\<lparr>e_regs := 0x1000, e_sgdma_regs := 0x5000\<rparr>"

definition world1 :: world where
  "world1 = \<lparr>trace = [], transfers = [0 \<mapsto> xfer1], next_tid = 1\<rparr>"

definition card :: "u32 \<Rightarrow> u32 \<Rightarrow> kenv" where
  "card s n = env0\<lparr>hw_read := \<lambda>_ a. if a = 0x1048 then n else if a = 0x1044 then s else 0\<rparr>"

lemma scene [simp]:
  "running engine1 = False" "locked engine1 = False" "transfer_list engine1 = []" "xdma_perf engine1 = None"
  "shutdown engine1 = 0" "e_regs engine1 = 0x1000" "desc_dequeued engine1 = 0" "e_magic engine1 = MAGIC_ENGINE"
  "rx_transfer_cyclic engine1 = None" "transfers world1 = [0 \<mapsto> xfer1]" "trace world1 = []"
  "desc_num xfer1 = 1" "t_cyclic xfer1 = False" "iocb xfer1 = None" "poll_mode (card s n) = False"
  "hw_read (card s n) tr a = (if a = 0x1048 then n else if a = 0x1044 then s else 0)"
  "engine_status_rc 0x1000 = 0x1044" "engine_completed_desc_count 0x1000 = 0x1048"
  "t_state xfer1 = TRANSFER_STATE_NEW" "next_tid world1 = 1"
  by (simp_all add: engine1_def engine0_def world1_def xfer1_def transfer0_def card_def env0_def engine_regs_defs)

lemma scene_live: "destroyable xfer1" "queue_live [0 \<mapsto> xfer1] [0]"
  by (simp_all add: queue_live_def destroyable_def xfer1_def transfer0_def)

lemma scene_queue:
  obtains w1 where "transfer_queue (card 0 1) engine1 0 world1
      = Some (0, engine1\<lparr>locked := True, transfer_list := [0], shutdown := 0, desc_dequeued := 0, running := True, locked := False\<rparr>, w1)"
    "transfers w1 = [0 \<mapsto> xfer1\<lparr>t_state := TRANSFER_STATE_SUBMITTED\<rparr>]"
proof -
  let ?e = "engine1\<lparr>locked := True, transfer_list := [0]\<rparr>" and ?x = "xfer1\<lparr>t_state := TRANSFER_STATE_SUBMITTED\<rparr>"
  let ?w = "put_transfer 0 ?x world1"
  have h: "\<not> running ?e" "transfer_list ?e = [0]" "transfers ?w 0 = Some ?x" by simp_all
  obtain w1 where "engine_start (card 0 1) ?e ?w = Some (0, ?e\<lparr>shutdown := 0, desc_dequeued := 0, running := True\<rparr>, w1)"
    "transfers w1 = transfers ?w"
    using engine_start_run [OF h] by metis
  then show ?thesis
    by (intro that [of w1]) (simp_all add: transfer_queue_def bug_on_def spin_lock_def spin_unlock_def set_state_def
        bits_set_def Let_def)
qed

lemma scene_service:
  assumes "e = engine1\<lparr>locked := True, transfer_list := [0], shutdown := 0, desc_dequeued := 0, running := True, locked := False\<rparr>"
    and "transfers w = [0 \<mapsto> xfer1\<lparr>t_state := TRANSFER_STATE_SUBMITTED\<rparr>]"
  obtains e' w' where "engine_service_work (card 0 1) 0 False (\<lambda>_. 0) (\<lambda>_. []) e w = Some (e', w')"
    "transfer_list e' = []" "transfers w' = [0 \<mapsto> xfer1\<lparr>t_state := TRANSFER_STATE_COMPLETED\<rparr>]"
proof -
  let ?x = "xfer1\<lparr>t_state := TRANSFER_STATE_SUBMITTED\<rparr>" and ?e = "e\<lparr>locked := True\<rparr>"
  have d: "destroyable ?x" using scene_live by (simp add: destroyable_def)
  have f: "running ?e" "xdma_perf ?e = None" "transfer_list ?e = [] @ 0 # []" "e_regs ?e = 0x1000" "desc_dequeued ?e = 0"
    "rx_transfer_cyclic ?e = None" "e_magic ?e = MAGIC_ENGINE" "\<not> locked e" "transfers w 0 = Some ?x" "desc_num ?x = 1"
    by (simp_all add: assms)
  have ql: "queue_live (transfers w) (transfer_list ?e)" using d by (simp add: assms queue_live_def)
  obtain e' w' where v: "engine_service (card 0 1) 0 ?e w = Some (0, e', w')" "transfer_list e' = []"
    "transfers w' = end_transfer (if (1::nat) < desc_num ?x then TRANSFER_STATE_FAILED else TRANSFER_STATE_COMPLETED) 0
       (end_all [] (transfers w))"
    by (rule engine_service_run [OF f(1) _ f(2,3) ql f(9), of "card 0 1" 0 1 1])
      (use f in \<open>simp_all add: bits_set_def descs_def\<close>)
  have "engine_service_work (card 0 1) 0 False (\<lambda>_. 0) (\<lambda>_. []) e w
      = Some (spin_unlock e', channel_interrupts_enable 0 (irq_bitmask e') w')"
    using f v(1) by (simp add: engine_service_work_def bug_on_def spin_lock_def Let_def)
  then show ?thesis
    by (rule that) (use v(2,3) f(10) assms(2) in
      \<open>simp_all add: spin_unlock_def channel_interrupts_enable_def end_all_def end_transfer_def is_async_def\<close>)
qed

text \<open>the control words agree on everything but what starting means: the start word is the
  stop word with the RUN bit, plus the fixed-address bit when the engine is in that mode and
  interrupts are used; the stop word never has the RUN bit.\<close>

theorem engine_control_words:
  "start_word env e = stop_word env e OR XDMA_CTRL_RUN_STOP
      OR (if non_incr_addr e \<and> \<not> poll_mode env then XDMA_CTRL_NON_INCR_ADDR else 0)
   \<and> \<not> bits_set (stop_word env e) XDMA_CTRL_RUN_STOP"
  using start_word_stop_word stop_word_no_run by blast

text \<open>in poll mode the fixed-address mode of the engine is lost at every start: the control
  word written is the same whether the mode is set or not.\<close>

theorem poll_mode_loses_addr_mode:
  "poll_mode env \<Longrightarrow> start_word env (e\<lparr>non_incr_addr := True\<rparr>) = start_word env (e\<lparr>non_incr_addr := False\<rparr>)"
  by (simp add: start_word_def Let_def)

lemma poll_mode_loses_addr_mode_witness:
  "start_word (env0\<lparr>poll_mode := True\<rparr>) (engine1\<lparr>non_incr_addr := True\<rparr>)
     = start_word (env0\<lparr>poll_mode := True\<rparr>) (engine1\<lparr>non_incr_addr := False\<rparr>)"
  by (rule poll_mode_loses_addr_mode) simp

text \<open>C21: starting an idle engine whose queue is headed by a live transfer returns that transfer,
  marks the engine running and makes exactly these register writes in this order: the two
  halves of the bus address of the first descriptor, the adjacency count (at most 15), the
  perf interrupt mask when a perf run is on, and last the start word.\<close>

theorem engine_start_programs:
  assumes "\<not> running e" "transfer_list e = t # ts" "transfers w t = Some x"
  shows "\<exists>w' lo hi adj. engine_start env e w
      = Some (t, e\<lparr>shutdown := 0, desc_dequeued := 0, running := True\<rparr>, w')
    \<and> transfers w' = transfers w
    \<and> io_writes (trace w') = io_writes (trace w)
        @ [(sgdma_first_desc_lo (e_sgdma_regs e), lo), (sgdma_first_desc_hi (e_sgdma_regs e), hi),
           (sgdma_first_desc_adjacent (e_sgdma_regs e), adj)]
        @ (if xdma_perf e = None then [] else [(engine_interrupt_enable_mask (e_regs e), perf_interrupt_word)])
        @ [(engine_control (e_regs e), start_word env e)]
    \<and> join64 hi lo = desc_bus x \<and> unat adj = min (desc_adjacent x - 1) 15"
proof -
  obtain w' where w': "engine_start env e w = Some (t, e\<lparr>shutdown := 0, desc_dequeued := 0, running := True\<rparr>, w')"
    "transfers w' = transfers w" "io_writes (trace w') = io_writes (trace w) @ start_writes env e x"
    using engine_start_run [OF assms] by metis
  have "start_adj x < 2 ^ LENGTH(32)" by (simp add: start_adj_def MAX_EXTRA_ADJ_def)
  then have "unat (of_nat (start_adj x) :: u32) = min (desc_adjacent x - 1) 15"
    by (simp only: unat_of_nat_small) (simp add: start_adj_def MAX_EXTRA_ADJ_def)
  then show ?thesis
    using w' by (intro exI [of _ w'] exI [of _ "PCI_DMA_L (desc_bus x)"] exI [of _ "PCI_DMA_H (desc_bus x)"]
        exI [of _ "of_nat (start_adj x)"]) (simp add: start_writes_def pci_dma.join_split)
qed

lemma engine_start_programs_witness:
  "\<exists>w' lo hi adj. engine_start env0 (engine1\<lparr>transfer_list := [0]\<rparr>) world1
      = Some (0, engine1\<lparr>transfer_list := [0], shutdown := 0, desc_dequeued := 0, running := True\<rparr>, w')
    \<and> io_writes (trace w') = [(0x5080, lo), (0x5084, hi), (0x5088, adj), (0x1004, start_word env0 (engine1\<lparr>transfer_list := [0]\<rparr>))]
    \<and> join64 hi lo = 0x1200010000 \<and> unat adj = 0"
  using engine_start_programs [of "engine1\<lparr>transfer_list := [0]\<rparr>" 0 "[]" world1 xfer1 env0]
  by (auto simp: sgdma_first_desc_lo_def sgdma_first_desc_hi_def sgdma_first_desc_adjacent_def
      engine_control_def engine1_def engine0_def xfer1_def transfer0_def)

text \<open>C20: \<open>transfer_queue\<close> is first in, first out: an accepted transfer goes to the tail, is marked
  submitted, and the engine runs afterwards; the card is only programmed, with the head of
  the queue, when it was idle. The lock is free again.\<close>

theorem transfer_queue_appends:
  assumes "transfers w t = Some x" "desc_num x \<noteq> 0" "\<not> locked e"
    and "\<not> bits_set (shutdown e) ENGINE_SHUTDOWN_REQUEST"
    and "\<And>u. u \<in> set (transfer_list e) \<Longrightarrow> transfers w u \<noteq> None"
  shows "\<exists>e' w' y. transfer_queue env e t w = Some (0, e', w')
    \<and> transfer_list e' = transfer_list e @ [t] \<and> running e' \<and> \<not> locked e'
    \<and> transfers w' = (transfers w)(t \<mapsto> x\<lparr>t_state := TRANSFER_STATE_SUBMITTED\<rparr>)
    \<and> transfers w' (hd (transfer_list e')) = Some y
    \<and> io_writes (trace w') = io_writes (trace w) @ (if running e then [] else start_writes env e y)"
proof -
  let ?h = "(transfers w)(t \<mapsto> x\<lparr>t_state := TRANSFER_STATE_SUBMITTED\<rparr>)"
  have "\<exists>y. ?h (hd (transfer_list e @ [t])) = Some y"
    using assms(5) by (cases "transfer_list e") auto
  then obtain y where y: "?h (hd (transfer_list e @ [t])) = Some y" ..
  obtain e' w' where "transfer_queue env e t w = Some (0, e', w')"
    "transfer_list e' = transfer_list e @ [t]" "running e'" "\<not> locked e'" "transfers w' = ?h"
    "io_writes (trace w') = io_writes (trace w) @ (if running e then [] else start_writes env e y)"
    using transfer_queue_run [OF assms(1-4) refl y] by metis
  then show ?thesis using y by (intro exI [of _ e'] exI [of _ w'] exI [of _ y]) simp
qed

lemma transfer_queue_appends_witness:
  "\<exists>e' w' y. transfer_queue env0 engine1 0 world1 = Some (0, e', w')
    \<and> transfer_list e' = [0] \<and> running e' \<and> \<not> locked e'
    \<and> transfers w' = [0 \<mapsto> xfer1\<lparr>t_state := TRANSFER_STATE_SUBMITTED\<rparr>]
    \<and> transfers w' (hd (transfer_list e')) = Some y \<and> io_writes (trace w') = start_writes env0 engine1 y"
  using transfer_queue_appends [of world1 0 xfer1 engine1 env0] by (simp add: ENGINE_SHUTDOWN_REQUEST_def)

text \<open>C2: servicing an idle, error-free engine completes transfers in queue order: when the card
  reports all descriptors of \<open>pre\<close> and \<open>m\<close> of the next transfer \<open>t\<close>, those of
  \<open>pre\<close> are completed, \<open>t\<close> is completed or (half way) failed, they leave the queue, an
  asynchronous one is freed, and the engine is started again exactly when work is left and
  no shutdown is requested.\<close>

theorem engine_service_completes_in_order:
  assumes "running e" "\<not> poll_mode env" "xdma_perf e = None"
    and "transfer_list e = pre @ t # post" "queue_live (transfers w) (transfer_list e)"
    and "transfers w t = Some x"
    and "s = hw_read env (trace w) (engine_status_rc (e_regs e))"
      "\<not> bits_set s XDMA_STAT_BUSY" "\<not> bits_set s err_flags"
    and "c = hw_read env (trace w @ [IoRead (engine_status_rc (e_regs e)) s,
           IoWrite (engine_control (e_regs e)) (stop_word env e), WakeUp WqShutdown])
         (engine_completed_desc_count (e_regs e))"
      "unat (c - desc_dequeued e) = descs (transfers w) pre + m" "0 < m" "m \<le> desc_num x"
      "descs (transfers w) pre + desc_num x < 2 ^ 32"
  shows "\<exists>e' w'. engine_service env 0 e w = Some (0, e', w') \<and> transfer_list e' = post
    \<and> transfers w' = end_transfer (if m < desc_num x then TRANSFER_STATE_FAILED else TRANSFER_STATE_COMPLETED)
         t (end_all pre (transfers w))
    \<and> (running e' \<longleftrightarrow> post \<noteq> [] \<and> \<not> bits_set (shutdown e) ENGINE_SHUTDOWN_REQUEST)
    \<and> io_writes (trace w') = io_writes (trace w) @ [(engine_control (e_regs e), stop_word env e)]
       @ (case post of [] \<Rightarrow> [] | u # _ \<Rightarrow>
            if bits_set (shutdown e) ENGINE_SHUTDOWN_REQUEST then []
            else start_writes env e (the (transfers w u)))"
  by (rule engine_service_run [OF assms]) blast

lemma engine_service_completes_in_order_witness:
  "\<exists>e' w'. engine_service (card 0 1) 0 (engine1\<lparr>running := True, transfer_list := [0]\<rparr>) world1 = Some (0, e', w')
    \<and> transfer_list e' = [] \<and> transfers w' = [0 \<mapsto> xfer1\<lparr>t_state := TRANSFER_STATE_COMPLETED\<rparr>]
    \<and> \<not> running e'"
  using engine_service_completes_in_order [of "engine1\<lparr>running := True, transfer_list := [0]\<rparr>" "card 0 1"
      "[]" 0 "[]" world1 xfer1 0 1 1] scene_live
  by (auto simp: descs_def end_all_def end_transfer_def is_async_def)

text \<open>C29: after an error the failed transfer is not taken off the queue: the driver marks it failed
  and starts the engine again on it. When the waiting thread then frees it, as it does for
  any transfer that is no longer submitted, the next service of the engine runs into the
  freed transfer and stops the kernel.\<close>

theorem engine_error_requeues_failed_transfer:
  assumes "running e" "\<not> poll_mode env" "xdma_perf e = None"
    and "\<not> bits_set (shutdown e) ENGINE_SHUTDOWN_REQUEST"
    and "transfer_list e = t # post" "transfers w t = Some x" "\<not> t_cyclic x"
    and "s = hw_read env (trace w) (engine_status_rc (e_regs e))"
      "\<not> bits_set s XDMA_STAT_BUSY" "bits_set s err_flags"
    and "c = hw_read env (trace w @ [IoRead (engine_status_rc (e_regs e)) s,
           IoWrite (engine_control (e_regs e)) (stop_word env e), WakeUp WqShutdown])
         (engine_completed_desc_count (e_regs e))"
      "c - desc_dequeued e \<le> of_nat (desc_num x)"
  shows "\<exists>e' w'. engine_service env 0 e w = Some (0, e', w')
    \<and> transfers w' = (transfers w)(t \<mapsto> x\<lparr>t_state := TRANSFER_STATE_FAILED\<rparr>)
    \<and> running e' \<and> transfer_list e' = t # post
    \<and> io_writes (trace w') = io_writes (trace w) @ [(engine_control (e_regs e), stop_word env e),
         (engine_control (e_regs e), stop_word env e)] @ start_writes env e x
    \<and> (\<forall>w'' u. transfer_destroy t w' = Some (u, w'') \<longrightarrow> engine_service env 0 e' w'' = None)"
proof -
  obtain e' w' where r: "engine_service env 0 e w = Some (0, e', w')"
    "transfer_list e' = t # post" "running e'" "xdma_perf e' = None"
    "transfers w' = (transfers w)(t \<mapsto> x\<lparr>t_state := TRANSFER_STATE_FAILED\<rparr>)"
    "io_writes (trace w') = io_writes (trace w) @ [(engine_control (e_regs e), stop_word env e),
       (engine_control (e_regs e), stop_word env e)] @ start_writes env e x"
    using engine_service_error_run [OF assms] by metis
  have "engine_service env 0 e' w'' = None"
    if "transfer_destroy t w' = Some (u, w'')" for w'' u
    by (rule engine_service_dangling_stops [OF r(3,2) _ r(4)]) (simp add: transfer_destroy_frame [OF that])
  then show ?thesis using r by blast
qed

lemma engine_error_requeues_failed_transfer_witness:
  "\<exists>e' w'. engine_service (card 0x10 0) 0 (engine1\<lparr>running := True, transfer_list := [0]\<rparr>) world1 = Some (0, e', w')
    \<and> transfers w' = [0 \<mapsto> xfer1\<lparr>t_state := TRANSFER_STATE_FAILED\<rparr>]
    \<and> running e' \<and> transfer_list e' = [0]"
  using engine_error_requeues_failed_transfer [of "engine1\<lparr>running := True, transfer_list := [0]\<rparr>" "card 0x10 0"
      0 "[]" world1 xfer1 "0x10" 0]
  by (auto simp: ENGINE_SHUTDOWN_REQUEST_def err_flags_def stat_bits bits_set_def)

text \<open>an interrupt that finds the engine still busy and the head transfer unfinished is not
  ignored: the transfer is taken off the queue as failed while the card goes on with it, the
  engine stays marked running with an empty queue, and the next interrupt stops the kernel.\<close>

theorem engine_service_busy_fails_transfer:
  assumes "running e" "\<not> poll_mode env" "xdma_perf e = None"
    and "transfer_list e = [t]" "transfers w t = Some x" "destroyable x"
    and "s = hw_read env (trace w) (engine_status_rc (e_regs e))"
      "bits_set s XDMA_STAT_BUSY" "\<not> bits_set s err_flags"
    and "c = hw_read env (trace w @ [IoRead (engine_status_rc (e_regs e)) s]) (engine_completed_desc_count (e_regs e))"
      "c - desc_dequeued e < of_nat (desc_num x)"
  shows "\<exists>e' w'. engine_service env 0 e w = Some (0, e', w')
    \<and> transfers w' = end_transfer TRANSFER_STATE_FAILED t (transfers w)
    \<and> running e' \<and> transfer_list e' = [] \<and> (\<forall>w''. engine_service env 0 e' (w'' :: 'w world_scheme) = None)"
  using engine_service_busy_run [OF assms] engine_service_empty_stops by metis

lemma engine_service_busy_fails_transfer_witness:
  "\<exists>e' w'. engine_service (card 1 0) 0 (engine1\<lparr>running := True, transfer_list := [0]\<rparr>) world1 = Some (0, e', w')
    \<and> transfers w' = end_transfer TRANSFER_STATE_FAILED 0 [0 \<mapsto> xfer1]
    \<and> running e' \<and> transfer_list e' = [] \<and> (\<forall>w''. engine_service (card 1 0) 0 e' (w'' :: world) = None)"
  using engine_service_busy_fails_transfer [of "engine1\<lparr>running := True, transfer_list := [0]\<rparr>" "card 1 0"
      0 world1 xfer1 1 0] scene_live
  by (auto simp: err_flags_def stat_bits bits_set_def)

text \<open>C3: in every state that queueing transfers, error-free servicing and freeing of finished
  transfers can reach from a new engine, the lock is free between the steps, every queued
  transfer is live and submitted and queued once, and no shutdown is pending; this holds
  even when the bottom half runs while the card is still busy. When it only ever runs on
  an idle card (\<open>calm\<close>), a running engine also always has work, so that the service routine
  never meets an empty queue.\<close>

theorem engine_reachable_inv:
  "reach engine_fresh (engine_step env cfg msix calm) s \<Longrightarrow> engine_inv calm s"
  by (rule engine_ts.reach_inv)

lemma engine_reachable_inv_witness:
  "\<exists>e1 w1 e2 w2 w3. engine_step (card 0 1) 0 False True (engine1, world1) (e1, w1) \<and> running e1 \<and> transfer_list e1 = [0]
    \<and> engine_step (card 0 1) 0 False True (e1, w1) (e2, w2) \<and> transfer_list e2 = []
    \<and> engine_step (card 0 1) 0 False True (e2, w2) (e2, w3) \<and> transfers w3 = Map.empty
    \<and> engine_inv True (e1, w1) \<and> engine_inv True (e2, w2) \<and> engine_inv True (e2, w3)"
proof -
  let ?env = "card 0 1" and ?R = "engine_step (card 0 1) 0 False True"
  let ?e = "engine1\<lparr>locked := True, transfer_list := [0]\<rparr>"
  obtain w1 e1 where q: "transfer_queue ?env engine1 0 world1 = Some (0, e1, w1)"
    "e1 = ?e\<lparr>shutdown := 0, desc_dequeued := 0, running := True, locked := False\<rparr>"
    "transfers w1 = [0 \<mapsto> xfer1\<lparr>t_state := TRANSFER_STATE_SUBMITTED\<rparr>]"
    using scene_queue by blast
  obtain e2 w2 where v: "engine_service_work ?env 0 False (\<lambda>_. 0) (\<lambda>_. []) e1 w1 = Some (e2, w2)"
    "transfer_list e2 = []" "transfers w2 = [0 \<mapsto> xfer1\<lparr>t_state := TRANSFER_STATE_COMPLETED\<rparr>]"
    using scene_service [OF q(2,3)] by blast
  let ?y = "xfer1\<lparr>t_state := TRANSFER_STATE_COMPLETED\<rparr>"
  have y: "transfers w2 0 = Some ?y" "destroyable ?y" using v(3) scene_live by (simp_all add: destroyable_def)
  obtain w3 where d: "transfer_destroy 0 w2 = Some ((), w3)" "transfers w3 = Map.empty"
    using transfer_destroy_run [OF y] v(3) by (metis fun_upd_idem_iff fun_upd_upd)
  have s1: "?R (engine1, world1) (e1, w1)"
    by (rule engine_step.submit [where x = xfer1, OF _ _ _ _ q(1)]) (simp_all add: scene_live)
  have s2: "?R (e1, w1) (e2, w2)"
    by (rule engine_step.service [OF _ _ v(1)]) (simp_all add: q(2) status_ok_def bits_set_def)
  have s3: "?R (e2, w2) (e2, w3)" by (rule engine_step.reap [OF y(1) _ d(1)]) simp
  have "engine_fresh (engine1, world1)" by (simp add: engine_fresh_def)
  then have r1: "reach engine_fresh ?R (e1, w1)" using s1 by (blast intro: reach.intros)
  then have r2: "reach engine_fresh ?R (e2, w2)" using s2 by (rule reach_step)
  then have r3: "reach engine_fresh ?R (e2, w3)" using s3 by (rule reach_step)
  have "running e1" "transfer_list e1 = [0]" by (simp_all add: q(2))
  then show ?thesis
    using s1 s2 s3 v(2) d(2) engine_reachable_inv [OF r1] engine_reachable_inv [OF r2] engine_reachable_inv [OF r3] by blast
qed

text \<open>C23: with head and tail inside the ring and a full result buffer, \<open>engine_ring_process\<close>
  returns: it consumes the written slots from the tail on, never more than up to the head,
  counts the end-of-packet marks in them, stops at the first unwritten slot or flags an
  overrun exactly when the tail has caught up with the head.\<close>

theorem engine_ring_process_consumes:
  assumes "rx_result_buffer e = Some res" "length res = RX_BUF_PAGES" "rx_tail e < RX_BUF_PAGES"
    and "rx_head e < RX_BUF_PAGES" "\<not> rx_overrun e"
  shows "\<exists>k ov. engine_ring_process e = Some (eops res (ring_slots (rx_tail e) k),
        e\<lparr>rx_tail := (rx_tail e + k) mod RX_BUF_PAGES, rx_overrun := ov\<rparr>)
    \<and> k \<le> ring_gap (rx_tail e) (rx_head e) \<and> (ov \<longleftrightarrow> k = ring_gap (rx_tail e) (rx_head e))
    \<and> (\<forall>i\<in>set (ring_slots (rx_tail e) k). fst (res ! i) \<noteq> 0)
    \<and> (\<not> ov \<longrightarrow> fst (res ! ((rx_tail e + k) mod RX_BUF_PAGES)) = 0)"
proof -
  obtain k ov where l: "ring_process_loop res (rx_head e) (rx_tail e) False 0
      = Some ((rx_tail e + k) mod RX_BUF_PAGES, ov, 0 + eops res (ring_slots (rx_tail e) k))"
    and r: "k \<le> ring_gap (rx_tail e) (rx_head e)" "ov \<longleftrightarrow> k = ring_gap (rx_tail e) (rx_head e)"
    "\<forall>i\<in>set (ring_slots (rx_tail e) k). fst (res ! i) \<noteq> 0"
    "\<not> ov \<longrightarrow> fst (res ! ((rx_tail e + k) mod RX_BUF_PAGES)) = 0"
    using ring_process_loop_spec [OF assms(2-4), of 0] by blast
  have "engine_ring_process e = Some (eops res (ring_slots (rx_tail e) k),
        e\<lparr>rx_tail := (rx_tail e + k) mod RX_BUF_PAGES, rx_overrun := ov\<rparr>)"
    using l assms(1,5) by (simp add: engine_ring_process_def)
  with r show ?thesis by blast
qed

lemma engine_ring_process_consumes_witness:
  "\<exists>k ov. engine_ring_process (engine1\<lparr>rx_result_buffer := Some (replicate 256 (1, 64)), rx_tail := 250, rx_head := 4\<rparr>)
      = Some (eops (replicate 256 (1, 64)) (ring_slots 250 k),
          engine1\<lparr>rx_result_buffer := Some (replicate 256 (1, 64)), rx_tail := (250 + k) mod 256, rx_head := 4, rx_overrun := ov\<rparr>)
    \<and> k \<le> 10 \<and> (ov \<longleftrightarrow> k = 10)"
proof -
  let ?res = "replicate 256 (1 :: u32, 64 :: u32)"
  let ?e = "engine1\<lparr>rx_result_buffer := Some ?res, rx_tail := 250, rx_head := 4\<rparr>"
  have h: "rx_result_buffer ?e = Some ?res" "length ?res = RX_BUF_PAGES"
    "rx_tail ?e < RX_BUF_PAGES" "rx_head ?e < RX_BUF_PAGES" "\<not> rx_overrun ?e"
    by (simp_all only: length_replicate RX_BUF_PAGES_def engine1_def engine0_def xdma_engine.simps
        less_numeral_simps) simp_all
  have g: "ring_gap 250 4 = 10" by (simp add: ring_gap_def RX_BUF_PAGES_def)
  from engine_ring_process_consumes [OF h] obtain k ov where
    r: "engine_ring_process ?e = Some (eops ?res (ring_slots (rx_tail ?e) k),
        ?e\<lparr>rx_tail := (rx_tail ?e + k) mod RX_BUF_PAGES, rx_overrun := ov\<rparr>)"
      "k \<le> ring_gap (rx_tail ?e) (rx_head ?e)" "ov \<longleftrightarrow> k = ring_gap (rx_tail ?e) (rx_head ?e)"
    by blast
  have t: "rx_tail ?e = 250" "rx_head ?e = 4" by simp_all
  have u: "?e\<lparr>rx_tail := (250 + k) mod 256, rx_overrun := ov\<rparr>
      = engine1\<lparr>rx_result_buffer := Some ?res, rx_tail := (250 + k) mod 256, rx_head := 4, rx_overrun := ov\<rparr>"
    by simp
  show ?thesis using r [unfolded t g RX_BUF_PAGES_def u] by blast
qed

text \<open>polling the write-back word ends once the time is up, whatever the card writes: the
  result is a word the card wrote at that moment (an error word, the expected count, or at
  the timeout a count not above it) or, for a count above the expected one at the timeout,
  the expected count with the error flag. No register is touched.\<close>

theorem wb_monitor_returns:
  fixes w :: "'w world_scheme"
  assumes "poll_mode_wb e \<noteq> None" "ex \<noteq> 0" "late n"
  shows "\<exists>j v w'. engine_service_wb_monitor wb late e ex w = Some (v, w') \<and> j \<le> n
    \<and> io_writes (trace w') = io_writes (trace w)
    \<and> (v = wb j \<and> (bits_set v WB_ERR_MASK \<or> v = ex \<or> late j \<and> \<not> v AND WB_COUNT_MASK > ex)
       \<or> v = ex OR WB_ERR_MASK \<and> late j \<and> wb j AND WB_COUNT_MASK > ex)"
proof -
  obtain y where "poll_mode_wb e = Some y" using assms(1) by auto
  then show ?thesis
    using wb_monitor_loop_ends [of late n 0 wb ex w] assms(2,3) by (auto simp: engine_service_wb_monitor_def)
qed

lemma wb_monitor_returns_witness:
  "\<exists>(j::nat) v w'. engine_service_wb_monitor (\<lambda>i. of_nat i) (\<lambda>i. i \<ge> 3) (engine1\<lparr>poll_mode_wb := Some 0\<rparr>) 2 world1 = Some (v, w')
    \<and> j \<le> 3 \<and> io_writes (trace w') = []"
proof -
  have h: "poll_mode_wb (engine1\<lparr>poll_mode_wb := Some 0\<rparr>) \<noteq> None" "(2 :: u32) \<noteq> 0" "3 \<ge> (3 :: nat)"
    "io_writes (trace world1) = []"
    by (simp_all add: world1_def world0_def)
  show ?thesis
    using wb_monitor_returns [of _ _ "\<lambda>i. i \<ge> 3", OF h(1-3), of "\<lambda>i. of_nat i" world1] h(4) by metis
qed

text \<open>C30: in poll mode a receive engine whose ring has overrun is never served again: with the
  overrun flag set the poll loop of the cyclic service finds nothing in the ring and, as
  long as the card reports no error, does not return, with the engine lock held.\<close>

theorem polled_overrun_never_returns:
  assumes "rx_overrun e" "\<And>i. \<not> bits_set (wb i) WB_ERR_MASK" "\<And>i. rx_tail e < length (res i)"
  shows "engine_service_cyclic_polled env wb res e w = None"
proof -
  have "cyclic_poll_loop wb res 0 0 e w = None"
    by (rule cyclic_poll_loop_overrun) (use assms in auto)
  then show ?thesis
    by (cases "poll_mode_wb e") (simp_all add: engine_service_cyclic_polled_def bug_on_def)
qed

lemma polled_overrun_never_returns_witness:
  "engine_service_cyclic_polled (env0\<lparr>poll_mode := True\<rparr>) (\<lambda>_. 1) (\<lambda>_. [(1, 64)])
     (engine1\<lparr>rx_overrun := True, poll_mode_wb := Some 0\<rparr>) world1 = None"
  by (rule polled_overrun_never_returns) (simp_all add: WB_ERR_MASK_def bits_set_def engine1_def engine0_def)

end
