(* ===== verification/Cyclic.thy ===== *)
theory Cyclic
  imports Engine
begin

section \<open>The streaming receive ring\<close>

text \<open>
  A streaming receive engine runs one cyclic transfer over a ring of \<open>RX_BUF_PAGES\<close> blocks in
  kernel memory. The card fills a block and writes a result (status word and length) for it;
  the driver follows the results with \<open>rx_tail\<close> (in the interrupt) and hands packets to the
  reader from \<open>rx_head\<close>. Opening the device sets the ring up, closing it takes it down.
\<close>

subsection \<open>Reserved memory\<close>

text \<open>\<open>SetPageReserved\<close> and \<open>ClearPageReserved\<close> on every page from an address on; a page
  \<open>vmalloc_to_page\<close> does not know is a NULL dereference.\<close>

fun mark_pages ::
  "kenv \<Rightarrow> (nat \<Rightarrow> event) \<Rightarrow> nat \<Rightarrow> u64 \<Rightarrow> 'w kworld_scheme \<Rightarrow> 'w kworld_scheme option" where
  "mark_pages env ev 0 adr w = Some w"
| "mark_pages env ev (Suc n) adr w = do {
     p \<leftarrow> vmalloc_page env adr;
     mark_pages env ev n (adr + PAGE_SIZE) (emit (ev p) w) }"

definition PAGE_ALIGN :: "nat \<Rightarrow> nat" where
  "PAGE_ALIGN n = (n + 4095) div 4096 * 4096"

definition rvmalloc :: "kenv \<Rightarrow> nat \<Rightarrow> 'w kworld_scheme \<Rightarrow> (u64 option \<times> 'w kworld_scheme) option" where
  "rvmalloc env sz w =
    (let sz = PAGE_ALIGN sz in
     case vmalloc_32 env (trace w) sz of
       None \<Rightarrow> Some (None, w)
     | Some mem \<Rightarrow> do {
         w \<leftarrow> mark_pages env SetReserved (sz div 4096) mem (emit (Alloc ObjRxBuffer) w);
         Some (Some mem, w) })"

text \<open>The loop of \<open>rvfree\<close> takes one step for every started page.\<close>

definition rvfree :: "kenv \<Rightarrow> u64 option \<Rightarrow> nat \<Rightarrow> 'w kworld_scheme \<Rightarrow> 'w kworld_scheme option" where
  "rvfree env mem sz w = (case mem of
     None \<Rightarrow> Some w
   | Some adr \<Rightarrow> do {
       w \<leftarrow> mark_pages env ClearReserved ((sz + 4095) div 4096) adr w;
       Some (kfree ObjRxBuffer w) })"

subsection \<open>Opening\<close>

text \<open>\<open>pci_alloc_consistent\<close> of the result buffer: one (status, length) pair in a slot of eight
  words per ring block, with whatever the memory holds.\<close>

definition alloc_results ::
  "kenv \<Rightarrow> 'w kworld_scheme \<Rightarrow> ((u32 \<times> u32) list \<times> u64) option \<times> 'w kworld_scheme" where
  "alloc_results env w =
    (case dma_alloc env (trace w) (RX_BUF_PAGES * 32) of
       None \<Rightarrow> (None, w)
     | Some bus \<Rightarrow>
         (Some (map (\<lambda>i. (uninit env (trace w) (8 * i), uninit env (trace w) (8 * i + 1)))
                  [0..<RX_BUF_PAGES], bus),
          emit (Alloc (ObjRxResult bus)) w))"

text \<open>The preparation of the cyclic transfer: results as sources, control bits, closed to a
  loop.\<close>

definition cyclic_prepare :: "u64 \<Rightarrow> xdma_transfer \<Rightarrow> xdma_transfer option" where
  "cyclic_prepare result_bus x = do {
     x \<leftarrow> transfer_set_result_addresses x result_bus;
     x \<leftarrow> transfer_set_all_control x (XDMA_DESC_EOP OR XDMA_DESC_COMPLETED);
     xdma_transfer_cyclic x }"

text \<open>The two early returns leave the lock taken.\<close>

definition cyclic_transfer_setup ::
  "kenv \<Rightarrow> xdma_engine \<Rightarrow> 'w world_scheme \<Rightarrow> (int \<times> xdma_engine \<times> 'w world_scheme) option" where
  "cyclic_transfer_setup env e w = do {
     e \<leftarrow> spin_lock e;
     let e = e\<lparr>rx_tail := 0, rx_head := 0, rx_overrun := False, eop_found := False,
               user_buffer_index := 0\<rparr>;
     if rx_buffer e \<noteq> None then Some (- EBUSY, e, w)
     else do {
       (mem, w) \<leftarrow> rvmalloc env RX_BUF_SIZE w;
       let e = e\<lparr>rx_buffer := mem\<rparr>;
       case mem of
         None \<Rightarrow> Some (- ENOMEM, e, w)
       | Some buf \<Rightarrow> do {
           (mt, w) \<leftarrow> transfer_create env buf (of_nat RX_BUF_SIZE) 0 (dir_to_dev e) False True False w;
           let e = e\<lparr>rx_transfer_cyclic := mt\<rparr>;
           let (mr, w) = alloc_results env w;
           case mr of
             None \<Rightarrow> do {
               t \<leftarrow> mt;
               (_, w) \<leftarrow> transfer_destroy t w;
               let e = e\<lparr>rx_result_buffer := None, rx_transfer_cyclic := None\<rparr>;
               w \<leftarrow> rvfree env (rx_buffer e) RX_BUF_SIZE w;
               let e = e\<lparr>rx_buffer := None\<rparr>;
               Some (- ENOMEM, spin_unlock e, w) }
           | Some (res, bus) \<Rightarrow> do {
               let e = e\<lparr>rx_result_buffer := Some res, rx_result_buffer_bus := bus\<rparr>;
               t \<leftarrow> mt;
               x \<leftarrow> transfers w t;
               x \<leftarrow> cyclic_prepare bus x;
               let w = put_transfer t x w;
               let e = spin_unlock e;
               let w = (if enable_credit_mp env \<noteq> 0
                        then write_register 128 (sgdma_credits (e_sgdma_regs e)) w else w);
               (_, e, w) \<leftarrow> transfer_queue env e t w;
               Some (0, e, w) } } } }"

definition char_sgdma_open ::
  "kenv \<Rightarrow> xdma_engine \<Rightarrow> 'w world_scheme \<Rightarrow> (int \<times> xdma_engine \<times> 'w world_scheme) option" where
  "char_sgdma_open env e w = do {
     bug_on (e_magic e \<noteq> MAGIC_ENGINE);
     if streaming e \<and> \<not> dir_to_dev e then cyclic_transfer_setup env e w
     else Some (0, e, w) }"

subsection \<open>Closing\<close>

text \<open>Polling for the end of the run: the loop ends when the card says it is no longer busy.\<close>

partial_function (option) shutdown_poll_loop ::
  "kenv \<Rightarrow> xdma_engine \<Rightarrow> 'w kworld_scheme \<Rightarrow> (xdma_engine \<times> 'w kworld_scheme) option" where
  "shutdown_poll_loop env e w =
    (let (_, e, w) = engine_status_read env True e w;
         w = emit Schedule w
     in if bits_set (status e) XDMA_STAT_BUSY then shutdown_poll_loop env e w else Some (e, w))"

definition cyclic_shutdown_polled ::
  "kenv \<Rightarrow> xdma_engine \<Rightarrow> 'w kworld_scheme \<Rightarrow> (int \<times> xdma_engine \<times> 'w kworld_scheme) option" where
  "cyclic_shutdown_polled env e w = do {
     e \<leftarrow> spin_lock e;
     (e, w) \<leftarrow> shutdown_poll_loop env e w;
     (e, w) \<leftarrow> cyclic_idle_check env e w;
     Some (0, spin_unlock e, w) }"

definition cyclic_shutdown_interrupt ::
  "(xdma_engine \<times> 'w world_scheme) others \<Rightarrow> xdma_engine \<Rightarrow> 'w world_scheme
   \<Rightarrow> (int \<times> xdma_engine \<times> 'w world_scheme) option" where
  "cyclic_shutdown_interrupt oth e w = do {
     (rc, e, w) \<leftarrow> wait_event (\<lambda>(e, w). \<not> running e) oth 0 (e, w);
     if rc \<noteq> 0 then Some (rc, e, w)
     else if running e then Some (- EINVAL, e, w)
     else Some (rc, e, w) }"

definition cyclic_release ::
  "kenv \<Rightarrow> xdma_engine \<Rightarrow> 'w world_scheme \<Rightarrow> (xdma_engine \<times> 'w world_scheme) option" where
  "cyclic_release env e w = do {
     (e, w) \<leftarrow> (case rx_transfer_cyclic e of
         None \<Rightarrow> Some (e, w)
       | Some t \<Rightarrow> do {
           (_, w) \<leftarrow> transfer_destroy t w;
           Some (e\<lparr>rx_transfer_cyclic := None\<rparr>, w) });
     (e, w) \<leftarrow> (case rx_buffer e of
         None \<Rightarrow> Some (e, w)
       | Some adr \<Rightarrow> do {
           w \<leftarrow> rvfree env (Some adr) RX_BUF_SIZE w;
           Some (e\<lparr>rx_buffer := None\<rparr>, w) });
     (case rx_result_buffer e of
         None \<Rightarrow> Some (e, w)
       | Some _ \<Rightarrow> Some (e\<lparr>rx_result_buffer := None\<rparr>,
                          kfree (ObjRxResult (rx_result_buffer_bus e)) w)) }"

definition cyclic_transfer_teardown ::
  "kenv \<Rightarrow> (xdma_engine \<times> 'w world_scheme) others \<Rightarrow> xdma_engine \<Rightarrow> 'w world_scheme
   \<Rightarrow> (int \<times> xdma_engine \<times> 'w world_scheme) option" where
  "cyclic_transfer_teardown env oth e w = do {
     (_, w) \<leftarrow> engine_cyclic_stop env e w;
     e \<leftarrow> spin_lock e;
     let e = spin_unlock e;
     (rc, e, w) \<leftarrow> (if poll_mode env then cyclic_shutdown_polled env e w
                   else cyclic_shutdown_interrupt oth e w);
     e \<leftarrow> spin_lock e;
     (e, w) \<leftarrow> cyclic_release env e w;
     Some (rc, spin_unlock e, w) }"

definition char_sgdma_close ::
  "kenv \<Rightarrow> (xdma_engine \<times> 'w world_scheme) others \<Rightarrow> xdma_engine \<Rightarrow> 'w world_scheme
   \<Rightarrow> (int \<times> xdma_engine \<times> 'w world_scheme) option" where
  "char_sgdma_close env oth e w = do {
     bug_on (e_magic e \<noteq> MAGIC_ENGINE);
     if streaming e \<and> \<not> dir_to_dev e then cyclic_transfer_teardown env oth e w
     else Some (0, e, w) }"

subsection \<open>Reading\<close>

text \<open>Waiting for a result at the head. Every round stores its return code, 0 or negative, in the
  variable that was meant to count the rounds, so the limit of 100 is not reached.\<close>

partial_function (option) monitor_cyclic_loop ::
  "kenv \<Rightarrow> (nat \<Rightarrow> (xdma_engine \<times> 'w world_scheme) others) \<Rightarrow> nat \<Rightarrow> int \<Rightarrow> xdma_engine \<Rightarrow> 'w world_scheme
   \<Rightarrow> (int \<times> xdma_engine \<times> 'w world_scheme) option" where
  "monitor_cyclic_loop env oths k rc e w =
    (let rc = rc + 1 in
     if rc = 100 then Some (rc, e, w)
     else do {
       (rc, e, w) \<leftarrow>
         (if poll_mode env then do {
            (rc, e, w) \<leftarrow> engine_service_poll env (c_wb (oths k)) (c_late (oths k)) (c_res (oths k)) 0 e w;
            Some (if rc \<noteq> 0 then - ERESTARTSYS else rc, e, w) }
          else if enable_credit_mp env \<noteq> 0 then
            wait_event (\<lambda>(e, w). rx_head e \<noteq> rx_tail e \<or> rx_overrun e) (oths k) 0 (e, w)
          else wait_event (\<lambda>(e, w). eop_found e) (oths k) 0 (e, w));
       result \<leftarrow> rx_result_buffer e;
       if rx_head e < length result then
         (if fst (result ! rx_head e) = 0 then monitor_cyclic_loop env oths (Suc k) rc e w
          else Some (rc, e, w))
       else None })"

definition transfer_monitor_cyclic ::
  "kenv \<Rightarrow> (nat \<Rightarrow> (xdma_engine \<times> 'w world_scheme) others) \<Rightarrow> xdma_engine \<Rightarrow> 'w world_scheme
   \<Rightarrow> (int \<times> xdma_engine \<times> 'w world_scheme) option" where
  "transfer_monitor_cyclic env oths e w = do {
     _ \<leftarrow> rx_result_buffer e;
     monitor_cyclic_loop env oths 0 0 e w }"

text \<open>\<open>n\<close> bytes of memory the card writes to, as the CPU reads them.\<close>

definition dma_bytes_at :: "kenv \<Rightarrow> event list \<Rightarrow> u64 \<Rightarrow> nat \<Rightarrow> u8 list" where
  "dma_bytes_at env tr a n = map (\<lambda>i. dma_mem env tr (a + of_nat i)) [0..<n]"

text \<open>The copy loop, block by block from \<open>head\<close>; the result is 0 or the number of bytes the
  failing copy left.\<close>

function copy_cyclic_loop ::
  "kenv \<Rightarrow> u64 \<Rightarrow> u64 \<Rightarrow> nat \<Rightarrow> nat \<Rightarrow> xdma_engine \<Rightarrow> 'w kworld_scheme
   \<Rightarrow> nat \<times> xdma_engine \<times> 'w kworld_scheme" where
  "copy_cyclic_loop env rx buf remaining head e w =
    (if remaining = 0 then (0, e, w)
     else
       let n = (if remaining > RX_BUF_BLOCK then RX_BUF_BLOCK else remaining);
           (rc, w) = copy_to_user env (buf + of_nat (user_buffer_index e))
             (dma_bytes_at env (trace w) (rx + of_nat (head * RX_BUF_BLOCK)) n) w
       in if rc \<noteq> 0 then (rc, e, w)
          else copy_cyclic_loop env rx buf (remaining - n) ((head + 1) mod RX_BUF_PAGES)
                 (e\<lparr>user_buffer_index := user_buffer_index e + n\<rparr>) w)"
  by pat_completeness auto
termination
  by (relation "measure (\<lambda>(env, rx, buf, remaining, head, e, w). remaining)")
     (auto simp: RX_BUF_BLOCK_def split: if_splits)

declare copy_cyclic_loop.simps [simp del]

definition copy_cyclic_to_user ::
  "kenv \<Rightarrow> nat \<Rightarrow> nat \<Rightarrow> u64 \<Rightarrow> xdma_engine \<Rightarrow> 'w kworld_scheme
   \<Rightarrow> (int \<times> xdma_engine \<times> 'w kworld_scheme) option" where
  "copy_cyclic_to_user env pkt_length head buf e w = do {
     bug_on (buf = 0);
     (case rx_buffer e of
        None \<Rightarrow> if pkt_length = 0 then Some (0, e, w) else None
      | Some rx \<Rightarrow>
          (let (rc, e, w) = copy_cyclic_loop env rx buf pkt_length head e w
           in Some (if rc \<noteq> 0 then int rc else int pkt_length, e, w))) }"

text \<open>The loop over the results from \<open>rx_head\<close>: the packet length, the number of credits, and
  whether a fault was seen.\<close>

partial_function (option) complete_loop ::
  "xdma_engine \<Rightarrow> nat \<Rightarrow> nat \<Rightarrow> (nat \<times> nat \<times> bool \<times> xdma_engine) option" where
  "complete_loop e pkt_length num_credit =
    (if rx_head e \<noteq> rx_tail e \<or> rx_overrun e then do {
       result \<leftarrow> rx_result_buffer e;
       if rx_head e < length result then
         (let (st, len) = result ! rx_head e;
              fault = (drop_bit 16 st \<noteq> C2H_WB \<or> len > of_nat RX_BUF_BLOCK \<or> len = 0);
              pkt_length = (if fault then pkt_length else pkt_length + unat len);
              num_credit = (if fault then num_credit else num_credit + 1);
              eop = (\<not> fault \<and> bits_set st RX_STATUS_EOP);
              e = (if eop then e\<lparr>eop_found := True\<rparr> else e);
              e = e\<lparr>rx_result_buffer := Some (result[rx_head e := (0, 0)]),
                    rx_head := (rx_head e + 1) mod RX_BUF_PAGES\<rparr>
          in if fault \<or> eop then Some (pkt_length, num_credit, fault, e)
             else complete_loop e pkt_length num_credit)
       else None }
     else Some (pkt_length, num_credit, False, e))"

definition complete_cyclic ::
  "kenv \<Rightarrow> u64 \<Rightarrow> xdma_engine \<Rightarrow> 'w kworld_scheme \<Rightarrow> (int \<times> xdma_engine \<times> 'w kworld_scheme) option" where
  "complete_cyclic env buf e w = do {
     _ \<leftarrow> rx_result_buffer e;
     e \<leftarrow> spin_lock e;
     let head = rx_head e;
     (pkt_length, num_credit, fault, e) \<leftarrow> complete_loop e 0 0;
     let e = spin_unlock e;
     if fault then Some (- EIO, e, w)
     else do {
       (rc, e, w) \<leftarrow> copy_cyclic_to_user env pkt_length head buf e w;
       let e = e\<lparr>rx_overrun := False\<rparr>;
       let w = (if rc > 0 then write_register (of_nat num_credit) (sgdma_credits (e_sgdma_regs e)) w
                else w);
       Some (rc, e, w) } }"

text \<open>\<open>char_sgdma_read_cyclic\<close>; every round waits and copies, \<open>oths k j\<close> is what happens
  around wait \<open>j\<close> of round \<open>k\<close>.\<close>

partial_function (option) read_cyclic_loop ::
  "kenv \<Rightarrow> (nat \<Rightarrow> nat \<Rightarrow> (xdma_engine \<times> 'w world_scheme) others) \<Rightarrow> u64 \<Rightarrow> nat \<Rightarrow> int \<Rightarrow> xdma_engine
   \<Rightarrow> 'w world_scheme \<Rightarrow> (int \<times> xdma_engine \<times> 'w world_scheme) option" where
  "read_cyclic_loop env oths buf k rc_len e w = do {
     (rc, e, w) \<leftarrow> transfer_monitor_cyclic env (oths k) e w;
     if rc \<noteq> 0 then Some (rc, e, w)
     else do {
       (n, e, w) \<leftarrow> complete_cyclic env buf e w;
       let rc_len = rc_len + n;
       if \<not> eop_found e then read_cyclic_loop env oths buf (Suc k) rc_len e w
       else Some (rc_len, if enable_credit_mp env \<noteq> 0 then e\<lparr>eop_found := False\<rparr> else e, w) } }"

definition char_sgdma_read_cyclic ::
  "kenv \<Rightarrow> (nat \<Rightarrow> nat \<Rightarrow> (xdma_engine \<times> 'w world_scheme) others) \<Rightarrow> u64 \<Rightarrow> xdma_engine \<Rightarrow> 'w world_scheme
   \<Rightarrow> (int \<times> xdma_engine \<times> 'w world_scheme) option" where
  "char_sgdma_read_cyclic env oths buf e w = do {
     bug_on (e_magic e \<noteq> MAGIC_ENGINE);
     bug_on (rx_transfer_cyclic e = None);
     read_cyclic_loop env oths buf 0 0 (e\<lparr>user_buffer_index := 0\<rparr>) w }"

subsection \<open>The loop over the results\<close>

definition entry_fault :: "u32 \<times> u32 \<Rightarrow> bool" where
  "entry_fault r \<longleftrightarrow> drop_bit 16 (fst r) \<noteq> C2H_WB \<or> snd r > of_nat RX_BUF_BLOCK \<or> snd r = 0"

definition entry_eop :: "u32 \<times> u32 \<Rightarrow> bool" where
  "entry_eop r \<longleftrightarrow> bits_set (fst r) RX_STATUS_EOP"

text \<open>Taking one result off the ring.\<close>

definition ring_pop :: "bool \<Rightarrow> (u32 \<times> u32) list \<Rightarrow> xdma_engine \<Rightarrow> xdma_engine" where
  "ring_pop eop res e = e\<lparr>eop_found := eop \<or> eop_found e,
     rx_result_buffer := Some (res[rx_head e := (0, 0)]),
     rx_head := (rx_head e + 1) mod RX_BUF_PAGES\<rparr>"

lemma complete_loop_stop:
  "rx_head e = rx_tail e \<Longrightarrow> \<not> rx_overrun e \<Longrightarrow> complete_loop e p c = Some (p, c, False, e)"
  by (subst complete_loop.simps) simp

lemma complete_loop_fault:
  assumes "rx_head e \<noteq> rx_tail e \<or> rx_overrun e" "rx_result_buffer e = Some res"
    "rx_head e < length res" "entry_fault (res ! rx_head e)"
  shows "complete_loop e p c = Some (p, c, True, ring_pop False res e)"
  using assms
  by (subst complete_loop.simps)
     (auto simp: entry_fault_def ring_pop_def Let_def split_beta)

lemma complete_loop_eop:
  assumes "rx_head e \<noteq> rx_tail e \<or> rx_overrun e" "rx_result_buffer e = Some res"
    "rx_head e < length res" "\<not> entry_fault (res ! rx_head e)" "entry_eop (res ! rx_head e)"
  shows "complete_loop e p c
    = Some (p + unat (snd (res ! rx_head e)), c + 1, False, ring_pop True res e)"
  using assms
  by (subst complete_loop.simps)
     (auto simp: entry_fault_def entry_eop_def ring_pop_def Let_def split_beta)

lemma complete_loop_go:
  assumes "rx_head e \<noteq> rx_tail e \<or> rx_overrun e" "rx_result_buffer e = Some res"
    "rx_head e < length res" "\<not> entry_fault (res ! rx_head e)" "\<not> entry_eop (res ! rx_head e)"
  shows "complete_loop e p c
    = complete_loop (ring_pop False res e) (p + unat (snd (res ! rx_head e))) (c + 1)"
  using assms
  by (subst complete_loop.simps)
     (auto simp: entry_fault_def entry_eop_def ring_pop_def Let_def split_beta)

definition clear_slots :: "nat list \<Rightarrow> (u32 \<times> u32) list \<Rightarrow> (u32 \<times> u32) list" where
  "clear_slots is res = fold (\<lambda>i r. r[i := (0, 0)]) is res"

lemma clear_slots_simps [simp]:
  "clear_slots [] res = res"
  "clear_slots (i # is) res = clear_slots is (res[i := (0, 0)])"
  by (simp_all add: clear_slots_def)

lemma length_clear_slots [simp]: "length (clear_slots is res) = length res"
  by (induction "is" arbitrary: res) simp_all

lemma clear_slots_nth: "i < length res \<Longrightarrow>
   clear_slots is res ! i = (if i \<in> set is then (0, 0) else res ! i)"
  by (induction "is" arbitrary: res) (auto simp: nth_list_update)

text \<open>How many results the loop may take: up to the tail, or a whole turn after an overrun.\<close>

definition ring_avail :: "xdma_engine \<Rightarrow> nat" where
  "ring_avail e = (if rx_overrun e then RX_BUF_PAGES
     else if rx_head e = rx_tail e then 0 else ring_gap (rx_head e) (rx_tail e))"

definition ring_ok :: "xdma_engine \<Rightarrow> bool" where
  "ring_ok e \<longleftrightarrow> rx_head e < RX_BUF_PAGES \<and> rx_tail e < RX_BUF_PAGES
     \<and> (\<exists>res. rx_result_buffer e = Some res \<and> length res = RX_BUF_PAGES)"

text \<open>The engine after \<open>k\<close> results have been taken.\<close>

definition ring_taken :: "nat \<Rightarrow> bool \<Rightarrow> xdma_engine \<Rightarrow> xdma_engine" where
  "ring_taken k eop e = e\<lparr>eop_found := eop \<or> eop_found e,
     rx_result_buffer := map_option (clear_slots (ring_slots (rx_head e) k)) (rx_result_buffer e),
     rx_head := (rx_head e + k) mod RX_BUF_PAGES\<rparr>"

lemma RX_BUF_PAGES_pos [simp]: "0 < RX_BUF_PAGES"
  by (simp add: RX_BUF_PAGES_def)

lemma ring_pop_fields [simp]:
  "rx_head (ring_pop b res e) = (rx_head e + 1) mod RX_BUF_PAGES"
  "rx_tail (ring_pop b res e) = rx_tail e" "rx_overrun (ring_pop b res e) = rx_overrun e"
  "rx_result_buffer (ring_pop b res e) = Some (res[rx_head e := (0, 0)])"
  "eop_found (ring_pop b res e) = (b \<or> eop_found e)"
  by (simp_all add: ring_pop_def)

lemma ring_pop_taken:
  "rx_head e < RX_BUF_PAGES \<Longrightarrow> rx_result_buffer e = Some res \<Longrightarrow>
    ring_pop b res e = ring_taken 1 b e"
  by (simp add: ring_pop_def ring_taken_def ring_slots_def)

lemma ring_taken_Suc:
  assumes "rx_head e < RX_BUF_PAGES" "rx_result_buffer e = Some res"
  shows "ring_taken k b (ring_pop False res e) = ring_taken (Suc k) b e"
proof -
  have "((rx_head e + 1) mod RX_BUF_PAGES + k) mod RX_BUF_PAGES = (rx_head e + Suc k) mod RX_BUF_PAGES"
    by (simp add: mod_add_left_eq)
  then show ?thesis
    using assms ring_slots_Suc [OF assms(1), of k] by (simp add: ring_taken_def ring_pop_def)
qed

lemma ring_avail_step:
  assumes "rx_head e < RX_BUF_PAGES" "rx_tail e < RX_BUF_PAGES" "rx_head e \<noteq> rx_tail e \<or> rx_overrun e"
  shows "\<not> rx_overrun e \<Longrightarrow> ring_avail e = Suc (ring_avail (ring_pop b res e))"
    and "0 < ring_avail e"
proof -
  show "0 < ring_avail e" using assms(3) ring_gap_pos [OF assms(1)] by (simp add: ring_avail_def)
  assume ov: "\<not> rx_overrun e"
  then have ne: "rx_head e \<noteq> rx_tail e" using assms(3) by simp
  show "ring_avail e = Suc (ring_avail (ring_pop b res e))"
  proof (cases "(rx_head e + 1) mod RX_BUF_PAGES = rx_tail e")
    case True
    show ?thesis
      using ring_gap_meets [OF assms(1,2) True] ov ne by (simp add: ring_avail_def True [simplified])
  next
    case False
    show ?thesis
      using ring_gap_step [OF assms(1,2) False] ov ne False by (simp add: ring_avail_def)
  qed
qed

text \<open>The results with the magic of the card; every result taken without fault is one, and is
  cleared, so the loop ends, also after an overrun.\<close>

definition magic_entries :: "(u32 \<times> u32) list \<Rightarrow> nat" where
  "magic_entries res = length (filter (\<lambda>r. drop_bit 16 (fst r) = C2H_WB) res)"

lemma magic_entries_clear:
  assumes "i < length res" "\<not> entry_fault (res ! i)"
  shows "magic_entries res = Suc (magic_entries (res[i := (0, 0)]))"
proof -
  let ?P = "\<lambda>r :: u32 \<times> u32. drop_bit 16 (fst r) = C2H_WB"
  have z: "\<not> ?P (0, 0)" by (simp add: C2H_WB_def)
  have m: "?P (res ! i)" using assms(2) by (simp add: entry_fault_def)
  have "length (filter ?P (take i res @ res ! i # drop (Suc i) res))
      = Suc (length (filter ?P (take i res @ (0, 0) # drop (Suc i) res)))"
    using m z by simp
  then show ?thesis
    unfolding magic_entries_def
    by (simp only: id_take_nth_drop [OF assms(1), symmetric] upd_conv_take_nth_drop [OF assms(1)])
qed

lemma complete_loop_spec:
  assumes "ring_ok e"
  shows "\<exists>k eop pkt n fault. complete_loop e p c = Some (p + pkt, c + n, fault, ring_taken k eop e)
    \<and> n \<le> k \<and> (\<not> rx_overrun e \<longrightarrow> k \<le> ring_avail e)"
  using assms
proof (induction "magic_entries (the (rx_result_buffer e))" arbitrary: e p c rule: less_induct)
  case less
  obtain res where res: "rx_result_buffer e = Some res" "length res = RX_BUF_PAGES"
    and hd: "rx_head e < RX_BUF_PAGES" and tl: "rx_tail e < RX_BUF_PAGES"
    using less.prems by (auto simp: ring_ok_def)
  show ?case
  proof (cases "rx_head e \<noteq> rx_tail e \<or> rx_overrun e")
    case False
    have "ring_taken 0 False e = e" using hd res by (simp add: ring_taken_def ring_slots_def)
    then show ?thesis using complete_loop_stop [of e p c] False
      by (intro exI [of _ 0] exI [of _ False]) simp
  next
    case True
    note av = ring_avail_step [OF hd tl True]
    note pop = ring_pop_taken [OF hd res(1)]
    have hl: "rx_head e < length res" using hd res(2) by simp
    consider (fault) "entry_fault (res ! rx_head e)"
      | (eop) "\<not> entry_fault (res ! rx_head e)" "entry_eop (res ! rx_head e)"
      | (go) "\<not> entry_fault (res ! rx_head e)" "\<not> entry_eop (res ! rx_head e)" by blast
    then show ?thesis
    proof cases
      case fault
      then show ?thesis using complete_loop_fault [OF True res(1) hl, of p c] pop av(2)
        by (intro exI [of _ 1] exI [of _ False] exI [of _ 0] exI [of _ True]) simp
    next
      case eop
      then show ?thesis using complete_loop_eop [OF True res(1) hl, of p c] pop av(2)
        by (intro exI [of _ 1] exI [of _ True] exI [of _ "unat (snd (res ! rx_head e))"] exI [of _ False]) simp
    next
      case go
      let ?e = "ring_pop False res e" and ?l = "unat (snd (res ! rx_head e))"
      have ok: "ring_ok ?e" using hd tl res by (simp add: ring_ok_def)
      have "magic_entries (the (rx_result_buffer ?e)) < magic_entries (the (rx_result_buffer e))"
        using magic_entries_clear [OF hl go(1)] res by simp
      from less.hyps [OF this ok, of "p + ?l" "c + 1"]
      obtain k eop pkt n fault where IH:
        "complete_loop ?e (p + ?l) (c + 1) = Some (p + ?l + pkt, c + 1 + n, fault, ring_taken k eop ?e)"
        "n \<le> k" "\<not> rx_overrun ?e \<longrightarrow> k \<le> ring_avail ?e" by blast
      have "complete_loop e p c = Some (p + (?l + pkt), c + Suc n, fault, ring_taken (Suc k) eop e)"
        using complete_loop_go [OF True res(1) hl go, of p c] IH(1)
        by (simp add: ring_taken_Suc [OF hd res(1)] add.assoc)
      moreover have "c + Suc n = c + Suc n \<and> Suc n \<le> Suc k" using IH(2) by simp
      moreover have "\<not> rx_overrun e \<longrightarrow> Suc k \<le> ring_avail e"
        using IH(3) av(1) [of False res] by simp
      ultimately show ?thesis by blast
    qed
  qed
qed

subsection \<open>Packets\<close>

text \<open>A packet is a sequence of results from a slot on: all valid, the last one and no other
  with the end-of-packet mark. \<open>lens\<close> are its lengths. In a well-formed packet only the last
  block is not full.\<close>

fun packet_at :: "(u32 \<times> u32) list \<Rightarrow> nat \<Rightarrow> nat list \<Rightarrow> bool" where
  "packet_at res head [] = False"
| "packet_at res head [l] =
     (\<not> entry_fault (res ! head) \<and> entry_eop (res ! head) \<and> unat (snd (res ! head)) = l)"
| "packet_at res head (l # l' # ls) =
     (\<not> entry_fault (res ! head) \<and> \<not> entry_eop (res ! head) \<and> unat (snd (res ! head)) = l
      \<and> packet_at res ((head + 1) mod RX_BUF_PAGES) (l' # ls))"

fun full_but_last :: "nat list \<Rightarrow> bool" where
  "full_but_last [] = False"
| "full_but_last [l] = (0 < l \<and> l \<le> RX_BUF_BLOCK)"
| "full_but_last (l # l' # ls) = (l = RX_BUF_BLOCK \<and> full_but_last (l' # ls))"

definition block_bytes :: "(u64 \<Rightarrow> u8) \<Rightarrow> u64 \<Rightarrow> nat \<Rightarrow> nat \<Rightarrow> u8 list" where
  "block_bytes m rx blk l = map (\<lambda>i. m (rx + of_nat (blk * RX_BUF_BLOCK) + of_nat i)) [0..<l]"

fun packet_bytes :: "(u64 \<Rightarrow> u8) \<Rightarrow> u64 \<Rightarrow> nat \<Rightarrow> nat list \<Rightarrow> u8 list" where
  "packet_bytes m rx head [] = []"
| "packet_bytes m rx head (l # ls) =
     block_bytes m rx head l @ packet_bytes m rx ((head + 1) mod RX_BUF_PAGES) ls"

text \<open>The bytes that reach user memory, with their addresses.\<close>

fun user_writes :: "event list \<Rightarrow> (u64 \<times> u8) list" where
  "user_writes [] = []"
| "user_writes (CopyToUser a bs # es) = zip (addr_range a (length bs)) bs @ user_writes es"
| "user_writes (_ # es) = user_writes es"

lemma user_writes_append [simp]: "user_writes (xs @ ys) = user_writes xs @ user_writes ys"
  by (induction xs rule: user_writes.induct) auto

lemma packet_at_cong:
  "\<forall>i\<in>set (ring_slots head (length lens)). res ! i = res' ! i \<Longrightarrow> head < RX_BUF_PAGES \<Longrightarrow>
    packet_at res head lens = packet_at res' head lens"
proof (induction res head lens rule: packet_at.induct)
  case (2 res head l)
  then show ?case by (simp add: ring_slots_def)
next
  case (3 res head l l' ls)
  have "ring_slots head (length (l # l' # ls)) = head # ring_slots ((head + 1) mod RX_BUF_PAGES) (length (l' # ls))"
    unfolding length_Cons [of l] by (rule ring_slots_Suc [OF 3(3)])
  then show ?case using 3(1,2) by auto
qed simp

lemma ring_slots_later:
  assumes "head < RX_BUF_PAGES" "n < RX_BUF_PAGES"
  shows "head \<notin> set (ring_slots ((head + 1) mod RX_BUF_PAGES) n)"
proof
  assume "head \<in> set (ring_slots ((head + 1) mod RX_BUF_PAGES) n)"
  then obtain j where j: "j < n" "head = ((head + 1) mod RX_BUF_PAGES + j) mod RX_BUF_PAGES"
    by (auto simp: ring_slots_def)
  then have "head = (head + Suc j) mod RX_BUF_PAGES" by (simp add: mod_add_left_eq)
  moreover have "(head + Suc j) mod RX_BUF_PAGES \<noteq> head"
  proof (cases "head + Suc j < RX_BUF_PAGES")
    case False
    then have "(head + Suc j) mod RX_BUF_PAGES = head + Suc j - RX_BUF_PAGES"
      using assms j(1) le_mod_geq [of RX_BUF_PAGES "head + Suc j"] by simp
    then show ?thesis using False assms(2) j(1) by simp
  qed simp
  ultimately show False by simp
qed

lemma complete_loop_packet:
  assumes "ring_ok e" "rx_result_buffer e = Some res" "packet_at res (rx_head e) lens"
    "length lens \<le> ring_avail e" "length lens \<le> RX_BUF_PAGES"
  shows "complete_loop e p c
    = Some (p + sum_list lens, c + length lens, False, ring_taken (length lens) True e)"
  using assms
proof (induction lens arbitrary: e res p c)
  case (Cons l ls)
  note ok = Cons.prems(1) and res = Cons.prems(2)
  have hd: "rx_head e < RX_BUF_PAGES" and tl: "rx_tail e < RX_BUF_PAGES" and len: "length res = RX_BUF_PAGES"
    using ok res by (auto simp: ring_ok_def)
  have go: "rx_head e \<noteq> rx_tail e \<or> rx_overrun e"
    using Cons.prems(4) by (auto simp: ring_avail_def split: if_splits)
  have hl: "rx_head e < length res" using hd len by simp
  show ?case
  proof (cases ls)
    case Nil
    then show ?thesis
      using complete_loop_eop [OF go res hl, of p c] Cons.prems(3) ring_pop_taken [OF hd res, of True] by simp
  next
    case (Cons l' ls')
    let ?e = "ring_pop False res e" and ?res = "res[rx_head e := (0, 0)]"
    have f: "\<not> entry_fault (res ! rx_head e)" "\<not> entry_eop (res ! rx_head e)" "unat (snd (res ! rx_head e)) = l"
      and p: "packet_at res ((rx_head e + 1) mod RX_BUF_PAGES) ls"
      using Cons.prems(3) Cons by simp_all
    have n: "length ls < RX_BUF_PAGES" using Cons.prems(5) by simp
    have "packet_at ?res ((rx_head e + 1) mod RX_BUF_PAGES) ls"
      using p packet_at_cong [of "(rx_head e + 1) mod RX_BUF_PAGES" ls ?res res] ring_slots_later [OF hd n]
      by (metis RX_BUF_PAGES_pos mod_less_divisor nth_list_update_neq)
    moreover have "ring_ok ?e" using hd tl len by (simp add: ring_ok_def)
    moreover have "length ls \<le> ring_avail ?e"
      using ring_avail_step(1) [OF hd tl go, of False res] Cons.prems(4) n by (cases "rx_overrun e") (auto simp: ring_avail_def)
    ultimately have "complete_loop ?e (p + l) (c + 1)
        = Some (p + l + sum_list ls, c + 1 + length ls, False, ring_taken (length ls) True ?e)"
      using Cons.IH [of ?e ?res "p + l" "c + 1"] n by simp
    then show ?thesis
      using complete_loop_go [OF go res hl f(1,2), of p c] f(3) ring_taken_Suc [OF hd res, of "length ls" True]
      by simp
  qed
qed simp

lemma copy_loop_packet:
  assumes "\<forall>tr. dma_mem env tr = m" "\<forall>tr. copy_fails env tr = 0" "full_but_last lens" "head < RX_BUF_PAGES"
  shows "\<exists>evs. copy_cyclic_loop env rx buf (sum_list lens) head e w
      = (0, e\<lparr>user_buffer_index := user_buffer_index e + sum_list lens\<rparr>, emits evs w)
    \<and> user_writes evs = zip (addr_range (buf + of_nat (user_buffer_index e)) (sum_list lens))
        (packet_bytes m rx head lens)
    \<and> io_writes evs = []"
  using assms(3,4)
proof (induction lens arbitrary: head e w rule: full_but_last.induct)
  case (2 l)
  let ?ev = "CopyToUser (buf + of_nat (user_buffer_index e)) (block_bytes m rx head l)"
  have "copy_cyclic_loop env rx buf l head e w
      = (0, e\<lparr>user_buffer_index := user_buffer_index e + l\<rparr>, emits [?ev] w)"
    using 2 assms(1,2)
    by (subst copy_cyclic_loop.simps) (simp add: copy_to_user_def dma_bytes_at_def block_bytes_def
        copy_cyclic_loop.simps [of _ _ _ 0] emits_def emit_def)
  then show ?case by (intro exI [of _ "[?ev]"]) (simp add: block_bytes_def)
next
  case (3 l l' ls)
  let ?ev = "CopyToUser (buf + of_nat (user_buffer_index e)) (block_bytes m rx head l)"
  let ?e = "e\<lparr>user_buffer_index := user_buffer_index e + l\<rparr>" and ?s = "sum_list (l' # ls)"
  have l: "l = RX_BUF_BLOCK" "full_but_last (l' # ls)" using 3(2) by simp_all
  have b: "0 < l" using l(1) by (simp add: RX_BUF_BLOCK_def)
  have s: "0 < ?s" using l(2) by (cases ls) (auto simp: RX_BUF_BLOCK_def)
  have "copy_cyclic_loop env rx buf (l + ?s) head e w
      = copy_cyclic_loop env rx buf ?s ((head + 1) mod RX_BUF_PAGES) ?e (emits [?ev] w)"
    using s b l(1) assms(1,2)
    by (subst copy_cyclic_loop.simps) (simp add: copy_to_user_def dma_bytes_at_def block_bytes_def
        emits_def emit_def)
  moreover obtain evs where
    "copy_cyclic_loop env rx buf ?s ((head + 1) mod RX_BUF_PAGES) ?e (emits [?ev] w)
      = (0, ?e\<lparr>user_buffer_index := user_buffer_index ?e + ?s\<rparr>, emits evs (emits [?ev] w))"
    "user_writes evs = zip (addr_range (buf + of_nat (user_buffer_index ?e)) ?s)
        (packet_bytes m rx ((head + 1) mod RX_BUF_PAGES) (l' # ls))" "io_writes evs = []"
    using 3(1) [OF l(2), of "(head + 1) mod RX_BUF_PAGES" ?e "emits [?ev] w"] by auto
  moreover have "length (block_bytes m rx head l) = l" by (simp add: block_bytes_def)
  ultimately show ?case
    by (intro exI [of _ "?ev # evs"]) (simp add: emits_def addr_range_add add.assoc)
qed simp

subsection \<open>Properties\<close>

text \<open>A scene: a receive engine with a packet of two blocks in its ring.\<close>

definition ring2 :: "(u32 \<times> u32) list" where
  "ring2 = (0x52B40000, 4096) # (0x52B40001, 100) # replicate 254 (0, 0)"

definition rx_engine :: xdma_engine where
  "rx_engine = engine1\<lparr>streaming := True, dir_to_dev := False, rx_tail := 2, rx_head := 0,
     rx_buffer := Some 0x100000, rx_result_buffer := Some ring2\<rparr>"

lemma length_ring2 [simp]: "length ring2 = RX_BUF_PAGES"
  by (simp add: ring2_def RX_BUF_PAGES_def)

lemma ring2_packet: "packet_at ring2 0 [4096, 100]" "full_but_last [4096, 100]"
  by (simp_all add: ring2_def entry_fault_def entry_eop_def C2H_WB_def RX_BUF_BLOCK_def RX_STATUS_EOP_def
      bits_set_def RX_BUF_PAGES_def)

lemma rx_engine_fields [simp]:
  "rx_result_buffer rx_engine = Some ring2" "rx_head rx_engine = 0" "rx_tail rx_engine = 2"
  "rx_overrun rx_engine = False" "locked rx_engine = False" "rx_buffer rx_engine = Some 0x100000"
  "user_buffer_index rx_engine = 0" "e_sgdma_regs rx_engine = e_sgdma_regs engine1"
  by (simp_all add: rx_engine_def engine1_def engine0_def)

lemma rx_engine_ring: "ring_ok rx_engine" "ring_avail rx_engine = 2"
  by (simp_all add: ring_ok_def ring_avail_def ring_gap_def RX_BUF_PAGES_def)

lemma ring_taken_fields [simp]:
  "rx_tail (ring_taken k b e) = rx_tail e" "rx_overrun (ring_taken k b e) = rx_overrun e"
  "rx_head (ring_taken k b e) = (rx_head e + k) mod RX_BUF_PAGES"
  "rx_buffer (ring_taken k b e) = rx_buffer e" "locked (ring_taken k b e) = locked e"
  "eop_found (ring_taken k b e) = (b \<or> eop_found e)"
  "user_buffer_index (ring_taken k b e) = user_buffer_index e"
  "e_sgdma_regs (ring_taken k b e) = e_sgdma_regs e"
  "rx_result_buffer (ring_taken k b e)
     = map_option (clear_slots (ring_slots (rx_head e) k)) (rx_result_buffer e)"
  by (simp_all add: ring_taken_def)

lemma ring_taken_lock [simp]:
  "ring_taken k b (e\<lparr>locked := l\<rparr>) = (ring_taken k b e)\<lparr>locked := l\<rparr>"
  by (simp add: ring_taken_def)

lemma ring_locked [simp]:
  "ring_ok (e\<lparr>locked := l\<rparr>) = ring_ok e" "ring_avail (e\<lparr>locked := l\<rparr>) = ring_avail e"
  by (simp_all add: ring_ok_def ring_avail_def)

lemma copy_cyclic_loop_frame:
  "\<exists>rc i evs. copy_cyclic_loop env rx buf n head e w
     = (rc, e\<lparr>user_buffer_index := i\<rparr>, emits evs w) \<and> io_writes evs = []"
proof (induction env rx buf n head e w rule: copy_cyclic_loop.induct)
  case (1 env rx buf n head e w)
  show ?case
  proof (cases "n = 0")
    case True
    then show ?thesis
      by (intro exI [of _ 0] exI [of _ "user_buffer_index e"] exI [of _ "[]"])
         (simp add: copy_cyclic_loop.simps [of env rx buf 0] emits_def)
  next
    case False
    let ?k = "if n > RX_BUF_BLOCK then RX_BUF_BLOCK else n"
    let ?bs = "dma_bytes_at env (trace w) (rx + of_nat (head * RX_BUF_BLOCK)) ?k"
    let ?ev = "CopyToUser (buf + of_nat (user_buffer_index e)) ?bs"
    show ?thesis
    proof (cases "copy_fails env (trace w) = 0")
      case True
      let ?e = "e\<lparr>user_buffer_index := user_buffer_index e + ?k\<rparr>"
      have c: "copy_to_user env (buf + of_nat (user_buffer_index e)) ?bs w = (0, emits [?ev] w)"
        using True by (simp add: copy_to_user_def emits_def emit_def)
      obtain rc i evs where
        "copy_cyclic_loop env rx buf (n - ?k) ((head + 1) mod RX_BUF_PAGES) ?e (emits [?ev] w)
          = (rc, ?e\<lparr>user_buffer_index := i\<rparr>, emits evs (emits [?ev] w))" "io_writes evs = []"
        using 1 [OF False refl c [symmetric] refl] by auto
      then show ?thesis using False c
        by (intro exI [of _ rc] exI [of _ i] exI [of _ "?ev # evs"])
           (subst copy_cyclic_loop.simps, simp add: Let_def emits_def)
    next
      case fails: False
      have c: "copy_to_user env (buf + of_nat (user_buffer_index e)) ?bs w
          = (copy_fails env (trace w), w)"
        using fails by (simp add: copy_to_user_def)
      show ?thesis using False fails c
        by (intro exI [of _ "copy_fails env (trace w)"] exI [of _ "user_buffer_index e"] exI [of _ "[]"])
           (subst copy_cyclic_loop.simps, simp add: Let_def emits_def)
    qed
  qed
qed

lemma complete_cyclic_run:
  assumes "ring_ok e" "\<not> locked e" "rx_buffer e \<noteq> None" "buf \<noteq> 0"
  shows "\<exists>rc e' w' evs k n. complete_cyclic env buf e w = Some (rc, e', w')
    \<and> trace w' = trace w @ evs \<and> rx_head e' = (rx_head e + k) mod RX_BUF_PAGES
    \<and> (\<not> rx_overrun e \<longrightarrow> k \<le> ring_avail e) \<and> n \<le> k
    \<and> io_writes evs = (if rc > 0 then [(sgdma_credits (e_sgdma_regs e), of_nat n)] else [])
    \<and> (rc = - EIO \<or> rc \<ge> 0) \<and> ring_ok e' \<and> \<not> locked e'
    \<and> rx_tail e' = rx_tail e \<and> (rx_overrun e' \<longrightarrow> rx_overrun e) \<and> rx_buffer e' = rx_buffer e
    \<and> e_sgdma_regs e' = e_sgdma_regs e
    \<and> rx_result_buffer e' = map_option (clear_slots (ring_slots (rx_head e) k)) (rx_result_buffer e)"
proof -
  let ?e = "e\<lparr>locked := True\<rparr>"
  obtain rx where rx: "rx_buffer e = Some rx" using assms(3) by auto
  obtain res where res: "rx_result_buffer e = Some res" "length res = RX_BUF_PAGES"
    and b: "rx_head e < RX_BUF_PAGES" "rx_tail e < RX_BUF_PAGES"
    using assms(1) by (auto simp: ring_ok_def)
  have "ring_ok ?e" using assms(1) by simp
  from complete_loop_spec [OF this, of 0 0] obtain k eop pkt n fault where
    l0: "complete_loop ?e 0 0 = Some (0 + pkt, 0 + n, fault, ring_taken k eop ?e)"
      "n \<le> k" "\<not> rx_overrun ?e \<longrightarrow> k \<le> ring_avail ?e"
    by blast
  then have l: "complete_loop ?e 0 0 = Some (pkt, n, fault, (ring_taken k eop e)\<lparr>locked := True\<rparr>)"
      "n \<le> k" "\<not> rx_overrun e \<longrightarrow> k \<le> ring_avail e"
    by simp_all
  let ?e2 = "(ring_taken k eop e)\<lparr>locked := False\<rparr>"
  have ok: "ring_ok (?e2\<lparr>user_buffer_index := i, rx_overrun := o'\<rparr>)" for i o'
    using b res by (simp add: ring_ok_def)
  have ok2: "ring_ok ?e2" using b res by (simp add: ring_ok_def)
  show ?thesis
  proof (cases fault)
    case True
    then have "complete_cyclic env buf e w = Some (- EIO, ?e2, w)"
      using l(1) assms(2) res by (simp add: complete_cyclic_def spin_lock_def spin_unlock_def Let_def)
    then show ?thesis using l(2,3) ok2
      by (intro exI [of _ "- EIO"] exI [of _ ?e2] exI [of _ w] exI [of _ "[]"] exI [of _ k] exI [of _ n]) simp
  next
    case False
    obtain rc i evs where c: "copy_cyclic_loop env rx buf pkt (rx_head e) ?e2 w
        = (rc, ?e2\<lparr>user_buffer_index := i\<rparr>, emits evs w)" "io_writes evs = []"
      using copy_cyclic_loop_frame [of env rx buf pkt "rx_head e" ?e2 w] by blast
    let ?r = "if rc \<noteq> 0 then int rc else int pkt"
    let ?e3 = "?e2\<lparr>user_buffer_index := i, rx_overrun := False\<rparr>"
    let ?w = "if ?r > 0 then write_register (of_nat n) (sgdma_credits (e_sgdma_regs e)) (emits evs w)
              else emits evs w"
    have "complete_cyclic env buf e w = Some (?r, ?e3, ?w)"
      using l(1) False c(1) assms(2,4) res rx
      by (simp add: complete_cyclic_def spin_lock_def spin_unlock_def copy_cyclic_to_user_def Let_def)
    moreover have "trace ?w = trace w @ evs
        @ (if ?r > 0 then [IoWrite (sgdma_credits (e_sgdma_regs e)) (of_nat n)] else [])"
      by simp
    ultimately show ?thesis using l(2,3) ok c(2)
      by (intro exI [of _ ?r] exI [of _ ?e3] exI [of _ ?w] exI [of _ "evs @
        (if ?r > 0 then [IoWrite (sgdma_credits (e_sgdma_regs e)) (of_nat n)] else [])"]
          exI [of _ k] exI [of _ n]) simp
  qed
qed

text \<open>C10: reading a complete packet delivers it: when the ring holds a packet whose blocks are full
  but for the last, \<open>complete_cyclic\<close> returns its length, copies exactly its bytes to
  consecutive user addresses, clears its results, moves the head behind it and gives the card
  one credit per block.\<close>

theorem complete_cyclic_delivers_packet:
  assumes "ring_ok e" "rx_result_buffer e = Some res" "\<not> locked e" "rx_buffer e = Some rx" "buf \<noteq> 0"
    and "packet_at res (rx_head e) lens" "full_but_last lens"
    and "length lens \<le> ring_avail e" "length lens \<le> RX_BUF_PAGES"
    and "\<forall>tr. dma_mem env tr = m" "\<forall>tr. copy_fails env tr = 0"
  shows "\<exists>e' w' evs. complete_cyclic env buf e w = Some (int (sum_list lens), e', w')
    \<and> trace w' = trace w @ evs
    \<and> user_writes evs = zip (addr_range (buf + of_nat (user_buffer_index e)) (sum_list lens))
        (packet_bytes m rx (rx_head e) lens)
    \<and> io_writes evs = [(sgdma_credits (e_sgdma_regs e), of_nat (length lens))]
    \<and> rx_head e' = (rx_head e + length lens) mod RX_BUF_PAGES \<and> rx_tail e' = rx_tail e
    \<and> rx_result_buffer e' = Some (clear_slots (ring_slots (rx_head e) (length lens)) res)
    \<and> eop_found e' \<and> \<not> rx_overrun e' \<and> \<not> locked e'"
proof -
  let ?e = "e\<lparr>locked := True\<rparr>" and ?n = "length lens" and ?s = "sum_list lens"
  let ?e2 = "(ring_taken ?n True e)\<lparr>locked := False\<rparr>"
  have "complete_loop ?e 0 0 = Some (0 + ?s, 0 + ?n, False, ring_taken ?n True ?e)"
    by (rule complete_loop_packet [of _ res]) (use assms in simp_all)
  then have l: "complete_loop ?e 0 0 = Some (?s, ?n, False, (ring_taken ?n True e)\<lparr>locked := True\<rparr>)"
    by simp
  have hd: "rx_head e < RX_BUF_PAGES" using assms(1) by (simp add: ring_ok_def)
  obtain evs where c: "copy_cyclic_loop env rx buf ?s (rx_head e) ?e2 w
      = (0, ?e2\<lparr>user_buffer_index := user_buffer_index ?e2 + ?s\<rparr>, emits evs w)"
    "user_writes evs = zip (addr_range (buf + of_nat (user_buffer_index ?e2)) ?s)
        (packet_bytes m rx (rx_head e) lens)" "io_writes evs = []"
    using copy_loop_packet [OF assms(10,11,7) hd] by blast
  have s: "0 < ?s" using assms(7) by (cases lens rule: full_but_last.cases) (auto simp: RX_BUF_BLOCK_def)
  have "complete_cyclic env buf e w = Some (int ?s,
      ?e2\<lparr>user_buffer_index := user_buffer_index e + ?s, rx_overrun := False\<rparr>,
      write_register (of_nat ?n) (sgdma_credits (e_sgdma_regs e)) (emits evs w))"
    using l c(1) assms(2-5) s
    by (simp add: complete_cyclic_def spin_lock_def spin_unlock_def copy_cyclic_to_user_def Let_def)
  then show ?thesis using c(2,3) assms(2)
    by (simp add: emits_def write_register_def emit_def)
qed

lemma complete_cyclic_delivers_packet_witness:
  "\<exists>e' w' evs. complete_cyclic env0 0x5000 rx_engine world1 = Some (4196, e', w')
    \<and> user_writes evs = zip (addr_range 0x5000 4196) (packet_bytes (\<lambda>_. 0) 0x100000 0 [4096, 100])
    \<and> rx_head e' = 2"
proof -
  have h: "\<forall>tr. dma_mem env0 tr = (\<lambda>_. 0)" "\<forall>tr. copy_fails env0 tr = 0" "(0x5000 :: u64) \<noteq> 0"
    "packet_at ring2 (rx_head rx_engine) [4096, 100]" "length [4096, 100 :: nat] \<le> ring_avail rx_engine"
    "length [4096, 100 :: nat] \<le> RX_BUF_PAGES" "\<not> locked rx_engine"
    using ring2_packet rx_engine_ring by (simp_all add: env0_def RX_BUF_PAGES_def)
  from complete_cyclic_delivers_packet [OF rx_engine_ring(1) rx_engine_fields(1) h(7) rx_engine_fields(6)
      h(3,4) ring2_packet(2) h(5,6,1,2), of world1]
  obtain e' w' evs where
    r: "complete_cyclic env0 0x5000 rx_engine world1 = Some (int (sum_list [4096, 100]), e', w')"
      "user_writes evs = zip (addr_range (0x5000 + of_nat (user_buffer_index rx_engine)) (sum_list [4096, 100]))
        (packet_bytes (\<lambda>_. 0) 0x100000 (rx_head rx_engine) [4096, 100])"
      "rx_head e' = (rx_head rx_engine + length [4096, 100 :: nat]) mod RX_BUF_PAGES"
    by blast
  have v: "sum_list [4096, 100] = (4196 :: nat)" "int 4196 = 4196"
    "0x5000 + of_nat (user_buffer_index rx_engine) = (0x5000 :: u64)" "rx_head rx_engine = 0"
    by (simp_all add: RX_BUF_PAGES_def)
  have v3: "(0 + length [4096, 100 :: nat]) mod RX_BUF_PAGES = 2" by (simp add: RX_BUF_PAGES_def)
  from r [unfolded v v3] show ?thesis by blast
qed

text \<open>\<open>complete_cyclic\<close> always returns on a well-formed ring, also after an overrun and whatever
  the card has written: it takes at most the results up to the tail (a whole turn of them can
  only be followed by a fault), gives the card at most one credit per result taken and leaves
  the ring well-formed and the lock free.\<close>

theorem complete_cyclic_returns:
  assumes "ring_ok e" "\<not> locked e" "rx_buffer e \<noteq> None" "buf \<noteq> 0"
  shows "\<exists>rc e' w' evs k n. complete_cyclic env buf e w = Some (rc, e', w')
    \<and> trace w' = trace w @ evs \<and> rx_head e' = (rx_head e + k) mod RX_BUF_PAGES
    \<and> (\<not> rx_overrun e \<longrightarrow> k \<le> ring_avail e) \<and> n \<le> k
    \<and> io_writes evs = (if rc > 0 then [(sgdma_credits (e_sgdma_regs e), of_nat n)] else [])
    \<and> (rc = - EIO \<or> rc \<ge> 0) \<and> ring_ok e' \<and> \<not> locked e'"
  using complete_cyclic_run [OF assms, of env w] by blast

lemma complete_cyclic_returns_witness:
  "\<exists>rc e' w'. complete_cyclic (env0\<lparr>copy_fails := \<lambda>_. 7\<rparr>) 0x5000 (rx_engine\<lparr>rx_overrun := True\<rparr>) world1
     = Some (rc, e', w') \<and> ring_ok e' \<and> \<not> locked e'"
proof -
  have h: "ring_ok (rx_engine\<lparr>rx_overrun := True\<rparr>)" "\<not> locked (rx_engine\<lparr>rx_overrun := True\<rparr>)"
    "rx_buffer (rx_engine\<lparr>rx_overrun := True\<rparr>) \<noteq> None" "(0x5000 :: u64) \<noteq> 0"
    using rx_engine_ring(1) by (simp_all add: ring_ok_def)
  show ?thesis using complete_cyclic_returns [OF h, of "env0\<lparr>copy_fails := \<lambda>_. 7\<rparr>" world1] by blast
qed

text \<open>a failing copy is reported as data: when \<open>copy_to_user\<close> leaves \<open>n\<close> bytes of the first
  block of a packet, nothing has reached the user, yet \<open>complete_cyclic\<close> returns \<open>n\<close> as the
  number of bytes read, drops the packet from the ring and releases its credits.\<close>

theorem complete_cyclic_copy_fault_counts:
  assumes "ring_ok e" "rx_result_buffer e = Some res" "\<not> locked e" "rx_buffer e = Some rx" "buf \<noteq> 0"
    and "packet_at res (rx_head e) lens" "0 < sum_list lens"
    and "length lens \<le> ring_avail e" "length lens \<le> RX_BUF_PAGES"
    and "copy_fails env (trace w) = n" "0 < n"
  shows "\<exists>e'. complete_cyclic env buf e w
      = Some (int n, e', write_register (of_nat (length lens)) (sgdma_credits (e_sgdma_regs e)) w)
    \<and> rx_head e' = (rx_head e + length lens) mod RX_BUF_PAGES"
proof -
  let ?e = "e\<lparr>locked := True\<rparr>" and ?n = "length lens" and ?s = "sum_list lens"
  have "complete_loop ?e 0 0 = Some (0 + ?s, 0 + ?n, False, ring_taken ?n True ?e)"
    by (rule complete_loop_packet [of _ res]) (use assms in simp_all)
  then have l: "complete_loop ?e 0 0 = Some (?s, ?n, False, (ring_taken ?n True e)\<lparr>locked := True\<rparr>)"
    by simp
  have "?s \<noteq> 0" using assms(7) by linarith
  then have c: "copy_cyclic_loop env rx buf ?s (rx_head e) e2 w = (n, e2, w)" for e2
    using assms(10,11)
    by (subst copy_cyclic_loop.simps) (simp only: if_False Let_def copy_to_user_def, simp)
  show ?thesis
    using l c assms(2-5,11)
    by (simp add: complete_cyclic_def spin_lock_def spin_unlock_def copy_cyclic_to_user_def Let_def)
qed

lemma complete_cyclic_copy_fault_counts_witness:
  "\<exists>e'. complete_cyclic (env0\<lparr>copy_fails := \<lambda>_. 4096\<rparr>) 0x5000 rx_engine world1
      = Some (4096, e', write_register 2 (sgdma_credits (e_sgdma_regs rx_engine)) world1)
    \<and> rx_head e' = 2"
proof -
  let ?env = "env0\<lparr>copy_fails := \<lambda>_. 4096\<rparr>"
  have h: "\<not> locked rx_engine" "(0x5000 :: u64) \<noteq> 0" "packet_at ring2 (rx_head rx_engine) [4096, 100]"
    "0 < sum_list [4096, 100 :: nat]" "length [4096, 100 :: nat] \<le> ring_avail rx_engine"
    "length [4096, 100 :: nat] \<le> RX_BUF_PAGES" "copy_fails ?env (trace world1) = 4096" "0 < (4096 :: nat)"
    using ring2_packet rx_engine_ring by (simp_all add: RX_BUF_PAGES_def)
  have v: "int 4096 = 4096" "of_nat (length [4096, 100 :: nat]) = (2 :: u32)"
    "(rx_head rx_engine + length [4096, 100 :: nat]) mod RX_BUF_PAGES = 2"
    by (simp_all add: RX_BUF_PAGES_def)
  from complete_cyclic_copy_fault_counts [OF rx_engine_ring(1) rx_engine_fields(1) h(1)
      rx_engine_fields(6) h(2-8), unfolded v] show ?thesis .
qed

text \<open>C31: opening a receive device a second time is refused with the lock still taken: the ring
  indices are reset first, and from then on queueing a transfer, closing the device and the
  interrupt service of the engine never get the lock.\<close>

theorem cyclic_open_twice_locks:
  assumes "rx_buffer e \<noteq> None" "\<not> locked e" "streaming e" "\<not> dir_to_dev e" "e_magic e = MAGIC_ENGINE"
  shows "\<exists>e'. char_sgdma_open env e w = Some (- EBUSY, e', w) \<and> locked e' \<and> rx_head e' = 0 \<and> rx_tail e' = 0
    \<and> (\<forall>env' t. transfer_queue env' e' t w = None)
    \<and> (\<forall>env' cfg msix wb res. engine_service_work env' cfg msix wb res e' w = None)
    \<and> (\<forall>env' oth. char_sgdma_close env' oth e' w = None)"
proof -
  let ?e = "e\<lparr>locked := True, rx_tail := 0, rx_head := 0, rx_overrun := False, eop_found := False,
               user_buffer_index := 0\<rparr>"
  have stuck: "spin_lock ?e = None" by (simp add: spin_lock_def)
  have "char_sgdma_open env e w = Some (- EBUSY, ?e, w)"
    using assms by (auto simp: char_sgdma_open_def cyclic_transfer_setup_def spin_lock_def Let_def)
  moreover have "transfer_queue env' ?e t w = None" for env' t
    using stuck by (simp add: transfer_queue_def split: Option.bind_splits)
  moreover have "engine_service_work env' cfg msix wb res ?e w = None" for env' cfg msix wb res
    using stuck by (simp add: engine_service_work_def)
  moreover have "char_sgdma_close env' oth ?e w = None" for env' oth
    using stuck assms(3,4) by (simp add: char_sgdma_close_def cyclic_transfer_teardown_def split: Option.bind_splits)
  ultimately show ?thesis by (intro exI [of _ ?e]) simp
qed

lemma cyclic_open_twice_locks_witness:
  "\<exists>e'. char_sgdma_open env0 rx_engine world1 = Some (- EBUSY, e', world1) \<and> locked e'"
proof -
  have h: "rx_buffer rx_engine \<noteq> None" "\<not> locked rx_engine" "streaming rx_engine" "\<not> dir_to_dev rx_engine"
    "e_magic rx_engine = MAGIC_ENGINE"
    by (simp_all add: rx_engine_def engine1_def engine0_def)
  show ?thesis using cyclic_open_twice_locks [OF h, of env0 world1] by blast
qed

subsection \<open>Flow control by credits\<close>

text \<open>The protocol between the driver and a card in credit mode. The card holds credits and
  writes the next result only against one; the interrupt service follows the results; a
  reader takes them and what it writes to the credit register is added. The state is the
  engine, the world, the slot the card writes next and its credits.\<close>

fun credits_written :: "addr \<Rightarrow> (addr \<times> u32) list \<Rightarrow> nat" where
  "credits_written a [] = 0"
| "credits_written a ((b, v) # ws) = (if b = a then unat v else 0) + credits_written a ws"

inductive ring_step ::
  "kenv \<Rightarrow> xdma_engine \<times> 'w world_scheme \<times> nat \<times> nat \<Rightarrow> xdma_engine \<times> 'w world_scheme \<times> nat \<times> nat \<Rightarrow> bool"
  for env :: kenv where
    card: "0 < c \<Longrightarrow> st \<noteq> 0 \<Longrightarrow> rx_result_buffer e = Some res
      \<Longrightarrow> ring_step env (e, w, wp, c)
           (e\<lparr>rx_result_buffer := Some (res[wp := (st, len)])\<rparr>, w, (wp + 1) mod RX_BUF_PAGES, c - 1)"
  | interrupt: "engine_service_cyclic_interrupt env e w = Some (rc, e', w')
      \<Longrightarrow> ring_step env (e, w, wp, c) (e', w', wp, c)"
  | reader: "buf \<noteq> 0 \<Longrightarrow> complete_cyclic env buf e w = Some (rc, e', w') \<Longrightarrow> trace w' = trace w @ evs
      \<Longrightarrow> ring_step env (e, w, wp, c)
           (e', w', wp, c + credits_written (sgdma_credits (e_sgdma_regs e)) (io_writes evs))"

inductive_cases ring_stepE: "ring_step env s s'"

text \<open>The state \<open>cyclic_transfer_setup\<close> leaves in credit mode, with cleared result memory.\<close>

definition ring_fresh :: "xdma_engine \<times> 'w world_scheme \<times> nat \<times> nat \<Rightarrow> bool" where
  "ring_fresh = (\<lambda>(e, w, wp, c). rx_head e = 0 \<and> rx_tail e = 0 \<and> \<not> rx_overrun e \<and> \<not> locked e
     \<and> rx_buffer e \<noteq> None \<and> rx_result_buffer e = Some (replicate RX_BUF_PAGES (0, 0)) \<and> wp = 0 \<and> c = 128)"

definition slot :: "nat \<Rightarrow> nat \<Rightarrow> nat" where
  "slot h j = (h + j) mod RX_BUF_PAGES"

text \<open>From the head on: \<open>v\<close> results the interrupt has seen, \<open>u\<close> it has not, then free slots.\<close>

definition ring_inv :: "xdma_engine \<times> 'w world_scheme \<times> nat \<times> nat \<Rightarrow> bool" where
  "ring_inv = (\<lambda>(e, w, wp, c). ring_ok e \<and> \<not> rx_overrun e \<and> \<not> locked e \<and> rx_buffer e \<noteq> None
     \<and> (\<exists>u v res. rx_result_buffer e = Some res \<and> rx_tail e = slot (rx_head e) v
          \<and> wp = slot (rx_head e) (v + u) \<and> u + v + c \<le> 128
          \<and> (\<forall>j<RX_BUF_PAGES. fst (res ! slot (rx_head e) j) \<noteq> 0 \<longleftrightarrow> j < v + u)))"

lemma ring_invI:
  assumes "ring_ok e" "\<not> rx_overrun e" "\<not> locked e" "rx_buffer e \<noteq> None" "rx_result_buffer e = Some res"
    "rx_tail e = slot (rx_head e) v" "wp = slot (rx_head e) (v + u)" "u + v + c \<le> 128"
    "\<And>j. j < RX_BUF_PAGES \<Longrightarrow> fst (res ! slot (rx_head e) j) \<noteq> 0 \<longleftrightarrow> j < v + u"
  shows "ring_inv (e, w, wp, c)"
  unfolding ring_inv_def using assms by blast

lemma slot_less [simp]: "slot h j < RX_BUF_PAGES"
  by (simp add: slot_def)

lemma slot_slot [simp]: "slot (slot h i) j = slot h (i + j)"
  by (simp add: slot_def mod_add_left_eq add.assoc)

lemma slot_inj:
  assumes "i < RX_BUF_PAGES" "j < RX_BUF_PAGES" "slot h i = slot h j"
  shows "i = j"
proof -
  have le: "i = j" if "i \<le> j" "i < RX_BUF_PAGES" "j < RX_BUF_PAGES" "slot h i = slot h j" for i j
  proof -
    have "(h + j) mod RX_BUF_PAGES = (h + i) mod RX_BUF_PAGES" using that(4) by (simp add: slot_def)
    then have "RX_BUF_PAGES dvd (h + j) - (h + i)"
      using that(1) mod_eq_dvd_iff_nat [of "h + i" "h + j" RX_BUF_PAGES] by simp
    then have "RX_BUF_PAGES dvd j - i" by simp
    then have "j - i = 0" using that(2,3) by (metis less_imp_diff_less nat_dvd_not_less neq0_conv)
    then show ?thesis using that(1) by simp
  qed
  show ?thesis using le [of i j] le [of j i] assms by (cases "i \<le> j") simp_all
qed

lemma ring_slots_slot: "ring_slots h k = map (slot h) [0..<k]"
  by (simp add: ring_slots_def slot_def)

lemma ring_gap_slot:
  assumes "h < RX_BUF_PAGES" "0 < v" "v < RX_BUF_PAGES"
  shows "ring_gap h (slot h v) = v"
proof (cases "h + v < RX_BUF_PAGES")
  case True
  then show ?thesis using assms by (simp add: slot_def ring_gap_def)
next
  case False
  then have "slot h v = h + v - RX_BUF_PAGES"
    using assms le_mod_geq [of RX_BUF_PAGES "h + v"] by (simp add: slot_def)
  then show ?thesis using False assms by (simp add: ring_gap_def)
qed

lemma ring_gap_back:
  assumes "h < RX_BUF_PAGES" "v < RX_BUF_PAGES"
  shows "ring_gap (slot h v) h = RX_BUF_PAGES - v"
proof (cases "h + v < RX_BUF_PAGES")
  case True
  then show ?thesis using assms by (simp add: slot_def ring_gap_def)
next
  case False
  then have "slot h v = h + v - RX_BUF_PAGES"
    using assms le_mod_geq [of RX_BUF_PAGES "h + v"] by (simp add: slot_def)
  then show ?thesis using False assms by (simp add: ring_gap_def)
qed


lemma nth_upd_slot:
  assumes "i < RX_BUF_PAGES" "j < RX_BUF_PAGES" "length res = RX_BUF_PAGES"
  shows "res[slot h i := x] ! slot h j = (if i = j then x else res ! slot h j)"
  using assms slot_inj [OF assms(1,2), of h] by (auto simp: nth_list_update)

lemma ring_inv_fresh: "ring_fresh s \<Longrightarrow> ring_inv s"
  by (cases s) (auto simp: ring_fresh_def ring_ok_def slot_def RX_BUF_PAGES_def
      intro!: ring_invI [where u = 0 and v = 0])

lemma ring_inv_card:
  assumes "ring_inv (e, w, wp, c)" "0 < c" "st \<noteq> 0" "rx_result_buffer e = Some res"
  shows "ring_inv (e\<lparr>rx_result_buffer := Some (res[wp := (st, len)])\<rparr>, w, (wp + 1) mod RX_BUF_PAGES, c - 1)"
proof -
  obtain u v where i: "ring_ok e" "\<not> rx_overrun e" "\<not> locked e" "rx_buffer e \<noteq> None"
    "rx_tail e = slot (rx_head e) v" "wp = slot (rx_head e) (v + u)" "u + v + c \<le> 128"
    "\<forall>j<RX_BUF_PAGES. fst (res ! slot (rx_head e) j) \<noteq> 0 \<longleftrightarrow> j < v + u"
    using assms(1,4) by (auto simp: ring_inv_def)
  have len: "length res = RX_BUF_PAGES" using i(1) assms(4) by (simp add: ring_ok_def)
  have vu: "v + u < RX_BUF_PAGES" using i(7) by (simp add: RX_BUF_PAGES_def)
  have "fst (res[wp := (st, len)] ! slot (rx_head e) j) \<noteq> 0 \<longleftrightarrow> j < v + Suc u" if "j < RX_BUF_PAGES" for j
    using i(8) that assms(3) unfolding i(6) nth_upd_slot [OF vu that len] by auto
  moreover have "(wp + 1) mod RX_BUF_PAGES = slot (rx_head e) (v + Suc u)"
    unfolding i(6) by (simp add: slot_def mod_Suc_eq)
  ultimately show ?thesis
    using i assms(2) len
    by (intro ring_invI [where u = "Suc u" and v = v and res = "res[wp := (st, len)]"])
       (auto simp: ring_ok_def)
qed

text \<open>What the interrupt does to the ring: exactly \<open>engine_ring_process\<close>.\<close>

lemma service_cyclic_interrupt_ring:
  assumes "engine_service_cyclic_interrupt env e w = Some (rc, e', w')"
  shows "\<exists>res ov eop. rx_result_buffer e = Some res
    \<and> ring_process_loop res (rx_head e) (rx_tail e) (rx_overrun e) 0 = Some (rx_tail e', ov, eop)
    \<and> rx_overrun e' = ov \<and> rx_head e' = rx_head e \<and> rx_result_buffer e' = rx_result_buffer e
    \<and> rx_buffer e' = rx_buffer e \<and> locked e' = locked e"
  using assms
  by (auto simp: engine_service_cyclic_interrupt_def engine_ring_process_def engine_status_read_def
      cyclic_idle_check_def engine_transfer_dequeue_def dequeue_head_def engine_service_shutdown_def Let_def
      split: Option.bind_splits if_splits prod.splits list.splits)

lemma ring_inv_interrupt:
  assumes "ring_inv (e, w, wp, c)" "engine_service_cyclic_interrupt env e w = Some (rc, e', w')"
  shows "ring_inv (e', w', wp, c)"
proof -
  obtain res ov eop where r: "rx_result_buffer e = Some res"
    "ring_process_loop res (rx_head e) (rx_tail e) (rx_overrun e) 0 = Some (rx_tail e', ov, eop)"
    "rx_overrun e' = ov" "rx_head e' = rx_head e" "rx_result_buffer e' = rx_result_buffer e"
    "rx_buffer e' = rx_buffer e" "locked e' = locked e"
    using service_cyclic_interrupt_ring [OF assms(2)] by blast
  let ?h = "rx_head e"
  obtain u v where i: "ring_ok e" "\<not> rx_overrun e" "\<not> locked e" "rx_buffer e \<noteq> None"
    "rx_tail e = slot ?h v" "wp = slot ?h (v + u)" "u + v + c \<le> 128"
    "\<forall>j<RX_BUF_PAGES. fst (res ! slot ?h j) \<noteq> 0 \<longleftrightarrow> j < v + u"
    using assms(1) r(1) by (auto simp: ring_inv_def)
  have b: "length res = RX_BUF_PAGES" "?h < RX_BUF_PAGES" "slot ?h v < RX_BUF_PAGES"
    using i(1) r(1) by (auto simp: ring_ok_def)
  obtain k ov' where k: "ring_process_loop res ?h (slot ?h v) False 0
      = Some ((slot ?h v + k) mod RX_BUF_PAGES, ov', 0 + eops res (ring_slots (slot ?h v) k))"
    "k \<le> ring_gap (slot ?h v) ?h" "ov' \<longleftrightarrow> k = ring_gap (slot ?h v) ?h"
    "\<forall>i\<in>set (ring_slots (slot ?h v) k). fst (res ! i) \<noteq> 0"
    using ring_process_loop_spec [OF b(1,3,2), of 0] by blast
  have eq: "rx_tail e' = slot ?h (v + k)" "ov = ov'"
    using r(2) k(1) i(2,5) by (simp_all add: slot_def mod_add_left_eq add.assoc)
  have vu: "v + u < RX_BUF_PAGES" "v < RX_BUF_PAGES" using i(7) by (simp_all add: RX_BUF_PAGES_def)
  have ku: "k \<le> u"
  proof (rule ccontr)
    assume "\<not> k \<le> u"
    then have "slot ?h (v + u) \<in> set (ring_slots (slot ?h v) k)" by (auto simp: ring_slots_slot)
    then have "fst (res ! slot ?h (v + u)) \<noteq> 0" using k(4) by blast
    then show False using i(8) vu by simp
  qed
  have "ring_gap (slot ?h v) ?h = RX_BUF_PAGES - v" by (rule ring_gap_back [OF b(2) vu(2)])
  then have "\<not> ov'" using k(3) ku vu by linarith
  then show ?thesis
    using i r eq ku b
    by (intro ring_invI [where u = "u - k" and v = "v + k" and res = res])
       (auto simp: ring_ok_def)
qed

lemma credits_written_single [simp]: "credits_written a [(a, v)] = unat v"
  by simp

lemma ring_inv_reader:
  assumes "ring_inv (e, w, wp, c)" "buf \<noteq> 0" "complete_cyclic env buf e w = Some (rc, e', w')"
    "trace w' = trace w @ evs"
  shows "ring_inv (e', w', wp, c + credits_written (sgdma_credits (e_sgdma_regs e)) (io_writes evs))"
proof -
  let ?h = "rx_head e"
  obtain u v res where i: "ring_ok e" "\<not> rx_overrun e" "\<not> locked e" "rx_buffer e \<noteq> None"
    "rx_result_buffer e = Some res"
    "rx_tail e = slot ?h v" "wp = slot ?h (v + u)" "u + v + c \<le> 128"
    "\<forall>j<RX_BUF_PAGES. fst (res ! slot ?h j) \<noteq> 0 \<longleftrightarrow> j < v + u"
    using assms(1) by (auto simp: ring_inv_def)
  have vu: "v + u < RX_BUF_PAGES" "v < RX_BUF_PAGES" using i(8) by (simp_all add: RX_BUF_PAGES_def)
  have h: "?h < RX_BUF_PAGES" and len: "length res = RX_BUF_PAGES" using i(1,5) by (auto simp: ring_ok_def)
  obtain k n where r: "rx_head e' = (?h + k) mod RX_BUF_PAGES" "k \<le> ring_avail e" "n \<le> k"
    "io_writes evs = (if rc > 0 then [(sgdma_credits (e_sgdma_regs e), of_nat n)] else [])"
    "ring_ok e'" "\<not> locked e'" "rx_tail e' = rx_tail e" "\<not> rx_overrun e'" "rx_buffer e' = rx_buffer e"
    "rx_result_buffer e' = Some (clear_slots (ring_slots ?h k) res)"
    using complete_cyclic_run [OF i(1,3,4) assms(2), of env w] assms(3,4) i(2,5) by auto
  have "ring_avail e = v"
  proof (cases "v = 0")
    case True
    then show ?thesis using i(2,6) h by (simp add: ring_avail_def slot_def)
  next
    case False
    then have "slot ?h v \<noteq> ?h" using slot_inj [of v 0 ?h] vu(2) h by (auto simp: slot_def)
    then show ?thesis using ring_gap_slot [OF h _ vu(2)] False i(2,6) by (simp add: ring_avail_def)
  qed
  then have kv: "k \<le> v" using r(2) by simp
  have nn: "credits_written (sgdma_credits (e_sgdma_regs e)) (io_writes evs) \<le> n"
    using r(4) by (simp add: unat_of_nat)
  have h': "rx_head e' = slot ?h k" using r(1) by (simp add: slot_def)
  have st: "fst (clear_slots (ring_slots ?h k) res ! slot ?h (k + j)) \<noteq> 0 \<longleftrightarrow> j < v - k + u"
    if j: "j < RX_BUF_PAGES" for j
  proof (cases "k + j < RX_BUF_PAGES")
    case True
    have "slot ?h (k + j) \<noteq> slot ?h i" if "i < k" for i
      using slot_inj [OF True, of i ?h] that kv vu by linarith
    then have "slot ?h (k + j) \<notin> set (ring_slots ?h k)" by (simp add: ring_slots_slot image_iff)
    then show ?thesis using i(9) True kv len by (auto simp: clear_slots_nth)
  next
    case False
    have s: "slot ?h (k + j) = slot ?h (k + j - RX_BUF_PAGES)"
      using False by (simp add: slot_def le_mod_geq)
    have "k + j - RX_BUF_PAGES < k" using j False by linarith
    then have "slot ?h (k + j) \<in> set (ring_slots ?h k)" unfolding s by (auto simp: ring_slots_slot)
    moreover have "\<not> j < v - k + u" using False kv vu by linarith
    ultimately show ?thesis using len by (simp add: clear_slots_nth)
  qed
  show ?thesis
    using r(5-10) i(4,6-8) h' kv nn r(3) st
    by (intro ring_invI [where u = u and v = "v - k"]) auto
qed

lemma ring_inv_step: "ring_step env s s' \<Longrightarrow> ring_inv s \<Longrightarrow> ring_inv s'"
  by (induction rule: ring_step.induct)
     (blast intro: ring_inv_card ring_inv_interrupt ring_inv_reader)+

interpretation ring_ts: transition_system ring_fresh "ring_step env" ring_inv
  for env :: kenv
  by unfold_locales (auto intro: ring_inv_fresh ring_inv_step)

text \<open>C9: credits prevent overruns: starting from an open receive ring with its 128 credits, a card
  that writes a result only against a credit, the interrupt service and any reader, in any
  order, never lead to the overrun flag. In every state they reach, the results not yet taken
  are in the slots from the head up to, and not including, the slot \<open>wp\<close> the card writes next:
  that slot is free, so that no result is overwritten before a reader has taken it; and with the
  credits out there are never more than 128 of them.\<close>

theorem credits_prevent_overrun:
  assumes "reach ring_fresh (ring_step env) (e, w, wp, c)"
  shows "\<not> rx_overrun e \<and> \<not> locked e \<and> c \<le> 128
    \<and> (\<exists>res n. rx_result_buffer e = Some res \<and> wp < length res \<and> fst (res ! wp) = 0
         \<and> wp = slot (rx_head e) n \<and> n + c \<le> 128
         \<and> (\<forall>j<RX_BUF_PAGES. fst (res ! slot (rx_head e) j) \<noteq> 0 \<longleftrightarrow> j < n)
         \<and> Finite_Set.card {j. j < RX_BUF_PAGES \<and> fst (res ! slot (rx_head e) j) \<noteq> 0} + c \<le> 128)"
proof -
  have "ring_inv (e, w, wp, c)" using assms by (rule ring_ts.reach_inv)
  then obtain u v res where i: "rx_result_buffer e = Some res" "u + v + c \<le> 128" "\<not> rx_overrun e" "\<not> locked e"
    "\<forall>j<RX_BUF_PAGES. fst (res ! slot (rx_head e) j) \<noteq> 0 \<longleftrightarrow> j < v + u" "wp = slot (rx_head e) (v + u)" "ring_ok e"
    by (auto simp: ring_inv_def)
  have vu: "v + u < RX_BUF_PAGES" using i(2) by (simp add: RX_BUF_PAGES_def)
  then have "{j. j < RX_BUF_PAGES \<and> fst (res ! slot (rx_head e) j) \<noteq> 0} = {..<v + u}"
    using i(5) less_trans [of _ "v + u" RX_BUF_PAGES] by blast
  moreover have "fst (res ! wp) = 0" using i(5) vu unfolding i(6) by blast
  moreover have "wp < length res" using i(1,6,7) by (simp add: ring_ok_def)
  ultimately show ?thesis
    using i by (intro conjI exI [of _ res] exI [of _ "v + u"]) auto
qed

lemma credits_prevent_overrun_witness:
  "\<exists>n. fst ((replicate RX_BUF_PAGES (0, 0))[0 := (0x52B40001 :: u32, 64 :: u32)] ! 1) = 0 \<and> 1 = slot 0 n \<and> n + 127 \<le> 128"
proof -
  let ?e = "rx_engine\<lparr>rx_tail := 0, rx_result_buffer := Some (replicate RX_BUF_PAGES (0, 0))\<rparr>"
  have "ring_fresh (?e, world1, 0, 128)" by (simp add: ring_fresh_def)
  then have "reach ring_fresh (ring_step env0) (?e, world1, 0, 128)" by (rule reach_init)
  moreover have "ring_step env0 (?e, world1, 0, 128)
     (?e\<lparr>rx_result_buffer := Some ((replicate RX_BUF_PAGES (0, 0))[0 := (0x52B40001, 64)])\<rparr>, world1,
      (0 + 1) mod RX_BUF_PAGES, 128 - 1)"
    by (rule ring_step.card) simp_all
  ultimately have "reach ring_fresh (ring_step env0)
     (?e\<lparr>rx_result_buffer := Some ((replicate RX_BUF_PAGES (0, 0))[0 := (0x52B40001, 64)])\<rparr>, world1,
      (0 + 1) mod RX_BUF_PAGES, 128 - 1)"
    by (rule reach_step)
  from credits_prevent_overrun [OF this] show ?thesis by (auto simp: RX_BUF_PAGES_def)
qed

end
