(* ===== verification/Device.thy ===== *)
theory Device
  imports Engine Ledger
begin

section \<open>The device: interrupts, BARs, engines\<close>

text \<open>
  \<open>struct xdma_dev\<close> and what \<open>probe\<close> and \<open>remove\<close> do to it below the character devices: the
  interrupt handlers, mapping and identifying the BARs, creating and destroying engines,
  requesting and freeing interrupt lines. Engines and character devices are heap objects: the
  device holds a pointer (\<open>eng_ptr\<close>, \<open>char_ptr\<close>) and, apart from it, the object lives
  (\<open>eng_heap\<close>, \<open>char_heap\<close>); a freed object behind a pointer that was not reset is a
  dangling pointer, and using it is \<open>None\<close>.
\<close>

subsection \<open>State\<close>

datatype chardev_type =
    CHAR_USER | CHAR_CTRL | CHAR_EVENTS | CHAR_XDMA_H2C | CHAR_XDMA_C2H
  | CHAR_BYPASS_H2C | CHAR_BYPASS_C2H | CHAR_BYPASS

record xdma_irq =
  events_irq :: u8
  events_locked :: bool

record xdma_char =
  c_magic :: u64
  c_major :: nat
  c_minor :: nat
  c_bar :: int
  c_engine :: "(nat \<times> nat) option"
  c_user_irq :: "nat option"
  sys_device :: bool

record xdma_dev =
  d_magic :: u64
  d_major :: nat
  d_instance :: nat
  char_ptr :: "char_slot \<Rightarrow> bool"
  char_heap :: "char_slot \<rightharpoonup> xdma_char"
  dev_bar :: "nat \<Rightarrow> addr"
  user_bar_idx :: int
  config_bar_idx :: int
  bypass_bar_idx :: int
  regions_in_use :: bool
  got_regions :: bool
  irq_count :: u32
  irq_line :: int
  msi_enabled :: bool
  msix_enabled :: bool
  irq_user_count :: nat
  user_irq :: "nat \<Rightarrow> xdma_irq"
  engines_num :: nat
  eng_ptr :: "nat \<times> nat \<Rightarrow> bool"
  eng_heap :: "nat \<times> nat \<rightharpoonup> xdma_engine"

definition MAGIC_DEVICE :: u64 where "MAGIC_DEVICE = 0xDDDDDDDD"
definition MAGIC_CHAR :: u64 where "MAGIC_CHAR = 0xCCCCCCCC"
definition MAX_NUM_ENGINES :: nat where "MAX_NUM_ENGINES = XDMA_CHANNEL_NUM_MAX * 2"

text \<open>The structure \<open>kzalloc\<close> and \<open>alloc_dev_instance\<close> set up.\<close>

definition dev0 :: xdma_dev where
  "dev0 = \<lparr>d_magic = MAGIC_DEVICE, d_major = 0, d_instance = 0,
     char_ptr = (\<lambda>_. False), char_heap = Map.empty, dev_bar = (\<lambda>_. 0), user_bar_idx = - 1,
     config_bar_idx = - 1, bypass_bar_idx = - 1, regions_in_use = False, got_regions = False,
     irq_count = 0, irq_line = - 1, msi_enabled = False, msix_enabled = False, irq_user_count = 0,
     user_irq = (\<lambda>_. \<lparr>events_irq = 0, events_locked = False\<rparr>), engines_num = 0,
     eng_ptr = (\<lambda>_. False), eng_heap = Map.empty\<rparr>"

definition alloc_dev_instance :: "kenv \<Rightarrow> 'w kworld_scheme \<Rightarrow> xdma_dev option \<times> 'w kworld_scheme" where
  "alloc_dev_instance env w = (case kalloc env ObjDev w of
     (False, w) \<Rightarrow> (None, w)
   | (True, w) \<Rightarrow> (Some dev0, w))"

text \<open>\<open>lro->bar[lro->config_bar_idx]\<close>; an index outside the array is a stray read.\<close>

definition bar_at :: "xdma_dev \<Rightarrow> int \<Rightarrow> addr option" where
  "bar_at lro i = (if 0 \<le> i \<and> i < int XDMA_BAR_NUM then Some (dev_bar lro (nat i)) else None)"

definition config_base :: "xdma_dev \<Rightarrow> addr option" where
  "config_base lro = bar_at lro (config_bar_idx lro)"

subsection \<open>Interrupt handlers\<close>

definition user_irq_service :: "xdma_irq \<Rightarrow> 'w kworld_scheme \<Rightarrow> (xdma_irq \<times> 'w kworld_scheme) option" where
  "user_irq_service q w = do {
     bug_on (events_locked q);
     let q = q\<lparr>events_locked := True\<rparr>;
     let (q, w) = (if events_irq q = 0 then (q\<lparr>events_irq := 1\<rparr>, emit (WakeUp WqEvents) w) else (q, w));
     Some (q\<lparr>events_locked := False\<rparr>, w) }"

definition irq_service_at :: "nat \<Rightarrow> xdma_dev \<Rightarrow> 'w kworld_scheme \<Rightarrow> (xdma_dev \<times> 'w kworld_scheme) option" where
  "irq_service_at i lro w = do {
     (q, w) \<leftarrow> user_irq_service (user_irq lro i) w;
     Some (lro\<lparr>user_irq := (user_irq lro)(i := q)\<rparr>, w) }"

fun isr_user_loop :: "nat list \<Rightarrow> u32 \<Rightarrow> xdma_dev \<Rightarrow> 'w kworld_scheme \<Rightarrow> (xdma_dev \<times> 'w kworld_scheme) option" where
  "isr_user_loop [] u lro w = Some (lro, w)"
| "isr_user_loop (b # bs) u lro w = do {
     (lro, w) \<leftarrow> (if bits_set u (push_bit b 1) then irq_service_at b lro w else Some (lro, w));
     isr_user_loop bs u lro w }"

fun isr_engine_loop :: "(nat \<times> nat) list \<Rightarrow> u32 \<Rightarrow> xdma_dev \<Rightarrow> 'w kworld_scheme \<Rightarrow> 'w kworld_scheme option" where
  "isr_engine_loop [] ch_irq lro w = Some w"
| "isr_engine_loop (p # ps) ch_irq lro w =
     (if eng_ptr lro p then do {
        e \<leftarrow> eng_heap lro p;
        isr_engine_loop ps ch_irq lro
          (if bits_set (irq_bitmask e) ch_irq then emit (ScheduleWork (fst p) (snd p)) w else w) }
      else isr_engine_loop ps ch_irq lro w)"

definition channels :: "nat \<Rightarrow> (nat \<times> nat) list" where
  "channels d = map (\<lambda>ch. (ch, d)) [0..<XDMA_CHANNEL_NUM_MAX]"

definition xdma_isr :: "kenv \<Rightarrow> xdma_dev \<Rightarrow> 'w kworld_scheme \<Rightarrow> (xdma_dev \<times> 'w kworld_scheme) option" where
  "xdma_isr env lro w = do {
     cfg \<leftarrow> config_base lro;
     let (ch_irq, w) = read_register env (channel_int_request (cfg + XDMA_OFS_INT_CTRL)) w;
     let w = channel_interrupts_disable cfg ch_irq w;
     let (u, w) = read_register env (user_int_request (cfg + XDMA_OFS_INT_CTRL)) w;
     (lro, w) \<leftarrow> isr_user_loop [0..<MAX_USER_IRQ] u lro w;
     w \<leftarrow> isr_engine_loop (channels 0) ch_irq lro w;
     w \<leftarrow> isr_engine_loop (channels 1) ch_irq lro w;
     Some (lro\<lparr>irq_count := irq_count lro + 1\<rparr>, w) }"

definition xdma_user_irq :: "nat \<Rightarrow> xdma_dev \<Rightarrow> 'w kworld_scheme \<Rightarrow> (xdma_dev \<times> 'w kworld_scheme) option" where
  "xdma_user_irq i lro w = irq_service_at i lro w"

definition channel_int_pending :: "addr \<Rightarrow> addr" where "channel_int_pending r = r + 0x4c"

definition xdma_channel_irq ::
  "kenv \<Rightarrow> nat \<times> nat \<Rightarrow> xdma_dev \<Rightarrow> 'w kworld_scheme \<Rightarrow> (xdma_dev \<times> 'w kworld_scheme) option" where
  "xdma_channel_irq env p lro w = do {
     e \<leftarrow> eng_heap lro p;
     cfg \<leftarrow> config_base lro;
     let (v, w) = read_register env (engine_interrupt_enable_mask (e_regs e)) w;
     let e = e\<lparr>interrupt_enable_mask_value := v\<rparr>;
     let w = write_register v (engine_interrupt_enable_mask_w1c (e_regs e)) w;
     let (_, w) = read_register env (channel_int_pending (cfg + XDMA_OFS_INT_CTRL)) w;
     let w = emit (ScheduleWork (fst p) (snd p)) w;
     Some (lro\<lparr>eng_heap := (eng_heap lro)(p \<mapsto> e), irq_count := irq_count lro + 1\<rparr>, w) }"

subsection \<open>BARs\<close>

definition INT_MAX :: u64 where "INT_MAX = 0x7FFFFFFF"

text \<open>\<open>pci_resource_len\<close>: 0 for an empty resource, else the span of its bounds.\<close>

definition pci_resource_len :: "kenv \<Rightarrow> nat \<Rightarrow> u64" where
  "pci_resource_len env i =
    (if bar_start env i = 0 \<and> bar_end env i = bar_start env i then 0
     else bar_end env i - bar_start env i + 1)"

fun unmap_bars_loop :: "nat list \<Rightarrow> xdma_dev \<Rightarrow> 'w kworld_scheme \<Rightarrow> xdma_dev \<times> 'w kworld_scheme" where
  "unmap_bars_loop [] lro w = (lro, w)"
| "unmap_bars_loop (i # is) lro w =
     (if dev_bar lro i \<noteq> 0
      then unmap_bars_loop is (lro\<lparr>dev_bar := (dev_bar lro)(i := 0)\<rparr>) (kfree (ObjBar i) w)
      else unmap_bars_loop is lro w)"

definition unmap_bars :: "xdma_dev \<Rightarrow> 'w kworld_scheme \<Rightarrow> xdma_dev \<times> 'w kworld_scheme" where
  "unmap_bars lro w = unmap_bars_loop [0..<XDMA_BAR_NUM] lro w"

definition map_single_bar ::
  "kenv \<Rightarrow> xdma_dev \<Rightarrow> nat \<Rightarrow> 'w kworld_scheme \<Rightarrow> int \<times> xdma_dev \<times> 'w kworld_scheme" where
  "map_single_bar env lro idx w =
    (let bar_len = pci_resource_len env idx;
         lro = lro\<lparr>dev_bar := (dev_bar lro)(idx := 0)\<rparr>
     in if bar_len = 0 then (0, lro, w)
        else
          let map_len = (if bar_len > INT_MAX then INT_MAX else bar_len);
              a = iomap env (trace w) idx map_len
          in if a = 0 then (- 1, lro, w)
             else (sint (ucast map_len :: u32), lro\<lparr>dev_bar := (dev_bar lro)(idx := a)\<rparr>,
                   emit (Alloc (ObjBar idx)) w))"

definition is_config_bar :: "kenv \<Rightarrow> xdma_dev \<Rightarrow> nat \<Rightarrow> 'w kworld_scheme \<Rightarrow> bool \<times> 'w kworld_scheme" where
  "is_config_bar env lro idx w =
    (let mask = 0xffff0000;
         (irq_id, w) = read_register env (dev_bar lro idx + XDMA_OFS_INT_CTRL) w;
         (cfg_id, w) = read_register env (dev_bar lro idx + XDMA_OFS_CONFIG) w
     in (irq_id AND mask = IRQ_BLOCK_ID \<and> cfg_id AND mask = CONFIG_BLOCK_ID, w))"

definition identify_bars :: "xdma_dev \<Rightarrow> nat list \<Rightarrow> nat \<Rightarrow> xdma_dev" where
  "identify_bars lro bar_id_list config_bar_pos =
    (if length bar_id_list = 2 then
       (if config_bar_pos = 0 then lro\<lparr>bypass_bar_idx := int (bar_id_list ! 1)\<rparr>
        else if config_bar_pos = 1 then lro\<lparr>user_bar_idx := int (bar_id_list ! 0)\<rparr>
        else lro)
     else if length bar_id_list = 3 then
       (if config_bar_pos = 1
        then lro\<lparr>user_bar_idx := int (bar_id_list ! 0), bypass_bar_idx := int (bar_id_list ! 2)\<rparr>
        else lro)
     else lro)"

text \<open>The loop of \<open>map_bars\<close>; the result says whether it went to \<open>fail\<close>.\<close>

fun map_bars_loop ::
  "kenv \<Rightarrow> nat list \<Rightarrow> nat list \<Rightarrow> nat \<Rightarrow> xdma_dev \<Rightarrow> 'w kworld_scheme
   \<Rightarrow> bool \<times> nat list \<times> nat \<times> xdma_dev \<times> 'w kworld_scheme" where
  "map_bars_loop env [] ids pos lro w = (True, ids, pos, lro, w)"
| "map_bars_loop env (i # is) ids pos lro w =
    (let (bar_len, lro, w) = map_single_bar env lro i w in
     if bar_len = 0 then map_bars_loop env is ids pos lro w
     else if bar_len < 0 then (False, ids, pos, lro, w)
     else
       let (cfg, w) = (if bar_len \<ge> int XDMA_BAR_SIZE \<and> config_bar_idx lro < 0
                       then is_config_bar env lro i w else (False, w))
       in if cfg then map_bars_loop env is (ids @ [i]) (length ids) (lro\<lparr>config_bar_idx := int i\<rparr>) w
          else map_bars_loop env is (ids @ [i]) pos lro w)"

definition map_bars :: "kenv \<Rightarrow> xdma_dev \<Rightarrow> 'w kworld_scheme \<Rightarrow> int \<times> xdma_dev \<times> 'w kworld_scheme" where
  "map_bars env lro w =
    (let (ok, ids, pos, lro, w) = map_bars_loop env [0..<XDMA_BAR_NUM] [] 0 lro w in
     if \<not> ok \<or> config_bar_idx lro < 0 then (let (lro, w) = unmap_bars lro w in (- 1, lro, w))
     else (0, identify_bars lro ids pos, w))"

subsection \<open>Engines\<close>

definition get_engine_type :: "kenv \<Rightarrow> addr \<Rightarrow> 'w kworld_scheme \<Rightarrow> bool \<times> 'w kworld_scheme" where
  "get_engine_type env regs w =
    (let (value, w) = read_register env (engine_identifier regs) w in (bits_set value 0x8000, w))"

definition get_engine_channel_id :: "kenv \<Rightarrow> addr \<Rightarrow> 'w kworld_scheme \<Rightarrow> u32 \<times> 'w kworld_scheme" where
  "get_engine_channel_id env regs w =
    (let (value, w) = read_register env (engine_identifier regs) w
     in (drop_bit 8 (value AND 0x00000f00), w))"

definition get_engine_id :: "kenv \<Rightarrow> addr \<Rightarrow> 'w kworld_scheme \<Rightarrow> u32 \<times> 'w kworld_scheme" where
  "get_engine_id env regs w =
    (let (value, w) = read_register env (engine_identifier regs) w
     in (drop_bit 16 (value AND 0xffff0000), w))"

definition engine_msix_setup ::
  "kenv \<Rightarrow> xdma_dev \<Rightarrow> xdma_engine \<Rightarrow> 'w kworld_scheme \<Rightarrow> (int \<times> xdma_engine \<times> 'w kworld_scheme) option" where
  "engine_msix_setup env lro e w =
    (if engines_num lro + MAX_USER_IRQ < 32 then
       let vector = msix_vec env (engines_num lro + MAX_USER_IRQ);
           (rc, w) = request_irq env vector w
       in Some (rc, if rc \<noteq> 0 then e else e\<lparr>msix_irq_line := vector\<rparr>, w)
     else None)"

definition engine_msix_teardown :: "xdma_engine \<Rightarrow> 'w kworld_scheme \<Rightarrow> 'w kworld_scheme" where
  "engine_msix_teardown e w = (if msix_irq_line e \<noteq> 0 then free_irq (msix_irq_line e) w else w)"

definition engine_writeback_teardown :: "xdma_engine \<Rightarrow> 'w kworld_scheme \<Rightarrow> 'w kworld_scheme" where
  "engine_writeback_teardown e w =
    (if poll_mode_wb e \<noteq> None then kfree (ObjPollWb (poll_mode_bus e)) w else w)"

definition engine_writeback_setup ::
  "kenv \<Rightarrow> xdma_engine \<Rightarrow> 'w kworld_scheme \<Rightarrow> int \<times> xdma_engine \<times> 'w kworld_scheme" where
  "engine_writeback_setup env e w = (case dma_alloc env (trace w) 32 of
     None \<Rightarrow> (- 1, e\<lparr>poll_mode_wb := None\<rparr>, w)
   | Some bus \<Rightarrow>
       (let w = emit (Alloc (ObjPollWb bus)) w;
            e = e\<lparr>poll_mode_wb := Some 0, poll_mode_bus := bus\<rparr>;
            w = write_register (PCI_DMA_L bus) (engine_poll_mode_wb_lo (e_regs e)) w;
            w = write_register (PCI_DMA_H bus) (engine_poll_mode_wb_hi (e_regs e)) w
        in (0, e, w)))"

definition error_interrupts :: u32 where
  "error_interrupts = XDMA_CTRL_IE_DESC_ALIGN_MISMATCH OR XDMA_CTRL_IE_MAGIC_STOPPED
     OR XDMA_CTRL_IE_MAGIC_STOPPED OR XDMA_CTRL_IE_READ_ERROR OR XDMA_CTRL_IE_DESC_ERROR"

text \<open>The new engine, or \<open>None\<close> for NULL. The offset is from the configuration BAR.\<close>

definition engine_create ::
  "kenv \<Rightarrow> xdma_dev \<Rightarrow> addr \<Rightarrow> bool \<Rightarrow> nat \<Rightarrow> 'w world_scheme
   \<Rightarrow> (xdma_engine option \<times> xdma_dev \<times> 'w world_scheme) option" where
  "engine_create env lro offset dir_to_dev_arg ch w =
    (let ob = ObjEngine ch (if dir_to_dev_arg then 0 else 1);
         sgdma_offset = offset + SGDMA_OFFSET_FROM_CHANNEL in
     case kalloc env ob w of
       (False, w) \<Rightarrow> Some (None, lro, w)
     | (True, w) \<Rightarrow> do {
         cfg \<leftarrow> config_base lro;
         let e = engine0\<lparr>channel := ch, number_in_channel := (if dir_to_dev_arg then 0 else 1),
               irq_bitmask := push_bit (engines_num lro * XDMA_ENG_IRQ_NUM) (push_bit XDMA_ENG_IRQ_NUM 1 - 1),
               bypass_offset := of_nat (engines_num lro) * BYPASS_MODE_SPACING,
               e_regs := cfg + offset, e_sgdma_regs := cfg + sgdma_offset,
               dir_to_dev := dir_to_dev_arg\<rparr>;
         let (s, w) = get_engine_type env (e_regs e) w;
         let e = e\<lparr>streaming := s\<rparr>;
         (rc, e, w) \<leftarrow> (if msix_enabled lro then engine_msix_setup env lro e w else Some (0, e, w));
         (if rc \<noteq> 0 then Some (None, lro, kfree ob w)
          else do {
            let lro = lro\<lparr>engines_num := engines_num lro + 1\<rparr>;
            let w = write_register XDMA_CTRL_NON_INCR_ADDR (engine_control_w1c (e_regs e)) w;
            let (e, w) = engine_alignments env e w;
            let (rc, reg_value, e, w) =
              (if poll_mode env then
                 (let (rc, e, w) = engine_writeback_setup env e w in (rc, error_interrupts, e, w))
               else
                 (let v = error_interrupts OR XDMA_CTRL_IE_DESC_STOPPED OR XDMA_CTRL_IE_DESC_COMPLETED
                  in (0, if streaming e \<and> \<not> dir_to_dev_arg then v OR XDMA_CTRL_IE_IDLE_STOPPED else v, e, w)));
            (if rc \<noteq> 0 then Some (None, lro, kfree ob (engine_msix_teardown e w))
             else do {
               let w = write_register reg_value (engine_interrupt_enable_mask (e_regs e)) w;
               (e, w) \<leftarrow> (case rx_transfer_cyclic e of
                   None \<Rightarrow> Some (e, w)
                 | Some t \<Rightarrow> do { (_, e, w) \<leftarrow> transfer_queue env e t w; Some (e, w) });
               Some (Some e, lro, w) }) }) })"

text \<open>The engine is freed; the pointer to it in the device stays.\<close>

definition engine_destroy ::
  "kenv \<Rightarrow> nat \<times> nat \<Rightarrow> xdma_dev \<Rightarrow> 'w kworld_scheme \<Rightarrow> (xdma_dev \<times> 'w kworld_scheme) option" where
  "engine_destroy env p lro w = do {
     e \<leftarrow> eng_heap lro p;
     let w = write_register 0 (engine_interrupt_enable_mask (e_regs e)) w;
     let w = engine_msix_teardown e w;
     let w = (if poll_mode env then engine_writeback_teardown e w else w);
     let w = kfree (ObjEngine (fst p) (snd p)) w;
     Some (lro\<lparr>eng_heap := (eng_heap lro)(p := None), engines_num := engines_num lro - 1\<rparr>, w) }"

fun remove_engines_loop ::
  "kenv \<Rightarrow> (nat \<times> nat) list \<Rightarrow> xdma_dev \<Rightarrow> 'w kworld_scheme \<Rightarrow> (xdma_dev \<times> 'w kworld_scheme) option" where
  "remove_engines_loop env [] lro w = Some (lro, w)"
| "remove_engines_loop env (p # ps) lro w = do {
     (lro, w) \<leftarrow> (if eng_ptr lro p then engine_destroy env p lro w else Some (lro, w));
     remove_engines_loop env ps lro w }"

definition all_channels :: "(nat \<times> nat) list" where
  "all_channels = concat (map (\<lambda>ch. [(ch, 0), (ch, 1)]) [0..<XDMA_CHANNEL_NUM_MAX])"

definition remove_engines :: "kenv \<Rightarrow> xdma_dev \<Rightarrow> 'w kworld_scheme \<Rightarrow> (xdma_dev \<times> 'w kworld_scheme) option" where
  "remove_engines env lro w = remove_engines_loop env all_channels lro w"

definition probe_for_engine ::
  "kenv \<Rightarrow> xdma_dev \<Rightarrow> bool \<Rightarrow> nat \<Rightarrow> 'w world_scheme \<Rightarrow> (int \<times> xdma_dev \<times> 'w world_scheme) option" where
  "probe_for_engine env lro dir_to_dev_arg ch w =
    (let dir_from_dev = (if dir_to_dev_arg then 0 else 1 :: nat);
         offset = of_nat dir_from_dev * H2C_CHANNEL_OFFSET + of_nat ch * CHANNEL_SPACING in do {
     cfg \<leftarrow> config_base lro;
     let regs = cfg + offset;
     let engine_id_expected = (if dir_to_dev_arg then XDMA_ID_H2C else XDMA_ID_C2H);
     let (engine_id, w) = get_engine_id env regs w;
     let (channel_id, w) = get_engine_channel_id env regs w;
     if engine_id \<noteq> engine_id_expected then Some (0, lro, w)
     else if channel_id \<noteq> of_nat ch then Some (0, lro, w)
     else do {
       (me, lro, w) \<leftarrow> engine_create env lro offset dir_to_dev_arg ch w;
       let p = (ch, dir_from_dev);
       (case me of
          None \<Rightarrow> Some (- 1, lro\<lparr>eng_ptr := (eng_ptr lro)(p := False)\<rparr>, w)
        | Some e \<Rightarrow> Some (0, lro\<lparr>eng_ptr := (eng_ptr lro)(p := True),
                                eng_heap := (eng_heap lro)(p \<mapsto> e)\<rparr>, w)) } })"

fun probe_engines_loop ::
  "kenv \<Rightarrow> bool \<Rightarrow> nat list \<Rightarrow> xdma_dev \<Rightarrow> 'w world_scheme \<Rightarrow> (int \<times> xdma_dev \<times> 'w world_scheme) option" where
  "probe_engines_loop env dir [] lro w = Some (0, lro, w)"
| "probe_engines_loop env dir (ch # chs) lro w = do {
     (rc, lro, w) \<leftarrow> probe_for_engine env lro dir ch w;
     if rc \<noteq> 0 then Some (rc, lro, w) else probe_engines_loop env dir chs lro w }"

text \<open>A failure among the C2H engines only ends the search.\<close>

definition probe_engines ::
  "kenv \<Rightarrow> xdma_dev \<Rightarrow> 'w world_scheme \<Rightarrow> (int \<times> xdma_dev \<times> 'w world_scheme) option" where
  "probe_engines env lro w = do {
     (rc, lro, w) \<leftarrow> probe_engines_loop env True [0..<XDMA_CHANNEL_NUM_MAX] lro w;
     if rc \<noteq> 0 then do {
       (lro, w) \<leftarrow> remove_engines env lro w;
       Some (- 1, lro, w) }
     else do {
       (_, lro, w) \<leftarrow> probe_engines_loop env False [0..<XDMA_CHANNEL_NUM_MAX] lro w;
       Some (0, lro, w) } }"

subsection \<open>Interrupt lines\<close>

definition build_vector_reg :: "u32 \<Rightarrow> u32 \<Rightarrow> u32 \<Rightarrow> u32 \<Rightarrow> u32" where
  "build_vector_reg a b c d =
    (let reg_val = 0;
         reg_val = reg_val OR push_bit 0 (a AND 0x1f);
         reg_val = reg_val OR push_bit 8 (b AND 0x1f);
         reg_val = reg_val OR push_bit 16 (c AND 0x1f)
     in reg_val OR push_bit 24 (d AND 0x1f))"

definition write_msix_vectors :: "addr \<Rightarrow> 'w kworld_scheme \<Rightarrow> 'w kworld_scheme" where
  "write_msix_vectors cfg w =
    (let r = cfg + XDMA_OFS_INT_CTRL;
         w = write_register (build_vector_reg 0 1 2 3) (user_msi_vector r 0) w;
         w = write_register (build_vector_reg 4 5 6 7) (user_msi_vector r 1) w;
         w = write_register (build_vector_reg 8 9 10 11) (user_msi_vector r 2) w;
         w = write_register (build_vector_reg 12 13 14 15) (user_msi_vector r 3) w;
         w = write_register (build_vector_reg 16 17 18 19) (channel_msi_vector r 0) w
     in write_register (build_vector_reg 20 21 22 23) (channel_msi_vector r 1) w)"

text \<open>The request loop, with the return code and the number of lines obtained.\<close>

fun request_loop :: "kenv \<Rightarrow> nat list \<Rightarrow> 'w kworld_scheme \<Rightarrow> int \<times> nat list \<times> 'w kworld_scheme" where
  "request_loop env [] w = (0, [], w)"
| "request_loop env (i # is) w =
    (let (rc, w) = request_irq env (msix_vec env i) w in
     if rc \<noteq> 0 then (rc, [], w)
     else (let (rc, got, w) = request_loop env is w in (rc, i # got, w)))"

fun free_loop :: "kenv \<Rightarrow> nat list \<Rightarrow> 'w kworld_scheme \<Rightarrow> 'w kworld_scheme" where
  "free_loop env [] w = w"
| "free_loop env (i # is) w = free_loop env is (free_irq (msix_vec env i) w)"

definition msix_irq_setup ::
  "kenv \<Rightarrow> xdma_dev \<Rightarrow> 'w kworld_scheme \<Rightarrow> (int \<times> xdma_dev \<times> 'w kworld_scheme) option" where
  "msix_irq_setup env lro w = do {
     cfg \<leftarrow> config_base lro;
     let w = write_msix_vectors cfg w;
     let (rc, got, w) = request_loop env [0..<MAX_USER_IRQ] w;
     if rc \<noteq> 0 then Some (- 1, lro, free_loop env (rev got) w)
     else Some (0, lro\<lparr>irq_user_count := MAX_USER_IRQ\<rparr>, w) }"

definition irq_teardown :: "kenv \<Rightarrow> xdma_dev \<Rightarrow> 'w kworld_scheme \<Rightarrow> 'w kworld_scheme" where
  "irq_teardown env lro w =
    (if msix_enabled lro then free_loop env [0..<irq_user_count lro] w
     else if irq_line lro \<noteq> - 1 then free_irq (of_int (irq_line lro)) w
     else w)"

text \<open>The four legacy pin vectors: \<open>val\<close> is the pin less one, in every byte.\<close>

definition legacy_vectors :: "addr \<Rightarrow> u8 \<Rightarrow> 'w kworld_scheme \<Rightarrow> 'w kworld_scheme" where
  "legacy_vectors cfg val w =
    (let val = (ucast (val - 1) :: u32);
         v = push_bit 24 val OR push_bit 16 val OR push_bit 8 val OR val;
         reg = cfg + 0x2080;
         w = write_register v reg w;
         w = write_register v (reg + 0x4) w;
         w = write_register v (reg + 0x8) w;
         w = write_register v (reg + 0xC) w;
         reg = cfg + 0x20A0;
         w = write_register v reg w
     in write_register v (reg + 0x4) w)"

definition irq_setup ::
  "kenv \<Rightarrow> xdma_dev \<Rightarrow> 'w kworld_scheme \<Rightarrow> (int \<times> xdma_dev \<times> 'w kworld_scheme) option" where
  "irq_setup env lro w =
    (if msix_enabled lro then msix_irq_setup env lro w
     else do {
       w \<leftarrow> (if \<not> msi_enabled lro then
               (let (v, w) = svc_call env SvcReadConfigByte w; val = (of_int v :: u8) in
                if val > 1 then do {
                  cfg \<leftarrow> config_base lro;
                  Some (legacy_vectors cfg val w) }
                else Some w)
             else Some w);
       let lro = lro\<lparr>irq_line := sint (pci_irq env)\<rparr>;
       let (rc, w) = request_irq env (pci_irq env) w;
       Some (rc, lro, w) })"

definition enable_credit_feature :: "addr \<Rightarrow> 'w kworld_scheme \<Rightarrow> 'w kworld_scheme" where
  "enable_credit_feature cfg w =
     write_register 0xF0000 (credit_feature_enable (cfg + 0x6 * TARGET_SPACING)) w"

subsection \<open>PCI capabilities\<close>

definition msi_msix_capable :: "kenv \<Rightarrow> nat \<Rightarrow> 'w kworld_scheme \<Rightarrow> bool \<times> 'w kworld_scheme" where
  "msi_msix_capable env cap w =
    (if pci_no_msi env then (False, w)
     else if list_ex (\<lambda>b. b) (pci_bus_no_msi env) then (False, w)
     else (let (r, w) = svc_call env (SvcCheckMsi cap) w in (r \<noteq> 0, w)))"

text \<open>\<open>PCI_CAP_ID_MSIX\<close> is 0x11, \<open>PCI_CAP_ID_MSI\<close> 0x05.\<close>

definition probe_scan_for_msi ::
  "kenv \<Rightarrow> xdma_dev \<Rightarrow> 'w kworld_scheme \<Rightarrow> int \<times> xdma_dev \<times> 'w kworld_scheme" where
  "probe_scan_for_msi env lro w =
    (let (x, w) = msi_msix_capable env 0x11 w in
     if x then
       (let (rc, w) = svc_call env (SvcEnableMsix (MAX_NUM_ENGINES + MAX_USER_IRQ)) w
        in (rc, lro\<lparr>msix_enabled := True\<rparr>, w))
     else
       (let (m, w) = msi_msix_capable env 0x05 w in
        if m then (let (rc, w) = svc_call env SvcEnableMsi w in (rc, lro\<lparr>msi_enabled := True\<rparr>, w))
        else (0, lro, w)))"

definition request_regions :: "kenv \<Rightarrow> xdma_dev \<Rightarrow> 'w kworld_scheme \<Rightarrow> int \<times> xdma_dev \<times> 'w kworld_scheme" where
  "request_regions env lro w =
    (let (rc, w) = svc_call env SvcRequestRegions w
     in (rc, if rc \<noteq> 0 then lro\<lparr>regions_in_use := True\<rparr> else lro\<lparr>got_regions := True\<rparr>, w))"

definition set_dma_mask :: "kenv \<Rightarrow> 'w kworld_scheme \<Rightarrow> int \<times> 'w kworld_scheme" where
  "set_dma_mask env w =
    (let (rc, w) = svc_call env (SvcDmaMask 64) w in
     if rc = 0 then (0, snd (svc_call env (SvcConsistentDmaMask 32) w))
     else (let (rc, w) = svc_call env (SvcDmaMask 32) w in
           if rc = 0 then (0, snd (svc_call env (SvcConsistentDmaMask 32) w))
           else (- 1, w)))"

text \<open>\<open>PCI_EXP_DEVCTL_EXT_TAG\<close> is 0x0100.\<close>

definition pcie_check_extended_tag :: "kenv \<Rightarrow> xdma_dev \<Rightarrow> 'w kworld_scheme \<Rightarrow> 'w kworld_scheme" where
  "pcie_check_extended_tag env lro w =
    (let (cap, w) = svc_call env SvcReadDevctl w in
     if bits_set (of_int cap :: u16) 0x0100 then w
     else if config_bar_idx lro < 0 then w
     else case config_base lro of
       None \<Rightarrow> w
     | Some cfg \<Rightarrow>
         (let reg = cfg + XDMA_OFS_CONFIG + 0x4C;
              (v, w) = read_register env reg w;
              v = (v AND 0xFF) OR push_bit 8 32
          in write_register v reg w))"

subsection \<open>What the interrupt handler does\<close>

lemma bits_set_bit: "b < LENGTH('a) \<Longrightarrow> bits_set u (2 ^ b) \<longleftrightarrow> bit (u :: 'a::len word) b"
  unfolding bits_set_def
  by (simp add: and_exp_eq_0_iff_not_bit)

definition raised :: "xdma_irq \<Rightarrow> xdma_irq" where
  "raised q = (if events_irq q = 0 then q\<lparr>events_irq := 1\<rparr> else q)"

definition wakes :: "xdma_irq \<Rightarrow> event list" where
  "wakes q = (if events_irq q = 0 then [WakeUp WqEvents] else [])"

lemma user_irq_service_run: "\<not> events_locked q \<Longrightarrow> user_irq_service q w = Some (raised q, emits (wakes q) w)"
  by (cases q) (simp add: user_irq_service_def raised_def wakes_def emits_def emit_def)

lemma emits_emits [simp]: "emits ys (emits xs w) = emits (xs @ ys) w"
  by (simp add: emits_def)

lemma emits_Nil [simp]: "emits [] w = w"
  by (simp add: emits_def)

lemma emit_emits: "emit ev w = emits [ev] w"
  by (simp add: emits_def emit_def)

lemma isr_user_loop_run:
  assumes "distinct bs" "\<forall>b\<in>set bs. b < 32" "\<forall>b\<in>set bs. \<not> events_locked (user_irq lro b)"
  shows "isr_user_loop bs u lro w = Some
    (lro\<lparr>user_irq := (\<lambda>i. if i \<in> set bs \<and> bit u i then raised (user_irq lro i) else user_irq lro i)\<rparr>,
     emits (concat (map (\<lambda>i. if bit u i then wakes (user_irq lro i) else []) bs)) w)"
  using assms
proof (induction bs arbitrary: lro w)
  case Nil
  then show ?case by (cases lro) simp
next
  case (Cons b bs)
  let ?q = "(user_irq lro)(b := raised (user_irq lro b))"
  show ?case
  proof (cases "bit u b")
    case True
    have c: "concat (map (\<lambda>i. if bit u i then wakes (?q i) else []) bs)
        = concat (map (\<lambda>i. if bit u i then wakes (user_irq lro i) else []) bs)"
      using Cons.prems(1) by (auto intro!: arg_cong [of _ _ concat] map_cong)
    have f: "(\<lambda>i. if i \<in> set bs \<and> bit u i then raised (?q i) else ?q i)
      = (\<lambda>i. if i \<in> set (b # bs) \<and> bit u i then raised (user_irq lro i) else user_irq lro i)"
      using Cons.prems(1) True by auto
    have "isr_user_loop (b # bs) u lro w
        = isr_user_loop bs u (lro\<lparr>user_irq := ?q\<rparr>) (emits (wakes (user_irq lro b)) w)"
      using True Cons.prems by (simp add: bits_set_bit irq_service_at_def user_irq_service_run)
    also have "\<dots> = Some (lro\<lparr>user_irq := (\<lambda>i. if i \<in> set bs \<and> bit u i then raised (?q i) else ?q i)\<rparr>,
        emits (wakes (user_irq lro b) @ concat (map (\<lambda>i. if bit u i then wakes (?q i) else []) bs)) w)"
      using Cons by (subst Cons.IH) (auto cong: if_cong)
    finally show ?thesis using True by (simp only: c f) simp
  next
    case False
    have "(\<lambda>i. if i \<in> set bs \<and> bit u i then raised (user_irq lro i) else user_irq lro i)
      = (\<lambda>i. if i \<in> set (b # bs) \<and> bit u i then raised (user_irq lro i) else user_irq lro i)"
      using False by auto
    with False Cons show ?thesis by (simp add: bits_set_bit)
  qed
qed

definition fired :: "xdma_dev \<Rightarrow> u32 \<Rightarrow> nat \<times> nat \<Rightarrow> bool" where
  "fired lro ch_irq p \<longleftrightarrow> eng_ptr lro p \<and> bits_set (irq_bitmask (the (eng_heap lro p))) ch_irq"

definition scheduled :: "xdma_dev \<Rightarrow> u32 \<Rightarrow> (nat \<times> nat) list \<Rightarrow> event list" where
  "scheduled lro ch_irq ps = map (\<lambda>p. ScheduleWork (fst p) (snd p)) (filter (fired lro ch_irq) ps)"

lemma isr_engine_loop_run:
  "\<forall>p\<in>set ps. eng_ptr lro p \<longrightarrow> eng_heap lro p \<noteq> None
    \<Longrightarrow> isr_engine_loop ps ch_irq lro w = Some (emits (scheduled lro ch_irq ps) w)"
  by (induction ps arbitrary: w) (auto simp: scheduled_def fired_def emit_emits)

subsection \<open>The device's account\<close>

text \<open>What the device owns, by its pointers: its mapped BARs, engines and their write-back words,
  character devices and the device structure itself. \<open>gap\<close> is what the trace holds beyond that.\<close>

definition own :: "xdma_dev \<Rightarrow> kobj \<Rightarrow> int" where
  "own lro ob = (case ob of
     ObjBar i \<Rightarrow> of_bool (i < XDMA_BAR_NUM \<and> dev_bar lro i \<noteq> 0)
   | ObjEngine c d \<Rightarrow> of_bool (eng_heap lro (c, d) \<noteq> None)
   | ObjPollWb b \<Rightarrow> (\<Sum>p\<in>set all_channels. of_bool (\<exists>e. eng_heap lro p = Some e
         \<and> poll_mode_wb e \<noteq> None \<and> poll_mode_bus e = b))
   | ObjChar sl \<Rightarrow> of_bool (char_heap lro sl \<noteq> None)
   | ObjDev \<Rightarrow> 1
   | _ \<Rightarrow> 0)"

definition gap :: "xdma_dev \<Rightarrow> 'w kworld_scheme \<Rightarrow> kobj \<Rightarrow> int" where
  "gap lro w = (\<lambda>ob. obj_net (trace w) ob - own lro ob)"

lemma map_single_bar_cases:
  fixes env :: kenv and lro :: xdma_dev and w :: "'w kworld_scheme"
  obtains (empty) "pci_resource_len env i = 0"
      "map_single_bar env lro i w = (0, lro\<lparr>dev_bar := (dev_bar lro)(i := 0)\<rparr>, w)"
    | (failed) "pci_resource_len env i \<noteq> 0"
      "map_single_bar env lro i w = (- 1, lro\<lparr>dev_bar := (dev_bar lro)(i := 0)\<rparr>, w)"
    | (mapped) n a where "pci_resource_len env i \<noteq> 0" "0 < n" "a \<noteq> 0"
      "map_single_bar env lro i w
        = (n, lro\<lparr>dev_bar := (dev_bar lro)(i := a)\<rparr>, emit (Alloc (ObjBar i)) w)"
proof -
  let ?l = "pci_resource_len env i" and ?m = "if pci_resource_len env i > INT_MAX then INT_MAX else pci_resource_len env i"
  have pos: "0 < sint (ucast ?m :: u32)" if "?l \<noteq> 0"
  proof -
    have "unat ?m < 2 ^ 31"
      by (auto simp: INT_MAX_def not_less word_le_nat_alt)
    moreover have "0 < unat ?m" using that
      by (auto simp: INT_MAX_def unat_gt_0)
    moreover have "sint (ucast ?m :: u32) = int (unat ?m)"
      using \<open>unat ?m < 2 ^ 31\<close> by (rule sint_ucast_small)
    ultimately show ?thesis by linarith
  qed
  show ?thesis
  proof (cases "?l = 0")
    case True
    then show ?thesis by (intro empty) (simp_all add: map_single_bar_def)
  next
    case False
    show ?thesis
    proof (cases "iomap env (trace w) i ?m = 0")
      case True
      with False show ?thesis by (intro failed) (simp_all add: map_single_bar_def Let_def)
    next
      case a: False
      show ?thesis by (rule mapped [OF False pos [OF False] a]) (use False a in \<open>simp add: map_single_bar_def Let_def\<close>)
    qed
  qed
qed

lemma is_config_bar_world [simp]:
  "obj_net (trace (snd (is_config_bar env lro i w))) = obj_net (trace w)"
  by (simp add: is_config_bar_def read_register_def Let_def fun_eq_iff)

lemma own_map_bar: "i < XDMA_BAR_NUM \<Longrightarrow> a \<noteq> 0 \<Longrightarrow> dev_bar lro i = 0
  \<Longrightarrow> own (lro\<lparr>dev_bar := (dev_bar lro)(i := a)\<rparr>) = (\<lambda>ob. own lro ob + of_bool (ob = ObjBar i))"
  by (auto simp: own_def fun_eq_iff split: kobj.splits)

lemma own_config [simp]: "own (lro\<lparr>config_bar_idx := c\<rparr>) = own lro"
  "own (lro\<lparr>user_bar_idx := c\<rparr>) = own lro" "own (lro\<lparr>bypass_bar_idx := c\<rparr>) = own lro"
  by (auto simp: own_def fun_eq_iff split: kobj.splits)

definition bars_present :: "kenv \<Rightarrow> nat list \<Rightarrow> nat list" where
  "bars_present env is = filter (\<lambda>i. pci_resource_len env i \<noteq> 0) is"

definition bars_only :: "xdma_dev \<Rightarrow> xdma_dev \<Rightarrow> bool" where
  "bars_only lro lro' \<longleftrightarrow> (\<exists>b c. lro' = lro\<lparr>dev_bar := b, config_bar_idx := c\<rparr>)"

lemma bars_only_refl [simp]: "bars_only lro lro"
  unfolding bars_only_def by (intro exI [of _ "dev_bar lro"] exI [of _ "config_bar_idx lro"]) simp

lemma bars_only_trans:
  assumes "bars_only a b" "bars_only b c" shows "bars_only a c"
proof -
  from assms obtain d i where "c = a\<lparr>dev_bar := d, config_bar_idx := i\<rparr>"
    by (auto simp: bars_only_def)
  then show ?thesis unfolding bars_only_def by blast
qed

lemma bars_only_dev [intro]: "bars_only lro (lro\<lparr>dev_bar := b\<rparr>)"
  unfolding bars_only_def by (intro exI [of _ b] exI [of _ "config_bar_idx lro"]) (cases lro, simp)

lemma bars_only_step:
  "bars_only (lro\<lparr>dev_bar := b, config_bar_idx := c\<rparr>) lro' \<Longrightarrow> bars_only lro lro'"
  by (rule bars_only_trans [rotated]) (auto simp: bars_only_def)

text \<open>What the loop over the BARs leaves: a device that differs only in its BARs and the number of
  the configuration BAR.\<close>

lemma map_bars_loop_spec:
  assumes "map_bars_loop env js ids pos lro w = (ok, ids', pos', lro', w')"
    and "distinct js" "set js \<subseteq> {..<XDMA_BAR_NUM}" "\<forall>i\<in>set js. dev_bar lro i = 0"
  shows "gap lro' w' = gap lro w
    \<and> bars_only lro lro'
    \<and> (\<forall>i. i \<notin> set js \<longrightarrow> dev_bar lro' i = dev_bar lro i)
    \<and> (ok \<longrightarrow> ids' = ids @ bars_present env js
          \<and> (\<forall>i\<in>set js. dev_bar lro' i \<noteq> 0 \<longleftrightarrow> pci_resource_len env i \<noteq> 0))
    \<and> (config_bar_idx lro' = config_bar_idx lro \<and> pos' = pos
       \<or> config_bar_idx lro < 0 \<and> (\<exists>c\<in>set js. config_bar_idx lro' = int c \<and> dev_bar lro' c \<noteq> 0
          \<and> (ok \<longrightarrow> pos' < length ids' \<and> ids' ! pos' = c)))"
  using assms
proof (induction js arbitrary: ids pos lro w)
  case Nil
  then show ?case by (cases lro) (simp add: bars_present_def)
next
  case (Cons i js)
  note prems = Cons.prems
  have i: "i < XDMA_BAR_NUM" "i \<notin> set js" "dev_bar lro i = 0" "distinct js" "set js \<subseteq> {..<XDMA_BAR_NUM}"
    using prems by auto
  have same: "lro\<lparr>dev_bar := (dev_bar lro)(i := 0)\<rparr> = lro" using i(3) by (cases lro) auto
  show ?case
  proof (cases env i lro w rule: map_single_bar_cases)
    case empty
    have "map_bars_loop env js ids pos lro w = (ok, ids', pos', lro', w')"
      using prems(1) empty(2) same by simp
    from Cons.IH [OF this i(4,5)] prems(4) i(2,3) empty(1) show ?thesis
      by (auto simp: bars_present_def)
  next
    case failed
    then have "(False, ids, pos, lro, w) = (ok, ids', pos', lro', w')" using prems(1) same by simp
    then show ?thesis by (cases lro) auto
  next
    case (mapped n a)
    let ?l1 = "lro\<lparr>dev_bar := (dev_bar lro)(i := a)\<rparr>" and ?w1 = "emit (Alloc (ObjBar i)) w"
    have gap1: "gap ?l1 ?w1 = gap lro w"
      using own_map_bar [OF i(1) mapped(3) i(3)] by (simp add: gap_def fun_eq_iff)
    have rest: "\<forall>j\<in>set js. dev_bar ?l1 j = 0" using prems(4) i(2) by auto
    obtain cfg w2 where t: "(if n \<ge> int XDMA_BAR_SIZE \<and> config_bar_idx ?l1 < 0 then is_config_bar env ?l1 i ?w1
        else (False, ?w1)) = (cfg, w2)" by fastforce
    have "w2 = snd (is_config_bar env ?l1 i ?w1) \<or> w2 = ?w1"
      using t by (metis snd_conv)
    then have w2: "obj_net (trace w2) = obj_net (trace ?w1)"
      by (elim disjE) (simp_all only: is_config_bar_world)
    have neg: "cfg \<Longrightarrow> config_bar_idx lro < 0" using t by (auto split: if_splits)
    let ?c = "if cfg then int i else config_bar_idx lro"
    let ?l2 = "lro\<lparr>dev_bar := (dev_bar lro)(i := a), config_bar_idx := ?c\<rparr>"
    have gap2: "gap ?l2 w2 = gap lro w"
      using gap1 w2 own_config(1) [where lro = ?l1 and c = ?c] by (simp add: gap_def)
    have l2: "(if cfg then ?l1\<lparr>config_bar_idx := int i\<rparr> else ?l1) = ?l2" by simp
    have "map_bars_loop env js (ids @ [i]) (if cfg then length ids else pos) ?l2 w2
        = (ok, ids', pos', lro', w')"
      using prems(1) mapped(2,4) t unfolding l2 [symmetric] by (auto simp: Let_def split: if_splits)
    note ih = Cons.IH [OF this i(4,5)]
    have rest2: "\<forall>j\<in>set js. dev_bar ?l2 j = 0" using rest by simp
    from ih [OF rest2] have IH: "gap lro' w' = gap ?l2 w2" "bars_only ?l2 lro'"
      "\<forall>k. k \<notin> set js \<longrightarrow> dev_bar lro' k = dev_bar ?l2 k"
      "ok \<longrightarrow> ids' = (ids @ [i]) @ bars_present env js
         \<and> (\<forall>i\<in>set js. dev_bar lro' i \<noteq> 0 \<longleftrightarrow> pci_resource_len env i \<noteq> 0)"
      "config_bar_idx lro' = config_bar_idx ?l2 \<and> pos' = (if cfg then length ids else pos)
       \<or> config_bar_idx ?l2 < 0 \<and> (\<exists>c\<in>set js. config_bar_idx lro' = int c \<and> dev_bar lro' c \<noteq> 0
          \<and> (ok \<longrightarrow> pos' < length ids' \<and> ids' ! pos' = c))"
      by blast+
    have dev: "dev_bar lro' i = a" using IH(3) i(2) by simp
    have "ok \<longrightarrow> ids' = ids @ bars_present env (i # js)
         \<and> (\<forall>i\<in>set (i # js). dev_bar lro' i \<noteq> 0 \<longleftrightarrow> pci_resource_len env i \<noteq> 0)"
      using IH(4) mapped(1,3) dev by (auto simp: bars_present_def)
    moreover have "config_bar_idx lro' = config_bar_idx lro \<and> pos' = pos
       \<or> config_bar_idx lro < 0 \<and> (\<exists>c\<in>set (i # js). config_bar_idx lro' = int c \<and> dev_bar lro' c \<noteq> 0
          \<and> (ok \<longrightarrow> pos' < length ids' \<and> ids' ! pos' = c))"
      using IH(4,5) dev mapped(3) neg by (cases cfg) (auto simp: nth_append)
    ultimately show ?thesis using IH(1,3) gap2 bars_only_step [OF IH(2)] by auto
  qed
qed

lemma own_unmap: "own (lro\<lparr>dev_bar := (dev_bar lro)(i := 0)\<rparr>)
    = (\<lambda>ob. own lro ob - of_bool (ob = ObjBar i \<and> i < XDMA_BAR_NUM \<and> dev_bar lro i \<noteq> 0))"
  by (auto simp: own_def fun_eq_iff split: kobj.splits)

lemma unmap_bars_loop_spec:
  "unmap_bars_loop js lro w = (lro', w') \<Longrightarrow> set js \<subseteq> {..<XDMA_BAR_NUM} \<Longrightarrow>
     gap lro' w' = gap lro w \<and> lro' = lro\<lparr>dev_bar := (\<lambda>i. if i \<in> set js then 0 else dev_bar lro i)\<rparr>"
proof (induction js arbitrary: lro w)
  case (Cons i js)
  let ?l = "lro\<lparr>dev_bar := (dev_bar lro)(i := 0)\<rparr>"
  have zero: "(\<lambda>j. if j \<in> set js then 0 else dev_bar ?l j) = (\<lambda>j. if j \<in> set (i # js) then 0 else dev_bar lro j)"
    by auto
  show ?case
  proof (cases "dev_bar lro i = 0")
    case True
    have "(\<lambda>j. if j \<in> set js then 0 else dev_bar lro j) = (\<lambda>j. if j \<in> set (i # js) then 0 else dev_bar lro j)"
      using True by auto
    with Cons.IH [of lro w] Cons.prems True show ?thesis by auto
  next
    case False
    have "gap ?l (kfree (ObjBar i) w) = gap lro w"
      using Cons.prems(2) False by (auto simp: gap_def own_unmap fun_eq_iff)
    with zero False Cons.IH [of ?l "kfree (ObjBar i) w"] Cons.prems show ?thesis by auto
  qed
qed simp

lemma unmap_bars_spec:
  "unmap_bars lro w = (lro', w') \<Longrightarrow> gap lro' w' = gap lro w
     \<and> lro' = lro\<lparr>dev_bar := (\<lambda>i. if i < XDMA_BAR_NUM then 0 else dev_bar lro i)\<rparr>"
  using unmap_bars_loop_spec [of "[0..<XDMA_BAR_NUM]" lro w lro' w']
  by (simp add: unmap_bars_def lessThan_atLeast0 del: subset_refl) auto

lemma identify_bars_fields [simp]:
  "dev_bar (identify_bars lro ids pos) = dev_bar lro" "own (identify_bars lro ids pos) = own lro"
  "config_bar_idx (identify_bars lro ids pos) = config_bar_idx lro"
  by (simp_all add: identify_bars_def)

lemma map_bars_run:
  assumes "map_bars env lro w = (rc, lro', w')" "\<forall>i<XDMA_BAR_NUM. dev_bar lro i = 0" "config_bar_idx lro < 0"
  obtains (mapped) lro1 pos cfg where "rc = 0" "lro' = identify_bars lro1 (bars_present env [0..<XDMA_BAR_NUM]) pos"
      "bars_only lro lro1" "gap lro' w' = gap lro w" "config_bar_idx lro1 = int cfg" "cfg < XDMA_BAR_NUM"
      "pos < length (bars_present env [0..<XDMA_BAR_NUM])" "bars_present env [0..<XDMA_BAR_NUM] ! pos = cfg"
      "\<forall>i<XDMA_BAR_NUM. dev_bar lro1 i \<noteq> 0 \<longleftrightarrow> pci_resource_len env i \<noteq> 0"
    | (failed) "rc = - 1" "bars_only lro lro'" "gap lro' w' = gap lro w" "\<forall>i<XDMA_BAR_NUM. dev_bar lro' i = 0"
proof -
  let ?js = "[0..<XDMA_BAR_NUM]"
  obtain ok ids pos lro1 w1 where l: "map_bars_loop env ?js [] 0 lro w = (ok, ids, pos, lro1, w1)"
    by (cases "map_bars_loop env ?js [] 0 lro w") auto
  have js: "distinct ?js" "set ?js \<subseteq> {..<XDMA_BAR_NUM}" "\<forall>i\<in>set ?js. dev_bar lro i = 0"
    using assms(2) by auto
  note spec = map_bars_loop_spec [OF l js]
  show ?thesis
  proof (cases "\<not> ok \<or> config_bar_idx lro1 < 0")
    case True
    obtain lro2 w2 where u: "unmap_bars lro1 w1 = (lro2, w2)" by (cases "unmap_bars lro1 w1") auto
    have r: "rc = - 1" "lro' = lro2" "w' = w2" using assms(1) True l u by (simp_all add: map_bars_def)
    have "bars_only lro lro2" using spec unmap_bars_spec [OF u] bars_only_trans by blast
    with unmap_bars_spec [OF u] spec r show ?thesis by (intro failed) auto
  next
    case False
    then have ok: ok "\<not> config_bar_idx lro1 < 0" by auto
    have r: "rc = 0" "lro' = identify_bars lro1 ids pos" "w' = w1"
      using assms(1) False l by (simp_all add: map_bars_def)
    have ids: "ids = bars_present env ?js"
      and dev: "\<forall>i<XDMA_BAR_NUM. dev_bar lro1 i \<noteq> 0 \<longleftrightarrow> pci_resource_len env i \<noteq> 0"
      using spec ok(1) by auto
    from spec ok assms(3) obtain cfg where c: "cfg \<in> set ?js" "config_bar_idx lro1 = int cfg"
      "pos < length ids" "ids ! pos = cfg" by auto
    have "gap lro' w' = gap lro w" using spec r by (simp add: gap_def)
    with spec r ids dev c show ?thesis by (intro mapped) auto
  qed
qed

subsection \<open>An example device\<close>

text \<open>A card with a user BAR (0) and a configuration BAR (1), one host-to-card and one card-to-host
  engine.\<close>

definition xdma_card :: kenv where
  "xdma_card = env0\<lparr>bar_start := (\<lambda>i. if i = 0 then 0xA0000000 else if i = 1 then 0xB0000000 else 0),
     bar_end := (\<lambda>i. if i = 0 then 0xA00FFFFF else if i = 1 then 0xB000FFFF else 0),
     hw_read := (\<lambda>_ a. if a = 0x2002000 then IRQ_BLOCK_ID else if a = 0x2003000 then CONFIG_BLOCK_ID
       else if a = 0x2000000 then 0x1fc00000 else if a = 0x2001000 then 0x1fc10000 else 0)\<rparr>"

lemma xdma_card_len: "pci_resource_len xdma_card i = (if i = 0 then 0x100000 else if i = 1 then 0x10000 else 0)"
  by (simp add: xdma_card_def pci_resource_len_def env0_def)

lemma six_bars: "[0..<XDMA_BAR_NUM] = [0, 1, 2, 3, 4, 5]"
  by (simp add: XDMA_BAR_NUM_def upt_rec)

lemma xdma_card_single:
  "map_single_bar xdma_card lro 0 w
     = (0x100000, lro\<lparr>dev_bar := (dev_bar lro)(0 := 0x1000000)\<rparr>, emit (Alloc (ObjBar 0)) w)"
  "map_single_bar xdma_card lro (Suc 0) w
     = (0x10000, lro\<lparr>dev_bar := (dev_bar lro)(1 := 0x2000000)\<rparr>, emit (Alloc (ObjBar 1)) w)"
  "2 \<le> i \<Longrightarrow> map_single_bar xdma_card lro i w = (0, lro\<lparr>dev_bar := (dev_bar lro)(i := 0)\<rparr>, w)"
  by (simp_all add: map_single_bar_def xdma_card_len Let_def INT_MAX_def)
    (simp_all add: xdma_card_def env0_def)

lemma xdma_card_config:
  "dev_bar lro 0 = 0x1000000
     \<Longrightarrow> is_config_bar xdma_card lro 0 w = (False, emit (IoRead 0x1003000 0) (emit (IoRead 0x1002000 0) w))"
  "dev_bar lro 1 = 0x2000000
     \<Longrightarrow> is_config_bar xdma_card lro 1 w
           = (True, emit (IoRead 0x2003000 CONFIG_BLOCK_ID) (emit (IoRead 0x2002000 IRQ_BLOCK_ID) w))"
  by (simp_all add: is_config_bar_def read_register_def Let_def xdma_card_def IRQ_BLOCK_ID_def CONFIG_BLOCK_ID_def
      XDMA_OFS_INT_CTRL_def XDMA_OFS_CONFIG_def)

definition card_dev :: xdma_dev where
  "card_dev = dev0\<lparr>dev_bar := (\<lambda>i. if i = 0 then 0x1000000 else if i = 1 then 0x2000000 else 0),
                 config_bar_idx := 1, user_bar_idx := 0\<rparr>"

lemma xdma_card_maps: "\<exists>w. map_bars xdma_card dev0 world1 = (0, card_dev, w)"
proof -
  have d: "dev_bar dev0 = (\<lambda>_. 0)" "config_bar_idx dev0 = - 1" by (simp_all add: dev0_def)
  have f: "(\<lambda>_. 0)(0 := 0x1000000, Suc 0 := 0x2000000, 2 := 0, 3 := 0, 4 := 0, 5 := 0)
      = (\<lambda>i :: nat. if i = 0 then 0x1000000 else if i = 1 then 0x2000000 else 0 :: u64)"
    by auto
  have "\<exists>w. map_bars_loop xdma_card [0..<XDMA_BAR_NUM] [] 0 dev0 world1 = (True, [0, 1], 1,
      dev0\<lparr>dev_bar := (\<lambda>i. if i = 0 then 0x1000000 else if i = 1 then 0x2000000 else 0), config_bar_idx := 1\<rparr>, w)"
    by (simp add: six_bars xdma_card_single xdma_card_config xdma_card_config [unfolded One_nat_def] d XDMA_BAR_SIZE_def f)
  then show ?thesis
    by (auto simp: map_bars_def identify_bars_def card_dev_def)
qed

lemma card_cfg: "config_base card_dev = Some 0x2000000"
  by (simp add: config_base_def bar_at_def card_dev_def XDMA_BAR_NUM_def)

lemma card_cfg_msix: "config_base (card_dev\<lparr>msix_enabled := True\<rparr>) = Some 0x2000000"
  by (simp add: config_base_def bar_at_def card_dev_def XDMA_BAR_NUM_def)

lemma dev0_fresh: "\<forall>i<XDMA_BAR_NUM. dev_bar dev0 i = 0" "config_bar_idx dev0 < 0" "user_bar_idx dev0 = - 1"
  "bypass_bar_idx dev0 = - 1"
  by (simp_all add: dev0_def)

subsection \<open>Properties\<close>

text \<open>C22: the interrupt handler masks exactly the channel interrupts it read, wakes the readers of
  the user interrupts that are newly raised and remembers each of them, and schedules the work
  of exactly the engines whose interrupt bit was set, first the host-to-card ones.\<close>

theorem xdma_isr_services:
  assumes "config_base lro = Some cfg" "\<forall>b<MAX_USER_IRQ. \<not> events_locked (user_irq lro b)"
    and "\<forall>p\<in>set (channels 0 @ channels 1). eng_ptr lro p \<longrightarrow> eng_heap lro p \<noteq> None"
    and "ch = hw_read env (trace w) (channel_int_request (cfg + XDMA_OFS_INT_CTRL))"
    and "tr = trace w @ [IoRead (channel_int_request (cfg + XDMA_OFS_INT_CTRL)) ch,
                         IoWrite (channel_int_enable_w1c (cfg + XDMA_OFS_INT_CTRL)) ch]"
    and "u = hw_read env tr (user_int_request (cfg + XDMA_OFS_INT_CTRL))"
  shows "\<exists>lro' w'. xdma_isr env lro w = Some (lro', w')
    \<and> trace w' = tr @ [IoRead (user_int_request (cfg + XDMA_OFS_INT_CTRL)) u]
        @ concat (map (\<lambda>i. if bit u i then wakes (user_irq lro i) else []) [0..<MAX_USER_IRQ])
        @ scheduled lro ch (channels 0 @ channels 1)
    \<and> (\<forall>i<MAX_USER_IRQ. events_irq (user_irq lro' i) \<noteq> 0 \<longleftrightarrow> events_irq (user_irq lro i) \<noteq> 0 \<or> bit u i)
    \<and> irq_count lro' = irq_count lro + 1 \<and> eng_heap lro' = eng_heap lro"
proof -
  let ?w3 = "emits [IoRead (user_int_request (cfg + XDMA_OFS_INT_CTRL)) u] (emits
    [IoRead (channel_int_request (cfg + XDMA_OFS_INT_CTRL)) ch, IoWrite (channel_int_enable_w1c (cfg + XDMA_OFS_INT_CTRL)) ch] w)"
  let ?bs = "[0..<MAX_USER_IRQ]"
  let ?q = "\<lambda>i. if i \<in> set ?bs \<and> bit u i then raised (user_irq lro i) else user_irq lro i"
  let ?w4 = "emits (concat (map (\<lambda>i. if bit u i then wakes (user_irq lro i) else []) ?bs)) ?w3"
  have bs: "distinct ?bs" "\<forall>b\<in>set ?bs. b < 32" "\<forall>b\<in>set ?bs. \<not> events_locked (user_irq lro b)"
    using assms(2) by (auto simp: MAX_USER_IRQ_def)
  have s: "scheduled (lro\<lparr>user_irq := q\<rparr>) ch ps = scheduled lro ch ps" for q ps
    by (simp add: scheduled_def fired_def [abs_def])
  have es: "isr_engine_loop (channels 0) ch (lro\<lparr>user_irq := q\<rparr>) v = Some (emits (scheduled lro ch (channels 0)) v)"
    "isr_engine_loop (channels 1) ch (lro\<lparr>user_irq := q\<rparr>) v = Some (emits (scheduled lro ch (channels 1)) v)"
    for q and v :: "'a kworld_scheme"
    using assms(3) by (subst isr_engine_loop_run; auto simp: s)+
  have sa: "scheduled lro ch (xs @ ys) = scheduled lro ch xs @ scheduled lro ch ys" for xs ys
    by (simp add: scheduled_def)
  have "xdma_isr env lro w = Some (lro\<lparr>user_irq := ?q, irq_count := irq_count lro + 1\<rparr>,
      emits (scheduled lro ch (channels 0) @ scheduled lro ch (channels 1)) ?w4)"
    using assms(1,4-6)
    by (simp add: xdma_isr_def read_register_def channel_interrupts_disable_def write_register_def
        isr_user_loop_run [OF bs] es [unfolded assms(4)]
        emit_emits Let_def del: One_nat_def cong: if_cong)
  then show ?thesis
    using assms(5) by (auto simp: sa raised_def)
qed

lemma xdma_isr_services_witness:
  "\<exists>lro' w'. xdma_isr (env0\<lparr>hw_read := \<lambda>_ _. 3\<rparr>) card_dev world1 = Some (lro', w')
    \<and> events_irq (user_irq lro' 1) \<noteq> 0 \<and> irq_count lro' = 1"
proof -
  let ?env = "env0\<lparr>hw_read := \<lambda>_ _. 3\<rparr>" and ?r = "0x2000000 + XDMA_OFS_INT_CTRL"
  have h: "\<forall>b<MAX_USER_IRQ. \<not> events_locked (user_irq card_dev b)"
    "\<forall>p\<in>set (channels 0 @ channels 1). eng_ptr card_dev p \<longrightarrow> eng_heap card_dev p \<noteq> None"
    "3 = hw_read ?env (trace world1) (channel_int_request ?r)"
    "3 = hw_read ?env (trace world1 @ [IoRead (channel_int_request ?r) 3, IoWrite (channel_int_enable_w1c ?r) 3])
           (user_int_request ?r)"
    "irq_count card_dev = 0" "(1 :: nat) < MAX_USER_IRQ" "bit (3 :: u32) 1"
    by (simp_all add: card_dev_def dev0_def MAX_USER_IRQ_def bit_numeral_rec)
  from xdma_isr_services [OF card_cfg h(1-3) refl h(4)] h(5-7) show ?thesis by fastforce
qed

text \<open>mapping the BARs is all or nothing: on success every BAR with a resource is mapped, the
  configuration BAR is among them and exactly the mapped ones are held; on failure none stays
  mapped.\<close>

theorem map_bars_all_or_nothing:
  assumes "map_bars env lro w = (rc, lro', w')" "\<forall>i<XDMA_BAR_NUM. dev_bar lro i = 0" "config_bar_idx lro < 0"
  shows "rc = 0 \<and> (\<exists>cfg<XDMA_BAR_NUM. config_bar_idx lro' = int cfg \<and> dev_bar lro' cfg \<noteq> 0)
      \<and> (\<forall>i<XDMA_BAR_NUM. dev_bar lro' i \<noteq> 0 \<longleftrightarrow> pci_resource_len env i \<noteq> 0)
      \<and> (\<forall>ob. obj_net (trace w') ob
            = obj_net (trace w) ob + of_bool (\<exists>i<XDMA_BAR_NUM. ob = ObjBar i \<and> dev_bar lro' i \<noteq> 0))
    \<or> rc = - 1 \<and> (\<forall>i<XDMA_BAR_NUM. dev_bar lro' i = 0) \<and> obj_net (trace w') = obj_net (trace w)"
  using assms
proof (cases rule: map_bars_run)
  case (mapped lro1 pos cfg)
  have "own lro' ob = own lro ob + of_bool (\<exists>i<XDMA_BAR_NUM. ob = ObjBar i \<and> dev_bar lro' i \<noteq> 0)" for ob
    using mapped(2,3) assms(2) by (auto simp: bars_only_def own_def split: kobj.splits)
  moreover have "obj_net (trace w') ob - own lro' ob = obj_net (trace w) ob - own lro ob" for ob
    using mapped(4) by (simp add: gap_def fun_eq_iff)
  ultimately have "obj_net (trace w') ob
      = obj_net (trace w) ob + of_bool (\<exists>i<XDMA_BAR_NUM. ob = ObjBar i \<and> dev_bar lro' i \<noteq> 0)" for ob
    by (smt (verit))
  moreover have "cfg \<in> set (bars_present env [0..<XDMA_BAR_NUM])" using nth_mem [OF mapped(7)] mapped(8) by simp
  ultimately show ?thesis using mapped by (auto simp: bars_present_def)
next
  case failed
  have "own lro' ob = own lro ob" for ob
    using failed(2,4) assms(2) by (auto simp: bars_only_def own_def split: kobj.splits)
  with failed show ?thesis by (auto simp: gap_def fun_eq_iff)
qed

lemma map_bars_all_or_nothing_witness:
  "\<exists>w'. map_bars xdma_card dev0 world1 = (0, card_dev, w') \<and> dev_bar card_dev 1 \<noteq> 0
    \<and> obj_net (trace w') (ObjBar 1) = 1"
proof -
  obtain w where m: "map_bars xdma_card dev0 world1 = (0, card_dev, w)" using xdma_card_maps by blast
  have v: "obj_net (trace world1) = (\<lambda>_. 0)" "dev_bar card_dev 1 \<noteq> 0" "(1 :: nat) < XDMA_BAR_NUM"
    by (simp_all add: world1_def card_dev_def XDMA_BAR_NUM_def)
  from map_bars_all_or_nothing [OF m dev0_fresh(1,2)]
  have "\<forall>ob. obj_net (trace w) ob = 0 + of_bool (\<exists>i<XDMA_BAR_NUM. ob = ObjBar i \<and> dev_bar card_dev i \<noteq> 0)"
    unfolding v(1) by auto
  then show ?thesis using m v(2,3) by auto
qed

text \<open>which BAR is what: with two BARs, the one before the configuration BAR is the user BAR and
  the one behind it the bypass BAR; with three and the configuration BAR in the middle, both;
  in every other layout neither is identified.\<close>

theorem map_bars_identifies:
  assumes "map_bars env lro w = (0, lro', w')" "\<forall>i<XDMA_BAR_NUM. dev_bar lro i = 0"
    and "config_bar_idx lro < 0" "user_bar_idx lro = - 1" "bypass_bar_idx lro = - 1"
    and "ids = filter (\<lambda>i. pci_resource_len env i \<noteq> 0) [0..<XDMA_BAR_NUM]"
  shows "\<exists>cfg\<in>set ids. config_bar_idx lro' = int cfg
    \<and> user_bar_idx lro' = (if length ids \<in> {2, 3} \<and> ids ! 1 = cfg then int (ids ! 0) else - 1)
    \<and> bypass_bar_idx lro' = (if length ids = 2 \<and> ids ! 0 = cfg then int (ids ! 1)
                             else if length ids = 3 \<and> ids ! 1 = cfg then int (ids ! 2) else - 1)"
  using assms(1-3)
proof (cases rule: map_bars_run)
  case (mapped lro1 pos cfg)
  have ids: "bars_present env [0..<XDMA_BAR_NUM] = ids" by (simp add: assms(6) bars_present_def)
  have d: "distinct ids" using assms(6) by simp
  have u: "user_bar_idx lro1 = - 1" "bypass_bar_idx lro1 = - 1"
    using mapped(3) assms(4,5) by (auto simp: bars_only_def)
  have p: "pos < length ids" "ids ! pos = cfg" using mapped(7,8) ids by simp_all
  have eq: "ids ! k = cfg \<longleftrightarrow> pos = k" if "k < length ids" for k
    using nth_eq_iff_index_eq [OF d that p(1)] p(2) by auto
  have e: "length ids = 2 \<Longrightarrow> ids ! 0 = cfg \<longleftrightarrow> pos = 0" "length ids \<in> {2, 3} \<Longrightarrow> ids ! 1 = cfg \<longleftrightarrow> pos = 1"
    using eq [of 0] eq [of 1] by auto
  have "cfg \<in> set ids" using p by auto
  moreover have "config_bar_idx lro' = int cfg" using mapped(2,5) by simp
  moreover have "lro' = identify_bars lro1 ids pos" using mapped(2) ids by simp
  ultimately show ?thesis
    using u e p(1) by (intro bexI [of _ cfg]) (auto simp: identify_bars_def)
qed simp

lemma map_bars_identifies_witness:
  "\<exists>w'. map_bars xdma_card dev0 world1 = (0, card_dev, w') \<and> user_bar_idx card_dev = 0 \<and> bypass_bar_idx card_dev = - 1"
proof -
  obtain w where m: "map_bars xdma_card dev0 world1 = (0, card_dev, w)" using xdma_card_maps by blast
  have ids: "filter (\<lambda>i. pci_resource_len xdma_card i \<noteq> 0) [0..<XDMA_BAR_NUM] = [0, 1]"
    by (simp add: six_bars xdma_card_len)
  from map_bars_identifies [OF m dev0_fresh ids [symmetric]] obtain cfg where
    c: "config_bar_idx card_dev = int cfg"
      "user_bar_idx card_dev = (if length [0 :: nat, 1] \<in> {2, 3} \<and> [0, 1] ! 1 = cfg then int ([0, 1] ! 0) else - 1)"
      "bypass_bar_idx card_dev = (if length [0 :: nat, 1] = 2 \<and> [0, 1] ! 0 = cfg then int ([0, 1] ! 1)
         else if length [0 :: nat, 1] = 3 \<and> [0, 1] ! 1 = cfg then int ([0, 1] ! 2) else - 1)" by blast
  have "cfg = 1" using c(1) by (simp add: card_dev_def)
  with c(2,3) m show ?thesis by auto
qed

end
