(* ===== verification/Device_Account.thy ===== *)
theory Device_Account
  imports Device
begin

section \<open>The account of a device: engines and interrupt lines\<close>

text \<open>
  Creating, probing, destroying and removing engines, and requesting and freeing interrupt
  lines, seen through the accounts of \<open>Ledger\<close>: what the device points to (\<open>own\<close>,
  \<open>own_irq\<close>) and what the trace still holds differ by the same amount before and after every
  operation (\<open>gap\<close>, \<open>irq_gap\<close>). Where the code breaks this (a line freed that was never
  requested, an engine destroyed twice) a theorem shows it.
\<close>

subsection \<open>Engines and interrupt lines in the account\<close>

lemma sum_heap_upd:
  assumes "finite A" "p \<in> A"
  shows "(\<Sum>q\<in>A. f q ((h(p := v)) q)) = (\<Sum>q\<in>A. f q (h q)) - f p (h p) + (f p v :: int)"
proof -
  have "(\<Sum>q\<in>A - {p}. f q ((h(p := v)) q)) = (\<Sum>q\<in>A - {p}. f q (h q))"
    by (rule sum.cong) auto
  then show ?thesis using assms by (simp add: sum.remove)
qed

text \<open>What one engine holds: itself, its write-back word and its interrupt line.\<close>

fun eng_own :: "nat \<times> nat \<Rightarrow> xdma_engine option \<Rightarrow> kobj \<Rightarrow> int" where
  "eng_own p None ob = 0"
| "eng_own p (Some e) ob = of_bool (ob = ObjEngine (fst p) (snd p))
     + of_bool (poll_mode_wb e \<noteq> None \<and> ob = ObjPollWb (poll_mode_bus e))"

fun eng_line :: "xdma_engine option \<Rightarrow> u32 \<Rightarrow> int" where
  "eng_line None v = 0"
| "eng_line (Some e) v = of_bool (msix_irq_line e = v \<and> v \<noteq> 0)"

lemma own_eng_heap_upd:
  assumes "p \<in> set all_channels"
  shows "own (lro\<lparr>eng_heap := (eng_heap lro)(p := v)\<rparr>) ob
    = own lro ob - eng_own p (eng_heap lro p) ob + eng_own p v ob"
proof -
  let ?f = "\<lambda>b (q :: nat \<times> nat) h. of_bool (\<exists>e. h = Some e \<and> poll_mode_wb e \<noteq> None \<and> poll_mode_bus e = b) :: int"
  have s: "(\<Sum>q\<in>set all_channels. ?f b q (((eng_heap lro)(p := v)) q))
      = (\<Sum>q\<in>set all_channels. ?f b q (eng_heap lro q)) - ?f b p (eng_heap lro p) + ?f b p v" for b
    by (rule sum_heap_upd) (use assms in auto)
  show ?thesis
  proof (cases ob)
    case (ObjPollWb b)
    then show ?thesis using s [of b]
      by (cases "eng_heap lro p"; cases v) (auto simp: own_def)
  next
    case (ObjEngine c d)
    then show ?thesis
      by (cases "eng_heap lro p"; cases v; cases p) (auto simp: own_def)
  qed (cases "eng_heap lro p"; cases v; auto simp: own_def)+
qed

text \<open>The lines the device will give back.\<close>

definition own_irq :: "kenv \<Rightarrow> xdma_dev \<Rightarrow> u32 \<Rightarrow> int" where
  "own_irq env lro v = (\<Sum>p\<in>set all_channels. eng_line (eng_heap lro p) v)
     + (if msix_enabled lro then int (count_list (map (msix_vec env) [0..<irq_user_count lro]) v)
        else of_bool (irq_line lro \<noteq> - 1 \<and> of_int (irq_line lro) = v))"

definition irq_gap :: "kenv \<Rightarrow> xdma_dev \<Rightarrow> 'w kworld_scheme \<Rightarrow> u32 \<Rightarrow> int" where
  "irq_gap env lro w = (\<lambda>v. irq_net (trace w) v - own_irq env lro v)"

lemma own_irq_eng_heap_upd:
  assumes "p \<in> set all_channels"
  shows "own_irq env (lro\<lparr>eng_heap := (eng_heap lro)(p := x)\<rparr>) v
    = own_irq env lro v - eng_line (eng_heap lro p) v + eng_line x v"
  using sum_heap_upd [of "set all_channels" p "\<lambda>_ h. eng_line h v" "eng_heap lro" x] assms
  by (simp add: own_irq_def)

lemma own_frames [simp]:
  "own (lro\<lparr>engines_num := n\<rparr>) = own lro" "own (lro\<lparr>eng_ptr := q\<rparr>) = own lro"
  "own (lro\<lparr>irq_line := i\<rparr>) = own lro" "own (lro\<lparr>irq_user_count := n\<rparr>) = own lro"
  "own_irq env (lro\<lparr>engines_num := n\<rparr>) = own_irq env lro" "own_irq env (lro\<lparr>eng_ptr := q\<rparr>) = own_irq env lro"
  "own_irq env (lro\<lparr>dev_bar := b\<rparr>) = own_irq env lro" "own_irq env (lro\<lparr>config_bar_idx := i\<rparr>) = own_irq env lro"
  "own_irq env (lro\<lparr>user_bar_idx := i\<rparr>) = own_irq env lro" "own_irq env (lro\<lparr>bypass_bar_idx := i\<rparr>) = own_irq env lro"
  by (auto simp: own_def own_irq_def fun_eq_iff split: kobj.splits)

text \<open>Register traffic changes no account.\<close>

lemma quiet_io [simp]:
  "obj_net (trace (snd (read_register env a w))) = obj_net (trace w)"
  "irq_net (trace (snd (read_register env a w))) = irq_net (trace w)"
  "obj_net (trace (write_register v a w)) = obj_net (trace w)"
  "irq_net (trace (write_register v a w)) = irq_net (trace w)"
  "obj_net (trace (snd (engine_alignments env e w))) = obj_net (trace w)"
  "irq_net (trace (snd (engine_alignments env e w))) = irq_net (trace w)"
  "obj_net (trace (snd (get_engine_type env a w))) = obj_net (trace w)"
  "irq_net (trace (snd (get_engine_type env a w))) = irq_net (trace w)"
  "obj_net (trace (snd (get_engine_id env a w))) = obj_net (trace w)"
  "irq_net (trace (snd (get_engine_id env a w))) = irq_net (trace w)"
  "obj_net (trace (snd (get_engine_channel_id env a w))) = obj_net (trace w)"
  "irq_net (trace (snd (get_engine_channel_id env a w))) = irq_net (trace w)"
  by (simp_all add: engine_alignments_def get_engine_type_def get_engine_id_def get_engine_channel_id_def
      read_register_def Let_def fun_eq_iff split: prod.splits)

lemma engine_alignments_fields [simp]:
  "poll_mode_wb (fst (engine_alignments env e w)) = poll_mode_wb e"
  "poll_mode_bus (fst (engine_alignments env e w)) = poll_mode_bus e"
  "msix_irq_line (fst (engine_alignments env e w)) = msix_irq_line e"
  "irq_bitmask (fst (engine_alignments env e w)) = irq_bitmask e"
  "rx_transfer_cyclic (fst (engine_alignments env e w)) = rx_transfer_cyclic e"
  "e_magic (fst (engine_alignments env e w)) = e_magic e"
  "channel (fst (engine_alignments env e w)) = channel e"
  "number_in_channel (fst (engine_alignments env e w)) = number_in_channel e"
  by (simp_all add: engine_alignments_def Let_def split: prod.splits)

lemma engine_msix_setup_run:
  assumes "engines_num lro + MAX_USER_IRQ < 32"
  obtains (refused) rc where "rc \<noteq> 0" "engine_msix_setup env lro e w = Some (rc, e, w)"
    | (granted) "engine_msix_setup env lro e w
        = Some (0, e\<lparr>msix_irq_line := msix_vec env (engines_num lro + MAX_USER_IRQ)\<rparr>,
                emit (RequestIrq (msix_vec env (engines_num lro + MAX_USER_IRQ))) w)"
proof -
  let ?v = "msix_vec env (engines_num lro + MAX_USER_IRQ)"
  show ?thesis
  proof (cases "irq_rc env (trace w) ?v = 0")
    case True
    with assms show ?thesis by (intro granted) (simp add: engine_msix_setup_def request_irq_def Let_def)
  next
    case False
    with assms show ?thesis by (intro refused [OF False]) (simp add: engine_msix_setup_def request_irq_def Let_def)
  qed
qed

text \<open>The interrupt line of a new engine, if any.\<close>

definition new_line :: "kenv \<Rightarrow> xdma_dev \<Rightarrow> u32" where
  "new_line env lro = (if msix_enabled lro then msix_vec env (engines_num lro + MAX_USER_IRQ) else 0)"

text \<open>The engine as \<open>engine_create\<close> leaves it before the write-back memory.\<close>

definition bare_engine :: "kenv \<Rightarrow> xdma_dev \<Rightarrow> nat \<Rightarrow> nat \<Rightarrow> xdma_engine \<Rightarrow> bool" where
  "bare_engine env lro ch d e \<longleftrightarrow> e_magic e = MAGIC_ENGINE \<and> channel e = ch \<and> number_in_channel e = d
     \<and> irq_bitmask e = push_bit (engines_num lro) 1 \<and> rx_transfer_cyclic e = None \<and> rx_buffer e = None
     \<and> \<not> locked e \<and> transfer_list e = [] \<and> \<not> running e \<and> dir_to_dev e = (d = 0)
     \<and> msix_irq_line e = new_line env lro"

lemma bare_engine_frame [simp]:
  "bare_engine env lro ch d (e\<lparr>poll_mode_wb := x, poll_mode_bus := y\<rparr>) = bare_engine env lro ch d e"
  "bare_engine env lro ch d (e\<lparr>poll_mode_wb := x\<rparr>) = bare_engine env lro ch d e"
  "bare_engine env lro ch d (fst (engine_alignments env' e w)) = bare_engine env lro ch d e"
  by (simp_all add: bare_engine_def engine_alignments_def Let_def split: prod.splits)

lemma engine_writeback_setup_run:
  obtains (none) "engine_writeback_setup env e w = (- 1, e\<lparr>poll_mode_wb := None\<rparr>, w)"
    | (some) bus w' where "engine_writeback_setup env e w
        = (0, e\<lparr>poll_mode_wb := Some 0, poll_mode_bus := bus\<rparr>, w')"
      "obj_net (trace w') = (\<lambda>ob. obj_net (trace w) ob + of_bool (ob = ObjPollWb bus))"
      "irq_net (trace w') = irq_net (trace w)"
proof (cases "dma_alloc env (trace w) 32")
  case None
  then show ?thesis by (intro none) (simp add: engine_writeback_setup_def)
next
  case (Some bus)
  show ?thesis
    by (rule some [of bus]) (use Some in \<open>auto simp: engine_writeback_setup_def Let_def fun_eq_iff\<close>)
qed

lemma engine_create_run:
  assumes "config_base lro = Some cfg" "engines_num lro + MAX_USER_IRQ < 32" "\<forall>i<32. msix_vec env i \<noteq> 0"
    and "d = (if dir then 0 else 1)"
  obtains (none) n w' where "engine_create env lro off dir ch w = Some (None, lro\<lparr>engines_num := n\<rparr>, w')"
      "n \<in> {engines_num lro, engines_num lro + 1}"
      "obj_net (trace w') = obj_net (trace w)" "irq_net (trace w') = irq_net (trace w)"
    | (some) e w' where "engine_create env lro off dir ch w
        = Some (Some e, lro\<lparr>engines_num := engines_num lro + 1\<rparr>, w')" "bare_engine env lro ch d e"
      "poll_mode_wb e \<noteq> None \<longleftrightarrow> poll_mode env"
      "obj_net (trace w') = (\<lambda>ob. obj_net (trace w) ob + eng_own (ch, d) (Some e) ob)"
      "irq_net (trace w') = (\<lambda>v. irq_net (trace w) v + eng_line (Some e) v)"
proof (cases "mem_ok env (trace w) (ObjEngine ch d)")
  case False
  then show ?thesis using assms(4)
    by (intro none [of "engines_num lro" w]) (auto simp: engine_create_def kalloc_def)
next
  case True
  let ?ob = "ObjEngine ch d" and ?n = "engines_num lro"
  let ?w1 = "emit (Alloc ?ob) w"
  let ?e1 = "engine0\<lparr>channel := ch, number_in_channel := d,
               irq_bitmask := push_bit (?n * XDMA_ENG_IRQ_NUM) (2 ^ XDMA_ENG_IRQ_NUM - 1),
               bypass_offset := of_nat ?n * BYPASS_MODE_SPACING,
               e_regs := cfg + off, e_sgdma_regs := cfg + (off + SGDMA_OFFSET_FROM_CHANNEL), dir_to_dev := dir\<rparr>"
  obtain s w2 where ty: "get_engine_type env (cfg + off) ?w1 = (s, w2)" by fastforce
  define e2 where "e2 = ?e1\<lparr>streaming := s\<rparr>"
  have e2z: "e2\<lparr>msix_irq_line := 0\<rparr> = e2" by (simp add: e2_def engine0_def)
  have n2: "obj_net (trace w2) = (\<lambda>ob. obj_net (trace w) ob + of_bool (ob = ?ob))" "irq_net (trace w2) = irq_net (trace w)"
    using quiet_io(7,8) [of env "cfg + off" ?w1] ty by (auto simp: fun_eq_iff)
  have al: "kalloc env ?ob w = (True, ?w1)" using True by (simp add: kalloc_def)
  let ?ms = "if msix_enabled lro then engine_msix_setup env lro e2 w2 else Some (0, e2, w2)"
  consider (irq_fails) rc where "?ms = Some (rc, e2, w2)" "rc \<noteq> 0"
    | (irq_ok) w3 where "?ms = Some (0, e2\<lparr>msix_irq_line := new_line env lro\<rparr>, w3)"
        "obj_net (trace w3) = obj_net (trace w2)"
        "irq_net (trace w3) = (\<lambda>v. irq_net (trace w) v + of_bool (new_line env lro = v \<and> v \<noteq> 0))"
  proof (cases "msix_enabled lro")
    case True
    from assms(2) show thesis
    proof (cases rule: engine_msix_setup_run [where env = env and e = e2 and w = w2])
      case (refused rc) then show thesis using True irq_fails by simp
    next
      case granted
      show thesis by (rule irq_ok [of "emit (RequestIrq (msix_vec env (engines_num lro + MAX_USER_IRQ))) w2"]) (use True granted n2 assms(2,3) in \<open>auto simp: new_line_def fun_eq_iff\<close>)
    qed
  next
    case False
    show thesis using False n2 e2z by (intro irq_ok [of w2]) (auto simp: new_line_def fun_eq_iff)
  qed
  then show ?thesis
  proof cases
    case irq_fails
    show ?thesis
      by (rule none [of ?n "kfree ?ob w2"])
        (use irq_fails al ty n2 assms(1,4) in \<open>auto simp: engine_create_def e2_def Let_def fun_eq_iff\<close>)
  next
    case (irq_ok w3)
    let ?e3 = "e2\<lparr>msix_irq_line := new_line env lro\<rparr>" and ?l = "lro\<lparr>engines_num := ?n + 1\<rparr>"
    obtain e4 w4 where ea: "engine_alignments env ?e3 (write_register XDMA_CTRL_NON_INCR_ADDR
        (engine_control_w1c (cfg + off)) w3) = (e4, w4)" by fastforce
    have n4: "obj_net (trace w4) = obj_net (trace w2)" "irq_net (trace w4) = irq_net (trace w3)"
      using quiet_io(5,6) [of env ?e3 "write_register XDMA_CTRL_NON_INCR_ADDR (engine_control_w1c (cfg + off)) w3"]
        ea irq_ok(2) by auto
    have e4: "bare_engine env lro ch d e4" "poll_mode_wb e4 = None" "e_regs e4 = cfg + off" "streaming e4 = s"
      using ea assms(4) by (auto simp: bare_engine_def engine_alignments_def e2_def engine0_def Let_def
          XDMA_ENG_IRQ_NUM_def split: prod.splits if_splits)
    note step = engine_create_def al ty irq_ok(1) [unfolded e2_def] ea [unfolded e2_def] assms(1)
      assms(4) [symmetric]
    have own4: "obj_net (trace w4) = (\<lambda>ob. obj_net (trace w) ob + of_bool (ob = ?ob))"
      "irq_net (trace w4) = (\<lambda>v. irq_net (trace w) v + eng_line (Some e4) v)"
      using n4 n2 irq_ok(3) e4(1) by (auto simp: bare_engine_def fun_eq_iff)
    have rx: "rx_transfer_cyclic e4 = None" using e4(1) by (simp add: bare_engine_def)
    show ?thesis
    proof (cases "poll_mode env")
      case False
      show ?thesis
        by (rule some [of e4 "write_register (if s \<and> \<not> dir
              then (error_interrupts OR XDMA_CTRL_IE_DESC_STOPPED OR XDMA_CTRL_IE_DESC_COMPLETED) OR XDMA_CTRL_IE_IDLE_STOPPED
              else error_interrupts OR XDMA_CTRL_IE_DESC_STOPPED OR XDMA_CTRL_IE_DESC_COMPLETED)
            (engine_interrupt_enable_mask (cfg + off)) w4"])
          (use False own4 e4 rx in \<open>simp_all add: step Let_def split del: if_split\<close>)
    next
      case True
      show ?thesis
      proof (cases env e4 w4 rule: engine_writeback_setup_run)
        case none
        show ?thesis
          by (rule that(1) [of "?n + 1" "kfree ?ob (engine_msix_teardown (e4\<lparr>poll_mode_wb := None\<rparr>) w4)"])
            (use True none own4 in \<open>simp_all add: step Let_def split del: if_split\<close>, simp_all add: engine_msix_teardown_def free_irq_def fun_eq_iff)
      next
        case (some bus w5)
        show ?thesis
          by (rule that(2) [of "e4\<lparr>poll_mode_wb := Some 0, poll_mode_bus := bus\<rparr>"
                "write_register error_interrupts (engine_interrupt_enable_mask (cfg + off)) w5"])
            (use True some own4 e4 rx in \<open>simp_all add: step Let_def fun_eq_iff split del: if_split\<close>)
      qed
    qed
  qed
qed

subsection \<open>The engines of a device\<close>

text \<open>Pointers and engines agree, an engine knows its channel, and it has write-back memory exactly
  in poll mode.\<close>

definition engines_live :: "kenv \<Rightarrow> xdma_dev \<Rightarrow> bool" where
  "engines_live env lro \<longleftrightarrow> (\<forall>p. eng_ptr lro p \<longleftrightarrow> eng_heap lro p \<noteq> None)
     \<and> (\<forall>p e. eng_heap lro p = Some e \<longrightarrow> p \<in> set all_channels \<and> e_magic e = MAGIC_ENGINE
          \<and> channel e = fst p \<and> number_in_channel e = snd p \<and> (poll_mode_wb e \<noteq> None \<longleftrightarrow> poll_mode env))"

text \<open>Every engine has an interrupt bit of its own.\<close>

definition irq_bits_ok :: "xdma_dev \<Rightarrow> bool" where
  "irq_bits_ok lro \<longleftrightarrow> (\<exists>k. (\<forall>p e. eng_heap lro p = Some e \<longrightarrow> irq_bitmask e = push_bit (k p) 1 \<and> k p < engines_num lro)
     \<and> inj_on k (dom (eng_heap lro)))"

definition engines_only :: "xdma_dev \<Rightarrow> xdma_dev \<Rightarrow> bool" where
  "engines_only lro lro' \<longleftrightarrow> (\<exists>n q h. lro' = lro\<lparr>engines_num := n, eng_ptr := q, eng_heap := h\<rparr>)"

lemma engines_only_refl [simp]: "engines_only lro lro"
  unfolding engines_only_def
  by (intro exI [of _ "engines_num lro"] exI [of _ "eng_ptr lro"] exI [of _ "eng_heap lro"]) simp

lemma engines_only_trans:
  assumes "engines_only a b" "engines_only b c" shows "engines_only a c"
proof -
  from assms obtain n q h where "c = a\<lparr>engines_num := n, eng_ptr := q, eng_heap := h\<rparr>"
    by (auto simp: engines_only_def)
  then show ?thesis unfolding engines_only_def by blast
qed

lemma engines_only_fields:
  "engines_only lro lro' \<Longrightarrow> config_base lro' = config_base lro"
  "engines_only lro lro' \<Longrightarrow> char_heap lro' = char_heap lro"
  "engines_only lro lro' \<Longrightarrow> char_ptr lro' = char_ptr lro"
  "engines_only lro lro' \<Longrightarrow> msix_enabled lro' = msix_enabled lro"
  by (auto simp: engines_only_def config_base_def bar_at_def)

lemma gap_eng_upd:
  assumes "p \<in> set all_channels"
    and "\<And>ob. obj_net (trace w') ob - obj_net (trace w) ob = eng_own p v ob - eng_own p (eng_heap lro p) ob"
  shows "gap (lro\<lparr>engines_num := n, eng_ptr := q, eng_heap := (eng_heap lro)(p := v)\<rparr>) w' = gap lro w"
proof
  fix ob
  show "gap (lro\<lparr>engines_num := n, eng_ptr := q, eng_heap := (eng_heap lro)(p := v)\<rparr>) w' ob = gap lro w ob"
    using own_eng_heap_upd [OF assms(1), of "lro\<lparr>engines_num := n, eng_ptr := q\<rparr>" v ob] assms(2) [of ob]
    by (simp add: gap_def)
qed

lemma irq_gap_eng_upd:
  assumes "p \<in> set all_channels"
    and "\<And>v. irq_net (trace w') v - irq_net (trace w) v = eng_line x v - eng_line (eng_heap lro p) v"
  shows "irq_gap env (lro\<lparr>engines_num := n, eng_ptr := q, eng_heap := (eng_heap lro)(p := x)\<rparr>) w' = irq_gap env lro w"
proof
  fix v
  show "irq_gap env (lro\<lparr>engines_num := n, eng_ptr := q, eng_heap := (eng_heap lro)(p := x)\<rparr>) w' v = irq_gap env lro w v"
    using own_irq_eng_heap_upd [OF assms(1), of env "lro\<lparr>engines_num := n, eng_ptr := q\<rparr>" x v] assms(2) [of v]
    by (simp add: irq_gap_def)
qed

lemma own_num [simp]: "gap (lro\<lparr>engines_num := n\<rparr>) w = gap lro w" "irq_gap env (lro\<lparr>engines_num := n\<rparr>) w = irq_gap env lro w"
  by (simp_all add: gap_def irq_gap_def)

lemma mem_all_channels: "(ch, d) \<in> set all_channels \<longleftrightarrow> ch < XDMA_CHANNEL_NUM_MAX \<and> d < 2"
  by (auto simp: all_channels_def less_2_cases_iff)

lemma irq_bits_ok_new:
  assumes "irq_bits_ok lro" "irq_bitmask e = push_bit (engines_num lro) 1" "eng_heap lro p = None"
  shows "irq_bits_ok (lro\<lparr>engines_num := engines_num lro + 1, eng_ptr := q, eng_heap := (eng_heap lro)(p \<mapsto> e)\<rparr>)"
proof -
  from assms(1) obtain k where k: "\<And>p e. eng_heap lro p = Some e \<Longrightarrow> irq_bitmask e = push_bit (k p) 1 \<and> k p < engines_num lro"
    "inj_on k (dom (eng_heap lro))" unfolding irq_bits_ok_def by blast
  have "inj_on (k(p := engines_num lro)) (dom ((eng_heap lro)(p \<mapsto> e)))"
    using k by (fastforce simp: inj_on_def dom_def)
  moreover have "((eng_heap lro)(p \<mapsto> e)) q = Some f \<Longrightarrow> irq_bitmask f = push_bit ((k(p := engines_num lro)) q) 1
      \<and> (k(p := engines_num lro)) q < engines_num lro + 1" for q f
    using k(1) [of q f] assms(2) by (cases "q = p") auto
  ultimately show ?thesis unfolding irq_bits_ok_def
    by (intro exI [of _ "k(p := engines_num lro)"]) simp
qed

lemma irq_bits_ok_num: "irq_bits_ok lro \<Longrightarrow> engines_num lro \<le> n \<Longrightarrow> irq_bits_ok (lro\<lparr>engines_num := n\<rparr>)"
  unfolding irq_bits_ok_def by (fastforce intro: less_le_trans)

text \<open>What one probe does to the engines and the accounts.\<close>

definition probes :: "kenv \<Rightarrow> nat \<Rightarrow> xdma_dev \<Rightarrow> 'w kworld_scheme \<Rightarrow> xdma_dev \<Rightarrow> 'w kworld_scheme \<Rightarrow> bool" where
  "probes env n lro w lro' w' \<longleftrightarrow> engines_only lro lro' \<and> gap lro' w' = gap lro w \<and> irq_gap env lro' w' = irq_gap env lro w
     \<and> (engines_live env lro \<longrightarrow> engines_live env lro') \<and> (irq_bits_ok lro \<longrightarrow> irq_bits_ok lro')
     \<and> engines_num lro' \<le> engines_num lro + n"

lemma probes_trans: "probes env m a w b v \<Longrightarrow> probes env n b v c u \<Longrightarrow> probes env (m + n) a w c u"
  unfolding probes_def by (auto intro: engines_only_trans)

lemma probe_for_engine_run:
  assumes "config_base lro = Some cfg" "engines_num lro + MAX_USER_IRQ < 32" "\<forall>i<32. msix_vec env i \<noteq> 0"
    and "ch < XDMA_CHANNEL_NUM_MAX" "d = (if dir then 0 else 1)" "eng_heap lro (ch, d) = None" "engines_live env lro"
  shows "\<exists>rc lro' w'. probe_for_engine env lro dir ch w = Some (rc, lro', w') \<and> rc \<in> {0, - 1}
    \<and> probes env 1 lro w lro' w' \<and> (\<forall>p. p \<noteq> (ch, d) \<longrightarrow> eng_heap lro' p = eng_heap lro p)"
proof -
  let ?off = "of_nat (if dir then 0 else 1 :: nat) * H2C_CHANNEL_OFFSET + of_nat ch * CHANNEL_SPACING"
  obtain id w1 where r1: "get_engine_id env (cfg + ?off) w = (id, w1)" by fastforce
  obtain cid w2 where r2: "get_engine_channel_id env (cfg + ?off) w1 = (cid, w2)" by fastforce
  have net: "obj_net (trace w2) = obj_net (trace w)" "irq_net (trace w2) = irq_net (trace w)"
    using quiet_io(9,10) [of env "cfg + ?off" w] quiet_io(11,12) [of env "cfg + ?off" w1] r1 r2 by simp_all
  have gaps: "gap lro w2 = gap lro w" "irq_gap env lro w2 = irq_gap env lro w"
    using net by (simp_all add: gap_def irq_gap_def)
  note unf = probe_for_engine_def Let_def assms(1) r1 r2
  show ?thesis
  proof (cases "id \<noteq> (if dir then XDMA_ID_H2C else XDMA_ID_C2H) \<or> cid \<noteq> of_nat ch")
    case True
    then have "probe_for_engine env lro dir ch w = Some (0, lro, w2)" by (auto simp: unf)
    then show ?thesis using gaps by (auto simp: probes_def)
  next
    case False
    have p: "(ch, d) \<in> set all_channels" using assms(4,5) by (simp add: mem_all_channels)
    have noptr: "eng_ptr lro (ch, d) = False" using assms(6,7) by (simp add: engines_live_def)
    from assms(1-3,5) show ?thesis
    proof (cases rule: engine_create_run [where off = ?off and w = w2 and ch = ch])
      case (none n w')
      have "probe_for_engine env lro dir ch w
          = Some (- 1, lro\<lparr>engines_num := n, eng_ptr := (eng_ptr lro)((ch, d) := False)\<rparr>, w')"
        using False none(1) assms(5) by (simp add: unf)
      moreover have "(eng_ptr lro)((ch, d) := False) = eng_ptr lro" using noptr by (simp add: fun_upd_idem)
      moreover have "probes env 1 lro w (lro\<lparr>engines_num := n\<rparr>) w'"
      proof -
        have "gap lro w' = gap lro w" "irq_gap env lro w' = irq_gap env lro w"
          using none(3,4) net by (simp_all add: gap_def irq_gap_def)
        moreover have "irq_bits_ok lro \<Longrightarrow> irq_bits_ok (lro\<lparr>engines_num := n\<rparr>)" "n \<le> engines_num lro + 1"
          using none(2) irq_bits_ok_num [of lro n] by auto
        moreover have "engines_only lro (lro\<lparr>engines_num := n\<rparr>)"
          unfolding engines_only_def
          by (intro exI [of _ n] exI [of _ "eng_ptr lro"] exI [of _ "eng_heap lro"]) simp
        ultimately show ?thesis by (simp add: probes_def engines_live_def)
      qed
      ultimately show ?thesis by simp
    next
      case (some e w')
      let ?l = "lro\<lparr>engines_num := engines_num lro + 1, eng_ptr := (eng_ptr lro)((ch, d) := True),
                  eng_heap := (eng_heap lro)((ch, d) \<mapsto> e)\<rparr>"
      have "probe_for_engine env lro dir ch w = Some (0, ?l, w')"
        using False some(1) assms(5) by (simp add: unf)
      moreover have "probes env 1 lro w ?l w'"
      proof -
        have "gap ?l w' = gap lro w" by (rule gap_eng_upd [OF p]) (simp add: some(4) net assms(6))
        moreover have "irq_gap env ?l w' = irq_gap env lro w"
          by (rule irq_gap_eng_upd [OF p]) (simp add: some(5) net assms(6))
        moreover have "engines_live env ?l"
          using assms(7) some(2,3) p by (auto simp: engines_live_def bare_engine_def)
        moreover have "irq_bits_ok lro \<Longrightarrow> irq_bits_ok ?l"
          using irq_bits_ok_new [of lro e "(ch, d)"] some(2) assms(6) by (simp add: bare_engine_def)
        moreover have "engines_only lro ?l" unfolding engines_only_def by blast
        ultimately show ?thesis by (simp add: probes_def)
      qed
      ultimately show ?thesis by auto
    qed
  qed
qed

lemma probe_engines_loop_run:
  assumes "config_base lro = Some cfg" "engines_num lro + length chs + MAX_USER_IRQ \<le> 32" "\<forall>i<32. msix_vec env i \<noteq> 0"
    and "set chs \<subseteq> {..<XDMA_CHANNEL_NUM_MAX}" "distinct chs" "d = (if dir then 0 else 1)"
    and "\<forall>ch\<in>set chs. eng_heap lro (ch, d) = None" "engines_live env lro"
  shows "\<exists>rc lro' w'. probe_engines_loop env dir chs lro w = Some (rc, lro', w') \<and> rc \<in> {0, - 1}
    \<and> probes env (length chs) lro w lro' w' \<and> (\<forall>p. snd p \<noteq> d \<longrightarrow> eng_heap lro' p = eng_heap lro p)"
  using assms
proof (induction chs arbitrary: lro w)
  case Nil
  then show ?case by (simp add: probes_def)
next
  case (Cons ch chs)
  have h: "engines_num lro + MAX_USER_IRQ < 32" "ch < XDMA_CHANNEL_NUM_MAX" "eng_heap lro (ch, d) = None"
    "ch \<notin> set chs" "distinct chs" "set chs \<subseteq> {..<XDMA_CHANNEL_NUM_MAX}"
    using Cons.prems by auto
  from probe_for_engine_run [OF Cons.prems(1) h(1) Cons.prems(3) h(2) Cons.prems(6) h(3) Cons.prems(8), of w]
  obtain rc lro1 w1 where p: "probe_for_engine env lro dir ch w = Some (rc, lro1, w1)" "rc \<in> {0, - 1}"
    "probes env 1 lro w lro1 w1" "\<forall>p. p \<noteq> (ch, d) \<longrightarrow> eng_heap lro1 p = eng_heap lro p" by blast
  have f: "config_base lro1 = Some cfg" "engines_num lro1 \<le> engines_num lro + 1" "engines_live env lro1"
    using p(3) Cons.prems(1,8) engines_only_fields(1) [of lro lro1] by (auto simp: probes_def)
  show ?case
  proof (cases "rc = 0")
    case False
    have "probes env (length (ch # chs)) lro w lro1 w1" using p(3) by (auto simp: probes_def)
    with False p show ?thesis by auto
  next
    case True
    have n: "engines_num lro1 + length chs + MAX_USER_IRQ \<le> 32" using f(2) Cons.prems(2) by simp
    have e: "\<forall>c\<in>set chs. eng_heap lro1 (c, d) = None"
    proof
      fix c assume c: "c \<in> set chs"
      with h(4) have "(c, d) \<noteq> (ch, d)" by auto
      with p(4) have "eng_heap lro1 (c, d) = eng_heap lro (c, d)" by blast
      with Cons.prems(7) c show "eng_heap lro1 (c, d) = None" by simp
    qed
    from Cons.IH [OF f(1) n Cons.prems(3) h(6,5) Cons.prems(6) e f(3), of w1]
    obtain rc' lro' w' where r: "probe_engines_loop env dir chs lro1 w1 = Some (rc', lro', w')" "rc' \<in> {0, - 1}"
      "probes env (length chs) lro1 w1 lro' w'" "\<forall>p. snd p \<noteq> d \<longrightarrow> eng_heap lro' p = eng_heap lro1 p"
      by blast
    have "probes env (length (ch # chs)) lro w lro' w'" using probes_trans [OF p(3) r(3)] by simp
    moreover have "\<forall>p. snd p \<noteq> d \<longrightarrow> eng_heap lro' p = eng_heap lro p" using r(4) p(4) by auto
    ultimately show ?thesis using True p(1) r(1,2) by auto
  qed
qed

subsection \<open>Removing engines\<close>

lemma engine_destroy_run:
  assumes "eng_heap lro p = Some e" "p \<in> set all_channels" "poll_mode_wb e \<noteq> None \<longleftrightarrow> poll_mode env"
  shows "\<exists>w'. engine_destroy env p lro w
      = Some (lro\<lparr>eng_heap := (eng_heap lro)(p := None), engines_num := engines_num lro - 1\<rparr>, w')
    \<and> gap (lro\<lparr>eng_heap := (eng_heap lro)(p := None), engines_num := engines_num lro - 1\<rparr>) w' = gap lro w
    \<and> irq_gap env (lro\<lparr>eng_heap := (eng_heap lro)(p := None), engines_num := engines_num lro - 1\<rparr>) w' = irq_gap env lro w"
proof -
  let ?l = "lro\<lparr>engines_num := engines_num lro - 1, eng_ptr := eng_ptr lro, eng_heap := (eng_heap lro)(p := None)\<rparr>"
  let ?w1 = "write_register 0 (engine_interrupt_enable_mask (e_regs e)) w"
  let ?w2 = "engine_msix_teardown e ?w1"
  let ?w3 = "if poll_mode env then engine_writeback_teardown e ?w2 else ?w2"
  let ?w4 = "kfree (ObjEngine (fst p) (snd p)) ?w3"
  have l: "?l = lro\<lparr>eng_heap := (eng_heap lro)(p := None), engines_num := engines_num lro - 1\<rparr>" by (cases lro) simp
  have "engine_destroy env p lro w = Some (?l, ?w4)" using assms(1) unfolding l by (simp add: engine_destroy_def)
  moreover have "gap ?l ?w4 = gap lro w"
    by (rule gap_eng_upd [OF assms(2)])
      (use assms(1,3) in \<open>auto simp: engine_msix_teardown_def engine_writeback_teardown_def free_irq_def kfree_def\<close>)
  moreover have "irq_gap env ?l ?w4 = irq_gap env lro w"
    by (rule irq_gap_eng_upd [OF assms(2)])
      (use assms(1,3) in \<open>auto simp: engine_msix_teardown_def engine_writeback_teardown_def free_irq_def kfree_def\<close>)
  ultimately show ?thesis unfolding l by blast
qed

lemma remove_engines_loop_run:
  assumes "\<forall>p\<in>set ps. eng_ptr lro p \<longleftrightarrow> eng_heap lro p \<noteq> None" "distinct ps" "set ps \<subseteq> set all_channels"
    and "\<forall>p e. eng_heap lro p = Some e \<longrightarrow> (poll_mode_wb e \<noteq> None \<longleftrightarrow> poll_mode env)"
  shows "\<exists>n w'. remove_engines_loop env ps lro w
      = Some (lro\<lparr>engines_num := n, eng_heap := (\<lambda>p. if p \<in> set ps then None else eng_heap lro p)\<rparr>, w')
    \<and> gap (lro\<lparr>engines_num := n, eng_heap := (\<lambda>p. if p \<in> set ps then None else eng_heap lro p)\<rparr>) w' = gap lro w
    \<and> irq_gap env (lro\<lparr>engines_num := n, eng_heap := (\<lambda>p. if p \<in> set ps then None else eng_heap lro p)\<rparr>) w' = irq_gap env lro w"
  using assms
proof (induction ps arbitrary: lro w)
  case Nil
  then show ?case by (intro exI [of _ "engines_num lro"] exI [of _ w]) (cases lro, simp)
next
  case (Cons p ps)
  show ?case
  proof (cases "eng_heap lro p")
    case None
    have h: "(\<lambda>q. if q \<in> set ps then None else eng_heap lro q) = (\<lambda>q. if q \<in> set (p # ps) then None else eng_heap lro q)"
      using None by auto
    have "\<not> eng_ptr lro p" using None Cons.prems(1) by simp
    with Cons.IH [of lro w] Cons.prems show ?thesis unfolding h by simp
  next
    case (Some e)
    let ?l = "lro\<lparr>eng_heap := (eng_heap lro)(p := None), engines_num := engines_num lro - 1\<rparr>"
    have "p \<in> set all_channels" "eng_ptr lro p" using Cons.prems(1,3) Some by simp_all
    moreover have "poll_mode_wb e \<noteq> None \<longleftrightarrow> poll_mode env" using Cons.prems(4) Some by blast
    ultimately have pe: "p \<in> set all_channels" "poll_mode_wb e \<noteq> None \<longleftrightarrow> poll_mode env" "eng_ptr lro p"
      by simp_all
    from engine_destroy_run [OF Some pe(1,2), of w] obtain w1 where
      d: "engine_destroy env p lro w = Some (?l, w1)" "gap ?l w1 = gap lro w" "irq_gap env ?l w1 = irq_gap env lro w"
      by blast
    have h: "(\<lambda>q. if q \<in> set ps then None else eng_heap ?l q) = (\<lambda>q. if q \<in> set (p # ps) then None else eng_heap lro q)"
      by auto
    have l: "?l\<lparr>engines_num := n, eng_heap := x\<rparr> = lro\<lparr>engines_num := n, eng_heap := x\<rparr>" for n x by simp
    have "\<forall>q\<in>set ps. eng_ptr ?l q \<longleftrightarrow> eng_heap ?l q \<noteq> None" using Cons.prems(1,2) by auto
    moreover have "\<forall>q f. eng_heap ?l q = Some f \<longrightarrow> (poll_mode_wb f \<noteq> None \<longleftrightarrow> poll_mode env)"
      using Cons.prems(4) by auto
    ultimately have "\<exists>n w'. remove_engines_loop env ps ?l w1
        = Some (?l\<lparr>engines_num := n, eng_heap := (\<lambda>q. if q \<in> set ps then None else eng_heap ?l q)\<rparr>, w')
      \<and> gap (?l\<lparr>engines_num := n, eng_heap := (\<lambda>q. if q \<in> set ps then None else eng_heap ?l q)\<rparr>) w' = gap ?l w1
      \<and> irq_gap env (?l\<lparr>engines_num := n, eng_heap := (\<lambda>q. if q \<in> set ps then None else eng_heap ?l q)\<rparr>) w'
         = irq_gap env ?l w1"
      using Cons.prems by (intro Cons.IH) auto
    with d pe(3) show ?thesis unfolding h l by simp
  qed
qed

lemma remove_engines_run:
  assumes "engines_live env lro"
  shows "\<exists>n w'. remove_engines env lro w = Some (lro\<lparr>engines_num := n, eng_heap := Map.empty\<rparr>, w')
    \<and> gap (lro\<lparr>engines_num := n, eng_heap := Map.empty\<rparr>) w' = gap lro w
    \<and> irq_gap env (lro\<lparr>engines_num := n, eng_heap := Map.empty\<rparr>) w' = irq_gap env lro w"
proof -
  have d: "distinct all_channels" by (simp add: all_channels_def XDMA_CHANNEL_NUM_MAX_def upt_rec)
  have e: "(\<lambda>p. if p \<in> set all_channels then None else eng_heap lro p) = Map.empty"
    using assms by (fastforce simp: engines_live_def)
  have "\<forall>p\<in>set all_channels. eng_ptr lro p \<longleftrightarrow> eng_heap lro p \<noteq> None"
    "\<forall>p e. eng_heap lro p = Some e \<longrightarrow> (poll_mode_wb e \<noteq> None \<longleftrightarrow> poll_mode env)"
    using assms unfolding engines_live_def by blast+
  from remove_engines_loop_run [OF this(1) d subset_refl this(2), of w] show ?thesis
    unfolding e remove_engines_def .
qed

lemma remove_engines_loop_dangling:
  assumes "p \<in> set ps" "eng_ptr lro p" "eng_heap lro = Map.empty"
  shows "remove_engines_loop env ps lro w = None"
  using assms
proof (induction ps)
  case (Cons q ps)
  then show ?case by (cases "eng_ptr lro q") (auto simp: engine_destroy_def)
qed simp

lemma probe_engines_run:
  assumes "config_base lro = Some cfg" "engines_num lro = 0" "eng_heap lro = Map.empty" "\<forall>p. \<not> eng_ptr lro p"
    and "\<forall>i<32. msix_vec env i \<noteq> 0"
  shows "\<exists>rc lro' w'. probe_engines env lro w = Some (rc, lro', w') \<and> gap lro' w' = gap lro w
    \<and> irq_gap env lro' w' = irq_gap env lro w \<and> engines_only lro lro'
    \<and> (rc = 0 \<and> engines_live env lro' \<and> irq_bits_ok lro'
       \<or> rc = - 1 \<and> eng_heap lro' = Map.empty)"
proof -
  let ?chs = "[0..<XDMA_CHANNEL_NUM_MAX]"
  have chs: "set ?chs \<subseteq> {..<XDMA_CHANNEL_NUM_MAX}" "distinct ?chs" by auto
  have n: "engines_num lro + length ?chs + MAX_USER_IRQ \<le> 32"
    using assms(2) by (simp add: XDMA_CHANNEL_NUM_MAX_def MAX_USER_IRQ_def)
  have live: "engines_live env lro" "irq_bits_ok lro" using assms(3,4) by (auto simp: engines_live_def irq_bits_ok_def)
  have none: "\<forall>ch\<in>set ?chs. eng_heap lro (ch, 0) = None" "\<forall>ch\<in>set ?chs. eng_heap lro (ch, 1) = None"
    using assms(3) by simp_all
  from probe_engines_loop_run [OF assms(1) n assms(5) chs, of 0 True, OF _ none(1) live(1), of w]
  obtain rc lro1 w1 where h: "probe_engines_loop env True ?chs lro w = Some (rc, lro1, w1)" "rc \<in> {0, - 1}"
    "probes env (length ?chs) lro w lro1 w1" "\<forall>p. snd p \<noteq> 0 \<longrightarrow> eng_heap lro1 p = eng_heap lro p" by auto
  have h3: "engines_only lro lro1" "gap lro1 w1 = gap lro w" "irq_gap env lro1 w1 = irq_gap env lro w"
    "engines_live env lro1" "irq_bits_ok lro1" "engines_num lro1 \<le> XDMA_CHANNEL_NUM_MAX"
    using h(3) live assms(2) by (auto simp: probes_def)
  show ?thesis
  proof (cases "rc = 0")
    case False
    from remove_engines_run [OF h3(4), of w1] obtain k w2 where
      "remove_engines env lro1 w1 = Some (lro1\<lparr>engines_num := k, eng_heap := Map.empty\<rparr>, w2)"
      "gap (lro1\<lparr>engines_num := k, eng_heap := Map.empty\<rparr>) w2 = gap lro1 w1"
      "irq_gap env (lro1\<lparr>engines_num := k, eng_heap := Map.empty\<rparr>) w2 = irq_gap env lro1 w1" by blast
    moreover have "engines_only lro1 (lro1\<lparr>engines_num := k, eng_heap := Map.empty\<rparr>)"
      unfolding engines_only_def by (intro exI [of _ k] exI [of _ "eng_ptr lro1"] exI [of _ Map.empty]) simp
    ultimately show ?thesis using False h(1) h3 engines_only_trans [OF h3(1)] by (simp add: probe_engines_def)
  next
    case True
    have c1: "config_base lro1 = Some cfg" using assms(1) engines_only_fields(1) [OF h3(1)] by simp
    have n1: "engines_num lro1 + length ?chs + MAX_USER_IRQ \<le> 32"
      using h3(6) by (simp add: XDMA_CHANNEL_NUM_MAX_def MAX_USER_IRQ_def)
    have none1: "\<forall>ch\<in>set ?chs. eng_heap lro1 (ch, 1) = None" using h(4) none(2) by simp
    from probe_engines_loop_run [OF c1 n1 assms(5) chs, of 1 False, OF _ none1 h3(4), of w1]
    obtain rc' lro2 w2 where h': "probe_engines_loop env False ?chs lro1 w1 = Some (rc', lro2, w2)"
      "probes env (length ?chs) lro1 w1 lro2 w2" by auto
    then show ?thesis using True h(1) h3 engines_only_trans [OF h3(1)] by (auto simp: probe_engines_def probes_def)
  qed
qed

subsection \<open>Interrupt lines\<close>

lemma request_loop_acquires:
  "request_loop env js w = (rc, got, w') \<Longrightarrow>
     acquire_all (take_irq env) (map (msix_vec env) js) w = (rc = 0, map (msix_vec env) got, w')"
  by (induction js arbitrary: w got) (auto simp: take_irq_def Let_def split: prod.splits if_splits)

lemma free_loop_releases: "free_loop env js w = fold free_irq (map (msix_vec env) js) w"
  by (induction js arbitrary: w) simp_all

lemma request_loop_quiet: "request_loop env js w = (rc, got, w') \<Longrightarrow> obj_net (trace w') = obj_net (trace w)"
  by (induction js arbitrary: w got)
    (force simp: request_irq_def Let_def split: prod.splits if_splits)+

lemma free_loop_quiet: "obj_net (trace (free_loop env js w)) = obj_net (trace w)"
  by (induction js arbitrary: w) (simp_all add: free_irq_def)

lemma write_msix_quiet [simp]:
  "irq_net (trace (write_msix_vectors cfg w)) = irq_net (trace w)"
  "obj_net (trace (write_msix_vectors cfg w)) = obj_net (trace w)"
  by (simp_all add: write_msix_vectors_def Let_def)

lemma msix_irq_setup_run:
  assumes "config_base lro = Some cfg"
  shows "\<exists>rc lro' w'. msix_irq_setup env lro w = Some (rc, lro', w') \<and> obj_net (trace w') = obj_net (trace w)
    \<and> (rc = 0 \<and> lro' = lro\<lparr>irq_user_count := MAX_USER_IRQ\<rparr>
         \<and> irq_net (trace w') = (\<lambda>v. irq_net (trace w) v + int (count_list (map (msix_vec env) [0..<MAX_USER_IRQ]) v))
       \<or> rc = - 1 \<and> lro' = lro \<and> irq_net (trace w') = irq_net (trace w))"
proof -
  let ?w0 = "write_msix_vectors cfg w" and ?js = "[0..<MAX_USER_IRQ]"
  obtain rc got w1 where r: "request_loop env ?js ?w0 = (rc, got, w1)" by (cases "request_loop env ?js ?w0") auto
  note acq = request_loop_acquires [OF r]
  show ?thesis
  proof (cases "rc = 0")
    case True
    have "irq_net (trace w1) = (\<lambda>v. irq_net (trace w) v + int (count_list (map (msix_vec env) ?js) v))"
      using irqs.acquire_all_net [OF acq] irqs.acquire_all_ok [of env "map (msix_vec env) ?js" ?w0 _ w1] acq True by simp
    then show ?thesis using True r assms request_loop_quiet [OF r] by (simp add: msix_irq_setup_def)
  next
    case False
    have "irq_net (trace (free_loop env (rev got) w1)) = irq_net (trace w)"
      using irqs.unwind [OF acq] by (simp add: free_loop_releases rev_map)
    then show ?thesis using False r assms request_loop_quiet [OF r] free_loop_quiet [of env "rev got" w1]
      by (simp add: msix_irq_setup_def)
  qed
qed

lemma legacy_vectors_quiet [simp]:
  "irq_net (trace (legacy_vectors cfg v w)) = irq_net (trace w)"
  "obj_net (trace (legacy_vectors cfg v w)) = obj_net (trace w)"
  by (simp_all add: legacy_vectors_def Let_def)

lemma svc_call_quiet [simp]:
  "irq_net (trace (snd (svc_call env c w))) = irq_net (trace w)"
  "obj_net (trace (snd (svc_call env c w))) = obj_net (trace w)"
  by (simp_all add: svc_call_def Let_def)

lemma irq_setup_line_run:
  assumes "config_base lro = Some cfg" "\<not> msix_enabled lro"
  shows "\<exists>w'. irq_setup env lro w
      = Some (irq_rc env (trace w') (pci_irq env), lro\<lparr>irq_line := sint (pci_irq env)\<rparr>,
              if irq_rc env (trace w') (pci_irq env) = 0 then emit (RequestIrq (pci_irq env)) w' else w')
    \<and> obj_net (trace w') = obj_net (trace w) \<and> irq_net (trace w') = irq_net (trace w)"
proof (cases "msi_enabled lro")
  case True
  then show ?thesis using assms
    by (intro exI [of _ w]) (simp add: irq_setup_def request_irq_def Let_def)
next
  case False
  let ?v = "of_int (fst (svc_call env SvcReadConfigByte w)) :: u8" and ?w1 = "snd (svc_call env SvcReadConfigByte w)"
  let ?w2 = "if ?v > 1 then legacy_vectors cfg ?v ?w1 else ?w1"
  have "irq_setup env lro w
      = Some (irq_rc env (trace ?w2) (pci_irq env), lro\<lparr>irq_line := sint (pci_irq env)\<rparr>,
              if irq_rc env (trace ?w2) (pci_irq env) = 0 then emit (RequestIrq (pci_irq env)) ?w2 else ?w2)"
    using assms False by (simp add: irq_setup_def request_irq_def Let_def split: prod.splits)
  then show ?thesis by (intro exI [of _ ?w2]) simp
qed

subsection \<open>Properties\<close>

lemma card_vectors: "\<forall>i<32. msix_vec xdma_card i \<noteq> 0"
proof (intro allI impI)
  fix i :: nat assume "i < 32"
  then have "unat (of_nat (32 + i) :: u32) = 32 + i" by (intro unat_of_nat_small) simp
  then have "(of_nat (32 + i) :: u32) \<noteq> 0" by force
  then show "msix_vec xdma_card i \<noteq> 0" by (simp add: xdma_card_def env0_def)
qed

definition engine_dev :: xdma_dev where
  "engine_dev = card_dev\<lparr>eng_ptr := (\<lambda>p. p = (0, 0)), eng_heap := [(0, 0) \<mapsto> engine0], engines_num := 1\<rparr>"

text \<open>C25: looking for engines is all or nothing as far as the account goes: when it succeeds the device
  holds exactly its engines, their write-back words and interrupt lines, and every engine has an
  interrupt bit of its own; when it fails no engine is left and everything is given back.\<close>

theorem probe_engines_accounts:
  assumes "config_base lro = Some cfg" "engines_num lro = 0" "eng_heap lro = Map.empty" "\<forall>p. \<not> eng_ptr lro p"
    and "\<forall>i<32. msix_vec env i \<noteq> 0"
  shows "\<exists>rc lro' w'. probe_engines env lro w = Some (rc, lro', w') \<and> gap lro' w' = gap lro w
    \<and> irq_gap env lro' w' = irq_gap env lro w
    \<and> (rc = 0 \<and> engines_live env lro'
         \<and> (\<forall>p q e f. eng_heap lro' p = Some e \<longrightarrow> eng_heap lro' q = Some f \<longrightarrow> p \<noteq> q
              \<longrightarrow> irq_bitmask e AND irq_bitmask f = 0)
       \<or> rc = - 1 \<and> eng_heap lro' = Map.empty)"
proof -
  have "irq_bitmask e AND irq_bitmask f = 0"
    if ok: "irq_bits_ok l" and h: "eng_heap l p = Some e" "eng_heap l q = Some f" "p \<noteq> q" for l p q e f
  proof -
    from ok obtain k where "irq_bitmask e = push_bit (k p) 1" "irq_bitmask f = push_bit (k q) 1" "k p \<noteq> k q"
      using h unfolding irq_bits_ok_def inj_on_def by (metis domI)
    then show ?thesis by (intro bit_word_eqI) (auto simp: bit_simps)
  qed
  then show ?thesis using probe_engines_run [OF assms, of w] by blast
qed

lemma probe_engines_accounts_witness:
  "\<exists>rc lro' w'. probe_engines xdma_card (card_dev\<lparr>msix_enabled := True\<rparr>) world1 = Some (rc, lro', w')
    \<and> gap lro' w' = gap card_dev world1"
proof -
  let ?d = "card_dev\<lparr>msix_enabled := True\<rparr>"
  have h: "config_base ?d = Some 0x2000000" "engines_num ?d = 0" "eng_heap ?d = Map.empty" "\<forall>p. \<not> eng_ptr ?d p"
    using card_cfg_msix by (simp_all add: card_dev_def dev0_def)
  have g: "gap ?d world1 = gap card_dev world1" by (simp add: gap_def own_def fun_eq_iff split: kobj.splits)
  from probe_engines_accounts [OF h card_vectors, of world1] show ?thesis unfolding g by blast
qed

text \<open>\<open>remove_engines\<close> gives everything back but leaves the pointers: a second call, as on the
  failure path of \<open>probe\<close> after a failed \<open>probe_engines\<close>, uses a freed engine.\<close>

theorem remove_engines_twice:
  assumes "engines_live env lro" "eng_ptr lro p"
  shows "\<exists>lro' w'. remove_engines env lro w = Some (lro', w') \<and> eng_heap lro' = Map.empty
    \<and> gap lro' w' = gap lro w \<and> irq_gap env lro' w' = irq_gap env lro w
    \<and> (\<forall>env'. remove_engines env' lro' w' = None)"
proof -
  from remove_engines_run [OF assms(1), of w] obtain n w' where
    r: "remove_engines env lro w = Some (lro\<lparr>engines_num := n, eng_heap := Map.empty\<rparr>, w')"
      "gap (lro\<lparr>engines_num := n, eng_heap := Map.empty\<rparr>) w' = gap lro w"
      "irq_gap env (lro\<lparr>engines_num := n, eng_heap := Map.empty\<rparr>) w' = irq_gap env lro w" by blast
  have "p \<in> set all_channels" using assms unfolding engines_live_def by blast
  then have "remove_engines env' (lro\<lparr>engines_num := n, eng_heap := Map.empty\<rparr>) w' = None" for env'
    using assms(2) by (auto simp: remove_engines_def intro!: remove_engines_loop_dangling)
  with r show ?thesis by auto
qed

lemma remove_engines_twice_witness:
  "\<exists>lro' w'. remove_engines env0 engine_dev world1 = Some (lro', w') \<and> remove_engines env0 lro' w' = None"
proof -
  have h: "engines_live env0 engine_dev" "eng_ptr engine_dev (0, 0)"
    by (auto simp: engines_live_def engine_dev_def mem_all_channels XDMA_CHANNEL_NUM_MAX_def engine0_def env0_def)
  show ?thesis using remove_engines_twice [OF h, of world1] by blast
qed

text \<open>requesting the sixteen user interrupt lines of MSI-X is all or nothing, and
  \<open>irq_teardown\<close> gives back exactly what a successful set-up took.\<close>

theorem msix_irq_setup_all_or_nothing:
  assumes "config_base lro = Some cfg" "msix_enabled lro"
  shows "\<exists>rc lro' w'. irq_setup env lro w = Some (rc, lro', w')
    \<and> (rc = 0 \<and> irq_user_count lro' = MAX_USER_IRQ
         \<and> irq_net (trace w') = (\<lambda>v. irq_net (trace w) v + int (count_list (map (msix_vec env) [0..<MAX_USER_IRQ]) v))
         \<and> irq_net (trace (irq_teardown env lro' w')) = irq_net (trace w)
       \<or> rc = - 1 \<and> lro' = lro \<and> irq_net (trace w') = irq_net (trace w))"
proof -
  from msix_irq_setup_run [OF assms(1), of env w] obtain rc lro' w' where
    s: "msix_irq_setup env lro w = Some (rc, lro', w')"
      "rc = 0 \<and> lro' = lro\<lparr>irq_user_count := MAX_USER_IRQ\<rparr>
         \<and> irq_net (trace w') = (\<lambda>v. irq_net (trace w) v + int (count_list (map (msix_vec env) [0..<MAX_USER_IRQ]) v))
       \<or> rc = - 1 \<and> lro' = lro \<and> irq_net (trace w') = irq_net (trace w)" by blast
  have "irq_net (trace (irq_teardown env lro' w')) = irq_net (trace w)" if "rc = 0"
    using s(2) that assms(2)
    by (auto simp: irq_teardown_def free_loop_releases irqs.release_all fun_eq_iff)
  with s assms(2) show ?thesis by (auto simp: irq_setup_def)
qed

lemma msix_irq_setup_all_or_nothing_witness:
  "\<exists>rc lro' w'. irq_setup (env0\<lparr>irq_rc := \<lambda>_ v. if v = 40 then - 16 else 0\<rparr>) (card_dev\<lparr>msix_enabled := True\<rparr>) world1
     = Some (rc, lro', w') \<and> (rc = - 1 \<longrightarrow> irq_net (trace w') = (\<lambda>_. 0))"
proof -
  let ?d = "card_dev\<lparr>msix_enabled := True\<rparr>"
  have h: "config_base ?d = Some 0x2000000" "msix_enabled ?d"
    using card_cfg_msix by simp_all
  have v: "irq_net (trace world1) = (\<lambda>_. 0)" by (simp add: world1_def)
  from msix_irq_setup_all_or_nothing [OF h, of "env0\<lparr>irq_rc := \<lambda>_ v. if v = 40 then - 16 else 0\<rparr>" world1]
  show ?thesis unfolding v by auto
qed

text \<open>with MSI or a legacy line, a refused \<open>request_irq\<close> still records the line, so that the
  \<open>irq_teardown\<close> on the failure path of \<open>probe\<close> frees a line that was never requested.\<close>

theorem irq_setup_failure_frees_foreign_line:
  assumes "config_base lro = Some cfg" "\<not> msix_enabled lro" "\<forall>tr. irq_rc env tr (pci_irq env) \<noteq> 0"
    and "pci_irq env \<noteq> - 1"
  shows "\<exists>rc lro' w'. irq_setup env lro w = Some (rc, lro', w') \<and> rc \<noteq> 0
    \<and> irq_net (trace w') = irq_net (trace w)
    \<and> irq_net (trace (irq_teardown env lro' w')) (pci_irq env) = irq_net (trace w) (pci_irq env) - 1"
proof -
  from irq_setup_line_run [OF assms(1,2), of env w] assms(3) obtain w' where
    s: "irq_setup env lro w = Some (irq_rc env (trace w') (pci_irq env), lro\<lparr>irq_line := sint (pci_irq env)\<rparr>, w')"
      "irq_net (trace w') = irq_net (trace w)" by auto
  have "sint (pci_irq env) \<noteq> - 1" 
  proof
    assume "sint (pci_irq env) = - 1"
    then have "(of_int (sint (pci_irq env)) :: u32) = of_int (- 1)" by simp
    with assms(4) show False by simp
  qed
  then show ?thesis using s assms(2,3) by (simp add: irq_teardown_def free_irq_def)
qed

lemma irq_setup_failure_frees_foreign_line_witness:
  "\<exists>rc lro' w'. irq_setup (env0\<lparr>irq_rc := \<lambda>_ _. - 16\<rparr>) card_dev world1 = Some (rc, lro', w') \<and> rc \<noteq> 0
    \<and> irq_net (trace (irq_teardown (env0\<lparr>irq_rc := \<lambda>_ _. - 16\<rparr>) lro' w')) 16 = - 1"
proof -
  let ?env = "env0\<lparr>irq_rc := \<lambda>_ _. - 16\<rparr>"
  have h: "\<not> msix_enabled card_dev" "\<forall>tr. irq_rc ?env tr (pci_irq ?env) \<noteq> 0" "pci_irq ?env \<noteq> - 1"
    by (simp_all add: card_dev_def dev0_def env0_def)
  have v: "pci_irq ?env = 16" "irq_net (trace world1) 16 - 1 = - 1" by (simp_all add: env0_def world1_def)
  from irq_setup_failure_frees_foreign_line [OF card_cfg h, of world1] show ?thesis unfolding v by blast
qed

end
