(* ===== verification/Chardev.thy ===== *)
theory Chardev
  imports Device Cyclic
begin

section \<open>File operations of the character devices\<close>

text \<open>
  What \<open>read\<close>, \<open>write\<close>, \<open>ioctl\<close>, \<open>llseek\<close>, \<open>mmap\<close> and \<open>poll\<close> on the device files do:
  the DMA engines (synchronous, asynchronous and streaming), the control BAR, the user
  interrupt events and the descriptor bypass BAR. Operations on an engine take and return the
  engine record; file-level operations find it through the device.
\<close>

subsection \<open>Synchronous DMA\<close>

definition check_transfer_align :: "xdma_engine \<Rightarrow> u64 \<Rightarrow> u64 \<Rightarrow> u64 \<Rightarrow> bool \<Rightarrow> int" where
  "check_transfer_align e buf count pos sync =
    (if streaming e \<or> non_incr_addr e then
       (let buf_lsb = (ucast buf :: u32) AND (addr_align e - 1);
            len_lsb = count AND (scast (len_granularity e) - 1);
            pos_lsb = (ucast pos :: u32) AND (addr_align e - 1)
        in if buf_lsb \<noteq> 0 then - EINVAL
           else if \<not> streaming e \<and> pos_lsb \<noteq> 0 \<and> sync then - EINVAL
           else if len_lsb \<noteq> 0 then - EINVAL
           else 0)
     else
       (let buf_lsb = (ucast buf :: u32) AND (addr_align e - 1);
            pos_lsb = (ucast pos :: u32) AND (addr_align e - 1)
        in if buf_lsb \<noteq> pos_lsb then - EINVAL else 0))"

text \<open>Waiting for a transfer; a transfer that is freed under the waiter ends the wait, and the
  waiter's next look at it is the stray access.\<close>

definition still_submitted :: "nat \<Rightarrow> 'w world_scheme \<Rightarrow> bool" where
  "still_submitted t w = (case transfers w t of
     None \<Rightarrow> False | Some x \<Rightarrow> t_state x = TRANSFER_STATE_SUBMITTED)"

definition transfer_monitor ::
  "kenv \<Rightarrow> (xdma_engine \<times> 'w world_scheme) others \<Rightarrow> nat \<Rightarrow> xdma_engine \<Rightarrow> 'w world_scheme
   \<Rightarrow> (int \<times> xdma_engine \<times> 'w world_scheme) option" where
  "transfer_monitor env oth t e w =
    (if poll_mode env then do {
       e \<leftarrow> spin_lock e;
       x \<leftarrow> transfers w t;
       let e = spin_unlock e;
       engine_service_poll env (c_wb oth) (c_late oth) (c_res oth) (of_nat (desc_num x)) e w }
     else wait_event (\<lambda>(e, w). \<not> still_submitted t w) oth 0 (e, w))"

text \<open>The chunk loop of \<open>transfer_data\<close>: \<open>oths k\<close> is what happens while chunk \<open>k\<close> is
  waited for, \<open>cfg\<close> the configuration BAR. The result is the return value and the new
  position.\<close>

partial_function (option) transfer_data_loop ::
  "kenv \<Rightarrow> addr \<Rightarrow> (nat \<Rightarrow> (xdma_engine \<times> 'w world_scheme) others) \<Rightarrow> nat \<Rightarrow> u64 \<Rightarrow> int \<Rightarrow> u64 \<Rightarrow> int
   \<Rightarrow> xdma_engine \<Rightarrow> 'w world_scheme \<Rightarrow> (int \<times> u64 \<times> xdma_engine \<times> 'w world_scheme) option" where
  "transfer_data_loop env cfg oths k transfer_addr remaining pos acc e w =
    (if remaining > 0 then
       let transfer_len = (if remaining > int XDMA_TRANSFER_MAX_BYTES then int XDMA_TRANSFER_MAX_BYTES
                           else remaining)
       in do {
         (mt, w) \<leftarrow> transfer_create env transfer_addr (of_int transfer_len) pos (dir_to_dev e)
                     (non_incr_addr e) False True w;
         case mt of
           None \<Rightarrow> Some (- EIO, pos, e, w)
         | Some t \<Rightarrow> do {
             x \<leftarrow> transfers w t;
             let w = (if transfer_len \<ge> remaining
                      then put_transfer t (x\<lparr>last_in_request := True,
                             size_of_request := acc + transfer_len\<rparr>) w
                      else w);
             (_, e, w) \<leftarrow> transfer_queue env e t w;
             (rc, e, w) \<leftarrow> transfer_monitor env (oths k) t e w;
             x \<leftarrow> transfers w t;
             (res, e, w) \<leftarrow>
               (if t_state x \<noteq> TRANSFER_STATE_SUBMITTED then do {
                  (_, w) \<leftarrow> transfer_destroy t w;
                  Some (if t_state x \<noteq> TRANSFER_STATE_COMPLETED then - EIO else 0, e, w) }
                else if rc \<noteq> 0 then do {
                  let (_, e, w) = engine_status_read env False e w;
                  let (_, w) = read_interrupts env cfg w;
                  Some (- ERESTARTSYS, e, w) }
                else Some (0, e, w));
             if res \<noteq> 0 then Some (res, pos, e, w)
             else transfer_data_loop env cfg oths (Suc k) (transfer_addr + of_int transfer_len)
                    (remaining - transfer_len) (pos + of_int transfer_len) (acc + transfer_len) e w } }
     else Some (acc, pos, e, w))"

definition transfer_data ::
  "kenv \<Rightarrow> addr \<Rightarrow> (nat \<Rightarrow> (xdma_engine \<times> 'w world_scheme) others) \<Rightarrow> u64 \<Rightarrow> int \<Rightarrow> u64
   \<Rightarrow> xdma_engine \<Rightarrow> 'w world_scheme \<Rightarrow> (int \<times> u64 \<times> xdma_engine \<times> 'w world_scheme) option" where
  "transfer_data env cfg oths addr remaining pos e w =
     transfer_data_loop env cfg oths 0 addr remaining pos 0 e w"

definition char_sgdma_read_write ::
  "kenv \<Rightarrow> addr \<Rightarrow> (nat \<Rightarrow> (xdma_engine \<times> 'w world_scheme) others) \<Rightarrow> u64 \<Rightarrow> u64 \<Rightarrow> u64 \<Rightarrow> bool
   \<Rightarrow> xdma_engine \<Rightarrow> 'w world_scheme \<Rightarrow> (int \<times> u64 \<times> xdma_engine \<times> 'w world_scheme) option" where
  "char_sgdma_read_write env cfg oths buf count pos dir e w = do {
     bug_on (e_magic e \<noteq> MAGIC_ENGINE);
     if dir \<noteq> dir_to_dev e then Some (- EINVAL, pos, e, w)
     else
       let rc = check_transfer_align e buf count pos True in
       if rc \<noteq> 0 then Some (rc, pos, e, w)
       else transfer_data env cfg oths buf (sint count) pos e w }"

definition char_sgdma_write ::
  "kenv \<Rightarrow> addr \<Rightarrow> (nat \<Rightarrow> (xdma_engine \<times> 'w world_scheme) others) \<Rightarrow> u64 \<Rightarrow> u64 \<Rightarrow> u64
   \<Rightarrow> xdma_engine \<Rightarrow> 'w world_scheme \<Rightarrow> (int \<times> u64 \<times> xdma_engine \<times> 'w world_scheme) option" where
  "char_sgdma_write env cfg oths buf count pos e w =
     char_sgdma_read_write env cfg oths buf count pos True e w"

text \<open>\<open>cyc\<close> is what happens around the waits of a streaming read.\<close>

definition char_sgdma_read ::
  "kenv \<Rightarrow> addr \<Rightarrow> (nat \<Rightarrow> (xdma_engine \<times> 'w world_scheme) others)
   \<Rightarrow> (nat \<Rightarrow> nat \<Rightarrow> (xdma_engine \<times> 'w world_scheme) others) \<Rightarrow> u64 \<Rightarrow> u64 \<Rightarrow> u64
   \<Rightarrow> xdma_engine \<Rightarrow> 'w world_scheme \<Rightarrow> (int \<times> u64 \<times> xdma_engine \<times> 'w world_scheme) option" where
  "char_sgdma_read env cfg oths cyc buf count pos e w = do {
     bug_on (e_magic e \<noteq> MAGIC_ENGINE);
     if \<not> dir_to_dev e \<and> rx_buffer e \<noteq> None \<and> rx_transfer_cyclic e \<noteq> None
     then do {
       (rc, e, w) \<leftarrow> char_sgdma_read_cyclic env cyc buf e w;
       Some (rc, pos, e, w) }
     else char_sgdma_read_write env cfg oths buf count pos False e w }"

text \<open>\<open>llseek\<close> on 64-bit offsets; the result is the return value and the new file position.\<close>

definition char_sgdma_llseek :: "u64 \<Rightarrow> u64 \<Rightarrow> int \<Rightarrow> int \<times> u64" where
  "char_sgdma_llseek f_pos off whence =
    (let seek = (\<lambda>newpos. if sint newpos < 0 then (- EINVAL, f_pos) else (sint newpos, newpos))
     in if whence = 0 then seek off
        else if whence = 1 then seek (f_pos + off)
        else if whence = 2 then seek (0xFFFFFFFF + off)
        else (- EINVAL, f_pos))"

subsection \<open>Asynchronous DMA\<close>

text \<open>One segment of an I/O vector, cut into transfers that are queued without waiting.\<close>

function aio_segment_loop ::
  "kenv \<Rightarrow> nat \<Rightarrow> u64 \<Rightarrow> nat \<Rightarrow> nat \<Rightarrow> u64 \<Rightarrow> bool \<Rightarrow> xdma_engine \<Rightarrow> 'w world_scheme
   \<Rightarrow> (xdma_engine \<times> 'w world_scheme) option" where
  "aio_segment_loop env cb transfer_addr remaining acc pos dir e w =
    (if remaining = 0 then Some (e, w)
     else
       let transfer_len = (if remaining > XDMA_TRANSFER_MAX_BYTES then XDMA_TRANSFER_MAX_BYTES
                           else remaining)
       in do {
         (mt, w) \<leftarrow> transfer_create env transfer_addr (of_nat transfer_len) pos dir False False True w;
         t \<leftarrow> mt;
         x \<leftarrow> transfers w t;
         let x = x\<lparr>iocb := Some cb\<rparr>;
         let x = (if transfer_len \<ge> remaining
                  then x\<lparr>last_in_request := True, size_of_request := int (acc + transfer_len)\<rparr> else x);
         let w = put_transfer t x w;
         (_, e, w) \<leftarrow> transfer_queue env e t w;
         aio_segment_loop env cb (transfer_addr + of_nat transfer_len) (remaining - transfer_len)
           (acc + transfer_len) pos dir e w })"
  by pat_completeness auto
termination
  by (relation "measure (\<lambda>(env, cb, a, remaining, d, pos, dir, e, w). remaining)")
     (auto simp: XDMA_TRANSFER_MAX_BYTES_def split: if_splits)

declare aio_segment_loop.simps [simp del]

fun aio_segments ::
  "kenv \<Rightarrow> nat \<Rightarrow> (u64 \<times> u64) list \<Rightarrow> u64 \<Rightarrow> bool \<Rightarrow> xdma_engine \<Rightarrow> 'w world_scheme
   \<Rightarrow> (int \<times> xdma_engine \<times> 'w world_scheme) option" where
  "aio_segments env cb [] pos dir e w = Some (- EIOCBQUEUED, e, w)"
| "aio_segments env cb ((buf, count) # iov) pos dir e w =
    (let rc = check_transfer_align e buf count pos False in
     if rc \<noteq> 0 then Some (rc, e, w)
     else do {
       (e, w) \<leftarrow> aio_segment_loop env cb buf (unat count) 0 pos dir e w;
       aio_segments env cb iov pos dir e w })"

definition sg_aio_read_write ::
  "kenv \<Rightarrow> nat \<Rightarrow> (u64 \<times> u64) list \<Rightarrow> u64 \<Rightarrow> bool \<Rightarrow> xdma_engine \<Rightarrow> 'w world_scheme
   \<Rightarrow> (int \<times> xdma_engine \<times> 'w world_scheme) option" where
  "sg_aio_read_write env cb iov pos dir e w = do {
     bug_on (e_magic e \<noteq> MAGIC_ENGINE);
     aio_segments env cb iov pos dir e w }"

definition sg_read_iter ::
  "kenv \<Rightarrow> nat \<Rightarrow> (u64 \<times> u64) list \<Rightarrow> u64 \<Rightarrow> xdma_engine \<Rightarrow> 'w world_scheme
   \<Rightarrow> (int \<times> xdma_engine \<times> 'w world_scheme) option" where
  "sg_read_iter env cb iov pos e w = sg_aio_read_write env cb iov pos False e w"

definition sg_write_iter ::
  "kenv \<Rightarrow> nat \<Rightarrow> (u64 \<times> u64) list \<Rightarrow> u64 \<Rightarrow> xdma_engine \<Rightarrow> 'w world_scheme
   \<Rightarrow> (int \<times> xdma_engine \<times> 'w world_scheme) option" where
  "sg_write_iter env cb iov pos e w = sg_aio_read_write env cb iov pos True e w"

subsection \<open>Performance measurement\<close>

definition get_perf_stats ::
  "kenv \<Rightarrow> xdma_engine \<Rightarrow> 'w kworld_scheme \<Rightarrow> (xdma_engine \<times> 'w kworld_scheme) option" where
  "get_perf_stats env e w = do {
     p \<leftarrow> xdma_perf e;
     let r = e_regs e;
     let (lo, w) = read_register env (engine_completed_desc_count r) w;
     let p = p\<lparr>p_iterations := ucast (build_u64 0 (ucast lo))\<rparr>;
     let (hi, w) = read_register env (engine_perf_cyc_hi r) w;
     let (lo, w) = read_register env (engine_perf_cyc_lo r) w;
     let p = p\<lparr>p_clock_cycle_count := build_u64 (ucast hi) (ucast lo)\<rparr>;
     let (hi, w) = read_register env (engine_perf_dat_hi r) w;
     let (lo, w) = read_register env (engine_perf_dat_lo r) w;
     let p = p\<lparr>p_data_cycle_count := build_u64 (ucast hi) (ucast lo)\<rparr>;
     let (hi, w) = read_register env (engine_perf_pnd_hi r) w;
     let (lo, w) = read_register env (engine_perf_pnd_lo r) w;
     let p = p\<lparr>p_pending_count := build_u64 (ucast hi) (ucast lo)\<rparr>;
     Some (e\<lparr>xdma_perf := Some p\<rparr>, w) }"

text \<open>Little-endian bytes, as the structures lie in memory.\<close>

definition le32 :: "u32 \<Rightarrow> u8 list" where
  "le32 v = [ucast v, ucast (drop_bit 8 v), ucast (drop_bit 16 v), ucast (drop_bit 24 v)]"

definition le64 :: "u64 \<Rightarrow> u8 list" where
  "le64 v = le32 (ucast v) @ le32 (ucast (drop_bit 32 v))"

definition perf_bytes :: "xdma_performance_ioctl \<Rightarrow> u8 list" where
  "perf_bytes p = le32 (p_version p) @ le32 (p_transfer_size p) @ le32 (p_stopped p) @ le32 (p_iterations p)
     @ le64 (p_clock_cycle_count p) @ le64 (p_data_cycle_count p) @ le64 (p_pending_count p)"

text \<open>\<open>copy_from_user\<close> of \<open>n\<close> bytes: what it leaves uncopied at the end reads as zero. The
  word at offset \<open>off\<close>.\<close>

definition copied_word :: "kenv \<Rightarrow> event list \<Rightarrow> u64 \<Rightarrow> nat \<Rightarrow> nat \<Rightarrow> u32" where
  "copied_word env tr buf n off =
    (let c = min 4 (n - copy_fails env tr - off)
     in user_word env tr (buf + of_nat off) AND mask (8 * c))"

definition perf_from_user :: "kenv \<Rightarrow> event list \<Rightarrow> u64 \<Rightarrow> xdma_performance_ioctl" where
  "perf_from_user env tr arg = (let v = copied_word env tr arg 40 in
     \<lparr>p_version = v 0, p_transfer_size = v 4, p_stopped = v 8, p_iterations = v 12,
      p_clock_cycle_count = join64 (v 20) (v 16), p_data_cycle_count = join64 (v 28) (v 24),
      p_pending_count = join64 (v 36) (v 32)\<rparr>)"

definition IOCTL_XDMA_PERF_V1 :: u32 where "IOCTL_XDMA_PERF_V1 = 1"

text \<open>\<open>copy_from_user\<close> never returns a negative value, so the first check never fails.\<close>

definition ioctl_do_perf_start ::
  "kenv \<Rightarrow> u64 \<Rightarrow> xdma_engine \<Rightarrow> 'w world_scheme \<Rightarrow> (int \<times> xdma_engine \<times> 'w world_scheme) option" where
  "ioctl_do_perf_start env arg e w =
    (if xdma_perf e \<noteq> None then Some (- EBUSY, e, w)
     else case kalloc env ObjPerf w of
       (False, w) \<Rightarrow> Some (- ENOMEM, e, w)
     | (True, w) \<Rightarrow>
         (let p = perf_from_user env (trace w) arg;
              rc = int (copy_fails env (trace w));
              w = emit (CopyFromUser arg 40) w;
              e = e\<lparr>xdma_perf := Some p\<rparr>
          in if rc < 0 then Some (- EINVAL, e, w)
             else if p_version p \<noteq> IOCTL_XDMA_PERF_V1 then Some (- EINVAL, e, w)
             else do {
               let w = write_register XDMA_PERF_CLEAR (engine_perf_ctrl (e_regs e)) w;
               let (_, w) = read_register env (engine_identifier (e_regs e)) w;
               let w = write_register (XDMA_PERF_AUTO OR XDMA_PERF_RUN) (engine_perf_ctrl (e_regs e)) w;
               let (_, w) = read_register env (engine_identifier (e_regs e)) w;
               (_, e, w) \<leftarrow> xdma_performance_submit env e w;
               Some (0, e, w) }))"

definition ioctl_do_perf_stop ::
  "kenv \<Rightarrow> u64 \<Rightarrow> xdma_engine \<Rightarrow> 'w world_scheme \<Rightarrow> (int \<times> xdma_engine \<times> 'w world_scheme) option" where
  "ioctl_do_perf_stop env arg e w =
    (if xdma_perf e = None then Some (- EINVAL, e, w)
     else do {
       (_, w) \<leftarrow> engine_cyclic_stop env e w;
       (e, w) \<leftarrow> get_perf_stats env e w;
       p \<leftarrow> xdma_perf e;
       let (rc, w) = copy_to_user env arg (perf_bytes p) w;
       if rc \<noteq> 0 then Some (- EINVAL, e, w)
       else Some (0, e\<lparr>xdma_perf := None\<rparr>, kfree ObjPerf w) })"

definition ioctl_do_perf_get ::
  "kenv \<Rightarrow> u64 \<Rightarrow> xdma_engine \<Rightarrow> 'w kworld_scheme \<Rightarrow> (int \<times> xdma_engine \<times> 'w kworld_scheme) option" where
  "ioctl_do_perf_get env arg e w =
    (if xdma_perf e \<noteq> None then do {
       (e, w) \<leftarrow> get_perf_stats env e w;
       p \<leftarrow> xdma_perf e;
       let (rc, w) = copy_to_user env arg (perf_bytes p) w;
       if rc \<noteq> 0 then Some (- EINVAL, e, w) else Some (0, e, w) }
     else Some (- EPROTO, e, w))"

subsection \<open>Address mode and alignment\<close>

text \<open>\<open>get_user\<close> and \<open>put_user\<close> of an \<open>int\<close>: 0 or \<open>-EFAULT\<close>.\<close>

definition put_user :: "kenv \<Rightarrow> u64 \<Rightarrow> u32 \<Rightarrow> 'w kworld_scheme \<Rightarrow> int \<times> 'w kworld_scheme" where
  "put_user env arg v w =
    (let (rc, w) = copy_to_user env arg (le32 v) w in (if rc = 0 then 0 else - EFAULT, w))"

definition ioctl_do_addrmode_set ::
  "kenv \<Rightarrow> u64 \<Rightarrow> xdma_engine \<Rightarrow> 'w kworld_scheme \<Rightarrow> int \<times> xdma_engine \<times> 'w kworld_scheme" where
  "ioctl_do_addrmode_set env arg e w =
    (let rc = (if copy_fails env (trace w) = 0 then 0 else - EFAULT);
         dst = user_word env (trace w) arg;
         w = emit (CopyFromUser arg 4) w;
         (e, w) = (if rc = 0 then
             (let e = e\<lparr>non_incr_addr := (dst \<noteq> 0)\<rparr>
              in (e, write_register XDMA_CTRL_NON_INCR_ADDR
                       (if non_incr_addr e then engine_control_w1s (e_regs e)
                        else engine_control_w1c (e_regs e)) w))
           else (e, w));
         (e, w) = engine_alignments env e w
     in (rc, e, w))"

definition ioctl_do_addrmode_get :: "kenv \<Rightarrow> u64 \<Rightarrow> xdma_engine \<Rightarrow> 'w kworld_scheme \<Rightarrow> int \<times> 'w kworld_scheme" where
  "ioctl_do_addrmode_get env arg e w = put_user env arg (if non_incr_addr e then 1 else 0) w"

definition ioctl_do_align_get :: "kenv \<Rightarrow> u64 \<Rightarrow> xdma_engine \<Rightarrow> 'w kworld_scheme \<Rightarrow> int \<times> 'w kworld_scheme" where
  "ioctl_do_align_get env arg e w = put_user env arg (addr_align e) w"

text \<open>\<open>_IOC(dir, 'q', nr, size)\<close>: \<open>_IOW\<close> has direction 1, \<open>_IOR\<close> direction 2.\<close>

definition ioc_q :: "u32 \<Rightarrow> u32 \<Rightarrow> u32 \<Rightarrow> u32" where
  "ioc_q dir nr sz = push_bit 30 dir OR push_bit 16 sz OR push_bit 8 0x71 OR nr"

definition IOCTL_XDMA_PERF_START :: u32 where "IOCTL_XDMA_PERF_START = ioc_q 1 1 8"
definition IOCTL_XDMA_PERF_STOP :: u32 where "IOCTL_XDMA_PERF_STOP = ioc_q 1 2 8"
definition IOCTL_XDMA_PERF_GET :: u32 where "IOCTL_XDMA_PERF_GET = ioc_q 2 3 8"
definition IOCTL_XDMA_ADDRMODE_SET :: u32 where "IOCTL_XDMA_ADDRMODE_SET = ioc_q 1 4 4"
definition IOCTL_XDMA_ADDRMODE_GET :: u32 where "IOCTL_XDMA_ADDRMODE_GET = ioc_q 2 5 4"
definition IOCTL_XDMA_ALIGN_GET :: u32 where "IOCTL_XDMA_ALIGN_GET = ioc_q 2 6 4"

definition char_sgdma_ioctl ::
  "kenv \<Rightarrow> u32 \<Rightarrow> u64 \<Rightarrow> xdma_engine \<Rightarrow> 'w world_scheme \<Rightarrow> (int \<times> xdma_engine \<times> 'w world_scheme) option" where
  "char_sgdma_ioctl env cmd arg e w =
    (if cmd = IOCTL_XDMA_PERF_START then ioctl_do_perf_start env arg e w
     else if cmd = IOCTL_XDMA_PERF_STOP then ioctl_do_perf_stop env arg e w
     else if cmd = IOCTL_XDMA_PERF_GET then ioctl_do_perf_get env arg e w
     else if cmd = IOCTL_XDMA_ADDRMODE_SET then Some (ioctl_do_addrmode_set env arg e w)
     else if cmd = IOCTL_XDMA_ADDRMODE_GET then
       (let (rc, w) = ioctl_do_addrmode_get env arg e w in Some (rc, e, w))
     else if cmd = IOCTL_XDMA_ALIGN_GET then
       (let (rc, w) = ioctl_do_align_get env arg e w in Some (rc, e, w))
     else Some (- EINVAL, e, w))"

subsection \<open>Control BAR\<close>

text \<open>The checks every file operation starts with: the character device behind the file and
  its parent carry their magic numbers.\<close>

definition file_char :: "xdma_dev \<Rightarrow> char_slot \<Rightarrow> xdma_char option" where
  "file_char lro sl = do {
     c \<leftarrow> char_heap lro sl;
     bug_on (c_magic c \<noteq> MAGIC_CHAR);
     bug_on (d_magic lro \<noteq> MAGIC_DEVICE);
     Some c }"

definition char_open :: "xdma_dev \<Rightarrow> char_slot \<Rightarrow> (int \<times> char_slot) option" where
  "char_open lro sl = do {
     c \<leftarrow> char_heap lro sl;
     bug_on (c_magic c \<noteq> MAGIC_CHAR);
     Some (0, sl) }"

definition char_close :: "xdma_dev \<Rightarrow> char_slot \<Rightarrow> int option" where
  "char_close lro sl = do { _ \<leftarrow> file_char lro sl; Some 0 }"

text \<open>The return value of the user copy is only logged.\<close>

definition char_ctrl_read ::
  "kenv \<Rightarrow> xdma_dev \<Rightarrow> char_slot \<Rightarrow> u64 \<Rightarrow> u64 \<Rightarrow> 'w kworld_scheme \<Rightarrow> (int \<times> u64 \<times> 'w kworld_scheme) option" where
  "char_ctrl_read env lro sl buf pos w = do {
     c \<leftarrow> file_char lro sl;
     if pos AND 3 \<noteq> 0 then Some (- EPROTO, pos, w)
     else do {
       base \<leftarrow> bar_at lro (c_bar c);
       let (v, w) = read_register env (base + pos) w;
       let (_, w) = copy_to_user env buf (le32 v) w;
       Some (4, pos + 4, w) } }"

definition char_ctrl_write ::
  "kenv \<Rightarrow> xdma_dev \<Rightarrow> char_slot \<Rightarrow> u64 \<Rightarrow> u64 \<Rightarrow> 'w kworld_scheme \<Rightarrow> (int \<times> u64 \<times> 'w kworld_scheme) option" where
  "char_ctrl_write env lro sl buf pos w = do {
     c \<leftarrow> file_char lro sl;
     if pos AND 3 \<noteq> 0 then Some (- EPROTO, pos, w)
     else do {
       base \<leftarrow> bar_at lro (c_bar c);
       let v = copied_word env (trace w) buf 4 0;
       let w = emit (CopyFromUser buf 4) w;
       let w = write_register v (base + pos) w;
       Some (4, pos + 4, w) } }"

definition bridge_mmap ::
  "kenv \<Rightarrow> xdma_dev \<Rightarrow> char_slot \<Rightarrow> u64 \<Rightarrow> u64 \<Rightarrow> u64 \<Rightarrow> 'w kworld_scheme \<Rightarrow> (int \<times> 'w kworld_scheme) option" where
  "bridge_mmap env lro sl vm_start vm_end vm_pgoff w = do {
     c \<leftarrow> file_char lro sl;
     let b = nat (c_bar c);
     let off = push_bit PAGE_SHIFT vm_pgoff;
     let phys = bar_start env b + off;
     let vsize = vm_end - vm_start;
     let psize = bar_end env b - bar_start env b + 1 - off;
     if vsize > psize then Some (- EINVAL, w)
     else (let (rc, w) = svc_call env (SvcRemapPfn vm_start (drop_bit PAGE_SHIFT phys) vsize) w
           in if rc \<noteq> 0 then Some (- EAGAIN, w) else Some (0, w)) }"

subsection \<open>User interrupt events\<close>

definition events_take :: "xdma_irq \<Rightarrow> (u8 \<times> xdma_irq) option" where
  "events_take q = do {
     bug_on (events_locked q);
     let q = q\<lparr>events_locked := True\<rparr>;
     let events_user = events_irq q;
     let q = q\<lparr>events_irq := 0\<rparr>;
     Some (events_user, q\<lparr>events_locked := False\<rparr>) }"

definition char_events_read ::
  "kenv \<Rightarrow> (xdma_irq \<times> 'w kworld_scheme) others \<Rightarrow> u64 \<Rightarrow> u64 \<Rightarrow> u64 \<Rightarrow> xdma_irq \<Rightarrow> 'w kworld_scheme
   \<Rightarrow> (int \<times> xdma_irq \<times> 'w kworld_scheme) option" where
  "char_events_read env oth buf count pos q w =
    (if count \<noteq> 4 then Some (- EPROTO, q, w)
     else if pos AND 3 \<noteq> 0 then Some (- EPROTO, q, w)
     else do {
       (rc, q, w) \<leftarrow> wait_event (\<lambda>(q, w). events_irq q \<noteq> 0) oth 0 (q, w);
       if rc = - ERESTARTSYS then Some (- ERESTARTSYS, q, w)
       else do {
         (events_user, q) \<leftarrow> events_take q;
         let (_, w) = copy_to_user env buf (le32 (ucast events_user)) w;
         Some (4, q, w) } })"

text \<open>\<open>POLLIN | POLLRDNORM\<close> is 0x41.\<close>

definition char_events_poll :: "xdma_irq \<Rightarrow> u32 option" where
  "char_events_poll q = do {
     bug_on (events_locked q);
     Some (if events_irq q \<noteq> 0 then 0x41 else 0) }"

subsection \<open>Descriptor bypass\<close>

definition desc_bytes :: "xdma_desc \<Rightarrow> u8 list" where
  "desc_bytes d = concat (map le32 [d_control d, d_bytes d, d_src_addr_lo d, d_src_addr_hi d,
     d_dst_addr_lo d, d_dst_addr_hi d, d_next_lo d, d_next_hi d])"

fun copy_desc_loop ::
  "kenv \<Rightarrow> u64 \<Rightarrow> nat \<Rightarrow> xdma_desc list \<Rightarrow> nat \<Rightarrow> int \<Rightarrow> 'w kworld_scheme \<Rightarrow> int \<times> nat \<times> 'w kworld_scheme" where
  "copy_desc_loop env buf buf_size [] off rc w = (rc, off, w)"
| "copy_desc_loop env buf buf_size (d # ds) off rc w =
    (if off + sizeof_xdma_desc \<le> buf_size then
       (let (err, w) = copy_to_user env (buf + of_nat off) (desc_bytes d) w in
        if err \<noteq> 0 then copy_desc_loop env buf buf_size ds buf_size (- EINVAL) w
        else copy_desc_loop env buf buf_size ds (off + sizeof_xdma_desc) rc w)
     else copy_desc_loop env buf buf_size ds off (- ENOMEM) w)"

definition copy_desc_data ::
  "kenv \<Rightarrow> u64 \<Rightarrow> nat \<Rightarrow> xdma_transfer \<Rightarrow> nat \<Rightarrow> 'w kworld_scheme \<Rightarrow> (int \<times> nat \<times> 'w kworld_scheme) option" where
  "copy_desc_data env buf buf_size x off w = do {
     bug_on (buf = 0);
     ds \<leftarrow> (if desc_num x = 0 then Some [] else desc_virt x);
     if desc_num x \<le> length ds then Some (copy_desc_loop env buf buf_size (take (desc_num x) ds) off 0 w)
     else None }"

fun bypass_read_loop ::
  "kenv \<Rightarrow> u64 \<Rightarrow> nat \<Rightarrow> nat list \<Rightarrow> nat \<Rightarrow> int \<Rightarrow> 'w world_scheme \<Rightarrow> (int \<times> nat \<times> 'w world_scheme) option" where
  "bypass_read_loop env buf count [] off rc w = Some (rc, off, w)"
| "bypass_read_loop env buf count (t # ts) off rc w = do {
     x \<leftarrow> transfers w t;
     (rc, off, w) \<leftarrow> copy_desc_data env buf count x off w;
     bypass_read_loop env buf count ts off rc w }"

definition char_bypass_read ::
  "kenv \<Rightarrow> xdma_dev \<Rightarrow> u64 \<Rightarrow> u64 \<Rightarrow> xdma_engine \<Rightarrow> 'w world_scheme
   \<Rightarrow> (int \<times> xdma_engine \<times> 'w world_scheme) option" where
  "char_bypass_read env lro buf count e w = do {
     bug_on (e_magic e \<noteq> MAGIC_ENGINE);
     if count AND 3 \<noteq> 0 then Some (- EINVAL, e, w)
     else if buf = 0 then Some (- EINVAL, e, w)
     else if bypass_bar_idx lro < 0 then Some (- ENODEV, e, w)
     else do {
       e \<leftarrow> spin_lock e;
       (rc, off, w) \<leftarrow> bypass_read_loop env buf (unat count) (transfer_list e) 0 0 w;
       let e = spin_unlock e;
       Some (if rc < 0 then rc else int off, e, w) } }"

text \<open>\<open>n\<close> words are left to copy; every one goes to the same register.\<close>

fun bypass_write_loop ::
  "kenv \<Rightarrow> u64 \<Rightarrow> addr \<Rightarrow> nat \<Rightarrow> nat \<Rightarrow> int \<Rightarrow> 'w kworld_scheme \<Rightarrow> int \<times> 'w kworld_scheme" where
  "bypass_write_loop env buf a 0 off rc w = (rc, w)"
| "bypass_write_loop env buf a (Suc n) off rc w =
    (let err = copy_fails env (trace w);
         v = user_word env (trace w) (buf + of_nat off);
         w = emit (CopyFromUser (buf + of_nat off) 4) w
     in if err = 0 then bypass_write_loop env buf a n (off + 4) (int (off + 4)) (write_register v a w)
        else (- EINVAL, w))"

definition char_bypass_write ::
  "kenv \<Rightarrow> xdma_dev \<Rightarrow> u64 \<Rightarrow> u64 \<Rightarrow> xdma_engine \<Rightarrow> 'w kworld_scheme
   \<Rightarrow> (int \<times> xdma_engine \<times> 'w kworld_scheme) option" where
  "char_bypass_write env lro buf count e w = do {
     bug_on (e_magic e \<noteq> MAGIC_ENGINE);
     if count AND 3 \<noteq> 0 then Some (- EINVAL, e, w)
     else if buf = 0 then Some (- EINVAL, e, w)
     else if bypass_bar_idx lro < 0 then Some (- ENODEV, e, w)
     else do {
       e \<leftarrow> spin_lock e;
       base \<leftarrow> bar_at lro (bypass_bar_idx lro);
       let bypass_addr = base + 4 * ucast (bypass_offset e);
       let (rc, w) = bypass_write_loop env buf bypass_addr (unat count div 4) 0 0 w;
       Some (rc, spin_unlock e, w) } }"

end
