(* ===== verification/File_Ops.thy ===== *)
theory File_Ops
  imports Chardev
begin

section \<open>What the file operations do\<close>

text \<open>
  The lemmas and properties of \<open>Chardev\<close>: a synchronous request on an engine from the system call
  to the completion of its last chunk, alignment checks and positions, user interrupts, control
  and bypass access, mappings and performance ioctls.
\<close>

subsection \<open>One transfer on an idle engine\<close>







subsection \<open>A synchronous request\<close>











text \<open>The chunks of a request: user address, length and card address.\<close>

function chunks :: "u64 \<Rightarrow> nat \<Rightarrow> u64 \<Rightarrow> (u64 \<times> nat \<times> u64) list" where
  "chunks a n p = (if n = 0 then [] else
     (let l = min n XDMA_TRANSFER_MAX_BYTES in (a, l, p) # chunks (a + of_nat l) (n - l) (p + of_nat l)))"
  by pat_completeness auto
termination by (relation "measure (\<lambda>(a, n, p). n)") (auto simp: XDMA_TRANSFER_MAX_BYTES_def)

declare chunks.simps [simp del]




subsection \<open>Alignment\<close>

lemma and_align: "(x :: 'a::len word) AND (2 ^ k - 1) = 0 \<longleftrightarrow> 2 ^ k dvd unat x"
  using unat_mask_eq [of x k] unat_eq_0 [of "x AND mask k"] by (simp add: mask_eq_exp_minus_1 dvd_eq_mod_eq_0)

lemma and_align_eq:
  "(x :: 'a::len word) AND (2 ^ k - 1) = y AND (2 ^ k - 1) \<longleftrightarrow> unat x mod 2 ^ k = unat y mod 2 ^ k"
  using unat_mask_eq [of x k] unat_mask_eq [of y k] word_unat_eq_iff [of "x AND mask k" "y AND mask k"]
  by (simp add: mask_eq_exp_minus_1)

lemma unat_low_mod:
  assumes "k < 32" shows "unat (ucast (x :: u64) :: u32) mod 2 ^ k = unat x mod 2 ^ k"
proof -
  have "(2 :: nat) ^ k dvd 2 ^ 32" using assms by (intro le_imp_power_dvd) simp
  then show ?thesis using mod_mod_cancel [of "2 ^ k" "2 ^ 32" "unat x"]
    by (simp add: unsigned_ucast_eq take_bit_eq_mod)
qed

lemma granularity_mask:
  assumes "j < 31"
  shows "(c :: u64) AND (scast (2 ^ j :: u32) - 1) = 0 \<longleftrightarrow> 2 ^ j dvd unat c"
proof -
  have "(scast (2 ^ j :: u32) :: u64) = 2 ^ j"
    using assms by (intro bit_word_eqI) (auto simp: bit_simps)
  then show ?thesis using and_align [of c j] by simp
qed

text \<open>the alignment check, for an engine whose alignment and granularity are powers of two: with a
  fixed card address or a stream the buffer and the length must be aligned (and for a synchronous
  request on a fixed address the position); otherwise buffer and position need the same offset.\<close>

theorem check_transfer_align_iff:
  assumes "addr_align e = 2 ^ k" "k < 32" "len_granularity e = 2 ^ j" "j < 31"
  shows "check_transfer_align e buf count pos sync =
    (if (if streaming e \<or> non_incr_addr e
         then 2 ^ k dvd unat buf \<and> (streaming e \<or> \<not> sync \<or> 2 ^ k dvd unat pos) \<and> 2 ^ j dvd unat count
         else unat buf mod 2 ^ k = unat pos mod 2 ^ k) then 0 else - EINVAL)"
  by (simp add: check_transfer_align_def assms(1,3) Let_def granularity_mask [OF assms(4)] and_align and_align_eq
      unat_low_mod [OF assms(2)] dvd_eq_mod_eq_0)

lemma check_transfer_align_iff_witness:
  "check_transfer_align (engine1\<lparr>addr_align := 64, len_granularity := 1\<rparr>) 0x1040 0x30 0x80 True = 0"
  using check_transfer_align_iff [of "engine1\<lparr>addr_align := 64, len_granularity := 1\<rparr>" 6 0 "0x1040" "0x30" "0x80" True]
  by (simp add: engine1_def engine0_def)

subsection \<open>Synchronous requests deliver\<close>



subsection \<open>Asynchronous requests\<close>

text \<open>Every chunk of a vector goes to or from the same card address \<open>p\<close>: the position is not
  advanced from chunk to chunk, nor from segment to segment.\<close>

definition aio_chunks :: "u64 \<Rightarrow> (u64 \<times> u64) list \<Rightarrow> (u64 \<times> nat) list" where
  "aio_chunks p iov = concat (map (\<lambda>(b, c). map (\<lambda>(a, l, _). (a, l)) (chunks b (unat c) p)) iov)"

definition moved_at :: "kenv \<Rightarrow> bool \<Rightarrow> u64 \<Rightarrow> u64 \<times> nat \<Rightarrow> xdma_transfer \<Rightarrow> bool" where
  "moved_at env dir p = (\<lambda>(a, l) x. t_state x = TRANSFER_STATE_SUBMITTED
     \<and> (\<exists>ms sgm pgs tr. transfer_ready x dir p True ms \<and> ms_total ms = l
          \<and> t_sgm x = Some sgm \<and> sgm_holds sgm pgs (unat a mod 4096) l \<and> maps_buffer env tr a l dir ms))"

definition accepts :: "xdma_engine \<Rightarrow> 'w world_scheme \<Rightarrow> bool" where
  "accepts e w \<longleftrightarrow> \<not> locked e \<and> \<not> bits_set (shutdown e) ENGINE_SHUTDOWN_REQUEST
     \<and> (\<forall>u\<in>set (transfer_list e). u < next_tid w \<and> transfers w u \<noteq> None)"

text \<open>What queueing a list of new transfers leaves.\<close>

definition queued ::
  "(u64 \<times> nat \<Rightarrow> xdma_transfer \<Rightarrow> bool) \<Rightarrow> (u64 \<times> nat) list \<Rightarrow> xdma_engine \<Rightarrow> 'w world_scheme
   \<Rightarrow> xdma_engine \<Rightarrow> 'w world_scheme \<Rightarrow> bool" where
  "queued P cs e w e' w' \<longleftrightarrow> accepts e' w' \<and> next_tid w \<le> next_tid w' \<and> (\<forall>u<next_tid w. transfers w' u = transfers w u)
     \<and> check_transfer_align e' = check_transfer_align e
     \<and> (\<exists>ts. transfer_list e' = transfer_list e @ ts \<and> list_all2 (\<lambda>c t. \<exists>x. transfers w' t = Some x \<and> P c x) cs ts
          \<and> (\<forall>t\<in>set ts. next_tid w \<le> t \<and> t < next_tid w'))"

lemma queued_trans:
  assumes "queued P cs e w e1 w1" "queued P ds e1 w1 e2 w2"
  shows "queued P (cs @ ds) e w e2 w2"
proof -
  from assms obtain ts us where t: "transfer_list e1 = transfer_list e @ ts"
    "list_all2 (\<lambda>c t. \<exists>x. transfers w1 t = Some x \<and> P c x) cs ts" "\<forall>t\<in>set ts. next_tid w \<le> t \<and> t < next_tid w1"
    and u: "transfer_list e2 = transfer_list e1 @ us"
    "list_all2 (\<lambda>c t. \<exists>x. transfers w2 t = Some x \<and> P c x) ds us" "\<forall>t\<in>set us. next_tid w1 \<le> t \<and> t < next_tid w2"
    unfolding queued_def by blast
  have old: "transfers w2 t = transfers w1 t" if "t < next_tid w1" for t using assms(2) that by (simp add: queued_def)
  have "list_all2 (\<lambda>c t. \<exists>x. transfers w2 t = Some x \<and> P c x) cs ts"
    using t(2,3) old by (auto simp: list_all2_conv_all_nth)
  then show ?thesis
    using assms t u unfolding queued_def
    by (auto intro!: exI [of _ "ts @ us"] list_all2_appendI)
qed

lemma transfer_queue_align:
  assumes "transfer_queue env e t w = Some (rc, e', w')"
  shows "check_transfer_align e' = check_transfer_align e"
proof -
  have "streaming e' = streaming e \<and> non_incr_addr e' = non_incr_addr e \<and> addr_align e' = addr_align e
      \<and> len_granularity e' = len_granularity e"
    using assms
    by (auto simp: transfer_queue_def spin_lock_def spin_unlock_def engine_start_def Let_def
        split: if_splits Option.bind_splits list.splits)
  then show ?thesis by (intro ext) (simp add: check_transfer_align_def)
qed

lemma aio_chunk:
  fixes w :: "'w world_scheme"
  assumes "kernel_good env" "accepts e w" "0 < rem" "unat a + rem < 2 ^ 64" "len = min rem XDMA_TRANSFER_MAX_BYTES"
  obtains e' w' where "aio_segment_loop env cb a rem acc p dir e w
      = aio_segment_loop env cb (a + of_nat len) (rem - len) (acc + len) p dir e' w'"
    "queued (moved_at env dir p) [(a, len)] e w e' w'"
proof -
  let ?t = "next_tid w"
  let ?tr = "trace w @ [Alloc (ObjTransfer ?t), Alloc ObjSgm, Alloc ObjSgPages, Alloc ObjSgl]"
  have len: "0 < len" "len < 2 ^ 31" "len \<le> rem" using assms(3,5) by (auto simp: XDMA_TRANSFER_MAX_BYTES_def)
  have ul: "unat (of_nat len :: u64) = len" using len(2) by (intro unat_of_nat_small) simp
  have c: "0 < unat (of_nat len :: u64)" "unat (of_nat len :: u64) < 2 ^ 31" "unat a + unat (of_nat len :: u64) < 2 ^ 64"
    using len assms(4) unfolding ul by simp_all
  obtain x sgm pgs and ms :: "(u64 \<times> u32) list" and w1 where r:
    "transfer_create env a (of_nat len) p dir False False True w = Some (Some ?t, w1)"
    "transfers w1 = (transfers w)(?t \<mapsto> x)" "next_tid w1 = Suc ?t"
    "transfer_ready x dir p True ms" "ms_total ms = unat (of_nat len :: u64)"
    "t_sgm x = Some sgm" "sgm_holds sgm pgs (unat a mod 4096) (unat (of_nat len :: u64))" "0 < desc_num x"
    "maps_buffer env ?tr a (unat (of_nat len :: u64)) dir ms"
    by (rule transfer_create_user_run [OF assms(1) c, of p dir False False w]) (rule that, assumption+, simp, assumption+)
  define y where "y = (if len \<ge> rem then x\<lparr>iocb := Some cb, last_in_request := True, size_of_request := int (acc + len)\<rparr>
      else x\<lparr>iocb := Some cb\<rparr>)"
  let ?z = "y\<lparr>t_state := TRANSFER_STATE_SUBMITTED\<rparr>"
  define w2 where "w2 = put_transfer ?t y w1"
  have y: "transfers w2 ?t = Some y" "desc_num y \<noteq> 0" using r(8) by (simp_all add: w2_def y_def)
  have e: "\<not> locked e" "\<not> bits_set (shutdown e) ENGINE_SHUTDOWN_REQUEST" using assms(2) by (simp_all add: accepts_def)
  have "\<exists>h. ((transfers w2)(?t \<mapsto> ?z)) (hd (transfer_list e @ [?t])) = Some h"
    using assms(2) r(2) by (cases "transfer_list e") (auto simp: accepts_def w2_def)
  then obtain h where h: "((transfers w2)(?t \<mapsto> ?z)) (hd (transfer_list e @ [?t])) = Some h" ..
  obtain e' w3 where q: "transfer_queue env e ?t w2 = Some (0, e', w3)" "transfer_list e' = transfer_list e @ [?t]"
    "\<not> locked e'" "transfers w3 = (transfers w2)(?t \<mapsto> ?z)" "next_tid w3 = next_tid w2"
    "\<not> bits_set (shutdown e') ENGINE_SHUTDOWN_REQUEST"
    using transfer_queue_run [OF y e refl h] by metis
  show ?thesis
  proof (rule that [of e' w3])
    have "transfers w1 ?t = Some x" using r(2) by simp
    then show "aio_segment_loop env cb a rem acc p dir e w
      = aio_segment_loop env cb (a + of_nat len) (rem - len) (acc + len) p dir e' w3"
      using assms(3,5) r(1) q(1)
      by (subst aio_segment_loop.simps) (auto simp: Let_def y_def w2_def min_def split: if_splits)
    have "moved_at env dir p (a, len) ?z"
    proof -
      have "transfer_ready ?z dir p True ms" "t_sgm ?z = Some sgm"
        using r(4,6) by (auto simp: y_def transfer_ready_def)
      then show ?thesis using r(5,7,9) unfolding moved_at_def ul by (simp, blast)
    qed
    then show "queued (moved_at env dir p) [(a, len)] e w e' w3"
      using q assms(2) r(2,3) transfer_queue_align [OF q(1)]
      by (auto simp: queued_def accepts_def w2_def less_Suc_eq)
  qed
qed

lemma queued_none: "accepts e w \<Longrightarrow> queued P [] e w e w"
  by (simp add: queued_def)

lemma aio_segment_run:
  assumes "kernel_good env" "accepts e w" "unat a + n < 2 ^ 64"
  shows "\<exists>e' w'. aio_segment_loop env cb a n acc p dir e w = Some (e', w')
    \<and> queued (moved_at env dir p) (map (\<lambda>(a, l, _). (a, l)) (chunks a n q)) e w e' w'"
  using assms(2,3)
proof (induction a n q arbitrary: acc e w rule: chunks.induct)
  case (1 a n q)
  show ?case
  proof (cases "n = 0")
    case True
    then show ?thesis using 1(2) by (simp add: aio_segment_loop.simps chunks.simps queued_none)
  next
    case False
    define l where "l = min n XDMA_TRANSFER_MAX_BYTES"
    have l: "0 < l" "l \<le> n" using False by (auto simp: l_def XDMA_TRANSFER_MAX_BYTES_def)
    have n0: "0 < n" using False by simp
    obtain e1 w1 where c: "aio_segment_loop env cb a n acc p dir e w
        = aio_segment_loop env cb (a + of_nat l) (n - l) (acc + l) p dir e1 w1"
      "queued (moved_at env dir p) [(a, l)] e w e1 w1"
      using aio_chunk [OF assms(1) 1(2) n0 1(3) l_def] by metis
    have ul: "unat (of_nat l :: u64) = l" using l 1(3) by (intro unat_of_nat_small) simp
    have ua: "unat (a + of_nat l) = unat a + l" using unat_add_small [of a "of_nat l"] l 1(3) by (simp add: ul)
    have room: "unat (a + of_nat l) + (n - l) < 2 ^ 64" using l 1(3) by (simp add: ua)
    have "accepts e1 w1" using c(2) by (simp add: queued_def)
    from 1(1) [OF False l_def this room] c(1) obtain e2 w2 where
      r: "aio_segment_loop env cb a n acc p dir e w = Some (e2, w2)"
        "queued (moved_at env dir p) (map (\<lambda>(a, l, _). (a, l)) (chunks (a + of_nat l) (n - l) (q + of_nat l))) e1 w1 e2 w2"
      by metis
    have "map (\<lambda>(a, l, _). (a, l)) (chunks a n q)
        = [(a, l)] @ map (\<lambda>(a, l, _). (a, l)) (chunks (a + of_nat l) (n - l) (q + of_nat l))"
      using False by (subst chunks.simps) (simp add: l_def Let_def)
    then show ?thesis using r queued_trans [OF c(2) r(2)] by metis
  qed
qed

lemma aio_segments_run:
  assumes "kernel_good env" "accepts e w"
    and "\<forall>(b, c)\<in>set iov. check_transfer_align e b c p False = 0 \<and> unat b + unat c < 2 ^ 64"
  shows "\<exists>e' w'. aio_segments env cb iov p dir e w = Some (- EIOCBQUEUED, e', w')
    \<and> queued (moved_at env dir p) (aio_chunks p iov) e w e' w'"
  using assms(2,3)
proof (induction iov arbitrary: e w)
  case Nil
  then show ?case by (simp add: aio_chunks_def queued_none)
next
  case (Cons bc iov)
  obtain b c where bc: "bc = (b, c)" by (cases bc)
  from Cons.prems bc have a: "check_transfer_align e b c p False = 0" "unat b + unat c < 2 ^ 64" by auto
  obtain e1 w1 where s: "aio_segment_loop env cb b (unat c) 0 p dir e w = Some (e1, w1)"
    "queued (moved_at env dir p) (map (\<lambda>(a, l, _). (a, l)) (chunks b (unat c) p)) e w e1 w1"
    using aio_segment_run [OF assms(1) Cons.prems(1) a(2)] by blast
  then have "accepts e1 w1" "check_transfer_align e1 = check_transfer_align e" by (simp_all add: queued_def)
  with Cons.IH [of e1 w1] Cons.prems(2) obtain e2 w2 where r:
    "aio_segments env cb iov p dir e1 w1 = Some (- EIOCBQUEUED, e2, w2)"
    "queued (moved_at env dir p) (aio_chunks p iov) e1 w1 e2 w2" by auto
  then show ?case using a s(1) queued_trans [OF s(2) r(2)] by (simp add: bc aio_chunks_def)
qed

text \<open>C33: an asynchronous read or write queues one transfer per chunk of every segment, in order, and
  returns -EIOCBQUEUED; every one of them goes to or from the same card address, the position
  of the request, so that the chunks and segments of a vector overlay each other on the card
  instead of following one another.\<close>

theorem aio_overlays_segments:
  assumes "kernel_good env" "accepts e w" "e_magic e = MAGIC_ENGINE"
    and "\<forall>(b, c)\<in>set iov. check_transfer_align e b c p False = 0 \<and> unat b + unat c < 2 ^ 64"
  shows "\<exists>e' w' ts. sg_aio_read_write env cb iov p dir e w = Some (- EIOCBQUEUED, e', w')
    \<and> transfer_list e' = transfer_list e @ ts
    \<and> list_all2 (\<lambda>c t. \<exists>x. transfers w' t = Some x \<and> moved_at env dir p c x) (aio_chunks p iov) ts"
  using aio_segments_run [OF assms(1,2,4), of cb dir] assms(3) by (fastforce simp: sg_aio_read_write_def queued_def)

lemma aio_overlays_segments_witness:
  "\<exists>e' w' ts. sg_aio_read_write env0 7 [(0x1000, 0x100), (0x3000, 0x200)] 0x1000 True (engine1\<lparr>addr_align := 1\<rparr>) world1
      = Some (- EIOCBQUEUED, e', w') \<and> transfer_list e' = ts
    \<and> list_all2 (\<lambda>c t. \<exists>x. transfers w' t = Some x \<and> moved_at env0 True 0x1000 c x) [(0x1000, 0x100), (0x3000, 0x200)] ts"
proof -
  let ?e = "engine1\<lparr>addr_align := 1\<rparr>"
  have c: "aio_chunks 0x1000 [(0x1000, 0x100), (0x3000, 0x200)] = [(0x1000, 0x100), (0x3000, 0x200)]"
    by (simp add: aio_chunks_def chunks.simps [of "0x1000"] chunks.simps [of "0x1100"] chunks.simps [of "0x3000"]
        chunks.simps [of "0x3200"] XDMA_TRANSFER_MAX_BYTES_def)
  have h: "accepts ?e world1" "e_magic ?e = MAGIC_ENGINE"
    "\<forall>(b, c)\<in>set [(0x1000, 0x100), (0x3000, 0x200)]. check_transfer_align ?e b c 0x1000 False = 0
        \<and> unat b + unat c < 2 ^ 64"
    by (simp_all add: accepts_def bits_set_def check_transfer_align_def engine1_def engine0_def)
  from aio_overlays_segments [OF env0_good h, of 7 True] show ?thesis unfolding c by (simp add: engine1_def engine0_def)
qed

subsection \<open>User interrupts\<close>

text \<open>reading an events device takes all events that are pending and clears them, however the copy
  to the user goes: when it faults the events are lost, and the read still returns 4.\<close>

theorem char_events_read_takes:
  assumes "events_irq q \<noteq> 0" "\<not> events_locked q" "pos AND 3 = 0"
  shows "\<exists>w'. char_events_read env oth buf 4 pos q w = Some (4, q\<lparr>events_irq := 0\<rparr>, w')
    \<and> trace w' = trace w @ (if copy_fails env (trace w) = 0 then [CopyToUser buf (le32 (ucast (events_irq q)))] else [])"
proof -
  have e: "events_take q = Some (events_irq q, q\<lparr>events_irq := 0\<rparr>)"
    using assms(2) by (cases q) (simp add: events_take_def)
  show ?thesis
    using assms by (simp add: char_events_read_def wait_event.simps [of _ _ 0] e copy_to_user_def)
qed

lemma char_events_read_takes_witness:
  "\<exists>w'. char_events_read (env0\<lparr>copy_fails := (\<lambda>_. 4)\<rparr>) \<lparr>c_act = (\<lambda>_ s. Some s), c_sig = (\<lambda>_. False), c_wb = (\<lambda>_. 0),
      c_late = (\<lambda>_. False), c_res = (\<lambda>_. [])\<rparr> 0x1000 4 0 \<lparr>events_irq = 1, events_locked = False\<rparr> world1
      = Some (4, \<lparr>events_irq = 0, events_locked = False\<rparr>, w') \<and> trace w' = []"
  using char_events_read_takes [of "\<lparr>events_irq = 1, events_locked = False\<rparr>" 0 "env0\<lparr>copy_fails := (\<lambda>_. 4)\<rparr>"
      "\<lparr>c_act = (\<lambda>_ s. Some s), c_sig = (\<lambda>_. False), c_wb = (\<lambda>_. 0), c_late = (\<lambda>_. False), c_res = (\<lambda>_. [])\<rparr>"
      "0x1000" world1]
  by simp

subsection \<open>Mapping a BAR\<close>

text \<open>C26: \<open>mmap\<close> of a BAR: for a page offset inside the BAR the mapping is refused unless it ends inside
  the BAR, and what is mapped starts at that offset; for an offset beyond the BAR the size that is
  left wraps around, and the mapping is granted whatever its length.\<close>

theorem bridge_mmap_bounds:
  assumes "file_char lro sl = Some c" "b = nat (c_bar c)" "vm_start \<le> vm_end" "bar_start env b \<le> bar_end env b"
    and "unat vm_pgoff < 2 ^ 52" "off = unat vm_pgoff * 4096" "sz = unat (bar_end env b) - unat (bar_start env b) + 1"
    and "sz < 2 ^ 63" "unat vm_end - unat vm_start < 2 ^ 63" "off < 2 ^ 63"
  shows "bridge_mmap env lro sl vm_start vm_end vm_pgoff w =
    (if off \<le> sz \<and> off + (unat vm_end - unat vm_start) > sz then Some (- EINVAL, w)
     else (let (rc, w) = svc_call env (SvcRemapPfn vm_start
                 (drop_bit 12 (bar_start env b + push_bit 12 vm_pgoff)) (vm_end - vm_start)) w
           in Some (if rc \<noteq> 0 then - EAGAIN else 0, w)))"
proof -
  have o: "unat (push_bit 12 vm_pgoff) = off" using assms(5,6) by (subst unat_push_bit_small) simp_all
  have v: "unat (vm_end - vm_start) = unat vm_end - unat vm_start" using assms(3) by (rule unat_sub_le)
  have d: "unat (bar_end env b - bar_start env b) = unat (bar_end env b) - unat (bar_start env b)"
    using assms(4) by (rule unat_sub_le)
  have s: "unat (bar_end env b - bar_start env b + 1) = sz"
    using unat_add_small [of "bar_end env b - bar_start env b" 1] assms(7,8) by (simp add: d)
  have "vm_end - vm_start > bar_end env b - bar_start env b + 1 - push_bit 12 vm_pgoff
      \<longleftrightarrow> off \<le> sz \<and> off + (unat vm_end - unat vm_start) > sz"
  proof (cases "off \<le> sz")
    case True
    have "unat (bar_end env b - bar_start env b + 1 - push_bit 12 vm_pgoff) = sz - off"
      using True by (subst unat_sub_le) (simp_all add: word_le_nat_alt s o)
    then show ?thesis using True by (auto simp: word_less_nat_alt v)
  next
    case False
    let ?x = "bar_end env b - bar_start env b + 1" and ?y = "push_bit 12 vm_pgoff"
    have "unat (?x - ?y) = unat ?x + 2 ^ 64 - unat ?y"
      using False unat_sub_if' [of ?x ?y] by (simp add: s o not_le)
    then have "unat (?x - ?y) \<ge> 2 ^ 63" using assms(10) by (simp add: s o)
    then show ?thesis using False assms(9) by (simp add: word_less_nat_alt v not_less)
  qed
  then show ?thesis
    by (simp add: bridge_mmap_def assms(1) assms(2) [symmetric] PAGE_SHIFT_def Let_def split: prod.splits)
qed

lemma bridge_mmap_bounds_witness:
  "\<exists>w. bridge_mmap (env0\<lparr>bar_end := (\<lambda>_. 0xffff)\<rparr>)
     (dev0\<lparr>char_heap := [SlotUser \<mapsto> \<lparr>c_magic = MAGIC_CHAR, c_major = 240, c_minor = 0, c_bar = 0, c_engine = None,
        c_user_irq = None, sys_device = True\<rparr>]\<rparr>) SlotUser 0x7f0000 0x7f1000 0x20 world1 = Some (0, w)"
  (is "\<exists>w. bridge_mmap ?env (dev0\<lparr>char_heap := [SlotUser \<mapsto> ?c]\<rparr>) _ _ _ _ _ = _")
proof -
  have "file_char (dev0\<lparr>char_heap := [SlotUser \<mapsto> ?c]\<rparr>) SlotUser = Some ?c" by (simp add: file_char_def dev0_def)
  moreover have "bar_start ?env 0 = 0" "bar_end ?env 0 = 0xffff" by (simp_all add: env0_def)
  ultimately show ?thesis
    using bridge_mmap_bounds [of "dev0\<lparr>char_heap := [SlotUser \<mapsto> ?c]\<rparr>" SlotUser ?c 0 "0x7f0000" "0x7f1000" ?env "0x20"
        "0x20000" "0x10000" world1]
    by (simp add: svc_call_def env0_def Let_def)
qed

end
