(* ===== verification/Interfaces.thy ===== *)
theory Interfaces
  imports Device_Account Chardev
begin

section \<open>Device nodes, probing and removal\<close>

text \<open>
  The character device nodes of a card, and the driver's entry points \<open>probe\<close>, \<open>remove\<close>,
  \<open>xdma_init\<close> and \<open>xdma_exit\<close>. The globals of the module are a \<open>gstate\<close>. A character
  device is a heap object behind one of the pointers of \<open>struct xdma_dev\<close>, named by its
  \<open>char_slot\<close>.
\<close>

subsection \<open>Globals and names\<close>

definition MAX_XDMA_DEVICES :: nat where "MAX_XDMA_DEVICES = 64"
definition XDMA_MINOR_COUNT :: nat where "XDMA_MINOR_COUNT = 255"

record gstate =
  g_xdma_class :: bool
  g_major :: nat
  dev_present :: "nat \<Rightarrow> bool"

text \<open>The \<open>%d\<close> of a number that is not negative.\<close>

fun dec :: "nat \<Rightarrow> string" where
  "dec n = (if n < 10 then [char_of (48 + n)] else dec (n div 10) @ [char_of (48 + n mod 10)])"

declare dec.simps [simp del]

definition devnode_name :: "chardev_type \<Rightarrow> nat \<Rightarrow> nat \<Rightarrow> string" where
  "devnode_name type inst k = ''xdma'' @ dec inst @ (case type of
     CHAR_USER \<Rightarrow> ''_user''
   | CHAR_CTRL \<Rightarrow> ''_control''
   | CHAR_EVENTS \<Rightarrow> ''_events_'' @ dec k
   | CHAR_XDMA_H2C \<Rightarrow> ''_h2c_'' @ dec k
   | CHAR_XDMA_C2H \<Rightarrow> ''_c2h_'' @ dec k
   | CHAR_BYPASS_H2C \<Rightarrow> ''_bypass_h2c_'' @ dec k
   | CHAR_BYPASS_C2H \<Rightarrow> ''_bypass_c2h_'' @ dec k
   | CHAR_BYPASS \<Rightarrow> ''_bypass'')"

text \<open>A dynamic major number that cannot be allocated reads as 0, since the return value is only
  logged.\<close>

definition gen_dev_major :: "kenv \<Rightarrow> gstate \<Rightarrow> 'w kworld_scheme \<Rightarrow> nat \<times> gstate \<times> 'w kworld_scheme" where
  "gen_dev_major env g w =
    (if g_major g = 0 then
       (let (rc, w) = svc_call env SvcAllocChrdev w in (if rc < 0 then 0 else nat rc, g, w))
     else (g_major g, g\<lparr>g_major := g_major g - 1\<rparr>, w))"

fun chardev_index :: "chardev_type \<Rightarrow> int" where
  "chardev_index CHAR_USER = 0"
| "chardev_index CHAR_CTRL = 1"
| "chardev_index CHAR_EVENTS = 2"
| "chardev_index CHAR_XDMA_H2C = 3"
| "chardev_index CHAR_XDMA_C2H = 4"
| "chardev_index CHAR_BYPASS_H2C = 5"
| "chardev_index CHAR_BYPASS_C2H = 6"
| "chardev_index CHAR_BYPASS = 7"

definition gen_dev_minor :: "xdma_engine option \<Rightarrow> chardev_type \<Rightarrow> int \<Rightarrow> int option" where
  "gen_dev_minor me type event_id =
    (if type = CHAR_XDMA_H2C \<or> type = CHAR_XDMA_C2H then do {
       e \<leftarrow> me;
       bug_on (number_in_channel e \<ge> 2);
       let tmp = int (number_in_channel e) * 4;
       Some (32 + tmp + int (channel e)) }
     else if type = CHAR_BYPASS_H2C \<or> type = CHAR_BYPASS_C2H then do {
       e \<leftarrow> me;
       bug_on (number_in_channel e \<ge> 2);
       let tmp = int (number_in_channel e) * 4;
       Some (64 + tmp + int (channel e)) }
     else if type = CHAR_BYPASS then Some 100
     else if type = CHAR_EVENTS then Some (10 + event_id)
     else Some (chardev_index type))"

text \<open>The callback tables.\<close>

datatype fops = sg_polled_fops | sg_interrupt_fops | ctrl_fops | bypass_fops | events_fops

definition select_file_ops :: "kenv \<Rightarrow> chardev_type \<Rightarrow> fops option" where
  "select_file_ops env type = (case type of
     CHAR_XDMA_H2C \<Rightarrow> Some (if poll_mode env then sg_polled_fops else sg_interrupt_fops)
   | CHAR_XDMA_C2H \<Rightarrow> Some (if poll_mode env then sg_polled_fops else sg_interrupt_fops)
   | CHAR_USER \<Rightarrow> Some ctrl_fops
   | CHAR_CTRL \<Rightarrow> Some ctrl_fops
   | CHAR_EVENTS \<Rightarrow> Some events_fops
   | CHAR_BYPASS_H2C \<Rightarrow> Some bypass_fops
   | CHAR_BYPASS_C2H \<Rightarrow> Some bypass_fops
   | CHAR_BYPASS \<Rightarrow> Some bypass_fops)"

definition config_kobject ::
  "kenv \<Rightarrow> xdma_dev \<Rightarrow> xdma_engine option \<Rightarrow> xdma_char \<Rightarrow> chardev_type \<Rightarrow> 'w kworld_scheme
   \<Rightarrow> (int \<times> 'w kworld_scheme) option" where
  "config_kobject env lro me c type w =
    (if type \<in> {CHAR_XDMA_H2C, CHAR_XDMA_C2H, CHAR_BYPASS_H2C, CHAR_BYPASS_C2H} then do {
       e \<leftarrow> me;
       Some (svc_call env (SvcSetName (devnode_name type (d_instance lro) (channel e))) w) }
     else if type \<in> {CHAR_BYPASS, CHAR_USER, CHAR_CTRL} then
       Some (svc_call env (SvcSetName (devnode_name type (d_instance lro) 0)) w)
     else Some (svc_call env (SvcSetName (devnode_name type (d_instance lro) (nat (c_bar c)))) w))"

text \<open>\<open>device_create\<close> answers a pointer, which is only compared with NULL.\<close>

definition create_dev ::
  "kenv \<Rightarrow> xdma_dev \<Rightarrow> xdma_engine option \<Rightarrow> xdma_char \<Rightarrow> chardev_type \<Rightarrow> 'w kworld_scheme
   \<Rightarrow> int \<times> xdma_char \<times> 'w kworld_scheme" where
  "create_dev env lro me c type w =
    (let last_param = (if type = CHAR_EVENTS then nat (c_bar c)
                       else case me of None \<Rightarrow> 0 | Some e \<Rightarrow> channel e);
         (ptr, w) = svc_call env (SvcDeviceCreate (c_major c) (c_minor c)
                      (devnode_name type (d_instance lro) last_param)) w;
         c = c\<lparr>sys_device := ptr \<noteq> 0\<rparr>
     in (if \<not> sys_device c then - 1 else 0, c, w))"

text \<open>The search for a free instance. At the limit the code reads \<open>dev_present[64]\<close>, one behind
  the array, before it tests the index; whatever it reads, the search ends there.\<close>

function find_instance :: "(nat \<Rightarrow> bool) \<Rightarrow> nat \<Rightarrow> nat" where
  "find_instance p i = (if i < MAX_XDMA_DEVICES \<and> p i then find_instance p (i + 1) else i)"
  by pat_completeness auto
termination by (relation "measure (\<lambda>(p, i). MAX_XDMA_DEVICES - i)") auto

declare find_instance.simps [simp del]

text \<open>The registration half of \<open>create_sg_char\<close>, from the minor number on.\<close>

definition register_sg_char ::
  "kenv \<Rightarrow> char_slot \<Rightarrow> int \<Rightarrow> (nat \<times> nat) option \<Rightarrow> xdma_engine option \<Rightarrow> chardev_type \<Rightarrow> gstate \<Rightarrow> xdma_dev
   \<Rightarrow> 'w kworld_scheme \<Rightarrow> (xdma_char option \<times> 'w kworld_scheme) option" where
  "register_sg_char env sl bar ep me type g lro w = do {
     minor \<leftarrow> gen_dev_minor me type bar;
     let c = \<lparr>c_magic = MAGIC_CHAR, c_major = d_major lro, c_minor = nat minor, c_bar = bar, c_engine = ep,
              c_user_irq = (if type = CHAR_EVENTS then Some (nat bar) else None), sys_device = False\<rparr>;
     (rc, w) \<leftarrow> config_kobject env lro me c type w;
     if rc \<noteq> 0 then Some (None, kfree (ObjChar sl) w)
     else
       let (rc, w) = (if g_major g \<noteq> 0 then svc_call env (SvcRegisterChrdev (c_major c) (c_minor c)) w else (0, w))
       in if rc < 0 then Some (None, kfree (ObjChar sl) w)
       else
         let (rc, w) = svc_call env (SvcCdevAdd (c_major c) (c_minor c)) w
         in if rc < 0 then
              Some (None, kfree (ObjChar sl)
                (svc_void (SvcUnregisterChrdev (c_major c) (c_minor c) XDMA_MINOR_COUNT) w))
            else
              let (rc, c, w) = (if g_xdma_class g then create_dev env lro me c type w else (0, c, w))
              in if rc < 0 then
                   Some (None, kfree (ObjChar sl)
                     (svc_void (SvcUnregisterChrdev (c_major c) (c_minor c) XDMA_MINOR_COUNT)
                       (svc_void (SvcCdevDel (c_major c) (c_minor c)) w)))
                 else Some (Some c, w) }"

text \<open>\<open>sl\<close> is the pointer the caller stores the result in.\<close>

definition create_sg_char ::
  "kenv \<Rightarrow> char_slot \<Rightarrow> int \<Rightarrow> (nat \<times> nat) option \<Rightarrow> chardev_type \<Rightarrow> gstate \<Rightarrow> xdma_dev \<Rightarrow> 'w kworld_scheme
   \<Rightarrow> (xdma_char option \<times> gstate \<times> xdma_dev \<times> 'w kworld_scheme) option" where
  "create_sg_char env sl bar ep type g lro w = (case kalloc env (ObjChar sl) w of
     (False, w) \<Rightarrow> Some (None, g, lro, w)
   | (True, w) \<Rightarrow> do {
       me \<leftarrow> (case ep of None \<Rightarrow> Some None
               | Some p \<Rightarrow> (case eng_heap lro p of None \<Rightarrow> None | Some e \<Rightarrow> Some (Some e)));
       let i = find_instance (dev_present g) 0;
       if d_major lro = 0 \<and> i = MAX_XDMA_DEVICES then Some (None, g, lro, kfree (ObjChar sl) w)
       else
         let (g, lro, w) = (if d_major lro = 0 then
               (let g = g\<lparr>dev_present := (dev_present g)(i := True)\<rparr>;
                    (m, g, w) = gen_dev_major env g w
                in (g, lro\<lparr>d_instance := i, d_major := m\<rparr>, w))
               else (g, lro, w))
         in do {
           (mc, w) \<leftarrow> register_sg_char env sl bar ep me type g lro w;
           Some (mc, g, lro, w) } })"

definition destroy_sg_char ::
  "gstate \<Rightarrow> char_slot \<Rightarrow> xdma_dev \<Rightarrow> 'w kworld_scheme \<Rightarrow> (xdma_dev \<times> 'w kworld_scheme) option" where
  "destroy_sg_char g sl lro w = do {
     c \<leftarrow> char_heap lro sl;
     bug_on (c_magic c \<noteq> MAGIC_CHAR);
     bug_on (\<not> g_xdma_class g);
     bug_on (\<not> sys_device c);
     let w = svc_void (SvcDeviceDestroy (c_major c) (c_minor c)) w;
     let w = svc_void (SvcCdevDel (c_major c) (c_minor c)) w;
     let w = svc_void (SvcUnregisterChrdev (c_major c) (c_minor c) 1) w;
     let w = kfree (ObjChar sl) w;
     Some (lro\<lparr>char_heap := (char_heap lro)(sl := None)\<rparr>, w) }"

subsection \<open>The interfaces of a card\<close>

text \<open>The result of \<open>create_sg_char\<close> goes into the pointer \<open>sl\<close>.\<close>

definition set_char :: "char_slot \<Rightarrow> xdma_char option \<Rightarrow> xdma_dev \<Rightarrow> xdma_dev" where
  "set_char sl mc lro = (case mc of
     None \<Rightarrow> lro\<lparr>char_ptr := (char_ptr lro)(sl := False)\<rparr>
   | Some c \<Rightarrow> lro\<lparr>char_ptr := (char_ptr lro)(sl := True), char_heap := (char_heap lro)(sl \<mapsto> c)\<rparr>)"

definition new_char ::
  "kenv \<Rightarrow> char_slot \<Rightarrow> int \<Rightarrow> (nat \<times> nat) option \<Rightarrow> chardev_type \<Rightarrow> gstate \<Rightarrow> xdma_dev \<Rightarrow> 'w kworld_scheme
   \<Rightarrow> (bool \<times> gstate \<times> xdma_dev \<times> 'w kworld_scheme) option" where
  "new_char env sl bar ep type g lro w = do {
     (mc, g, lro, w) \<leftarrow> create_sg_char env sl bar ep type g lro w;
     Some (mc \<noteq> None, g, set_char sl mc lro, w) }"

definition create_engine_interface ::
  "kenv \<Rightarrow> nat \<Rightarrow> nat \<Rightarrow> gstate \<Rightarrow> xdma_dev \<Rightarrow> 'w kworld_scheme
   \<Rightarrow> (int \<times> gstate \<times> xdma_dev \<times> 'w kworld_scheme) option" where
  "create_engine_interface env ch dir_from_dev g lro w = do {
     (ok, g, lro, w) \<leftarrow> new_char env (SlotSgdma ch dir_from_dev) (- 1) (Some (ch, dir_from_dev))
        (if dir_from_dev = 0 then CHAR_XDMA_H2C else CHAR_XDMA_C2H) g lro w;
     Some (if ok then 0 else - 1, g, lro, w) }"

definition create_bypass_interface ::
  "kenv \<Rightarrow> nat \<Rightarrow> nat \<Rightarrow> gstate \<Rightarrow> xdma_dev \<Rightarrow> 'w kworld_scheme
   \<Rightarrow> (int \<times> gstate \<times> xdma_dev \<times> 'w kworld_scheme) option" where
  "create_bypass_interface env ch dir_from_dev g lro w = do {
     (ok, g, lro, w) \<leftarrow> new_char env (SlotBypass ch dir_from_dev) (bypass_bar_idx lro) (Some (ch, dir_from_dev))
        (if dir_from_dev = 0 then CHAR_BYPASS_H2C else CHAR_BYPASS_C2H) g lro w;
     Some (if ok then 0 else - 1, g, lro, w) }"

text \<open>One step of \<open>create_interfaces\<close>, named by the pointer it fills; a result other than 0 goes to
  \<open>fail\<close>. The check of an events device tests the array and never fails; the bypass base
  device is not checked.\<close>

fun create_interface ::
  "kenv \<Rightarrow> char_slot \<Rightarrow> gstate \<Rightarrow> xdma_dev \<Rightarrow> 'w kworld_scheme
   \<Rightarrow> (int \<times> gstate \<times> xdma_dev \<times> 'w kworld_scheme) option" where
  "create_interface env SlotUser g lro w =
     (if user_bar_idx lro < 0 then Some (0, g, set_char SlotUser None lro, w)
      else do {
        (ok, g, lro, w) \<leftarrow> new_char env SlotUser (user_bar_idx lro) None CHAR_USER g lro w;
        Some (if ok then 0 else - 1, g, lro, w) })"
| "create_interface env SlotCtrl g lro w = do {
     (ok, g, lro, w) \<leftarrow> new_char env SlotCtrl (config_bar_idx lro) None CHAR_CTRL g lro w;
     Some (if ok then 0 else - 1, g, lro, w) }"
| "create_interface env (SlotEvents i) g lro w = do {
     (_, g, lro, w) \<leftarrow> new_char env (SlotEvents i) (int i) None CHAR_EVENTS g lro w;
     Some (0, g, lro, w) }"
| "create_interface env (SlotSgdma ch d) g lro w =
     (if eng_ptr lro (ch, d) then create_engine_interface env ch d g lro w else Some (0, g, lro, w))"
| "create_interface env (SlotBypass ch d) g lro w =
     (if eng_ptr lro (ch, d) \<and> bypass_bar_idx lro \<ge> 0 then create_bypass_interface env ch d g lro w
      else Some (0, g, lro, w))"
| "create_interface env SlotBypassBase g lro w =
     (if bypass_bar_idx lro < 0 then Some (0, g, set_char SlotBypassBase None lro, w)
      else do {
        (_, g, lro, w) \<leftarrow> new_char env SlotBypassBase (bypass_bar_idx lro) None CHAR_BYPASS g lro w;
        Some (0, g, lro, w) })"

definition create_order :: "char_slot list" where
  "create_order = [SlotUser, SlotCtrl] @ map SlotEvents [0..<MAX_USER_IRQ]
     @ map (\<lambda>ch. SlotSgdma ch 0) [0..<XDMA_CHANNEL_NUM_MAX] @ map (\<lambda>ch. SlotSgdma ch 1) [0..<XDMA_CHANNEL_NUM_MAX]
     @ map (\<lambda>ch. SlotBypass ch 0) [0..<XDMA_CHANNEL_NUM_MAX] @ map (\<lambda>ch. SlotBypass ch 1) [0..<XDMA_CHANNEL_NUM_MAX]
     @ [SlotBypassBase]"

fun create_loop ::
  "kenv \<Rightarrow> char_slot list \<Rightarrow> gstate \<Rightarrow> xdma_dev \<Rightarrow> 'w kworld_scheme
   \<Rightarrow> (int \<times> gstate \<times> xdma_dev \<times> 'w kworld_scheme) option" where
  "create_loop env [] g lro w = Some (0, g, lro, w)"
| "create_loop env (sl # sls) g lro w = do {
     (rc, g, lro, w) \<leftarrow> create_interface env sl g lro w;
     if rc \<noteq> 0 then Some (rc, g, lro, w) else create_loop env sls g lro w }"

definition destroy_order :: "char_slot list" where
  "destroy_order = concat (map (\<lambda>ch. [SlotSgdma ch 0, SlotSgdma ch 1, SlotBypass ch 0, SlotBypass ch 1])
       [0..<XDMA_CHANNEL_NUM_MAX])
     @ [SlotBypassBase] @ map SlotEvents [0..<MAX_USER_IRQ] @ [SlotCtrl, SlotUser]"

fun destroy_loop ::
  "gstate \<Rightarrow> char_slot list \<Rightarrow> xdma_dev \<Rightarrow> 'w kworld_scheme \<Rightarrow> (xdma_dev \<times> 'w kworld_scheme) option" where
  "destroy_loop g [] lro w = Some (lro, w)"
| "destroy_loop g (sl # sls) lro w = do {
     (lro, w) \<leftarrow> (if char_ptr lro sl then destroy_sg_char g sl lro w else Some (lro, w));
     destroy_loop g sls lro w }"

definition destroy_interfaces ::
  "gstate \<Rightarrow> xdma_dev \<Rightarrow> 'w kworld_scheme \<Rightarrow> (xdma_dev \<times> 'w kworld_scheme) option" where
  "destroy_interfaces g lro w = destroy_loop g destroy_order lro w"

definition create_interfaces ::
  "kenv \<Rightarrow> gstate \<Rightarrow> xdma_dev \<Rightarrow> 'w kworld_scheme
   \<Rightarrow> (int \<times> gstate \<times> xdma_dev \<times> 'w kworld_scheme) option" where
  "create_interfaces env g lro w = do {
     (rc, g, lro, w) \<leftarrow> create_loop env create_order g lro w;
     if rc \<noteq> 0 then do {
       (lro, w) \<leftarrow> destroy_interfaces g lro w;
       Some (- 1, g, lro, w) }
     else Some (0, g, lro, w) }"

subsection \<open>The failure path of probe\<close>

text \<open>The labels of \<open>probe\<close>, from the last to the first; every label falls through to the
  next.\<close>

definition probe_disable_msi :: "xdma_dev \<Rightarrow> 'w kworld_scheme \<Rightarrow> 'w kworld_scheme" where
  "probe_disable_msi lro w =
    (let w = (if msix_enabled lro then svc_void SvcDisableMsix w
              else if msi_enabled lro then svc_void SvcDisableMsi w else w);
         w = (if \<not> regions_in_use lro then svc_void SvcDisableDevice w else w)
     in kfree ObjDev w)"

definition probe_rel_region :: "xdma_dev \<Rightarrow> 'w kworld_scheme \<Rightarrow> 'w kworld_scheme" where
  "probe_rel_region lro w =
     probe_disable_msi lro (if got_regions lro then svc_void SvcReleaseRegions w else w)"

definition probe_unmap_bar :: "xdma_dev \<Rightarrow> 'w kworld_scheme \<Rightarrow> 'w kworld_scheme" where
  "probe_unmap_bar lro w = (let (lro, w) = unmap_bars lro w in probe_rel_region lro w)"

definition probe_disable_irq :: "kenv \<Rightarrow> xdma_dev \<Rightarrow> 'w kworld_scheme \<Rightarrow> 'w kworld_scheme" where
  "probe_disable_irq env lro w = probe_unmap_bar lro (irq_teardown env lro w)"

definition probe_rmv_engine :: "kenv \<Rightarrow> xdma_dev \<Rightarrow> 'w kworld_scheme \<Rightarrow> 'w kworld_scheme option" where
  "probe_rmv_engine env lro w = do {
     (lro, w) \<leftarrow> remove_engines env lro w;
     Some (probe_disable_irq env lro w) }"

definition probe_rmv_interface :: "kenv \<Rightarrow> gstate \<Rightarrow> xdma_dev \<Rightarrow> 'w kworld_scheme \<Rightarrow> 'w kworld_scheme option" where
  "probe_rmv_interface env g lro w = do {
     (lro, w) \<leftarrow> destroy_interfaces g lro w;
     probe_rmv_engine env lro w }"

definition probe_rmv_cdev ::
  "kenv \<Rightarrow> gstate \<Rightarrow> xdma_dev \<Rightarrow> 'w kworld_scheme \<Rightarrow> (gstate \<times> 'w kworld_scheme) option" where
  "probe_rmv_cdev env g lro w = do {
     let g = g\<lparr>dev_present := (dev_present g)(d_instance lro := False)\<rparr>;
     let w = svc_void SvcRemoveFile w;
     w \<leftarrow> probe_rmv_interface env g lro w;
     Some (g, w) }"

subsection \<open>Probe and remove\<close>

definition enable_pcie_relaxed_ordering :: "'w kworld_scheme \<Rightarrow> 'w kworld_scheme" where
  "enable_pcie_relaxed_ordering w = svc_void SvcRelaxedOrdering w"

text \<open>From the interrupt set-up on: the device works with a known configuration BAR. The result is
  the return value, the globals, the device if it is bound, and the world.\<close>

definition probe_engines_up ::
  "kenv \<Rightarrow> gstate \<Rightarrow> xdma_dev \<Rightarrow> addr \<Rightarrow> 'w world_scheme
   \<Rightarrow> (int \<times> gstate \<times> xdma_dev option \<times> 'w world_scheme) option" where
  "probe_engines_up env g lro cfg w = do {
     let (v, w) = read_register env cfg w;
     let stream = (if bits_set v 0x8000 then 1 else 0);
     let w = (if enable_credit_mp env AND stream \<noteq> 0 then enable_credit_feature cfg w else w);
     (rc, lro, w) \<leftarrow> probe_engines env lro w;
     if rc \<noteq> 0 then do {
       w \<leftarrow> probe_rmv_engine env lro w;
       Some (- 1, g, None, w) }
     else do {
       (rc, g, lro, w) \<leftarrow> create_interfaces env g lro w;
       if rc \<noteq> 0 then do {
         w \<leftarrow> probe_rmv_interface env g lro w;
         Some (- 1, g, None, w) }
       else do {
         let w = user_interrupts_enable cfg (- 1) w;
         let w = (if \<not> poll_mode env then channel_interrupts_enable cfg (- 1) w else w);
         let (_, w) = read_interrupts env cfg w;
         let (rc, w) = svc_call env SvcCreateFile w;
         if rc \<noteq> 0 then do {
           (g, w) \<leftarrow> probe_rmv_cdev env g lro w;
           Some (- 1, g, None, w) }
         else Some (0, g, Some lro, w) } } }"

definition probe ::
  "kenv \<Rightarrow> gstate \<Rightarrow> 'w world_scheme \<Rightarrow> (int \<times> gstate \<times> xdma_dev option \<times> 'w world_scheme) option" where
  "probe env g w = (case alloc_dev_instance env w of
     (None, w) \<Rightarrow> Some (- ENOMEM, g, None, w)
   | (Some lro, w) \<Rightarrow>
       (let (rc, w) = svc_call env SvcEnableDevice w in
        if rc \<noteq> 0 then Some (- 1, g, None, kfree ObjDev w)
        else
          let w = enable_pcie_relaxed_ordering w;
              w = svc_void SvcSetMaster w;
              (rc, lro, w) = probe_scan_for_msi env lro w
          in if rc < 0 then Some (- 1, g, None, probe_disable_msi lro w)
          else let (rc, lro, w) = request_regions env lro w
          in if rc \<noteq> 0 then Some (- 1, g, None, probe_rel_region lro w)
          else let (rc, lro, w) = map_bars env lro w
          in if rc \<noteq> 0 then Some (- 1, g, None, probe_unmap_bar lro w)
          else let w = pcie_check_extended_tag env lro w;
                   (rc, w) = set_dma_mask env w
          in if rc \<noteq> 0 then Some (- 1, g, None, probe_unmap_bar lro w)
          else do {
            (rc, lro, w) \<leftarrow> irq_setup env lro w;
            if rc \<noteq> 0 then Some (- 1, g, None, probe_disable_irq env lro w)
            else do {
              cfg \<leftarrow> config_base lro;
              probe_engines_up env g lro cfg w } }))"

text \<open>\<open>remove\<close> of the device behind \<open>drvdata\<close>, if there is one.\<close>

definition remove_dev ::
  "kenv \<Rightarrow> gstate \<Rightarrow> xdma_dev option \<Rightarrow> 'w kworld_scheme \<Rightarrow> (gstate \<times> 'w kworld_scheme) option" where
  "remove_dev env g drvdata w = (case drvdata of None \<Rightarrow> Some (g, w) | Some lro \<Rightarrow> do {
     cfg \<leftarrow> config_base lro;
     let w = channel_interrupts_disable cfg (- 1) w;
     let w = user_interrupts_disable cfg (- 1) w;
     let (_, w) = read_interrupts env cfg w;
     (lro, w) \<leftarrow> destroy_interfaces g lro w;
     (lro, w) \<leftarrow> remove_engines env lro w;
     let w = irq_teardown env lro w;
     let (lro, w) = unmap_bars lro w;
     let w = (if got_regions lro then svc_void SvcReleaseRegions w else w);
     let w = (if msix_enabled lro then svc_void SvcDisableMsix w
              else if msi_enabled lro then svc_void SvcDisableMsi w else w);
     let w = (if \<not> regions_in_use lro then svc_void SvcDisableDevice w else w);
     let g = g\<lparr>dev_present := (dev_present g)(d_instance lro := False)\<rparr>;
     let w = svc_void SvcRemoveFile w;
     Some (g, kfree ObjDev w) })"

subsection \<open>Loading and unloading the module\<close>

text \<open>\<open>pci_register_driver\<close> probes the cards that are present, one environment each; the
  result has the devices that were bound.\<close>

fun probe_all ::
  "kenv list \<Rightarrow> gstate \<Rightarrow> 'w world_scheme \<Rightarrow> (gstate \<times> xdma_dev list \<times> 'w world_scheme) option" where
  "probe_all [] g w = Some (g, [], w)"
| "probe_all (env # envs) g w = do {
     (_, g, bound, w) \<leftarrow> probe env g w;
     (g, lros, w) \<leftarrow> probe_all envs g w;
     Some (g, (case bound of None \<Rightarrow> lros | Some lro \<Rightarrow> lro # lros), w) }"

definition xdma_init ::
  "kenv \<Rightarrow> kenv list \<Rightarrow> gstate \<Rightarrow> 'w world_scheme \<Rightarrow> (int \<times> gstate \<times> xdma_dev list \<times> 'w world_scheme) option" where
  "xdma_init env cards g w =
    (let (ptr, w) = svc_call env SvcClassCreate w;
         g = g\<lparr>g_xdma_class := (ptr \<noteq> 0)\<rparr>
     in if ptr < 0 then Some (- 1, g, [], w)
        else let (rc, w) = svc_call env SvcRegisterDriver w in do {
          (g, lros, w) \<leftarrow> (if rc = 0 then probe_all cards g w else Some (g, [], w));
          let g = g\<lparr>dev_present := (\<lambda>i. if i < MAX_XDMA_DEVICES then False else dev_present g i)\<rparr>;
          Some (rc, g, lros, w) })"

definition xdma_exit :: "gstate \<Rightarrow> 'w kworld_scheme \<Rightarrow> 'w kworld_scheme" where
  "xdma_exit g w =
    (let w = svc_void SvcUnregisterDriver w
     in if g_xdma_class g then svc_void SvcClassDestroy w else w)"

subsection \<open>Accounts of the character devices\<close>

lemma svc_void_quiet [simp]:
  "obj_net (trace (svc_void c w)) = obj_net (trace w)" "irq_net (trace (svc_void c w)) = irq_net (trace w)"
  by (simp_all add: svc_void_def)

definition same_nets :: "'w kworld_scheme \<Rightarrow> 'w kworld_scheme \<Rightarrow> bool" where
  "same_nets w w' \<longleftrightarrow> obj_net (trace w') = obj_net (trace w) \<and> irq_net (trace w') = irq_net (trace w)"

lemma svc_call_nets: "svc_call env c w = (rc, w') \<Longrightarrow> same_nets w w'"
  using svc_call_quiet [of env c w] by (simp add: same_nets_def)

lemma gen_dev_major_run:
  "gen_dev_major env g w = (m, g', w') \<Longrightarrow> same_nets w w' \<and> g_xdma_class g' = g_xdma_class g
     \<and> dev_present g' = dev_present g"
  by (auto simp: gen_dev_major_def same_nets_def svc_call_def Let_def split: if_splits)

lemma config_kobject_run:
  "(type \<in> {CHAR_XDMA_H2C, CHAR_XDMA_C2H, CHAR_BYPASS_H2C, CHAR_BYPASS_C2H} \<Longrightarrow> me \<noteq> None)
    \<Longrightarrow> \<exists>rc w'. config_kobject env lro me c type w = Some (rc, w') \<and> same_nets w w'"
  by (auto simp: config_kobject_def same_nets_def svc_call_def Let_def)

lemma create_dev_run:
  "create_dev env lro me c type w = (rc, c', w') \<Longrightarrow> same_nets w w' \<and> c_magic c' = c_magic c
     \<and> (rc \<ge> 0 \<longleftrightarrow> sys_device c') \<and> c_major c' = c_major c \<and> c_minor c' = c_minor c"
  by (auto simp: create_dev_def same_nets_def svc_call_def Let_def split: if_splits)

definition sgtype :: "chardev_type \<Rightarrow> bool" where
  "sgtype type \<longleftrightarrow> type \<in> {CHAR_XDMA_H2C, CHAR_XDMA_C2H, CHAR_BYPASS_H2C, CHAR_BYPASS_C2H}"

lemma gen_dev_minor_some:
  "(sgtype type \<Longrightarrow> \<exists>e. me = Some e \<and> number_in_channel e < 2) \<Longrightarrow> \<exists>m. gen_dev_minor me type ev = Some m"
  by (auto simp: gen_dev_minor_def sgtype_def not_less)

text \<open>Registering a device keeps the account: the object allocated before is either returned, live
  and valid, or freed.\<close>

lemma register_sg_char_run:
  assumes "sgtype type \<Longrightarrow> \<exists>e. me = Some e \<and> number_in_channel e < 2" "g_xdma_class g"
  shows "\<exists>mc w'. register_sg_char env sl bar ep me type g lro w = Some (mc, w') \<and> irq_net (trace w') = irq_net (trace w)
    \<and> (case mc of None \<Rightarrow> obj_net (trace w') = (\<lambda>ob. obj_net (trace w) ob - of_bool (ob = ObjChar sl))
       | Some c \<Rightarrow> obj_net (trace w') = obj_net (trace w) \<and> c_magic c = MAGIC_CHAR \<and> sys_device c)"
proof -
  obtain m where m: "gen_dev_minor me type bar = Some m" using gen_dev_minor_some assms(1) by blast
  define c where "c = \<lparr>c_magic = MAGIC_CHAR, c_major = d_major lro, c_minor = nat m, c_bar = bar, c_engine = ep,
              c_user_irq = (if type = CHAR_EVENTS then Some (nat bar) else None), sys_device = False\<rparr>"
  have "type \<in> {CHAR_XDMA_H2C, CHAR_XDMA_C2H, CHAR_BYPASS_H2C, CHAR_BYPASS_C2H} \<Longrightarrow> me \<noteq> None"
    using assms(1) by (auto simp: sgtype_def)
  from config_kobject_run [OF this, where env = env and lro = lro and c = c and w = w]
  obtain rc1 w1 where k: "config_kobject env lro me c type w = Some (rc1, w1)" "same_nets w w1" by blast
  obtain rc2 w2 where r: "(if g_major g \<noteq> 0 then svc_call env (SvcRegisterChrdev (c_major c) (c_minor c)) w1 else (0, w1))
      = (rc2, w2)" by fastforce
  have r2: "same_nets w1 w2"
  proof (cases "g_major g = 0")
    case True then show ?thesis using r by (simp add: same_nets_def)
  next
    case False then show ?thesis using r by (intro svc_call_nets) simp
  qed
  obtain rc3 w3 where a: "svc_call env (SvcCdevAdd (c_major c) (c_minor c)) w2 = (rc3, w3)" by fastforce
  note a2 = svc_call_nets [OF a]
  obtain rc4 c4 w4 where d: "create_dev env lro me c type w3 = (rc4, c4, w4)" by (cases "create_dev env lro me c type w3")
  note d2 = create_dev_run [OF d]
  have nets: "same_nets w w1" "same_nets w w2" "same_nets w w3" "same_nets w w4"
    using k(2) r2 a2 d2 by (auto simp: same_nets_def)
  have cm: "c_magic c = MAGIC_CHAR" by (simp add: c_def)
  have eq: "register_sg_char env sl bar ep me type g lro w =
    (if rc1 \<noteq> 0 then Some (None, kfree (ObjChar sl) w1)
     else if rc2 < 0 then Some (None, kfree (ObjChar sl) w2)
     else if rc3 < 0 then Some (None, kfree (ObjChar sl)
       (svc_void (SvcUnregisterChrdev (c_major c) (c_minor c) XDMA_MINOR_COUNT) w3))
     else if rc4 < 0 then Some (None, kfree (ObjChar sl)
       (svc_void (SvcUnregisterChrdev (c_major c4) (c_minor c4) XDMA_MINOR_COUNT)
         (svc_void (SvcCdevDel (c_major c4) (c_minor c4)) w4)))
     else Some (Some c4, w4))"
    unfolding register_sg_char_def m Option.bind.simps(2) Let_def c_def [symmetric] k(1) prod.case r a
    using assms(2) d by simp
  show ?thesis unfolding eq using nets d2 cm
    by (auto simp: same_nets_def fun_eq_iff not_less)
qed

text \<open>\<open>create_sg_char\<close> changes nothing of the device but its number.\<close>

definition number_only :: "xdma_dev \<Rightarrow> xdma_dev \<Rightarrow> bool" where
  "number_only lro lro' \<longleftrightarrow> (\<exists>i m. lro' = lro\<lparr>d_instance := i, d_major := m\<rparr>)"

lemma number_only_refl [simp]: "number_only lro lro"
  unfolding number_only_def by (intro exI [of _ "d_instance lro"] exI [of _ "d_major lro"]) simp

lemma create_sg_char_run:
  assumes "case ep of None \<Rightarrow> \<not> sgtype type | Some p \<Rightarrow> \<exists>e. eng_heap lro p = Some e \<and> number_in_channel e < 2"
    and "g_xdma_class g"
  shows "\<exists>mc g' lro' w'. create_sg_char env sl bar ep type g lro w = Some (mc, g', lro', w')
    \<and> irq_net (trace w') = irq_net (trace w) \<and> g_xdma_class g' \<and> number_only lro lro'
    \<and> (case mc of None \<Rightarrow> obj_net (trace w') = obj_net (trace w)
       | Some c \<Rightarrow> obj_net (trace w') = (\<lambda>ob. obj_net (trace w) ob + of_bool (ob = ObjChar sl))
           \<and> c_magic c = MAGIC_CHAR \<and> sys_device c)"
proof (cases "mem_ok env (trace w) (ObjChar sl)")
  case False
  then show ?thesis using assms(2) by (simp add: create_sg_char_def kalloc_def)
next
  case True
  let ?w1 = "emit (Alloc (ObjChar sl)) w" and ?i = "find_instance (dev_present g) 0"
  have al: "kalloc env (ObjChar sl) w = (True, ?w1)" using True by (simp add: kalloc_def)
  obtain me where me: "(case ep of None \<Rightarrow> Some None
      | Some p \<Rightarrow> (case eng_heap lro p of None \<Rightarrow> None | Some e \<Rightarrow> Some (Some e))) = Some me"
    and sg: "sgtype type \<Longrightarrow> \<exists>e. me = Some e \<and> number_in_channel e < 2"
    using assms(1) by (cases ep) auto
  show ?thesis
  proof (cases "d_major lro = 0 \<and> ?i = MAX_XDMA_DEVICES")
    case True
    then show ?thesis using al me assms(2) by (simp add: create_sg_char_def Let_def fun_eq_iff)
  next
    case False
    obtain g2 lro2 w2 where n: "(if d_major lro = 0 then
               (let g = g\<lparr>dev_present := (dev_present g)(?i := True)\<rparr>;
                    (m, g, w) = gen_dev_major env g ?w1
                in (g, lro\<lparr>d_instance := ?i, d_major := m\<rparr>, w))
               else (g, lro, ?w1)) = (g2, lro2, w2)" by (metis prod_cases3)
    have n2: "same_nets ?w1 w2" "g_xdma_class g2" "number_only lro lro2"
    proof -
      let ?g = "g\<lparr>dev_present := (dev_present g)(?i := True)\<rparr>"
      obtain m g3 w3 where m: "gen_dev_major env ?g ?w1 = (m, g3, w3)" by (cases "gen_dev_major env ?g ?w1")
      note m2 = gen_dev_major_run [OF m]
      have "number_only lro (lro\<lparr>d_instance := ?i, d_major := m\<rparr>)" unfolding number_only_def by blast
      with n m m2 assms(2) have "same_nets ?w1 w2 \<and> g_xdma_class g2 \<and> number_only lro lro2"
        by (cases "d_major lro = 0") (auto simp: Let_def same_nets_def)
      then show "same_nets ?w1 w2" "g_xdma_class g2" "number_only lro lro2" by simp_all
    qed
    from register_sg_char_run [OF sg n2(2), where env = env and sl = sl and bar = bar and ep = ep and lro = lro2 and w = w2]
    obtain mc w3 where r: "register_sg_char env sl bar ep me type g2 lro2 w2 = Some (mc, w3)"
      "irq_net (trace w3) = irq_net (trace w2)"
      "case mc of None \<Rightarrow> obj_net (trace w3) = (\<lambda>ob. obj_net (trace w2) ob - of_bool (ob = ObjChar sl))
       | Some c \<Rightarrow> obj_net (trace w3) = obj_net (trace w2) \<and> c_magic c = MAGIC_CHAR \<and> sys_device c" by blast
    have "create_sg_char env sl bar ep type g lro w = Some (mc, g2, lro2, w3)"
      unfolding create_sg_char_def al prod.case bool.case me Option.bind.simps(2) Let_def
        if_not_P [OF False] n [unfolded Let_def] r(1) by simp
    then show ?thesis using n2 r(2,3)
      by (cases mc) (auto simp: same_nets_def fun_eq_iff)
  qed
qed

definition chars_live :: "xdma_dev \<Rightarrow> bool" where
  "chars_live lro \<longleftrightarrow> (\<forall>sl. char_ptr lro sl \<longleftrightarrow> char_heap lro sl \<noteq> None)
     \<and> (\<forall>sl c. char_heap lro sl = Some c \<longrightarrow> sl \<in> set destroy_order \<and> c_magic c = MAGIC_CHAR \<and> sys_device c)"

definition chars_only :: "xdma_dev \<Rightarrow> xdma_dev \<Rightarrow> bool" where
  "chars_only lro lro' \<longleftrightarrow> (\<exists>i m q h. lro' = lro\<lparr>d_instance := i, d_major := m, char_ptr := q, char_heap := h\<rparr>)"

lemma chars_only_refl [simp]: "chars_only lro lro"
  unfolding chars_only_def
  by (intro exI [of _ "d_instance lro"] exI [of _ "d_major lro"] exI [of _ "char_ptr lro"]
      exI [of _ "char_heap lro"]) simp

lemma chars_only_trans:
  assumes "chars_only a b" "chars_only b c" shows "chars_only a c"
proof -
  from assms obtain i m q h where "c = a\<lparr>d_instance := i, d_major := m, char_ptr := q, char_heap := h\<rparr>"
    by (auto simp: chars_only_def)
  then show ?thesis unfolding chars_only_def by blast
qed

lemma chars_only_fields:
  assumes "chars_only lro lro'"
  shows "eng_ptr lro' = eng_ptr lro" "eng_heap lro' = eng_heap lro" "config_base lro' = config_base lro"
    "user_bar_idx lro' = user_bar_idx lro" "bypass_bar_idx lro' = bypass_bar_idx lro"
    "engines_live env lro' = engines_live env lro" "own_irq env lro' = own_irq env lro"
proof -
  from assms obtain i m q h where l: "lro' = lro\<lparr>d_instance := i, d_major := m, char_ptr := q, char_heap := h\<rparr>"
    unfolding chars_only_def by blast
  show "eng_ptr lro' = eng_ptr lro" "eng_heap lro' = eng_heap lro" "config_base lro' = config_base lro"
    "user_bar_idx lro' = user_bar_idx lro" "bypass_bar_idx lro' = bypass_bar_idx lro"
    "engines_live env lro' = engines_live env lro" "own_irq env lro' = own_irq env lro"
    unfolding l by (simp_all add: config_base_def bar_at_def engines_live_def own_irq_def fun_eq_iff)
qed

lemma own_char_upd:
  "own (lro\<lparr>char_ptr := q, char_heap := (char_heap lro)(sl := v)\<rparr>)
    = (\<lambda>ob. own lro ob + of_bool (ob = ObjChar sl \<and> v \<noteq> None) - of_bool (ob = ObjChar sl \<and> char_heap lro sl \<noteq> None))"
  by (auto simp: own_def fun_eq_iff split: kobj.splits)

lemma own_char_ptr [simp]: "own (lro\<lparr>char_ptr := q\<rparr>) = own lro" "own (lro\<lparr>d_instance := i, d_major := m\<rparr>) = own lro"
  "own (lro\<lparr>d_instance := i\<rparr>) = own lro" "own (lro\<lparr>d_major := m\<rparr>) = own lro"
  by (auto simp: own_def fun_eq_iff split: kobj.splits)

text \<open>What a step on the character devices may do.\<close>

definition char_step :: "kenv \<Rightarrow> char_slot \<Rightarrow> xdma_dev \<Rightarrow> 'w kworld_scheme \<Rightarrow> xdma_dev \<Rightarrow> 'w kworld_scheme \<Rightarrow> bool" where
  "char_step env sl lro w lro' w' \<longleftrightarrow> chars_only lro lro' \<and> chars_live lro' \<and> gap lro' w' = gap lro w
     \<and> irq_gap env lro' w' = irq_gap env lro w \<and> (\<forall>s. s \<noteq> sl \<longrightarrow> char_heap lro' s = char_heap lro s)"

lemma char_step_none: "chars_live lro \<Longrightarrow> char_heap lro sl = None \<Longrightarrow> char_step env sl lro w (set_char sl None lro) w"
proof -
  assume a: "chars_live lro" "char_heap lro sl = None"
  then have "(char_ptr lro)(sl := False) = char_ptr lro" by (simp add: chars_live_def fun_upd_idem)
  then show ?thesis using a by (simp add: set_char_def char_step_def)
qed

lemma new_char_run:
  assumes "case ep of None \<Rightarrow> \<not> sgtype type | Some p \<Rightarrow> \<exists>e. eng_heap lro p = Some e \<and> number_in_channel e < 2"
    and "g_xdma_class g" "chars_live lro" "char_heap lro sl = None" "sl \<in> set destroy_order"
  shows "\<exists>ok g' lro' w'. new_char env sl bar ep type g lro w = Some (ok, g', lro', w')
    \<and> g_xdma_class g' \<and> char_step env sl lro w lro' w' \<and> char_ptr lro' sl = ok"
proof -
  from create_sg_char_run [OF assms(1,2), of env sl bar w]
  obtain mc g' lro1 w' where c: "create_sg_char env sl bar ep type g lro w = Some (mc, g', lro1, w')"
    "irq_net (trace w') = irq_net (trace w)" "g_xdma_class g'" "number_only lro lro1"
    "case mc of None \<Rightarrow> obj_net (trace w') = obj_net (trace w)
       | Some c \<Rightarrow> obj_net (trace w') = (\<lambda>ob. obj_net (trace w) ob + of_bool (ob = ObjChar sl))
           \<and> c_magic c = MAGIC_CHAR \<and> sys_device c" by blast
  from c(4) obtain i m where n: "lro1 = lro\<lparr>d_instance := i, d_major := m\<rparr>" by (auto simp: number_only_def)
  have live1: "chars_live lro1" "char_heap lro1 sl = None" using assms(3,4) n by (simp_all add: chars_live_def)
  have only1: "chars_only lro lro1" unfolding chars_only_def n
    by (intro exI [of _ i] exI [of _ m] exI [of _ "char_ptr lro"] exI [of _ "char_heap lro"]) simp
  have heap1: "char_heap lro1 = char_heap lro" "own lro1 = own lro" using n by simp_all
  have r: "new_char env sl bar ep type g lro w = Some (mc \<noteq> None, g', set_char sl mc lro1, w')"
    using c(1) by (simp add: new_char_def)
  have "char_step env sl lro w (set_char sl mc lro1) w' \<and> char_ptr (set_char sl mc lro1) sl = (mc \<noteq> None)"
  proof (cases mc)
    case None
    from char_step_none [OF live1, of env w'] None c(2,5) only1 heap1 show ?thesis
      unfolding char_step_def
      using chars_only_trans [OF only1] chars_only_fields(7) [OF only1]
      by (auto simp: gap_def irq_gap_def fun_eq_iff set_char_def)
  next
    case (Some ch)
    let ?l = "lro1\<lparr>char_ptr := (char_ptr lro1)(sl := True), char_heap := (char_heap lro1)(sl \<mapsto> ch)\<rparr>"
    have "gap ?l w' = gap lro w"
      using own_char_upd [where lro = lro1 and q = "(char_ptr lro1)(sl := True)" and sl = sl and v = "Some ch"] c(5) Some live1(2) heap1(2)
      by (simp add: gap_def fun_eq_iff)
    moreover have only: "chars_only lro1 ?l"
      unfolding chars_only_def
      by (intro exI [of _ "d_instance lro1"] exI [of _ "d_major lro1"] exI [of _ "(char_ptr lro1)(sl := True)"]
          exI [of _ "(char_heap lro1)(sl \<mapsto> ch)"]) simp
    moreover have "irq_gap env ?l w' = irq_gap env lro w"
      using chars_only_fields(7) [OF chars_only_trans [OF only1 only]] c(2) by (simp add: irq_gap_def)
    moreover have "chars_live ?l"
      using live1 assms(5) c(5) Some by (auto simp: chars_live_def)
    ultimately show ?thesis
      using Some heap1(1) chars_only_trans [OF only1 only] by (auto simp: set_char_def char_step_def)
  qed
  with r c(3) show ?thesis by blast
qed

lemma slots_ok: "set create_order = set destroy_order" "distinct create_order" "distinct destroy_order"
  by (auto simp: create_order_def destroy_order_def MAX_USER_IRQ_def XDMA_CHANNEL_NUM_MAX_def upt_rec)

lemma destroy_slots:
  "SlotUser \<in> set destroy_order" "SlotCtrl \<in> set destroy_order" "SlotBypassBase \<in> set destroy_order"
  "SlotEvents i \<in> set destroy_order \<longleftrightarrow> i < MAX_USER_IRQ"
  "SlotSgdma c d \<in> set destroy_order \<longleftrightarrow> c < XDMA_CHANNEL_NUM_MAX \<and> d < 2"
  "SlotBypass c d \<in> set destroy_order \<longleftrightarrow> c < XDMA_CHANNEL_NUM_MAX \<and> d < 2"
  by (auto simp: destroy_order_def less_2_cases_iff)

lemma engine_numbered: "engines_live env lro \<Longrightarrow> eng_ptr lro p \<Longrightarrow> \<exists>e. eng_heap lro p = Some e \<and> number_in_channel e < 2"
  by (cases p) (fastforce simp: engines_live_def mem_all_channels)

lemma create_interface_run:
  assumes "g_xdma_class g" "chars_live lro" "char_heap lro sl = None" "sl \<in> set destroy_order" "engines_live env lro"
  shows "\<exists>rc g' lro' w'. create_interface env sl g lro w = Some (rc, g', lro', w')
    \<and> rc \<in> {0, - 1} \<and> g_xdma_class g' \<and> char_step env sl lro w lro' w'"
proof -
  note plain = new_char_run [where ep = None, simplified option.case, OF _ assms(1-4)]
  have skip: "char_step env sl lro w lro w" using assms(2) by (simp add: char_step_def)
  show ?thesis
  proof (cases sl)
    case SlotUser
    then show ?thesis using plain [of CHAR_USER env "user_bar_idx lro" w] char_step_none [OF assms(2,3), of env w] assms(1)
      by (auto simp: sgtype_def)
  next
    case SlotCtrl
    then show ?thesis using plain [of CHAR_CTRL env "config_bar_idx lro" w]
      by (auto simp: sgtype_def)
  next
    case SlotBypassBase
    then show ?thesis using plain [of CHAR_BYPASS env "bypass_bar_idx lro" w] char_step_none [OF assms(2,3), of env w] assms(1)
      by (auto simp: sgtype_def)
  next
    case (SlotEvents i)
    then show ?thesis using plain [of CHAR_EVENTS env "int i" w] by (auto simp: sgtype_def)
  next
    case (SlotSgdma c d)
    show ?thesis
    proof (cases "eng_ptr lro (c, d)")
      case True
      from new_char_run [where ep = "Some (c, d)" and env = env and bar = "- 1" and w = w
          and type = "if d = 0 then CHAR_XDMA_H2C else CHAR_XDMA_C2H",
          simplified option.case, OF engine_numbered [OF assms(5) True] assms(1-4)]
      show ?thesis using SlotSgdma True by (auto simp: create_engine_interface_def)
    qed (use SlotSgdma skip assms(1) in simp)
  next
    case (SlotBypass c d)
    show ?thesis
    proof (cases "eng_ptr lro (c, d) \<and> bypass_bar_idx lro \<ge> 0")
      case True
      from new_char_run [where ep = "Some (c, d)" and env = env and bar = "bypass_bar_idx lro" and w = w
          and type = "if d = 0 then CHAR_BYPASS_H2C else CHAR_BYPASS_C2H",
          simplified option.case, OF engine_numbered [OF assms(5) conjunct1 [OF True]] assms(1-4)]
      show ?thesis using SlotBypass True by (auto simp: create_bypass_interface_def)
    qed (use SlotBypass skip assms(1) in auto)
  qed
qed

lemma create_loop_run:
  assumes "g_xdma_class g" "chars_live lro" "\<forall>sl\<in>set sls. char_heap lro sl = None" "set sls \<subseteq> set destroy_order"
    and "distinct sls" "engines_live env lro"
  shows "\<exists>rc g' lro' w'. create_loop env sls g lro w = Some (rc, g', lro', w') \<and> rc \<in> {0, - 1}
    \<and> g_xdma_class g' \<and> chars_only lro lro' \<and> chars_live lro' \<and> gap lro' w' = gap lro w
    \<and> irq_gap env lro' w' = irq_gap env lro w"
  using assms
proof (induction sls arbitrary: g lro w)
  case Nil
  then show ?case by simp
next
  case (Cons sl sls)
  have h: "char_heap lro sl = None" "sl \<in> set destroy_order" "sl \<notin> set sls" "distinct sls" "set sls \<subseteq> set destroy_order"
    using Cons.prems(3-5) by auto
  from create_interface_run [OF Cons.prems(1,2) h(1,2) Cons.prems(6), of w]
  obtain rc g1 l1 w1 where s: "create_interface env sl g lro w = Some (rc, g1, l1, w1)" "rc \<in> {0, - 1}"
    "g_xdma_class g1" "char_step env sl lro w l1 w1" by blast
  have s4: "chars_only lro l1" "chars_live l1" "gap l1 w1 = gap lro w" "irq_gap env l1 w1 = irq_gap env lro w"
    "\<forall>s. s \<noteq> sl \<longrightarrow> char_heap l1 s = char_heap lro s" using s(4) unfolding char_step_def by blast+
  show ?case
  proof (cases "rc = 0")
    case False
    then show ?thesis using s s4 by auto
  next
    case True
    have "\<forall>s\<in>set sls. char_heap l1 s = None" using Cons.prems(3) s4(5) h(3) by auto
    moreover have "engines_live env l1" using chars_only_fields(6) [OF s4(1)] Cons.prems(6) by simp
    ultimately obtain rc' g2 l2 w2 where r: "create_loop env sls g1 l1 w1 = Some (rc', g2, l2, w2)" "rc' \<in> {0, - 1}"
      "g_xdma_class g2" "chars_only l1 l2" "chars_live l2" "gap l2 w2 = gap l1 w1" "irq_gap env l2 w2 = irq_gap env l1 w1"
      using Cons.IH [OF s(3) s4(2) _ h(5,4)] by blast
    then show ?thesis using s(1) s4 True chars_only_trans [OF s4(1) r(4)] by auto
  qed
qed

lemma destroy_sg_char_run:
  assumes "char_heap lro sl = Some c" "c_magic c = MAGIC_CHAR" "sys_device c" "g_xdma_class g"
  shows "\<exists>w'. destroy_sg_char g sl lro w = Some (lro\<lparr>char_heap := (char_heap lro)(sl := None)\<rparr>, w')
    \<and> gap (lro\<lparr>char_heap := (char_heap lro)(sl := None)\<rparr>) w' = gap lro w
    \<and> irq_net (trace w') = irq_net (trace w)"
proof -
  let ?l = "lro\<lparr>char_ptr := char_ptr lro, char_heap := (char_heap lro)(sl := None)\<rparr>"
  have l: "?l = lro\<lparr>char_heap := (char_heap lro)(sl := None)\<rparr>" by simp
  have "own ?l = (\<lambda>ob. own lro ob - of_bool (ob = ObjChar sl))"
    using own_char_upd [where lro = lro and q = "char_ptr lro" and sl = sl and v = None] assms(1)
    by (simp add: fun_eq_iff)
  then show ?thesis
    using assms unfolding l by (auto simp: destroy_sg_char_def gap_def fun_eq_iff)
qed

lemma destroy_loop_run:
  assumes "\<forall>sl\<in>set sls. char_ptr lro sl \<longleftrightarrow> char_heap lro sl \<noteq> None" "distinct sls" "g_xdma_class g"
    and "\<forall>sl c. char_heap lro sl = Some c \<longrightarrow> c_magic c = MAGIC_CHAR \<and> sys_device c"
  shows "\<exists>w'. destroy_loop g sls lro w
      = Some (lro\<lparr>char_heap := (\<lambda>sl. if sl \<in> set sls then None else char_heap lro sl)\<rparr>, w')
    \<and> gap (lro\<lparr>char_heap := (\<lambda>sl. if sl \<in> set sls then None else char_heap lro sl)\<rparr>) w' = gap lro w
    \<and> irq_net (trace w') = irq_net (trace w)"
  using assms
proof (induction sls arbitrary: lro w)
  case Nil
  then show ?case by (intro exI [of _ w]) (cases lro, simp)
next
  case (Cons sl sls)
  show ?case
  proof (cases "char_heap lro sl")
    case None
    have h: "(\<lambda>s. if s \<in> set sls then None else char_heap lro s) = (\<lambda>s. if s \<in> set (sl # sls) then None else char_heap lro s)"
      using None by auto
    have "\<not> char_ptr lro sl" using None Cons.prems(1) by simp
    with Cons.IH [of lro w] Cons.prems show ?thesis unfolding h by simp
  next
    case (Some c)
    let ?l = "lro\<lparr>char_heap := (char_heap lro)(sl := None)\<rparr>"
    have p: "char_ptr lro sl" using Some Cons.prems(1) by simp
    have "c_magic c = MAGIC_CHAR" "sys_device c" using Some Cons.prems(4) by blast+
    from destroy_sg_char_run [OF Some this Cons.prems(3), of w] obtain w1 where
      d: "destroy_sg_char g sl lro w = Some (?l, w1)" "gap ?l w1 = gap lro w" "irq_net (trace w1) = irq_net (trace w)"
      by blast
    have h: "(\<lambda>s. if s \<in> set sls then None else char_heap ?l s) = (\<lambda>s. if s \<in> set (sl # sls) then None else char_heap lro s)"
      by auto
    have "\<forall>s\<in>set sls. char_ptr ?l s \<longleftrightarrow> char_heap ?l s \<noteq> None" using Cons.prems(1,2) by auto
    moreover have "\<forall>s c. char_heap ?l s = Some c \<longrightarrow> c_magic c = MAGIC_CHAR \<and> sys_device c"
      using Cons.prems(4) by auto
    ultimately have "\<exists>w'. destroy_loop g sls ?l w1
        = Some (?l\<lparr>char_heap := (\<lambda>s. if s \<in> set sls then None else char_heap ?l s)\<rparr>, w')
      \<and> gap (?l\<lparr>char_heap := (\<lambda>s. if s \<in> set sls then None else char_heap ?l s)\<rparr>) w' = gap ?l w1
      \<and> irq_net (trace w') = irq_net (trace w1)"
      using Cons.prems by (intro Cons.IH) auto
    with d p show ?thesis unfolding h by simp
  qed
qed

lemma destroy_interfaces_run:
  assumes "chars_live lro" "g_xdma_class g"
  shows "\<exists>w'. destroy_interfaces g lro w = Some (lro\<lparr>char_heap := Map.empty\<rparr>, w')
    \<and> gap (lro\<lparr>char_heap := Map.empty\<rparr>) w' = gap lro w \<and> irq_net (trace w') = irq_net (trace w)"
proof -
  have e: "(\<lambda>sl. if sl \<in> set destroy_order then None else char_heap lro sl) = Map.empty"
    using assms(1) by (fastforce simp: chars_live_def)
  have "\<forall>sl\<in>set destroy_order. char_ptr lro sl \<longleftrightarrow> char_heap lro sl \<noteq> None"
    "\<forall>sl c. char_heap lro sl = Some c \<longrightarrow> c_magic c = MAGIC_CHAR \<and> sys_device c"
    using assms(1) unfolding chars_live_def by blast+
  from destroy_loop_run [OF this(1) slots_ok(3) assms(2) this(2), of w] show ?thesis
    unfolding e destroy_interfaces_def .
qed

lemma destroy_loop_dangling:
  assumes "sl \<in> set sls" "char_ptr lro sl" "char_heap lro = Map.empty"
  shows "destroy_loop g sls lro w = None"
  using assms
proof (induction sls)
  case (Cons s sls)
  then show ?case by (cases "char_ptr lro s") (auto simp: destroy_sg_char_def)
qed simp

lemma create_interfaces_run:
  assumes "g_xdma_class g" "\<forall>sl. \<not> char_ptr lro sl" "char_heap lro = Map.empty" "engines_live env lro"
  shows "\<exists>rc g' lro' w'. create_interfaces env g lro w = Some (rc, g', lro', w') \<and> g_xdma_class g'
    \<and> chars_only lro lro' \<and> gap lro' w' = gap lro w \<and> irq_gap env lro' w' = irq_gap env lro w
    \<and> (rc = 0 \<and> chars_live lro' \<or> rc = - 1 \<and> char_heap lro' = Map.empty
         \<and> ((\<exists>sl\<in>set destroy_order. char_ptr lro' sl) \<or> (\<forall>sl. \<not> char_ptr lro' sl)))"
proof -
  have live: "chars_live lro" using assms(2,3) by (simp add: chars_live_def)
  have "\<forall>sl\<in>set create_order. char_heap lro sl = None" "set create_order \<subseteq> set destroy_order"
    using assms(3) slots_ok(1) by simp_all
  from create_loop_run [OF assms(1) live this slots_ok(2) assms(4), of w] obtain rc g1 l1 w1 where
    c: "create_loop env create_order g lro w = Some (rc, g1, l1, w1)" "rc \<in> {0, - 1}" "g_xdma_class g1"
      "chars_only lro l1" "chars_live l1" "gap l1 w1 = gap lro w" "irq_gap env l1 w1 = irq_gap env lro w" by blast
  show ?thesis
  proof (cases "rc = 0")
    case True
    then show ?thesis using c by (auto simp: create_interfaces_def)
  next
    case False
    from destroy_interfaces_run [OF c(5,3), of w1] obtain w2 where
      d: "destroy_interfaces g1 l1 w1 = Some (l1\<lparr>char_heap := Map.empty\<rparr>, w2)"
        "gap (l1\<lparr>char_heap := Map.empty\<rparr>) w2 = gap l1 w1" "irq_net (trace w2) = irq_net (trace w1)" by blast
    let ?l = "l1\<lparr>char_heap := Map.empty\<rparr>"
    have "chars_only l1 ?l" unfolding chars_only_def
      by (intro exI [of _ "d_instance l1"] exI [of _ "d_major l1"] exI [of _ "char_ptr l1"] exI [of _ Map.empty]) simp
    then have o: "chars_only lro ?l" by (rule chars_only_trans [OF c(4)])
    have i: "irq_gap env ?l w2 = irq_gap env lro w"
      using d(3) c(7) chars_only_fields(7) [OF o] chars_only_fields(7) [OF c(4)] by (simp add: irq_gap_def)
    have p: "(\<exists>sl\<in>set destroy_order. char_ptr ?l sl) \<or> (\<forall>sl. \<not> char_ptr ?l sl)"
      using c(5) by (auto simp: chars_live_def)
    show ?thesis using False c d o i p by (simp add: create_interfaces_def)
  qed
qed

subsection \<open>Unwinding\<close>

lemma own_bare: "char_heap lro = Map.empty \<Longrightarrow> eng_heap lro = Map.empty \<Longrightarrow> \<forall>i<XDMA_BAR_NUM. dev_bar lro i = 0
    \<Longrightarrow> own lro = (\<lambda>ob. of_bool (ob = ObjDev))"
  by (auto simp: own_def fun_eq_iff split: kobj.splits)

lemma probe_disable_msi_nets:
  "obj_net (trace (probe_disable_msi lro w)) = (\<lambda>ob. obj_net (trace w) ob - of_bool (ob = ObjDev))"
  "irq_net (trace (probe_disable_msi lro w)) = irq_net (trace w)"
  by (auto simp: probe_disable_msi_def Let_def fun_eq_iff)

lemma probe_rel_region_nets:
  "obj_net (trace (probe_rel_region lro w)) = (\<lambda>ob. obj_net (trace w) ob - of_bool (ob = ObjDev))"
  "irq_net (trace (probe_rel_region lro w)) = irq_net (trace w)"
  by (auto simp: probe_rel_region_def probe_disable_msi_nets)

lemma unmap_bars_lines: "unmap_bars lro w = (lro', w') \<Longrightarrow> irq_net (trace w') = irq_net (trace w)"
proof -
  have "unmap_bars_loop js lro w = (lro', w') \<Longrightarrow> irq_net (trace w') = irq_net (trace w)" for js
    by (induction js arbitrary: lro w) (fastforce split: if_splits)+
  then show "unmap_bars lro w = (lro', w') \<Longrightarrow> irq_net (trace w') = irq_net (trace w)"
    unfolding unmap_bars_def .
qed

lemma probe_unmap_bar_nets:
  assumes "char_heap lro = Map.empty" "eng_heap lro = Map.empty"
  shows "obj_net (trace (probe_unmap_bar lro w)) = gap lro w" "irq_net (trace (probe_unmap_bar lro w)) = irq_net (trace w)"
proof -
  obtain l1 w1 where u: "unmap_bars lro w = (l1, w1)" by (cases "unmap_bars lro w")
  from unmap_bars_spec [OF u] have s: "gap l1 w1 = gap lro w" "char_heap l1 = Map.empty" "eng_heap l1 = Map.empty"
    "\<forall>i<XDMA_BAR_NUM. dev_bar l1 i = 0" using assms by auto
  show "obj_net (trace (probe_unmap_bar lro w)) = gap lro w"
    using s(1) own_bare [OF s(2-4)] u by (auto simp: probe_unmap_bar_def probe_rel_region_nets gap_def fun_eq_iff)
  show "irq_net (trace (probe_unmap_bar lro w)) = irq_net (trace w)"
    using u unmap_bars_lines [OF u] by (simp add: probe_unmap_bar_def probe_rel_region_nets)
qed

lemma own_irq_chars [simp]: "own_irq env (lro\<lparr>char_heap := h\<rparr>) = own_irq env lro"
  "own_irq env (lro\<lparr>char_ptr := q\<rparr>) = own_irq env lro"
  by (simp_all add: own_irq_def fun_eq_iff cong: if_cong)

lemma irq_teardown_quiet: "obj_net (trace (irq_teardown env lro w)) = obj_net (trace w)"
  by (auto simp: irq_teardown_def free_loop_quiet free_irq_def fun_eq_iff)

lemma irq_teardown_lines:
  assumes "eng_heap lro = Map.empty"
  shows "irq_net (trace (irq_teardown env lro w)) = irq_gap env lro w"
proof -
  have z: "(\<Sum>p\<in>set all_channels. eng_line (eng_heap lro p) v) = 0" for v using assms by simp
  show ?thesis
    by (cases "msix_enabled lro"; cases "irq_line lro = - 1")
      (simp_all add: irq_teardown_def free_loop_releases irqs.release_all irq_gap_def own_irq_def free_irq_def
        fun_eq_iff z)
qed

lemma probe_disable_irq_nets:
  assumes "char_heap lro = Map.empty" "eng_heap lro = Map.empty"
  shows "obj_net (trace (probe_disable_irq env lro w)) = gap lro w"
    "irq_net (trace (probe_disable_irq env lro w)) = irq_gap env lro w"
  using probe_unmap_bar_nets [OF assms, where w = "irq_teardown env lro w"] irq_teardown_quiet [of env lro w] irq_teardown_lines [OF assms(2), of env w]
  by (simp_all add: probe_disable_irq_def gap_def)

lemma probe_rmv_engine_nets:
  assumes "engines_live env lro" "char_heap lro = Map.empty"
  shows "\<exists>w'. probe_rmv_engine env lro w = Some w' \<and> obj_net (trace w') = gap lro w \<and> irq_net (trace w') = irq_gap env lro w"
proof -
  from remove_engines_run [OF assms(1), of w] obtain n w1 where
    r: "remove_engines env lro w = Some (lro\<lparr>engines_num := n, eng_heap := Map.empty\<rparr>, w1)"
      "gap (lro\<lparr>engines_num := n, eng_heap := Map.empty\<rparr>) w1 = gap lro w"
      "irq_gap env (lro\<lparr>engines_num := n, eng_heap := Map.empty\<rparr>) w1 = irq_gap env lro w" by blast
  then show ?thesis
    using probe_disable_irq_nets [of "lro\<lparr>engines_num := n, eng_heap := Map.empty\<rparr>" env w1] assms(2)
    by (simp add: probe_rmv_engine_def)
qed

lemma probe_rmv_interface_nets:
  assumes "engines_live env lro" "chars_live lro" "g_xdma_class g"
  shows "\<exists>w'. probe_rmv_interface env g lro w = Some w' \<and> obj_net (trace w') = gap lro w \<and> irq_net (trace w') = irq_gap env lro w"
proof -
  from destroy_interfaces_run [OF assms(2,3), of w] obtain w1 where
    d: "destroy_interfaces g lro w = Some (lro\<lparr>char_heap := Map.empty\<rparr>, w1)"
      "gap (lro\<lparr>char_heap := Map.empty\<rparr>) w1 = gap lro w" "irq_net (trace w1) = irq_net (trace w)" by blast
  have "engines_live env (lro\<lparr>char_heap := Map.empty\<rparr>)" using assms(1) by (simp add: engines_live_def)
  moreover have "irq_gap env (lro\<lparr>char_heap := Map.empty\<rparr>) w1 = irq_gap env lro w"
    using d(3) by (simp add: irq_gap_def)
  ultimately show ?thesis
    using probe_rmv_engine_nets [of env "lro\<lparr>char_heap := Map.empty\<rparr>" w1] d
    by (simp add: probe_rmv_interface_def)
qed

text \<open>Removing what is already gone: harmless without pointers, a use after free with one.\<close>

lemma remove_engines_gone:
  assumes "eng_heap lro = Map.empty"
  shows "remove_engines env lro w = (if \<exists>p\<in>set all_channels. eng_ptr lro p then None else Some (lro, w))"
proof -
  have "\<forall>p\<in>set ps. \<not> eng_ptr lro p \<Longrightarrow> remove_engines_loop env ps lro w = Some (lro, w)" for ps
    by (induction ps) simp_all
  then show ?thesis using remove_engines_loop_dangling [of _ all_channels lro env w] assms
    by (auto simp: remove_engines_def)
qed

lemma destroy_interfaces_gone:
  assumes "char_heap lro = Map.empty"
  shows "destroy_interfaces g lro w = (if \<exists>sl\<in>set destroy_order. char_ptr lro sl then None else Some (lro, w))"
proof -
  have "\<forall>sl\<in>set sls. \<not> char_ptr lro sl \<Longrightarrow> destroy_loop g sls lro w = Some (lro, w)" for sls
    by (induction sls) simp_all
  then show ?thesis using destroy_loop_dangling [of _ destroy_order lro g w] assms
    by (auto simp: destroy_interfaces_def)
qed

text \<open>The failure labels on a device whose engines or character devices are already gone.\<close>

lemma rmv_engine_gone:
  assumes "probe_rmv_engine env lro w = Some w'" "eng_heap lro = Map.empty" "char_heap lro = Map.empty"
  shows "obj_net (trace w') = gap lro w \<and> irq_net (trace w') = irq_gap env lro w"
  using assms probe_disable_irq_nets [OF assms(3,2), of env w]
  by (auto simp: probe_rmv_engine_def remove_engines_gone split: if_splits)

lemma rmv_interface_gone:
  assumes "probe_rmv_interface env g lro w = Some w'" "char_heap lro = Map.empty" "engines_live env lro"
  shows "obj_net (trace w') = gap lro w \<and> irq_net (trace w') = irq_gap env lro w"
  using assms probe_rmv_engine_nets [OF assms(3,2), of w]
  by (auto simp: probe_rmv_interface_def destroy_interfaces_gone split: if_splits)

subsection \<open>Probing\<close>

text \<open>A device before its engines are looked for.\<close>

definition dev_fresh :: "xdma_dev \<Rightarrow> bool" where
  "dev_fresh lro \<longleftrightarrow> engines_num lro = 0 \<and> eng_heap lro = Map.empty \<and> (\<forall>p. \<not> eng_ptr lro p)
     \<and> char_heap lro = Map.empty \<and> (\<forall>sl. \<not> char_ptr lro sl)"

text \<open>What a return of \<open>probe\<close> leaves, given the accounts it started from.\<close>

definition probed ::
  "kenv \<Rightarrow> (kobj \<Rightarrow> int) \<Rightarrow> (u32 \<Rightarrow> int) \<Rightarrow> int \<Rightarrow> xdma_dev option \<Rightarrow> 'w kworld_scheme \<Rightarrow> bool" where
  "probed env objs lines rc bound w \<longleftrightarrow> (case bound of
     None \<Rightarrow> rc < 0 \<and> obj_net (trace w) = objs \<and> irq_net (trace w) = lines
   | Some lro \<Rightarrow> rc = 0 \<and> engines_live env lro \<and> chars_live lro \<and> config_base lro \<noteq> None
       \<and> gap lro w = objs \<and> irq_gap env lro w = lines)"

lemma same_nets_gaps: "same_nets w w' \<Longrightarrow> gap lro w' = gap lro w \<and> irq_gap env lro w' = irq_gap env lro w"
  by (simp add: same_nets_def gap_def irq_gap_def)

lemma same_nets_trans: "same_nets a b \<Longrightarrow> same_nets b c \<Longrightarrow> same_nets a c"
  by (simp add: same_nets_def)

lemma same_nets_io:
  "same_nets w (write_register v a w)" "read_register env a w = (x, w') \<Longrightarrow> same_nets w w'"
  "same_nets w (svc_void c w)" "same_nets w w" "read_interrupts env cfg w = (y, w'') \<Longrightarrow> same_nets w w''"
  by (auto simp: same_nets_def read_register_def read_interrupts_def Let_def fun_eq_iff)

lemma probe_engines_up_run:
  assumes "probe_engines_up env g lro cfg w = Some (rc, g', bound, w')" "dev_fresh lro" "config_base lro = Some cfg"
    and "\<forall>i<32. msix_vec env i \<noteq> 0" "g_xdma_class g"
  shows "probed env (gap lro w) (irq_gap env lro w) rc bound w' \<and> g_xdma_class g'"
proof -
  obtain v w1 where r: "read_register env cfg w = (v, w1)" by fastforce
  define w2 where "w2 = (if enable_credit_mp env AND (if bits_set v 0x8000 then 1 else 0) \<noteq> 0
      then enable_credit_feature cfg w1 else w1)"
  have n2: "same_nets w w2" using same_nets_io(2) [OF r]
    by (auto simp: w2_def enable_credit_feature_def same_nets_def)
  have "engines_num lro = 0" "eng_heap lro = Map.empty" "\<forall>p. \<not> eng_ptr lro p"
    using assms(2) by (simp_all add: dev_fresh_def)
  from probe_engines_run [OF assms(3) this assms(4), of w2] obtain rc3 l3 w3 where
    e: "probe_engines env lro w2 = Some (rc3, l3, w3)" "gap l3 w3 = gap lro w2" "irq_gap env l3 w3 = irq_gap env lro w2"
      "engines_only lro l3" "rc3 = 0 \<and> engines_live env l3 \<and> irq_bits_ok l3 \<or> rc3 = - 1 \<and> eng_heap l3 = Map.empty" by blast
  have g3: "gap l3 w3 = gap lro w" "irq_gap env l3 w3 = irq_gap env lro w"
    using e(2,3) same_nets_gaps [OF n2, of lro env] by simp_all
  have c3: "char_heap l3 = Map.empty" "\<forall>sl. \<not> char_ptr l3 sl" "config_base l3 = Some cfg"
    using assms(2,3) engines_only_fields [OF e(4)] by (simp_all add: dev_fresh_def)
  note run = assms(1) [unfolded probe_engines_up_def r Let_def prod.case w2_def [symmetric] e(1) Option.bind.simps(2)]
  show ?thesis
  proof (cases "rc3 = 0")
    case False
    then obtain w4 where "probe_rmv_engine env l3 w3 = Some w4" "(rc, g', bound, w') = (- 1, g, None, w4)"
      using run by (auto split: Option.bind_splits)
    with rmv_engine_gone [OF this(1) _ c3(1)] e(5) False g3 assms(5) show ?thesis by (simp add: probed_def)
  next
    case True
    then have live: "engines_live env l3" using e(5) by simp
    from create_interfaces_run [OF assms(5) c3(2,1) live, of w3] obtain rc4 g4 l4 w4 where
      i: "create_interfaces env g l3 w3 = Some (rc4, g4, l4, w4)" "g_xdma_class g4" "chars_only l3 l4"
        "gap l4 w4 = gap l3 w3" "irq_gap env l4 w4 = irq_gap env l3 w3"
        "rc4 = 0 \<and> chars_live l4 \<or> rc4 = - 1 \<and> char_heap l4 = Map.empty" by blast
    have live4: "engines_live env l4" "config_base l4 = Some cfg"
      using chars_only_fields [OF i(3)] live c3(3) by simp_all
    show ?thesis
    proof (cases "rc4 = 0")
      case False
      then obtain w5 where "probe_rmv_interface env g4 l4 w4 = Some w5" "(rc, g', bound, w') = (- 1, g4, None, w5)"
        using run True i(1) by (auto split: Option.bind_splits)
      with rmv_interface_gone [OF this(1) _ live4(1)] i(2,4-6) False g3 show ?thesis by (simp add: probed_def)
    next
      case zero: True
      have live_c: "chars_live l4" using i(6) zero by simp
      define w5 where "w5 = (if \<not> poll_mode env then channel_interrupts_enable cfg (- 1) (user_interrupts_enable cfg (- 1) w4)
          else user_interrupts_enable cfg (- 1) w4)"
      obtain x w6 where r6: "read_interrupts env cfg w5 = (x, w6)" by fastforce
      obtain rc7 w7 where s7: "svc_call env SvcCreateFile w6 = (rc7, w7)" by fastforce
      have "same_nets w4 w5"
        by (auto simp: w5_def same_nets_def channel_interrupts_enable_def user_interrupts_enable_def)
      then have n7: "same_nets w4 w7"
        using same_nets_io(5) [OF r6] svc_call_nets [OF s7] same_nets_trans by blast
      note gaps7 = same_nets_gaps [OF n7, of l4 env]
      have run': "(if rc7 \<noteq> 0 then do { (g, w) \<leftarrow> probe_rmv_cdev env g4 l4 w7; Some (- 1, g, None, w) }
          else Some (0, g4, Some l4, w7)) = Some (rc, g', bound, w')"
        using run True i(1) zero r6 s7 unfolding w5_def by (simp split del: if_split)
      show ?thesis
      proof (cases "rc7 = 0")
        case True
        then show ?thesis using run' live4 live_c gaps7 i(2,4,5) g3 by (auto simp: probed_def)
      next
        case False
        let ?g = "g4\<lparr>dev_present := (dev_present g4)(d_instance l4 := False)\<rparr>" and ?w = "svc_void SvcRemoveFile w7"
        from probe_rmv_interface_nets [OF live4(1) live_c, of ?g ?w] i(2) obtain w8 where
          u: "probe_rmv_interface env ?g l4 ?w = Some w8" "obj_net (trace w8) = gap l4 ?w" "irq_net (trace w8) = irq_gap env l4 ?w"
          by auto
        have "(rc, g', bound, w') = (- 1, ?g, None, w8)" using run' False u(1) by (simp add: probe_rmv_cdev_def)
        then show ?thesis using u(2,3) gaps7 same_nets_gaps [OF same_nets_io(3) [of w7 SvcRemoveFile], of l4 env] i(2,4,5) g3
          by (simp add: probed_def)
      qed
    qed
  qed
qed

text \<open>A device before its BARs are mapped.\<close>

definition dev_plain :: "xdma_dev \<Rightarrow> bool" where
  "dev_plain lro \<longleftrightarrow> dev_fresh lro \<and> dev_bar lro = (\<lambda>_. 0) \<and> config_bar_idx lro = - 1
     \<and> irq_line lro = - 1 \<and> irq_user_count lro = 0"

lemma own_irq_bare: "eng_heap lro = Map.empty \<Longrightarrow> own_irq env lro v
    = (if msix_enabled lro then int (count_list (map (msix_vec env) [0..<irq_user_count lro]) v)
       else of_bool (irq_line lro \<noteq> - 1 \<and> of_int (irq_line lro) = v))"
  by (simp add: own_irq_def)

lemma own_irq_idle: "eng_heap lro = Map.empty \<Longrightarrow> irq_user_count lro = 0 \<Longrightarrow> irq_line lro = - 1
    \<Longrightarrow> own_irq env lro = (\<lambda>_. 0)"
  by (rule ext) (simp add: own_irq_bare)

lemma config_base_irq [simp]: "config_base (lro\<lparr>irq_user_count := n\<rparr>) = config_base lro"
  "config_base (lro\<lparr>irq_line := i\<rparr>) = config_base lro"
  by (simp_all add: config_base_def bar_at_def cong: if_cong)

lemma dev_plain_gaps:
  assumes "dev_plain lro"
  shows "gap lro w = (\<lambda>ob. obj_net (trace w) ob - of_bool (ob = ObjDev))" "irq_gap env lro w = irq_net (trace w)"
proof -
  have "own lro = (\<lambda>ob. of_bool (ob = ObjDev))"
    using assms by (intro own_bare) (simp_all add: dev_plain_def dev_fresh_def)
  then show "gap lro w = (\<lambda>ob. obj_net (trace w) ob - of_bool (ob = ObjDev))" by (simp add: gap_def)
  show "irq_gap env lro w = irq_net (trace w)"
    using assms own_irq_idle [of lro env] by (simp add: dev_plain_def dev_fresh_def irq_gap_def)
qed

lemma probe_scan_for_msi_run:
  assumes "probe_scan_for_msi env lro w = (rc, lro', w')" "dev_plain lro"
  shows "dev_plain lro' \<and> same_nets w w'"
proof -
  have m: "same_nets w (snd (msi_msix_capable env cap w))" for cap :: nat and w :: "'a kworld_scheme"
    by (auto simp: msi_msix_capable_def same_nets_def svc_call_def Let_def)
  obtain x w1 where x: "msi_msix_capable env 0x11 w = (x, w1)" by fastforce
  obtain y w2 where y: "msi_msix_capable env 0x05 w1 = (y, w2)" by fastforce
  have n: "same_nets w w1" "same_nets w w2"
    using m [where cap = "0x11" and w = w] m [where cap = "0x05" and w = w1] x y by (auto simp: same_nets_def)
  have l: "dev_plain (lro\<lparr>msix_enabled := True\<rparr>)" "dev_plain (lro\<lparr>msi_enabled := True\<rparr>)"
    using assms(2) by (simp_all add: dev_plain_def dev_fresh_def)
  show ?thesis
    using assms l n x y by (auto simp: probe_scan_for_msi_def same_nets_def svc_call_def Let_def split: if_splits)
qed

lemma request_regions_run:
  "request_regions env lro w = (rc, lro', w') \<Longrightarrow> dev_plain lro \<Longrightarrow> dev_plain lro' \<and> same_nets w w'"
  by (cases "fst (svc_call env SvcRequestRegions w) = 0")
    (auto simp: request_regions_def same_nets_def svc_call_def Let_def dev_plain_def dev_fresh_def)

lemma pcie_check_extended_tag_nets: "same_nets w (pcie_check_extended_tag env lro w)"
  by (auto simp: pcie_check_extended_tag_def same_nets_def svc_call_def read_register_def Let_def fun_eq_iff
      split: option.splits)

lemma set_dma_mask_nets: "set_dma_mask env w = (rc, w') \<Longrightarrow> same_nets w w'"
  by (auto simp: set_dma_mask_def same_nets_def svc_call_def Let_def split: if_splits)

lemma irq_net_map_single: "map_single_bar env lro i w = (n, lro', w') \<Longrightarrow> irq_net (trace w') = irq_net (trace w)"
  by (auto simp: map_single_bar_def Let_def split: if_splits)

lemma is_config_bar_lines: "is_config_bar env lro i w = (b, w') \<Longrightarrow> irq_net (trace w') = irq_net (trace w)"
  by (auto simp: is_config_bar_def read_register_def Let_def)

lemma map_bars_loop_lines:
  "map_bars_loop env js ids pos lro w = (ok, ids', pos', lro', w') \<Longrightarrow> irq_net (trace w') = irq_net (trace w)"
proof (induction js arbitrary: ids pos lro w)
  case (Cons i js)
  obtain n l1 w1 where s: "map_single_bar env lro i w = (n, l1, w1)" by (cases "map_single_bar env lro i w")
  obtain b w2 where c: "(if n \<ge> int XDMA_BAR_SIZE \<and> config_bar_idx l1 < 0 then is_config_bar env l1 i w1 else (False, w1)) = (b, w2)"
    by fastforce
  have "irq_net (trace w2) = irq_net (trace w)"
    using c is_config_bar_lines [of env l1 i w1] irq_net_map_single [OF s] by (auto split: if_splits)
  then show ?case using Cons.prems Cons.IH irq_net_map_single [OF s] s c
    by (auto simp: Let_def split: if_splits)
qed simp

lemma map_bars_lines: "map_bars env lro w = (rc, lro', w') \<Longrightarrow> irq_net (trace w') = irq_net (trace w)"
proof -
  assume m: "map_bars env lro w = (rc, lro', w')"
  obtain ok ids pos l1 w1 where l: "map_bars_loop env [0..<XDMA_BAR_NUM] [] 0 lro w = (ok, ids, pos, l1, w1)"
    by (cases "map_bars_loop env [0..<XDMA_BAR_NUM] [] 0 lro w") auto
  obtain l2 w2 where u: "unmap_bars l1 w1 = (l2, w2)" by (cases "unmap_bars l1 w1")
  show ?thesis using m l u map_bars_loop_lines [OF l] unmap_bars_lines [OF u] by (auto simp: map_bars_def split: if_splits)
qed

text \<open>After the BARs: the rest of the device is as before.\<close>

definition dev_mapped :: "xdma_dev \<Rightarrow> bool" where
  "dev_mapped lro \<longleftrightarrow> dev_fresh lro \<and> irq_line lro = - 1 \<and> irq_user_count lro = 0"

lemma dev_mapped_lines: "dev_mapped lro \<Longrightarrow> irq_gap env lro w = irq_net (trace w)"
  using own_irq_idle [of lro env] by (simp add: dev_mapped_def dev_fresh_def irq_gap_def)

lemma map_bars_plain:
  assumes "map_bars env lro w = (rc, lro', w')" "dev_plain lro"
  shows "dev_mapped lro' \<and> gap lro' w' = gap lro w \<and> irq_net (trace w') = irq_net (trace w)
    \<and> (rc = 0 \<and> (\<exists>cfg. config_base lro' = Some cfg) \<or> rc = - 1)"
proof -
  have p: "\<forall>i<XDMA_BAR_NUM. dev_bar lro i = 0" "config_bar_idx lro < 0" using assms(2) by (simp_all add: dev_plain_def)
  have b: "dev_mapped l" if "bars_only lro l" for l
    using that assms(2) by (auto simp: bars_only_def dev_plain_def dev_mapped_def dev_fresh_def)
  from assms(1) p show ?thesis
  proof (cases rule: map_bars_run)
    case (mapped l1 pos cfg)
    have "dev_mapped lro'" using b [OF mapped(3)] mapped(2)
      by (auto simp: identify_bars_def dev_mapped_def dev_fresh_def)
    moreover have "config_base lro' = Some (dev_bar lro' cfg)"
      using mapped(2,5,6) by (simp add: config_base_def bar_at_def)
    ultimately show ?thesis using mapped(1,4) map_bars_lines [OF assms(1)] by blast
  next
    case failed
    then show ?thesis using b map_bars_lines [OF assms(1)] by blast
  qed
qed

lemma irq_setup_run:
  assumes "config_base lro = Some cfg" "dev_mapped lro" "pci_irq env \<noteq> - 1"
  shows "\<exists>rc lro' w'. irq_setup env lro w = Some (rc, lro', w') \<and> gap lro' w' = gap lro w \<and> dev_fresh lro'
    \<and> config_base lro' = Some cfg
    \<and> (irq_gap env lro' w' = irq_net (trace w) \<or> rc \<noteq> 0 \<and> (\<exists>tr. irq_rc env tr (pci_irq env) \<noteq> 0))"
proof (cases "msix_enabled lro")
  case True
  from msix_irq_setup_run [OF assms(1), of env w] obtain rc l1 w1 where
    s: "msix_irq_setup env lro w = Some (rc, l1, w1)" "obj_net (trace w1) = obj_net (trace w)"
      "rc = 0 \<and> l1 = lro\<lparr>irq_user_count := MAX_USER_IRQ\<rparr>
         \<and> irq_net (trace w1) = (\<lambda>v. irq_net (trace w) v + int (count_list (map (msix_vec env) [0..<MAX_USER_IRQ]) v))
       \<or> rc = - 1 \<and> l1 = lro \<and> irq_net (trace w1) = irq_net (trace w)" by blast
  from s(3) show ?thesis
  proof (elim disjE conjE)
    assume h: "rc = 0" "l1 = lro\<lparr>irq_user_count := MAX_USER_IRQ\<rparr>"
      "irq_net (trace w1) = (\<lambda>v. irq_net (trace w) v + int (count_list (map (msix_vec env) [0..<MAX_USER_IRQ]) v))"
    have "irq_gap env l1 w1 = irq_net (trace w)"
      using h True assms(2) by (simp add: irq_gap_def own_irq_bare dev_mapped_def dev_fresh_def)
    moreover have "dev_fresh l1" "config_base l1 = Some cfg" "gap l1 w1 = gap lro w"
      using h assms(1,2) s(2) by (simp_all add: dev_mapped_def dev_fresh_def gap_def)
    ultimately show ?thesis using s(1) True by (simp add: irq_setup_def)
  next
    assume h: "rc = - 1" "l1 = lro" "irq_net (trace w1) = irq_net (trace w)"
    then show ?thesis using s(1,2) True assms(1,2) dev_mapped_lines [OF assms(2), of env w1]
      by (simp add: irq_setup_def dev_mapped_def gap_def)
  qed
next
  case False
  from irq_setup_line_run [OF assms(1) False, of env w] obtain w1 where
    s: "irq_setup env lro w = Some (irq_rc env (trace w1) (pci_irq env), lro\<lparr>irq_line := sint (pci_irq env)\<rparr>,
              if irq_rc env (trace w1) (pci_irq env) = 0 then emit (RequestIrq (pci_irq env)) w1 else w1)"
      "obj_net (trace w1) = obj_net (trace w)" "irq_net (trace w1) = irq_net (trace w)" by blast
  let ?l = "lro\<lparr>irq_line := sint (pci_irq env)\<rparr>"
  have ne: "sint (pci_irq env) \<noteq> - 1"
  proof
    assume "sint (pci_irq env) = - 1"
    then have "(of_int (sint (pci_irq env)) :: u32) = of_int (- 1)" by simp
    with assms(3) show False by simp
  qed
  have f: "dev_fresh ?l" "config_base ?l = Some cfg" "own ?l = own lro"
    using assms(1,2) by (simp_all add: dev_mapped_def dev_fresh_def)
  show ?thesis
  proof (cases "irq_rc env (trace w1) (pci_irq env) = 0")
    case True
    have "irq_gap env ?l (emit (RequestIrq (pci_irq env)) w1) = irq_net (trace w)"
      using s(3) False ne assms(2) by (auto simp: irq_gap_def own_irq_bare dev_mapped_def dev_fresh_def)
    moreover have "gap lro (emit (RequestIrq (pci_irq env)) w1) = gap lro w" using s(2) by (simp add: gap_def)
    ultimately show ?thesis using True s(1) f by (simp add: gap_def)
  next
    case False
    moreover have "gap lro w1 = gap lro w" using s(2) by (simp add: gap_def)
    ultimately show ?thesis using s(1) f by (auto simp: gap_def)
  qed
qed

text \<open>The whole of \<open>probe\<close>.\<close>

lemma probe_run:
  assumes "probe env g w = Some (rc, g', bound, w')" "g_xdma_class g" "\<forall>i<32. msix_vec env i \<noteq> 0" "pci_irq env \<noteq> - 1"
  shows "g_xdma_class g' \<and> (probed env (obj_net (trace w)) (irq_net (trace w)) rc bound w'
    \<or> bound = None \<and> rc < 0 \<and> obj_net (trace w') = obj_net (trace w) \<and> (\<exists>tr. irq_rc env tr (pci_irq env) \<noteq> 0))"
proof (cases "mem_ok env (trace w) ObjDev")
  case False
  then show ?thesis using assms(1,2) by (auto simp: probe_def alloc_dev_instance_def kalloc_def probed_def)
next
  case True
  let ?O = "obj_net (trace w)" and ?I = "irq_net (trace w)"
  define w0 where "w0 = emit (Alloc ObjDev) w"
  have al: "alloc_dev_instance env w = (Some dev0, w0)" using True by (simp add: alloc_dev_instance_def kalloc_def w0_def)
  have plain0: "dev_plain dev0" by (simp add: dev_plain_def dev_fresh_def dev0_def)
  have net0: "obj_net (trace w0) = (\<lambda>ob. ?O ob + of_bool (ob = ObjDev))" "irq_net (trace w0) = ?I"
    by (auto simp: w0_def fun_eq_iff)
  obtain rc1 w1 where e1: "svc_call env SvcEnableDevice w0 = (rc1, w1)" by fastforce
  define w2 where "w2 = svc_void SvcSetMaster (enable_pcie_relaxed_ordering w1)"
  obtain rc3 l3 w3 where e3: "probe_scan_for_msi env dev0 w2 = (rc3, l3, w3)" by (cases "probe_scan_for_msi env dev0 w2")
  obtain rc4 l4 w4 where e4: "request_regions env l3 w3 = (rc4, l4, w4)" by (cases "request_regions env l3 w3")
  obtain rc5 l5 w5 where e5: "map_bars env l4 w4 = (rc5, l5, w5)" by (cases "map_bars env l4 w4")
  define w6 where "w6 = pcie_check_extended_tag env l5 w5"
  obtain rc7 w7 where e7: "set_dma_mask env w6 = (rc7, w7)" by fastforce
  have n1: "same_nets w0 w1" by (rule svc_call_nets [OF e1])
  then have n2: "same_nets w0 w2" by (simp add: w2_def enable_pcie_relaxed_ordering_def same_nets_def)
  have p3: "dev_plain l3" "same_nets w0 w3" using probe_scan_for_msi_run [OF e3 plain0] n2 same_nets_trans by blast+
  have p4: "dev_plain l4" "same_nets w0 w4" using request_regions_run [OF e4 p3(1)] p3(2) same_nets_trans by blast+
  note m5 = map_bars_plain [OF e5 p4(1)]
  have n7: "same_nets w5 w7" using pcie_check_extended_tag_nets [of w5 env l5] set_dma_mask_nets [OF e7]
    by (simp add: w6_def same_nets_def)
  have g4: "gap l4 w4 = ?O" using dev_plain_gaps(1) [OF p4(1), of w4] p4(2) net0(1) by (simp add: same_nets_def)
  have g5: "gap l5 w5 = ?O" "irq_net (trace w5) = ?I"
    using m5 g4 p4(2) net0(2) by (simp_all add: same_nets_def)
  have g7: "gap l5 w7 = ?O" "irq_net (trace w7) = ?I" using same_nets_gaps [OF n7, of l5] g5 n7 by (simp_all add: same_nets_def)
  have bare5: "char_heap l5 = Map.empty" "eng_heap l5 = Map.empty" using m5 by (simp_all add: dev_mapped_def dev_fresh_def)
  note run = assms(1) [unfolded probe_def al prod.case option.case e1 Let_def w2_def [symmetric] e3 e4 e5
      w6_def [symmetric] e7]
  consider (a) "rc1 \<noteq> 0" | (b) "rc1 = 0" "rc3 < 0" | (c) "rc1 = 0" "\<not> rc3 < 0" "rc4 \<noteq> 0"
    | (d) "rc1 = 0" "\<not> rc3 < 0" "rc4 = 0" "rc5 \<noteq> 0" | (e) "rc1 = 0" "\<not> rc3 < 0" "rc4 = 0" "rc5 = 0" "rc7 \<noteq> 0"
    | (f) "rc1 = 0" "\<not> rc3 < 0" "rc4 = 0" "rc5 = 0" "rc7 = 0" by blast
  then show ?thesis
  proof cases
    case a
    then show ?thesis using assms(2) run n1 net0 by (auto simp: probed_def same_nets_def)
  next
    case b
    then show ?thesis using assms(2) run p3(2) net0 by (auto simp: probed_def same_nets_def probe_disable_msi_nets)
  next
    case c
    then show ?thesis using assms(2) run p4(2) net0 by (auto simp: probed_def same_nets_def probe_rel_region_nets)
  next
    case d
    then show ?thesis using assms(2) run g5 probe_unmap_bar_nets [OF bare5, of w5] by (auto simp: probed_def)
  next
    case e
    then show ?thesis using assms(2) run g7 probe_unmap_bar_nets [OF bare5, of w7] by (auto simp: probed_def)
  next
    case f
    from m5 f obtain cfg where cfg: "config_base l5 = Some cfg" "dev_mapped l5" by auto
    from irq_setup_run [OF this assms(4), of w7] obtain rc8 l8 w8 where
      e8: "irq_setup env l5 w7 = Some (rc8, l8, w8)" "gap l8 w8 = gap l5 w7" "dev_fresh l8" "config_base l8 = Some cfg"
        "irq_gap env l8 w8 = irq_net (trace w7) \<or> rc8 \<noteq> 0 \<and> (\<exists>tr. irq_rc env tr (pci_irq env) \<noteq> 0)" by blast
    show ?thesis
    proof (cases "rc8 = 0")
      case False
      have "char_heap l8 = Map.empty" "eng_heap l8 = Map.empty" using e8(3) by (simp_all add: dev_fresh_def)
      from probe_disable_irq_nets [OF this, of env w8] show ?thesis
        using assms(2) run f e8 False g7 by (auto simp: probed_def)
    next
      case True
      then have "probe_engines_up env g l8 cfg w8 = Some (rc, g', bound, w')" using run f e8(1,4) by simp
      from probe_engines_up_run [OF this e8(3,4) assms(3,2)] show ?thesis
        using e8(2,5) True g7 by auto
    qed
  qed
qed

lemma remove_dev_run:
  assumes "engines_live env lro" "chars_live lro" "config_base lro = Some cfg" "g_xdma_class g"
  shows "\<exists>g' w'. remove_dev env g (Some lro) w = Some (g', w') \<and> \<not> dev_present g' (d_instance lro)
    \<and> obj_net (trace w') = gap lro w \<and> irq_net (trace w') = irq_gap env lro w"
proof -
  define w1 where "w1 = user_interrupts_disable cfg (- 1) (channel_interrupts_disable cfg (- 1) w)"
  obtain x w2 where r: "read_interrupts env cfg w1 = (x, w2)" by fastforce
  have "same_nets w w1" by (simp add: w1_def same_nets_def user_interrupts_disable_def channel_interrupts_disable_def)
  then have n2: "same_nets w w2" using same_nets_io(5) [OF r] same_nets_trans by blast
  from destroy_interfaces_run [OF assms(2,4), of w2] obtain w3 where
    d: "destroy_interfaces g lro w2 = Some (lro\<lparr>char_heap := Map.empty\<rparr>, w3)"
      "gap (lro\<lparr>char_heap := Map.empty\<rparr>) w3 = gap lro w2" "irq_net (trace w3) = irq_net (trace w2)" by blast
  let ?l3 = "lro\<lparr>char_heap := Map.empty\<rparr>"
  have "engines_live env ?l3" using assms(1) by (simp add: engines_live_def)
  from remove_engines_run [OF this, of w3] obtain n w4 where
    e: "remove_engines env ?l3 w3 = Some (?l3\<lparr>engines_num := n, eng_heap := Map.empty\<rparr>, w4)"
      "gap (?l3\<lparr>engines_num := n, eng_heap := Map.empty\<rparr>) w4 = gap ?l3 w3"
      "irq_gap env (?l3\<lparr>engines_num := n, eng_heap := Map.empty\<rparr>) w4 = irq_gap env ?l3 w3" by blast
  define l4 where "l4 = ?l3\<lparr>engines_num := n, eng_heap := Map.empty\<rparr>"
  have bare: "char_heap l4 = Map.empty" "eng_heap l4 = Map.empty" "d_instance l4 = d_instance lro" by (simp_all add: l4_def)
  define w5 where "w5 = irq_teardown env l4 w4"
  obtain l6 w6 where u: "unmap_bars l4 w5 = (l6, w6)" by (cases "unmap_bars l4 w5")
  from unmap_bars_spec [OF u] have s: "gap l6 w6 = gap l4 w5" "char_heap l6 = Map.empty" "eng_heap l6 = Map.empty"
    "\<forall>i<XDMA_BAR_NUM. dev_bar l6 i = 0" "d_instance l6 = d_instance lro" using bare by auto
  have o6: "obj_net (trace w6) = (\<lambda>ob. gap l4 w4 ob + of_bool (ob = ObjDev))"
  proof
    fix ob
    have "gap l6 w6 ob = gap l4 w5 ob" using s(1) by simp
    then show "obj_net (trace w6) ob = gap l4 w4 ob + of_bool (ob = ObjDev)"
      using own_bare [OF s(2-4)] irq_teardown_quiet [of env l4 w4] by (simp add: gap_def w5_def)
  qed
  have i6: "irq_net (trace w6) = irq_gap env l4 w4"
    using unmap_bars_lines [OF u] irq_teardown_lines [OF bare(2), of env w4] by (simp add: w5_def)
  have g4: "gap l4 w4 = gap lro w" using e(2) d(2) same_nets_gaps [OF n2, of lro env] by (simp add: l4_def)
  have i4: "irq_gap env l4 w4 = irq_gap env lro w"
    using e(3) d(3) n2 by (simp add: l4_def irq_gap_def same_nets_def)
  define w7 where "w7 = (if got_regions l6 then svc_void SvcReleaseRegions w6 else w6)"
  define w8 where "w8 = (if msix_enabled l6 then svc_void SvcDisableMsix w7
              else if msi_enabled l6 then svc_void SvcDisableMsi w7 else w7)"
  define w9 where "w9 = (if \<not> regions_in_use l6 then svc_void SvcDisableDevice w8 else w8)"
  have n9: "same_nets w6 w9" by (simp add: w7_def w8_def w9_def same_nets_def)
  have "remove_dev env g (Some lro) w = Some (g\<lparr>dev_present := (dev_present g)(d_instance l6 := False)\<rparr>,
      kfree ObjDev (svc_void SvcRemoveFile w9))"
    unfolding remove_dev_def option.case assms(3) Option.bind.simps(2) Let_def w1_def [symmetric] r prod.case d(1) e(1)
      l4_def [symmetric] w5_def [symmetric] u w7_def [symmetric] w8_def [symmetric] w9_def [symmetric] ..
  then show ?thesis using o6 i6 g4 i4 n9 s(5) by (simp add: same_nets_def fun_eq_iff)
qed

subsection \<open>Numbers and names\<close>

definition minor_range :: "chardev_type \<Rightarrow> int \<times> int" where
  "minor_range t = (case t of CHAR_USER \<Rightarrow> (0, 1) | CHAR_CTRL \<Rightarrow> (1, 2) | CHAR_EVENTS \<Rightarrow> (10, 26)
     | CHAR_XDMA_H2C \<Rightarrow> (32, 40) | CHAR_XDMA_C2H \<Rightarrow> (32, 40) | CHAR_BYPASS_H2C \<Rightarrow> (64, 72)
     | CHAR_BYPASS_C2H \<Rightarrow> (64, 72) | CHAR_BYPASS \<Rightarrow> (100, 101))"

lemma gen_dev_minor_value:
  assumes "gen_dev_minor me t ev = Some m" "0 \<le> ev" "ev < int MAX_USER_IRQ"
    and "\<And>e. me = Some e \<Longrightarrow> channel e < XDMA_CHANNEL_NUM_MAX"
  shows "fst (minor_range t) \<le> m \<and> m < snd (minor_range t) \<and> (t = CHAR_EVENTS \<longrightarrow> m = 10 + ev)
    \<and> (sgtype t \<longrightarrow> (\<exists>e. me = Some e \<and> int (channel e) = m mod 4 \<and> int (number_in_channel e) = m div 4 mod 2))"
proof -
  have q: "(32 + int n * 4 + int c) mod 4 = int c" "(32 + int n * 4 + int c) div 4 mod 2 = int n"
    "(64 + int n * 4 + int c) mod 4 = int c" "(64 + int n * 4 + int c) div 4 mod 2 = int n"
    if "c < 4" "\<not> 2 \<le> n" for c n :: nat
  proof -
    have "n = 0 \<or> n = 1" "c = 0 \<or> c = 1 \<or> c = 2 \<or> c = 3" using that by auto
    then show "(32 + int n * 4 + int c) mod 4 = int c" "(32 + int n * 4 + int c) div 4 mod 2 = int n"
      "(64 + int n * 4 + int c) mod 4 = int c" "(64 + int n * 4 + int c) div 4 mod 2 = int n" by auto
  qed
  show ?thesis
    using assms(1-3) assms(4) [of "the me"]
    by (cases t) (auto simp: q gen_dev_minor_def sgtype_def minor_range_def MAX_USER_IRQ_def XDMA_CHANNEL_NUM_MAX_def
        split: if_splits Option.bind_splits)
qed

text \<open>the minor numbers of the devices of one card are below the 255 the driver reserves, and no two
  devices share one: the number determines the type, the engine and the user interrupt.\<close>

theorem gen_dev_minor_unique:
  assumes "gen_dev_minor me t ev = Some m" "gen_dev_minor me' t' ev' = Some m"
    and "0 \<le> ev" "ev < int MAX_USER_IRQ" "0 \<le> ev'" "ev' < int MAX_USER_IRQ"
    and "\<And>e. me = Some e \<Longrightarrow> channel e < XDMA_CHANNEL_NUM_MAX" "\<And>e. me' = Some e \<Longrightarrow> channel e < XDMA_CHANNEL_NUM_MAX"
  shows "0 \<le> m \<and> m < int XDMA_MINOR_COUNT
    \<and> (t = CHAR_EVENTS \<and> t' = CHAR_EVENTS \<longrightarrow> ev = ev')
    \<and> (sgtype t \<and> t' = t \<longrightarrow> map_option channel me = map_option channel me'
          \<and> map_option number_in_channel me = map_option number_in_channel me')
    \<and> (t = t' \<or> {t, t'} = {CHAR_XDMA_H2C, CHAR_XDMA_C2H} \<or> {t, t'} = {CHAR_BYPASS_H2C, CHAR_BYPASS_C2H})"
proof -
  note v = gen_dev_minor_value [OF assms(1,3,4,7)] and v' = gen_dev_minor_value [OF assms(2,5,6,8)]
  have r: "fst (minor_range t) \<le> m" "m < snd (minor_range t)" "fst (minor_range t') \<le> m" "m < snd (minor_range t')"
    using v v' by blast+
  have "0 \<le> m \<and> m < int XDMA_MINOR_COUNT"
    using r(1,2) by (cases t) (simp_all add: minor_range_def XDMA_MINOR_COUNT_def)
  moreover have "t = t' \<or> {t, t'} = {CHAR_XDMA_H2C, CHAR_XDMA_C2H} \<or> {t, t'} = {CHAR_BYPASS_H2C, CHAR_BYPASS_C2H}"
    using r by (cases t; cases t') (simp_all add: minor_range_def insert_commute)
  moreover have "sgtype t \<and> t' = t \<longrightarrow> map_option channel me = map_option channel me'
      \<and> map_option number_in_channel me = map_option number_in_channel me'"
  proof
    assume "sgtype t \<and> t' = t"
    then obtain e e' where "me = Some e" "int (channel e) = m mod 4" "int (number_in_channel e) = m div 4 mod 2"
      "me' = Some e'" "int (channel e') = m mod 4" "int (number_in_channel e') = m div 4 mod 2" using v v' by blast
    then show "map_option channel me = map_option channel me' \<and> map_option number_in_channel me = map_option number_in_channel me'"
      by simp
  qed
  ultimately show ?thesis using v v' by auto
qed

lemma gen_dev_minor_unique_witness:
  "gen_dev_minor (Some engine0) CHAR_XDMA_H2C (- 1) = Some 32 \<and> gen_dev_minor None CHAR_EVENTS 7 = Some 17
    \<and> (17 :: int) < int XDMA_MINOR_COUNT"
proof -
  have m: "gen_dev_minor (Some engine0) CHAR_XDMA_H2C (- 1) = Some 32" "gen_dev_minor None CHAR_EVENTS 7 = Some 17"
    by (simp_all add: gen_dev_minor_def engine0_def)
  have "0 \<le> (7 :: int)" "7 < int MAX_USER_IRQ" "\<And>e. None = Some e \<Longrightarrow> channel e < XDMA_CHANNEL_NUM_MAX"
    by (simp_all add: MAX_USER_IRQ_def)
  from gen_dev_minor_unique [OF m(2) m(2) this(1,2) this(1,2) this(3) this(3)] m show ?thesis by blast
qed

text \<open>Reading a decimal number back.\<close>

definition undec :: "string \<Rightarrow> nat" where
  "undec s = foldl (\<lambda>n c. n * 10 + (of_char c - 48)) 0 s"

lemma dec_reads_back: "undec (dec n) = n \<and> (\<forall>c\<in>set (dec n). of_char c \<noteq> (95 :: nat))"
proof (induction n rule: dec.induct)
  case (1 n)
  have c: "of_char (char_of (48 + m :: nat)) = 48 + m" if "m < 10" for m using that by simp
  show ?case
  proof (cases "n < 10")
    case True
    then show ?thesis by (subst dec.simps, subst (2) dec.simps) (simp add: undec_def c)
  next
    case False
    then show ?thesis using 1 [OF False]
      by (subst dec.simps, subst (2) dec.simps) (simp add: undec_def c del: of_char_of)
  qed
qed

lemma dec_head: "dec n @ CHR ''_'' # xs = dec m @ CHR ''_'' # ys \<Longrightarrow> n = m \<and> xs = ys"
proof -
  assume e: "dec n @ CHR ''_'' # xs = dec m @ CHR ''_'' # ys"
  have d: "takeWhile (\<lambda>c. c \<noteq> CHR ''_'') (dec k @ CHR ''_'' # zs) = dec k"
    "dropWhile (\<lambda>c. c \<noteq> CHR ''_'') (dec k @ CHR ''_'' # zs) = CHR ''_'' # zs" for k zs
    using dec_reads_back [of k] by (auto simp: takeWhile_append dropWhile_append)
  have "dec n = dec m" "CHR ''_'' # xs = CHR ''_'' # ys" using d [of n xs] d [of m ys] e by metis+
  then show ?thesis using dec_reads_back [of n] dec_reads_back [of m] by (metis list.inject)
qed

lemma dec_inj [simp]: "dec n = dec m \<longleftrightarrow> n = m"
  using dec_reads_back [of n] dec_reads_back [of m] by metis

text \<open>The part of a name behind the instance.\<close>

definition node_name :: "chardev_type \<Rightarrow> nat \<Rightarrow> string" where
  "node_name type k = (case type of CHAR_USER \<Rightarrow> ''user'' | CHAR_CTRL \<Rightarrow> ''control'' | CHAR_EVENTS \<Rightarrow> ''events_'' @ dec k
   | CHAR_XDMA_H2C \<Rightarrow> ''h2c_'' @ dec k | CHAR_XDMA_C2H \<Rightarrow> ''c2h_'' @ dec k
   | CHAR_BYPASS_H2C \<Rightarrow> ''bypass_h2c_'' @ dec k | CHAR_BYPASS_C2H \<Rightarrow> ''bypass_c2h_'' @ dec k
   | CHAR_BYPASS \<Rightarrow> ''bypass'')"

lemma devnode_split: "devnode_name t i k = ''xdma'' @ dec i @ CHR ''_'' # node_name t k"
  by (cases t) (simp_all add: devnode_name_def node_name_def)

lemma node_name_unique: "node_name t k = node_name t' k' \<Longrightarrow> t = t' \<and> (k = k' \<or> t \<in> {CHAR_USER, CHAR_CTRL, CHAR_BYPASS})"
  by (cases t; cases t') (simp_all add: node_name_def)

text \<open>no two device nodes share a name: the name determines the instance of the card, the type of
  the device and, where the type has several devices, which one it is.\<close>

theorem devnode_name_unique:
  assumes "devnode_name t i k = devnode_name t' i' k'"
  shows "t = t' \<and> i = i' \<and> (k = k' \<or> t \<in> {CHAR_USER, CHAR_CTRL, CHAR_BYPASS})"
proof -
  from assms have "dec i @ CHR ''_'' # node_name t k = dec i' @ CHR ''_'' # node_name t' k'"
    by (simp add: devnode_split)
  then show ?thesis using dec_head node_name_unique by blast
qed

lemma devnode_name_unique_witness:
  "devnode_name CHAR_USER 3 0 = devnode_name CHAR_USER 3 1 \<and> CHAR_USER \<in> {CHAR_USER, CHAR_CTRL, CHAR_BYPASS}"
proof -
  have e: "devnode_name CHAR_USER 3 0 = devnode_name CHAR_USER 3 1" by (simp add: devnode_name_def)
  from devnode_name_unique [OF e] e show ?thesis by simp
qed

end
