(* ===== verification/Bringup.thy ===== *)
theory Bringup
  imports Interfaces
begin

section \<open>Bringing a card up and taking it down\<close>

text \<open>
  What \<open>probe\<close> and \<open>remove\<close> promise as a whole. On a kernel that has memory and whose
  services answer (\<open>kernel_ok\<close>), \<open>probe\<close> binds the card in the slot and creates the device nodes
  of exactly what that card shows by its identifier registers and BAR lengths (\<open>card_in_slot\<close>); on any kernel the accounts of \<open>Ledger\<close> balance.
\<close>

subsection \<open>A kernel that has what is asked for\<close>

fun service_ok :: "svc \<Rightarrow> int \<Rightarrow> bool" where
  "service_ok (SvcDeviceCreate _ _ _) rc = (rc > 0)"
| "service_ok SvcAllocChrdev rc = (rc > 0)"
| "service_ok SvcClassCreate rc = (rc > 0)"
| "service_ok (SvcCheckMsi _) rc = True"
| "service_ok SvcReadConfigByte rc = True"
| "service_ok SvcReadDevctl rc = True"
| "service_ok _ rc = (rc = 0)"

definition kernel_ok :: "kenv \<Rightarrow> bool" where
  "kernel_ok env \<longleftrightarrow> (\<forall>tr ob. mem_ok env tr ob) \<and> (\<forall>tr n. dma_alloc env tr n \<noteq> None)
     \<and> (\<forall>tr v. irq_rc env tr v = 0) \<and> (\<forall>tr s. service_ok s (svc_rc env tr s))"

lemma kernel_okD:
  assumes "kernel_ok env"
  shows "kalloc env ob w = (True, emit (Alloc ob) w)" "\<exists>a. dma_alloc env tr n = Some a" "irq_rc env tr v = 0"
    "request_irq env v w = (0, emit (RequestIrq v) w)" "service_ok s (svc_rc env tr s)"
  using assms by (auto simp: kernel_ok_def kalloc_def request_irq_def)

lemma kernel_ok_svc:
  assumes "kernel_ok env"
  shows "svc_rc env tr SvcEnableDevice = 0" "svc_rc env tr (SvcEnableMsix n) = 0" "svc_rc env tr SvcEnableMsi = 0"
    "svc_rc env tr SvcRequestRegions = 0" "svc_rc env tr (SvcDmaMask n) = 0" "svc_rc env tr (SvcSetName nm) = 0"
    "svc_rc env tr (SvcRegisterChrdev m i) = 0" "svc_rc env tr (SvcCdevAdd m i) = 0" "svc_rc env tr SvcCreateFile = 0"
    "svc_rc env tr (SvcDeviceCreate m i nm) \<noteq> 0" "svc_rc env tr SvcAllocChrdev > 0"
proof -
  note s = kernel_okD(5) [OF assms, of _ tr]
  show "svc_rc env tr SvcEnableDevice = 0" "svc_rc env tr (SvcEnableMsix n) = 0" "svc_rc env tr SvcEnableMsi = 0"
    "svc_rc env tr SvcRequestRegions = 0" "svc_rc env tr (SvcDmaMask n) = 0" "svc_rc env tr (SvcSetName nm) = 0"
    "svc_rc env tr (SvcRegisterChrdev m i) = 0" "svc_rc env tr (SvcCdevAdd m i) = 0" "svc_rc env tr SvcCreateFile = 0"
    "svc_rc env tr (SvcDeviceCreate m i nm) \<noteq> 0" "svc_rc env tr SvcAllocChrdev > 0"
    using s [of SvcEnableDevice] s [of "SvcEnableMsix n"] s [of SvcEnableMsi] s [of SvcRequestRegions]
      s [of "SvcDmaMask n"] s [of "SvcSetName nm"] s [of "SvcRegisterChrdev m i"] s [of "SvcCdevAdd m i"]
      s [of SvcCreateFile] s [of "SvcDeviceCreate m i nm"] s [of SvcAllocChrdev] by simp_all
qed

lemma xdma_card_kernel_ok: "kernel_ok xdma_card"
proof -
  have "service_ok s (svc_rc xdma_card tr s)" for s tr
    by (cases s) (simp_all add: xdma_card_def env0_def)
  then show ?thesis by (simp add: kernel_ok_def) (simp add: xdma_card_def env0_def)
qed

subsection \<open>The device nodes\<close>

lemma config_kobject_ok: "kernel_ok env \<Longrightarrow> config_kobject env lro me c type w = Some (rc, w') \<Longrightarrow> rc = 0"
  by (auto simp: config_kobject_def svc_call_def Let_def kernel_ok_svc split: if_splits Option.bind_splits)

lemma create_dev_ok: "kernel_ok env \<Longrightarrow> create_dev env lro me c type w = (rc, c', w') \<Longrightarrow> rc = 0"
  by (auto simp: create_dev_def svc_call_def Let_def kernel_ok_svc split: if_splits)

lemma register_sg_char_ok:
  assumes "kernel_ok env" "register_sg_char env sl bar ep me type g lro w = Some (mc, w')"
  shows "mc \<noteq> None"
  using assms(2)
  by (auto simp: register_sg_char_def svc_call_def Let_def kernel_ok_svc [OF assms(1)]
      dest!: config_kobject_ok [OF assms(1)] create_dev_ok [OF assms(1)]
      split: if_splits Option.bind_splits prod.splits)

text \<open>The driver still has a number for the card.\<close>

definition numbered :: "gstate \<Rightarrow> xdma_dev \<Rightarrow> bool" where
  "numbered g lro \<longleftrightarrow> d_major lro \<noteq> 0 \<or> find_instance (dev_present g) 0 \<noteq> MAX_XDMA_DEVICES"

lemma create_sg_char_ok:
  assumes "kernel_ok env" "numbered g lro" "create_sg_char env sl bar ep type g lro w = Some (mc, g', lro', w')"
  shows "mc \<noteq> None \<and> d_major lro' \<noteq> 0"
proof -
  note k = kernel_ok_svc(11) [OF assms(1)] kernel_okD(1) [OF assms(1)]
  have "gen_dev_major env g w = (m, g', w') \<Longrightarrow> m \<noteq> 0" for m g' w' and g and w :: "'a kworld_scheme"
    using k(1) [of "trace w"] by (auto simp: gen_dev_major_def svc_call_def Let_def split: if_splits)
  then show ?thesis using assms(2,3) register_sg_char_ok [OF assms(1)]
    by (auto simp: create_sg_char_def k(2) numbered_def Let_def split: if_splits Option.bind_splits prod.splits; blast)
qed

lemma new_char_ok:
  assumes "kernel_ok env" "numbered g lro" "new_char env sl bar ep type g lro w = Some (ok, g', lro', w')"
  shows "ok \<and> d_major lro' \<noteq> 0 \<and> char_ptr lro' sl"
proof -
  from assms(3) obtain mc lro1 where c: "create_sg_char env sl bar ep type g lro w = Some (mc, g', lro1, w')"
    "lro' = set_char sl mc lro1" "ok = (mc \<noteq> None)"
    by (auto simp: new_char_def split: Option.bind_splits)
  from create_sg_char_ok [OF assms(1,2) c(1)] c(2,3) show ?thesis by (auto simp: set_char_def)
qed

text \<open>The device nodes a card is to have.\<close>

fun wanted :: "xdma_dev \<Rightarrow> char_slot \<Rightarrow> bool" where
  "wanted lro SlotUser = (user_bar_idx lro \<ge> 0)"
| "wanted lro SlotCtrl = True"
| "wanted lro (SlotEvents i) = (i < MAX_USER_IRQ)"
| "wanted lro (SlotSgdma ch d) = eng_ptr lro (ch, d)"
| "wanted lro (SlotBypass ch d) = (eng_ptr lro (ch, d) \<and> bypass_bar_idx lro \<ge> 0)"
| "wanted lro SlotBypassBase = (bypass_bar_idx lro \<ge> 0)"

lemma create_interface_ok:
  assumes "kernel_ok env" "numbered g lro" "sl \<in> set destroy_order" "\<not> char_ptr lro sl"
    and "create_interface env sl g lro w = Some (rc, g', lro', w')"
  shows "rc = 0 \<and> numbered g' lro' \<and> (char_ptr lro' sl \<longleftrightarrow> wanted lro sl)"
proof -
  note ok = new_char_ok [OF assms(1,2)]
  have n: "numbered g (set_char s None lro)" for s using assms(2) by (simp add: numbered_def set_char_def)
  show ?thesis
    using assms(2-5) n
    by (cases sl)
      (auto simp: create_engine_interface_def create_bypass_interface_def destroy_slots numbered_def set_char_def
        dest!: ok split: if_splits Option.bind_splits)
qed

lemma wanted_frame: "chars_only lro lro' \<Longrightarrow> wanted lro' sl = wanted lro sl"
  by (cases sl) (simp_all add: chars_only_fields)

lemma create_loop_ok:
  assumes "kernel_ok env" "numbered g lro" "g_xdma_class g" "chars_live lro" "\<forall>sl\<in>set sls. char_heap lro sl = None"
    and "set sls \<subseteq> set destroy_order" "distinct sls" "engines_live env lro"
  shows "\<exists>g' lro' w'. create_loop env sls g lro w = Some (0, g', lro', w')
    \<and> (\<forall>sl. char_heap lro' sl \<noteq> None \<longleftrightarrow> (if sl \<in> set sls then wanted lro sl else char_heap lro sl \<noteq> None))"
  using assms(2-)
proof (induction sls arbitrary: g lro w)
  case (Cons sl sls)
  have h: "char_heap lro sl = None" "sl \<in> set destroy_order" "sl \<notin> set sls" "distinct sls" "set sls \<subseteq> set destroy_order"
    using Cons.prems(4-6) by auto
  from create_interface_run [OF Cons.prems(2,3) h(1,2) Cons.prems(7), of w]
  obtain rc g1 l1 w1 where s: "create_interface env sl g lro w = Some (rc, g1, l1, w1)"
    "g_xdma_class g1" "char_step env sl lro w l1 w1" by blast
  have s3: "chars_only lro l1" "chars_live l1" "\<And>s. s \<noteq> sl \<Longrightarrow> char_heap l1 s = char_heap lro s"
    using s(3) unfolding char_step_def by blast+
  have "\<not> char_ptr lro sl" using Cons.prems(3) h(1) by (simp add: chars_live_def)
  note ok = create_interface_ok [OF assms(1) Cons.prems(1) h(2) this s(1)]
  have "\<forall>s\<in>set sls. char_heap l1 s = None" using Cons.prems(4) s3(3) h(3) by (metis list.set_intros(2))
  moreover have "engines_live env l1" using chars_only_fields(6) [OF s3(1)] Cons.prems(7) by simp
  ultimately obtain g2 l2 w2 where r: "create_loop env sls g1 l1 w1 = Some (0, g2, l2, w2)"
    "\<forall>s. char_heap l2 s \<noteq> None \<longleftrightarrow> (if s \<in> set sls then wanted l1 s else char_heap l1 s \<noteq> None)"
    using Cons.IH [OF _ s(2) s3(2) _ h(5,4)] ok by blast
  have "char_heap l1 sl \<noteq> None \<longleftrightarrow> wanted lro sl" using ok s3(2) unfolding chars_live_def by metis
  then show ?case using s(1) ok r s3(3) h(3) wanted_frame [OF s3(1)] by auto
qed simp

lemma create_interfaces_ok:
  assumes "kernel_ok env" "numbered g lro" "g_xdma_class g" "\<forall>sl. \<not> char_ptr lro sl" "char_heap lro = Map.empty"
    and "engines_live env lro"
  shows "\<exists>g' lro' w'. create_interfaces env g lro w = Some (0, g', lro', w')
    \<and> (\<forall>sl. char_ptr lro' sl \<longleftrightarrow> sl \<in> set destroy_order \<and> wanted lro sl)"
proof -
  have "chars_live lro" "\<forall>sl\<in>set create_order. char_heap lro sl = None" "set create_order \<subseteq> set destroy_order"
    using assms(4,5) slots_ok(1) by (simp_all add: chars_live_def)
  from create_loop_ok [OF assms(1-3) this slots_ok(2) assms(6), of w] obtain g' lro' w' where
    l: "create_loop env create_order g lro w = Some (0, g', lro', w')"
      "\<forall>sl. char_heap lro' sl \<noteq> None \<longleftrightarrow> sl \<in> set create_order \<and> wanted lro sl"
    using assms(5) by auto
  from create_interfaces_run [OF assms(3-6), of w] l(1) have "chars_live lro'"
    by (auto simp: create_interfaces_def)
  then show ?thesis using l slots_ok(1) by (simp add: create_interfaces_def chars_live_def)
qed

subsection \<open>The engines\<close>

lemma engine_writeback_setup_ok: "kernel_ok env \<Longrightarrow> engine_writeback_setup env e w = (rc, e', w') \<Longrightarrow> rc = 0"
  using kernel_okD(2) [of env "trace w" 32] by (auto simp: engine_writeback_setup_def Let_def split: option.splits)

lemma engine_create_ok:
  "kernel_ok env \<Longrightarrow> engine_create env lro off dir ch w = Some (me, lro', w') \<Longrightarrow> me \<noteq> None"
  by (auto simp: engine_create_def engine_msix_setup_def kernel_okD(1,4) Let_def
      dest!: engine_writeback_setup_ok split: if_splits Option.bind_splits prod.splits)

lemma probe_for_engine_ok:
  "kernel_ok env \<Longrightarrow> probe_for_engine env lro dir ch w = Some (rc, lro', w') \<Longrightarrow> rc = 0"
  by (auto simp: probe_for_engine_def Let_def dest!: engine_create_ok
      split: if_splits Option.bind_splits prod.splits option.splits)

lemma probe_engines_loop_ok:
  "kernel_ok env \<Longrightarrow> probe_engines_loop env dir chs lro w = Some (rc, lro', w') \<Longrightarrow> rc = 0"
  by (induction chs arbitrary: lro w) (auto dest!: probe_for_engine_ok split: if_splits Option.bind_splits)

lemma probe_engines_ok: "kernel_ok env \<Longrightarrow> probe_engines env lro w = Some (rc, lro', w') \<Longrightarrow> rc = 0"
  by (auto simp: probe_engines_def dest!: probe_engines_loop_ok split: if_splits Option.bind_splits)

subsection \<open>The card in its slot\<close>

text \<open>
  What is plugged in, apart from what the driver finds out about it: where each BAR is mapped
  (\<open>pc_base\<close>), what the two words of a BAR hold where a configuration BAR has the identifiers of
  its interrupt and configuration blocks, which BAR is the configuration BAR, and what the
  identifier registers of the engines in it hold, by channel and direction (0 host to card,
  1 card to host). \<open>card_in_slot\<close> is the only way this reaches the driver: the BARs can be
  mapped there, and these registers never read as anything else. The configuration BAR is the
  first one of 32 kB or more that shows both identifiers.
\<close>

record pcie_card =
  pc_base :: "nat \<Rightarrow> addr"
  pc_irq_id :: "nat \<Rightarrow> u32"
  pc_cfg_id :: "nat \<Rightarrow> u32"
  pc_config :: nat
  pc_engine_id :: "nat \<times> nat \<Rightarrow> u32"

definition shows_config :: "kenv \<Rightarrow> pcie_card \<Rightarrow> nat \<Rightarrow> bool" where
  "shows_config env k i \<longleftrightarrow> 0x8000 \<le> unat (pci_resource_len env i)
     \<and> pc_irq_id k i AND 0xffff0000 = 0x1fc20000 \<and> pc_cfg_id k i AND 0xffff0000 = 0x1fc30000"

definition card_in_slot :: "kenv \<Rightarrow> pcie_card \<Rightarrow> bool" where
  "card_in_slot env k \<longleftrightarrow>
     (\<forall>i<6. pci_resource_len env i \<noteq> 0 \<longrightarrow> pc_base k i \<noteq> 0
        \<and> (\<forall>tr n. iomap env tr i n = pc_base k i)
        \<and> (\<forall>tr. hw_read env tr (pc_base k i + 0x2000) = pc_irq_id k i)
        \<and> (\<forall>tr. hw_read env tr (pc_base k i + 0x3000) = pc_cfg_id k i))
   \<and> find (shows_config env k) [0..<6] = Some (pc_config k)
   \<and> (\<forall>tr. \<forall>ch<4. \<forall>d<2. hw_read env tr (pc_base k (pc_config k) + (of_nat d * 0x1000 + of_nat ch * 0x100))
        = pc_engine_id k (ch, d))"

text \<open>The engines of the card, and the BARs beside the configuration BAR: the user BAR comes before
  it, the bypass BAR behind it.\<close>

definition has_engine :: "pcie_card \<Rightarrow> nat \<times> nat \<Rightarrow> bool" where
  "has_engine k = (\<lambda>(ch, d). ch < 4 \<and> d < 2
     \<and> drop_bit 16 (pc_engine_id k (ch, d) AND 0xffff0000) = (if d = 0 then 0x1fc0 else 0x1fc1)
     \<and> drop_bit 8 (pc_engine_id k (ch, d) AND 0xf00) = of_nat ch)"

definition card_bars :: "kenv \<Rightarrow> nat list" where
  "card_bars env = filter (\<lambda>i. pci_resource_len env i \<noteq> 0) [0..<6]"

definition has_user_bar :: "kenv \<Rightarrow> pcie_card \<Rightarrow> bool" where
  "has_user_bar env k \<longleftrightarrow> length (card_bars env) \<in> {2, 3} \<and> card_bars env ! 1 = pc_config k"

definition has_bypass_bar :: "kenv \<Rightarrow> pcie_card \<Rightarrow> bool" where
  "has_bypass_bar env k \<longleftrightarrow> length (card_bars env) = 2 \<and> card_bars env ! 0 = pc_config k
     \<or> length (card_bars env) = 3 \<and> card_bars env ! 1 = pc_config k"

fun card_has :: "kenv \<Rightarrow> pcie_card \<Rightarrow> char_slot \<Rightarrow> bool" where
  "card_has env k SlotUser = has_user_bar env k"
| "card_has env k SlotCtrl = True"
| "card_has env k (SlotEvents i) = (i < 16)"
| "card_has env k (SlotSgdma ch d) = has_engine k (ch, d)"
| "card_has env k (SlotBypass ch d) = (has_engine k (ch, d) \<and> has_bypass_bar env k)"
| "card_has env k SlotBypassBase = has_bypass_bar env k"

lemma map_single_card:
  assumes "card_in_slot env k" "i < 6" "pci_resource_len env i \<noteq> 0"
  obtains n where "map_single_bar env lro i w
      = (n, lro\<lparr>dev_bar := (dev_bar lro)(i := pc_base k i)\<rparr>, emit (Alloc (ObjBar i)) w)"
    "0 < n" "int XDMA_BAR_SIZE \<le> n \<longleftrightarrow> 0x8000 \<le> unat (pci_resource_len env i)"
proof -
  let ?m = "if pci_resource_len env i > INT_MAX then INT_MAX else pci_resource_len env i"
  have b: "pc_base k i \<noteq> 0" "iomap env tr i m = pc_base k i" for tr m
    using assms by (simp_all add: card_in_slot_def)
  have u: "unat ?m = min (unat (pci_resource_len env i)) (2 ^ 31 - 1)"
    by (auto simp: INT_MAX_def word_less_nat_alt min_def)
  have s: "sint (ucast ?m :: u32) = int (unat ?m)" by (rule sint_ucast_small) (simp add: u)
  have pos: "0 < unat (pci_resource_len env i)" using assms(3) by (simp add: unat_gt_0)
  show ?thesis
  proof (rule that [of "int (unat ?m)"])
    show "map_single_bar env lro i w
        = (int (unat ?m), lro\<lparr>dev_bar := (dev_bar lro)(i := pc_base k i)\<rparr>, emit (Alloc (ObjBar i)) w)"
      unfolding map_single_bar_def Let_def b(2) s using assms(3) b(1) by simp
  qed (use pos in \<open>simp_all add: u XDMA_BAR_SIZE_def\<close>)
qed

lemma is_config_card:
  assumes "card_in_slot env k" "i < 6" "pci_resource_len env i \<noteq> 0" "dev_bar lro i = pc_base k i"
  shows "fst (is_config_bar env lro i w)
    \<longleftrightarrow> pc_irq_id k i AND 0xffff0000 = 0x1fc20000 \<and> pc_cfg_id k i AND 0xffff0000 = 0x1fc30000"
  using assms by (simp add: is_config_bar_def read_register_def Let_def card_in_slot_def XDMA_OFS_INT_CTRL_def
      XDMA_OFS_CONFIG_def IRQ_BLOCK_ID_def CONFIG_BLOCK_ID_def)

lemma map_bars_loop_card:
  assumes "card_in_slot env k" "set js \<subseteq> {..<6}" "distinct js"
  shows "\<exists>ids' pos' lro' w'. map_bars_loop env js ids pos lro w = (True, ids', pos', lro', w')
    \<and> config_bar_idx lro' = (if config_bar_idx lro < 0
         then (case find (shows_config env k) js of None \<Rightarrow> config_bar_idx lro | Some c \<Rightarrow> int c)
         else config_bar_idx lro)
    \<and> (\<forall>i. dev_bar lro' i = (if i \<in> set js then if pci_resource_len env i = 0 then 0 else pc_base k i
                              else dev_bar lro i))"
  using assms(2,3)
proof (induction js arbitrary: ids pos lro w)
  case (Cons i js)
  have i: "i < 6" "i \<notin> set js" "set js \<subseteq> {..<6}" "distinct js" using Cons.prems by auto
  show ?case
  proof (cases "pci_resource_len env i = 0")
    case True
    have s: "map_single_bar env lro i w = (0, lro\<lparr>dev_bar := (dev_bar lro)(i := 0)\<rparr>, w)"
      using True by (simp add: map_single_bar_def)
    have n: "\<not> shows_config env k i" using True by (simp add: shows_config_def)
    let ?l = "lro\<lparr>dev_bar := (dev_bar lro)(i := 0)\<rparr>"
    obtain ids' pos' lro' w' where r: "map_bars_loop env js ids pos ?l w = (True, ids', pos', lro', w')"
      "config_bar_idx lro' = (if config_bar_idx ?l < 0
         then (case find (shows_config env k) js of None \<Rightarrow> config_bar_idx ?l | Some c \<Rightarrow> int c)
         else config_bar_idx ?l)"
      "\<forall>j. dev_bar lro' j = (if j \<in> set js then if pci_resource_len env j = 0 then 0 else pc_base k j
                              else dev_bar ?l j)"
      using Cons.IH [OF i(3,4), of ids pos ?l w] by blast
    have l: "config_bar_idx ?l = config_bar_idx lro" by simp
    have "config_bar_idx lro' = (if config_bar_idx lro < 0
         then (case find (shows_config env k) (i # js) of None \<Rightarrow> config_bar_idx lro | Some c \<Rightarrow> int c)
         else config_bar_idx lro)"
      using r(2) n unfolding l by simp
    moreover have "\<forall>j. dev_bar lro' j = (if j \<in> set (i # js) then if pci_resource_len env j = 0 then 0 else pc_base k j
                              else dev_bar lro j)"
      using r(3) True i(2) by simp
    moreover have "map_bars_loop env (i # js) ids pos lro w = (True, ids', pos', lro', w')" using s r(1) by simp
    ultimately show ?thesis by blast
  next
    case False
    obtain n where n: "map_single_bar env lro i w
        = (n, lro\<lparr>dev_bar := (dev_bar lro)(i := pc_base k i)\<rparr>, emit (Alloc (ObjBar i)) w)" "0 < n"
      "int XDMA_BAR_SIZE \<le> n \<longleftrightarrow> 0x8000 \<le> unat (pci_resource_len env i)"
      using map_single_card [OF assms(1) i(1) False] by metis
    let ?l = "lro\<lparr>dev_bar := (dev_bar lro)(i := pc_base k i)\<rparr>" and ?w = "emit (Alloc (ObjBar i)) w"
    obtain c w2 where c: "(if n \<ge> int XDMA_BAR_SIZE \<and> config_bar_idx ?l < 0 then is_config_bar env ?l i ?w
        else (False, ?w)) = (c, w2)" by fastforce
    have cv: "c \<longleftrightarrow> config_bar_idx lro < 0 \<and> shows_config env k i"
      using c n(3) is_config_card [OF assms(1) i(1) False, of ?l ?w]
      by (auto simp: shows_config_def split: if_splits)
    let ?l2 = "if c then ?l\<lparr>config_bar_idx := int i\<rparr> else ?l"
    obtain ids' pos' lro' w' where r: "map_bars_loop env js (ids @ [i]) (if c then length ids else pos) ?l2 w2
        = (True, ids', pos', lro', w')"
      "config_bar_idx lro' = (if config_bar_idx ?l2 < 0
         then (case find (shows_config env k) js of None \<Rightarrow> config_bar_idx ?l2 | Some c \<Rightarrow> int c)
         else config_bar_idx ?l2)"
      "\<forall>j. dev_bar lro' j = (if j \<in> set js then if pci_resource_len env j = 0 then 0 else pc_base k j
                              else dev_bar ?l2 j)"
      using Cons.IH [OF i(3,4), of "ids @ [i]" "if c then length ids else pos" ?l2 w2] by blast
    have "map_bars_loop env (i # js) ids pos lro w = (True, ids', pos', lro', w')"
      using n(1,2) c r(1) by (cases c) (simp_all add: Let_def)
    moreover have "config_bar_idx lro' = (if config_bar_idx lro < 0
         then (case find (shows_config env k) (i # js) of None \<Rightarrow> config_bar_idx lro | Some c \<Rightarrow> int c)
         else config_bar_idx lro)"
      using r(2) cv by (cases c) (auto split: option.splits)
    moreover have "\<forall>j. dev_bar lro' j = (if j \<in> set (i # js) then if pci_resource_len env j = 0 then 0 else pc_base k j
                              else dev_bar lro j)"
      using r(3) False i(2) by (cases c) auto
    ultimately show ?thesis by blast
  qed
qed (cases "config_bar_idx lro < 0"; simp)

lemma map_bars_card:
  assumes "card_in_slot env k" "\<forall>i. dev_bar lro i = 0" "config_bar_idx lro = - 1"
    and "user_bar_idx lro = - 1" "bypass_bar_idx lro = - 1"
  shows "\<exists>lro' w'. map_bars env lro w = (0, lro', w') \<and> config_base lro' = Some (pc_base k (pc_config k))
    \<and> config_bar_idx lro' = int (pc_config k)
    \<and> (0 \<le> user_bar_idx lro' \<longleftrightarrow> has_user_bar env k) \<and> (0 \<le> bypass_bar_idx lro' \<longleftrightarrow> has_bypass_bar env k)"
proof -
  have f: "find (shows_config env k) [0..<XDMA_BAR_NUM] = Some (pc_config k)"
    using assms(1) by (simp add: card_in_slot_def XDMA_BAR_NUM_def)
  then have c: "pc_config k < 6" "pci_resource_len env (pc_config k) \<noteq> 0"
    by (auto simp: find_Some_iff XDMA_BAR_NUM_def shows_config_def)
  obtain ids pos l1 w1 where l: "map_bars_loop env [0..<XDMA_BAR_NUM] [] 0 lro w = (True, ids, pos, l1, w1)"
    "config_bar_idx l1 = int (pc_config k)" "dev_bar l1 (pc_config k) = pc_base k (pc_config k)"
  proof -
    have js: "set [0..<XDMA_BAR_NUM] \<subseteq> {..<6}" "distinct [0..<XDMA_BAR_NUM]" "pc_config k \<in> set [0..<XDMA_BAR_NUM]"
      using c(1) by (auto simp: XDMA_BAR_NUM_def)
    from map_bars_loop_card [OF assms(1) js(1,2), of "[]" 0 lro w] show ?thesis
      using f c(2) js(3) assms(3) that by auto
  qed
  have m: "map_bars env lro w = (0, identify_bars l1 ids pos, w1)" using l by (simp add: map_bars_def)
  have b: "filter (\<lambda>i. pci_resource_len env i \<noteq> 0) [0..<XDMA_BAR_NUM] = card_bars env"
    by (simp add: card_bars_def XDMA_BAR_NUM_def)
  have h: "\<forall>i<XDMA_BAR_NUM. dev_bar lro i = 0" "config_bar_idx lro < 0" using assms(2,3) by simp_all
  from map_bars_identifies [OF m h assms(4,5) b [symmetric]] obtain cfg where
    i: "config_bar_idx (identify_bars l1 ids pos) = int cfg"
      "user_bar_idx (identify_bars l1 ids pos)
         = (if length (card_bars env) \<in> {2, 3} \<and> card_bars env ! 1 = cfg then int (card_bars env ! 0) else - 1)"
      "bypass_bar_idx (identify_bars l1 ids pos)
         = (if length (card_bars env) = 2 \<and> card_bars env ! 0 = cfg then int (card_bars env ! 1)
            else if length (card_bars env) = 3 \<and> card_bars env ! 1 = cfg then int (card_bars env ! 2) else - 1)"
    by blast
  have "cfg = pc_config k" using i(1) l(2) by simp
  moreover have "config_base (identify_bars l1 ids pos) = Some (pc_base k (pc_config k))"
    using l(2,3) c(1) by (simp add: config_base_def bar_at_def XDMA_BAR_NUM_def)
  ultimately show ?thesis
    unfolding m using i l(2) by (auto simp: has_user_bar_def has_bypass_bar_def)
qed

lemma engine_create_frame:
  "engine_create env lro off dir ch w = Some (me, lro', w')
    \<Longrightarrow> eng_ptr lro' = eng_ptr lro \<and> config_base lro' = config_base lro"
  by (auto simp: engine_create_def Let_def config_base_def bar_at_def
      split: if_splits Option.bind_splits prod.splits bool.splits)

lemma probe_for_engine_card:
  assumes "kernel_ok env" "card_in_slot env k" "config_base lro = Some (pc_base k (pc_config k))" "ch < 4"
    and "probe_for_engine env lro dir ch w = Some (rc, lro', w')"
  shows "config_base lro' = config_base lro
    \<and> (\<forall>p. eng_ptr lro' p \<longleftrightarrow> eng_ptr lro p \<or> p = (ch, if dir then 0 else 1) \<and> has_engine k p)"
proof -
  let ?d = "if dir then 0 else 1 :: nat"
  let ?off = "of_nat ?d * H2C_CHANNEL_OFFSET + of_nat ch * CHANNEL_SPACING"
  let ?regs = "pc_base k (pc_config k) + ?off"
  have r: "hw_read env tr ?regs = pc_engine_id k (ch, ?d)" for tr
    using assms(2,4) by (simp add: card_in_slot_def H2C_CHANNEL_OFFSET_def CHANNEL_SPACING_def)
  obtain w1 where g: "get_engine_id env ?regs w = (drop_bit 16 (pc_engine_id k (ch, ?d) AND 0xffff0000), w1)"
    using r by (simp add: get_engine_id_def read_register_def engine_identifier_def Let_def)
  obtain w2 where c: "get_engine_channel_id env ?regs w1 = (drop_bit 8 (pc_engine_id k (ch, ?d) AND 0xf00), w2)"
    using r by (simp add: get_engine_channel_id_def read_register_def engine_identifier_def Let_def)
  note unf = probe_for_engine_def Let_def assms(3) g c
  have has: "has_engine k (ch, ?d)
      \<longleftrightarrow> drop_bit 16 (pc_engine_id k (ch, ?d) AND 0xffff0000) = (if dir then XDMA_ID_H2C else XDMA_ID_C2H)
        \<and> drop_bit 8 (pc_engine_id k (ch, ?d) AND 0xf00) = of_nat ch"
    using assms(4) by (simp add: has_engine_def XDMA_ID_H2C_def XDMA_ID_C2H_def)
  show ?thesis
  proof (cases "has_engine k (ch, ?d)")
    case False
    then have "lro' = lro" using assms(5) has by (auto simp: unf split: if_splits)
    then show ?thesis using False by auto
  next
    case True
    obtain me l1 w3 where e: "engine_create env lro ?off dir ch w2 = Some (me, l1, w3)"
      "lro' = (case me of None \<Rightarrow> l1\<lparr>eng_ptr := (eng_ptr l1)((ch, ?d) := False)\<rparr>
         | Some e \<Rightarrow> l1\<lparr>eng_ptr := (eng_ptr l1)((ch, ?d) := True), eng_heap := (eng_heap l1)((ch, ?d) \<mapsto> e)\<rparr>)"
      using assms(5) True [unfolded has] by (auto simp: unf split: Option.bind_splits option.splits)
    obtain eng where "me = Some eng" using engine_create_ok [OF assms(1) e(1)] by blast
    moreover have "config_base (l1\<lparr>eng_ptr := q, eng_heap := h\<rparr>) = config_base l1" for q h
      by (simp add: config_base_def bar_at_def)
    ultimately show ?thesis using True e(2) engine_create_frame [OF e(1)] by auto
  qed
qed

lemma probe_engines_loop_card:
  assumes "kernel_ok env" "card_in_slot env k"
  shows "config_base lro = Some (pc_base k (pc_config k)) \<Longrightarrow> set chs \<subseteq> {..<4}
    \<Longrightarrow> probe_engines_loop env dir chs lro w = Some (rc, lro', w')
    \<Longrightarrow> config_base lro' = config_base lro
      \<and> (\<forall>p. eng_ptr lro' p \<longleftrightarrow> eng_ptr lro p \<or> fst p \<in> set chs \<and> snd p = (if dir then 0 else 1) \<and> has_engine k p)"
proof (induction chs arbitrary: lro w)
  case (Cons ch chs)
  obtain rc1 l1 w1 where p: "probe_for_engine env lro dir ch w = Some (rc1, l1, w1)"
    using Cons.prems(3) by (auto split: Option.bind_splits)
  have z: "rc1 = 0" by (rule probe_for_engine_ok [OF assms(1) p])
  have ch: "ch < 4" "set chs \<subseteq> {..<4}" using Cons.prems(2) by auto
  note one = probe_for_engine_card [OF assms Cons.prems(1) ch(1) p]
  have "probe_engines_loop env dir chs l1 w1 = Some (rc, lro', w')" using Cons.prems(3) p z by simp
  from Cons.IH [OF _ ch(2) this] one Cons.prems(1) show ?case by (cases dir) auto
qed simp

lemma probe_engines_card:
  assumes "kernel_ok env" "card_in_slot env k" "config_base lro = Some (pc_base k (pc_config k))" "\<forall>p. \<not> eng_ptr lro p"
    and "probe_engines env lro w = Some (rc, lro', w')"
  shows "eng_ptr lro' p \<longleftrightarrow> has_engine k p"
proof -
  have chs: "set [0..<XDMA_CHANNEL_NUM_MAX] \<subseteq> {..<4}" by (auto simp: XDMA_CHANNEL_NUM_MAX_def)
  obtain rc1 l1 w1 where h: "probe_engines_loop env True [0..<XDMA_CHANNEL_NUM_MAX] lro w = Some (rc1, l1, w1)"
    using assms(5) by (auto simp: probe_engines_def split: Option.bind_splits)
  have z: "rc1 = 0" by (rule probe_engines_loop_ok [OF assms(1) h])
  note h2c = probe_engines_loop_card [OF assms(1,2,3) chs h]
  obtain rc2 where c: "probe_engines_loop env False [0..<XDMA_CHANNEL_NUM_MAX] l1 w1 = Some (rc2, lro', w')"
    using assms(5) h z by (auto simp: probe_engines_def split: Option.bind_splits)
  have b: "config_base l1 = Some (pc_base k (pc_config k))" using h2c assms(3) by simp
  show ?thesis
    using h2c probe_engines_loop_card [OF assms(1,2) b chs c] assms(4)
    by (cases p) (auto simp: has_engine_def XDMA_CHANNEL_NUM_MAX_def less_2_cases_iff)
qed

lemma wanted_card:
  assumes "\<forall>p. eng_ptr lro p \<longleftrightarrow> has_engine k p" "0 \<le> user_bar_idx lro \<longleftrightarrow> has_user_bar env k"
    and "0 \<le> bypass_bar_idx lro \<longleftrightarrow> has_bypass_bar env k"
  shows "sl \<in> set destroy_order \<and> wanted lro sl \<longleftrightarrow> card_has env k sl"
  using assms by (cases sl) (auto simp: destroy_slots MAX_USER_IRQ_def XDMA_CHANNEL_NUM_MAX_def has_engine_def)

text \<open>The steps between the BARs and the engines do not touch what is known of the BARs.\<close>

definition same_bars :: "xdma_dev \<Rightarrow> xdma_dev \<Rightarrow> bool" where
  "same_bars lro lro' \<longleftrightarrow> user_bar_idx lro' = user_bar_idx lro \<and> bypass_bar_idx lro' = bypass_bar_idx lro
     \<and> config_bar_idx lro' = config_bar_idx lro"

lemma irq_setup_bars: "irq_setup env lro w = Some (rc, lro', w') \<Longrightarrow> same_bars lro lro'"
  by (auto simp: irq_setup_def msix_irq_setup_def same_bars_def Let_def split: if_splits Option.bind_splits prod.splits)

lemma early_bars:
  "probe_scan_for_msi env lro w = (rc, lro', w') \<Longrightarrow> same_bars lro lro'"
  "request_regions env lro w = (rc, lro', w') \<Longrightarrow> same_bars lro lro'"
  by (auto simp: probe_scan_for_msi_def request_regions_def same_bars_def Let_def split: if_splits prod.splits)

lemma engines_chars_bars: "engines_only lro lro' \<Longrightarrow> same_bars lro lro'" "chars_only lro lro' \<Longrightarrow> same_bars lro lro'"
  by (auto simp: engines_only_def chars_only_def same_bars_def)

subsection \<open>The whole of \<open>probe\<close>\<close>

lemma request_loop_ok: "kernel_ok env \<Longrightarrow> request_loop env js w = (rc, got, w') \<Longrightarrow> rc = 0"
  by (induction js arbitrary: w rc got) (auto simp: kernel_okD(4) split: prod.splits)

lemma irq_setup_ok: "kernel_ok env \<Longrightarrow> irq_setup env lro w = Some (rc, lro', w') \<Longrightarrow> rc = 0"
  by (auto simp: irq_setup_def msix_irq_setup_def kernel_okD(4) Let_def
      dest!: request_loop_ok split: if_splits Option.bind_splits prod.splits)

lemma probe_engines_up_ok:
  assumes "kernel_ok env" "g_xdma_class g" "dev_fresh lro" "config_base lro = Some cfg" "cfg = pc_base k (pc_config k)" "\<forall>i<32. msix_vec env i \<noteq> 0"
    and "find_instance (dev_present g) 0 \<noteq> MAX_XDMA_DEVICES" "card_in_slot env k"
  shows "\<exists>g' lro' w'. probe_engines_up env g lro cfg w = Some (0, g', Some lro', w')
    \<and> (\<forall>p. eng_ptr lro' p \<longleftrightarrow> has_engine k p) \<and> same_bars lro lro'
    \<and> (\<forall>sl. char_ptr lro' sl \<longleftrightarrow> sl \<in> set destroy_order \<and> wanted lro' sl)"
proof -
  obtain v w1 where r: "read_register env cfg w = (v, w1)" by fastforce
  define w2 where "w2 = (if enable_credit_mp env AND (if bits_set v 0x8000 then 1 else 0) \<noteq> 0
      then enable_credit_feature cfg w1 else w1)"
  from assms(3) have f: "engines_num lro = 0" "eng_heap lro = Map.empty" "\<forall>p. \<not> eng_ptr lro p"
    "char_heap lro = Map.empty" "\<forall>sl. \<not> char_ptr lro sl" by (simp_all add: dev_fresh_def)
  from probe_engines_run [OF assms(4) f(1-3) assms(6), of w2] obtain rc l3 w3 where
    e: "probe_engines env lro w2 = Some (rc, l3, w3)" "engines_only lro l3"
      "rc = 0 \<and> engines_live env l3 \<or> rc = - 1 \<and> eng_heap l3 = Map.empty" by blast
  have live: "rc = 0" "engines_live env l3" using e(3) probe_engines_ok [OF assms(1) e(1)] by auto
  have c3: "\<forall>sl. \<not> char_ptr l3 sl" "char_heap l3 = Map.empty"
    using engines_only_fields(2,3) [OF e(2)] f(4,5) by simp_all
  have n3: "numbered g l3" using assms(7) by (simp add: numbered_def)
  from create_interfaces_ok [OF assms(1) n3 assms(2) c3 live(2), of w3] obtain g4 l4 w4 where
    i: "create_interfaces env g l3 w3 = Some (0, g4, l4, w4)"
      "\<forall>sl. char_ptr l4 sl \<longleftrightarrow> sl \<in> set destroy_order \<and> wanted l3 sl" by blast
  from create_interfaces_run [OF assms(2) c3 live(2), of w3] i(1) have only: "chars_only l3 l4" by auto
  have "\<exists>w'. probe_engines_up env g lro cfg w = Some (0, g4, Some l4, w')"
    by (simp add: probe_engines_up_def r w2_def [symmetric] e(1) live(1) i(1) svc_call_def Let_def
        kernel_ok_svc(9) [OF assms(1)] split: prod.splits)
  moreover have "eng_ptr l4 p \<longleftrightarrow> has_engine k p" for p
    using probe_engines_card [OF assms(1,8) _ f(3) e(1)] assms(4,5) chars_only_fields(1) [OF only] by simp
  moreover have "same_bars lro l4"
    using engines_chars_bars(1) [OF e(2)] engines_chars_bars(2) [OF only] by (simp add: same_bars_def)
  ultimately show ?thesis using i(2) wanted_frame [OF only] by auto
qed

lemma probe_ok:
  fixes w :: "'w world_scheme"
  assumes "kernel_ok env" "g_xdma_class g" "\<forall>i<32. msix_vec env i \<noteq> 0" "pci_irq env \<noteq> - 1"
    and "find_instance (dev_present g) 0 \<noteq> MAX_XDMA_DEVICES"
    and card: "card_in_slot env k"
  shows "\<exists>g' lro w'. probe env g w = Some (0, g', Some lro, w') \<and> config_bar_idx lro = int (pc_config k)
    \<and> (\<forall>p. eng_ptr lro p \<longleftrightarrow> has_engine k p) \<and> (\<forall>sl. char_ptr lro sl \<longleftrightarrow> card_has env k sl)"
proof -
  note k = kernel_ok_svc [OF assms(1)]
  define w0 where "w0 = emit (Alloc ObjDev) w"
  have al: "alloc_dev_instance env w = (Some dev0, w0)"
    by (simp add: alloc_dev_instance_def kernel_okD(1) [OF assms(1)] w0_def)
  have plain0: "dev_plain dev0" by (simp add: dev_plain_def dev_fresh_def dev0_def)
  obtain w1 where e1: "svc_call env SvcEnableDevice w0 = (0, w1)" by (simp add: svc_call_def k Let_def)
  define w2 where "w2 = svc_void SvcSetMaster (enable_pcie_relaxed_ordering w1)"
  obtain rc3 l3 w3 where e3: "probe_scan_for_msi env dev0 w2 = (rc3, l3, w3)" by (cases "probe_scan_for_msi env dev0 w2")
  have rc3: "rc3 = 0"
    using e3 by (auto simp: probe_scan_for_msi_def svc_call_def k Let_def split: prod.splits if_splits)
  obtain l4 w4 where e4: "request_regions env l3 w3 = (0, l4, w4)"
    by (simp add: request_regions_def svc_call_def k Let_def)
  have p4: "dev_plain l4" using request_regions_run [OF e4] probe_scan_for_msi_run [OF e3 plain0] by blast
  have b4: "user_bar_idx l4 = - 1" "bypass_bar_idx l4 = - 1" "\<forall>i. dev_bar l4 i = 0" "config_bar_idx l4 = - 1"
    using early_bars(1) [OF e3] early_bars(2) [OF e4] p4 by (simp_all add: same_bars_def dev0_def dev_plain_def)
  from map_bars_card [OF card b4(3,4,1,2), of w4] obtain l5 w5 where e5: "map_bars env l4 w4 = (0, l5, w5)"
    "config_base l5 = Some (pc_base k (pc_config k))" "config_bar_idx l5 = int (pc_config k)"
    "0 \<le> user_bar_idx l5 \<longleftrightarrow> has_user_bar env k" "0 \<le> bypass_bar_idx l5 \<longleftrightarrow> has_bypass_bar env k" by blast
  define w6 where "w6 = pcie_check_extended_tag env l5 w5"
  obtain w7 where e7: "set_dma_mask env w6 = (0, w7)"
    by (simp add: set_dma_mask_def svc_call_def k Let_def)
  define cfg where "cfg = pc_base k (pc_config k)"
  have cfg: "config_base l5 = Some cfg" "dev_mapped l5" using map_bars_plain [OF e5(1) p4] e5(2) by (simp_all add: cfg_def)
  from irq_setup_run [OF this assms(4), of w7] obtain rc8 l8 w8 where
    e8: "irq_setup env l5 w7 = Some (rc8, l8, w8)" "dev_fresh l8" "config_base l8 = Some cfg" by blast
  from irq_setup_ok [OF assms(1) e8(1)] have "rc8 = 0" .
  moreover from probe_engines_up_ok [OF assms(1,2) e8(2,3) cfg_def assms(3,5) card, of w8] obtain g' lro w' where
    up: "probe_engines_up env g l8 cfg w8 = Some (0, g', Some lro, w')"
    "\<forall>p. eng_ptr lro p \<longleftrightarrow> has_engine k p" "same_bars l8 lro"
    "\<forall>sl. char_ptr lro sl \<longleftrightarrow> sl \<in> set destroy_order \<and> wanted lro sl" by blast
  moreover have b: "same_bars l5 lro" using irq_setup_bars [OF e8(1)] up(3) by (simp add: same_bars_def)
  moreover have "char_ptr lro sl \<longleftrightarrow> card_has env k sl" for sl
    using up(4) wanted_card [OF up(2), of env sl] b e5(4,5) by (simp add: same_bars_def)
  ultimately show ?thesis
    unfolding probe_def al prod.case option.case e1 Let_def w2_def [symmetric] e3 e4 e5(1) w6_def [symmetric] e7 rc3
    using e5(3) by (simp add: e8 same_bars_def)
qed

subsection \<open>The example card\<close>

definition card_globals :: gstate where
  "card_globals = \<lparr>g_xdma_class = True, g_major = 0, dev_present = (\<lambda>_. False)\<rparr>"

lemma card_globals_free: "g_xdma_class card_globals" "find_instance (dev_present card_globals) 0 \<noteq> MAX_XDMA_DEVICES"
  by (simp_all add: card_globals_def find_instance.simps [of _ 0] MAX_XDMA_DEVICES_def)

definition plugged_card :: pcie_card where
  "plugged_card = \<lparr>pc_base = (\<lambda>i. 0x1000000 * (1 + of_nat i)), pc_irq_id = (\<lambda>i. if i = 1 then 0x1fc20000 else 0),
     pc_cfg_id = (\<lambda>i. if i = 1 then 0x1fc30000 else 0), pc_config = 1,
     pc_engine_id = (\<lambda>p. if p = (0, 0) then 0x1fc00000 else if p = (0, 1) then 0x1fc10000 else 0)\<rparr>"

lemma less_4_cases: "(n :: nat) < 4 \<longleftrightarrow> n = 0 \<or> n = 1 \<or> n = 2 \<or> n = 3"
  by auto

lemma card_in_its_slot: "card_in_slot xdma_card plugged_card"
proof -
  have six: "[0..<6] = [0, 1, 2, 3, 4, 5 :: nat]" by (simp add: upt_rec)
  have bars: "\<forall>i<6. pci_resource_len xdma_card i \<noteq> 0 \<longrightarrow> i = 0 \<or> i = 1" by (simp add: xdma_card_len)
  have rd: "hw_read xdma_card tr a = (if a = 0x2002000 then 0x1fc20000 else if a = 0x2003000 then 0x1fc30000
      else if a = 0x2000000 then 0x1fc00000 else if a = 0x2001000 then 0x1fc10000 else 0)" for tr a
    by (simp add: xdma_card_def IRQ_BLOCK_ID_def CONFIG_BLOCK_ID_def)
  have io: "iomap xdma_card tr i n = 0x1000000 * (1 + of_nat i)" for tr i n by (simp add: xdma_card_def env0_def)
  have "find (shows_config xdma_card plugged_card) [0..<6] = Some 1"
    by (simp add: six shows_config_def xdma_card_len plugged_card_def)
  moreover have "hw_read xdma_card tr (0x2000000 + (of_nat d * 0x1000 + of_nat ch * 0x100)) = pc_engine_id plugged_card (ch, d)"
    if "ch < 4" "d < 2" for tr ch d
    using that unfolding less_4_cases less_2_cases_iff rd by (auto simp: plugged_card_def)
  ultimately show ?thesis
    using bars unfolding card_in_slot_def by (auto simp: io rd plugged_card_def)
qed

lemma card_line: "pci_irq xdma_card \<noteq> - 1" by (simp add: xdma_card_def env0_def)

lemma card_probed:
  "\<exists>g' lro w'. probe xdma_card card_globals (w :: 'w world_scheme) = Some (0, g', Some lro, w')"
  using probe_ok [OF xdma_card_kernel_ok card_globals_free(1) card_vectors card_line card_globals_free(2) card_in_its_slot, of w]
  by blast

subsection \<open>Properties\<close>

text \<open>C18: on a kernel that has memory and whose services answer, and with an instance number free,
  \<open>probe\<close> binds a card that is in its slot, whatever the rest of its registers read: it finds the
  configuration BAR, an engine for exactly the channels and directions whose identifier register
  names one, and creates the device nodes of exactly what the card has: control, events, user BAR
  when there is one before the configuration BAR, bypass when there is a BAR behind it, engines.\<close>

theorem probe_binds:
  fixes w :: "'w world_scheme"
  assumes "kernel_ok env" "g_xdma_class g" "\<forall>i<32. msix_vec env i \<noteq> 0" "pci_irq env \<noteq> - 1"
    and "find_instance (dev_present g) 0 \<noteq> MAX_XDMA_DEVICES"
    and "card_in_slot env k"
  shows "\<exists>g' lro w'. probe env g w = Some (0, g', Some lro, w') \<and> config_bar_idx lro = int (pc_config k)
    \<and> (\<forall>p. eng_ptr lro p \<longleftrightarrow> has_engine k p) \<and> (\<forall>sl. char_ptr lro sl \<longleftrightarrow> card_has env k sl)"
  by (rule probe_ok [OF assms])

lemma probe_binds_witness:
  "\<exists>g' lro w'. probe xdma_card card_globals world1 = Some (0, g', Some lro, w') \<and> config_bar_idx lro = 1
    \<and> eng_ptr lro (0, 1) \<and> \<not> eng_ptr lro (1, 0) \<and> char_ptr lro (SlotSgdma 0 0) \<and> char_ptr lro SlotUser
    \<and> \<not> char_ptr lro SlotBypassBase"
proof -
  have e: "has_engine plugged_card (0, 0)" "has_engine plugged_card (0, 1)" "\<not> has_engine plugged_card (1, 0)"
    by (simp_all add: has_engine_def plugged_card_def)
  have "card_bars xdma_card = [0, 1]" by (simp add: card_bars_def xdma_card_len upt_rec)
  then have b: "has_user_bar xdma_card plugged_card" "\<not> has_bypass_bar xdma_card plugged_card"
    by (simp_all add: has_user_bar_def has_bypass_bar_def plugged_card_def)
  have c: "int (pc_config plugged_card) = 1" by (simp add: plugged_card_def)
  from probe_binds [OF xdma_card_kernel_ok card_globals_free(1) card_vectors card_line card_globals_free(2) card_in_its_slot,
      of world1] show ?thesis unfolding c using e b by fastforce
qed

text \<open>C17: \<open>probe\<close> accounts for everything: when it binds the device, what it acquired is exactly
  what the device points to, with its engines and character devices live; when it returns an
  error every object it allocated is freed, and every interrupt line it requested unless the
  line was refused.\<close>

theorem probe_accounts:
  assumes "probe env g w = Some (rc, g', bound, w')" "g_xdma_class g" "\<forall>i<32. msix_vec env i \<noteq> 0" "pci_irq env \<noteq> - 1"
  shows "case bound of
      Some lro \<Rightarrow> rc = 0 \<and> engines_live env lro \<and> chars_live lro
        \<and> (\<forall>ob. obj_net (trace w') ob = obj_net (trace w) ob + own lro ob)
        \<and> (\<forall>v. irq_net (trace w') v = irq_net (trace w) v + own_irq env lro v)
    | None \<Rightarrow> rc < 0 \<and> obj_net (trace w') = obj_net (trace w)
        \<and> (irq_net (trace w') = irq_net (trace w) \<or> (\<exists>tr. irq_rc env tr (pci_irq env) \<noteq> 0))"
proof (cases bound)
  case None
  then show ?thesis using probe_run [OF assms] unfolding probed_def by fastforce
next
  case (Some lro)
  then have p: "rc = 0" "engines_live env lro" "chars_live lro" "gap lro w' = obj_net (trace w)"
    "irq_gap env lro w' = irq_net (trace w)"
    using probe_run [OF assms] by (simp_all add: probed_def)
  have "obj_net (trace w') ob = obj_net (trace w) ob + own lro ob" for ob
    using fun_cong [OF p(4), of ob] by (simp add: gap_def)
  moreover have "irq_net (trace w') v = irq_net (trace w) v + own_irq env lro v" for v
    using fun_cong [OF p(5), of v] by (simp add: irq_gap_def)
  ultimately show ?thesis using Some p(1-3) by simp
qed

lemma probe_accounts_witness:
  "\<exists>g' lro w'. probe xdma_card card_globals world1 = Some (0, g', Some lro, w')
    \<and> obj_net (trace w') ObjDev = obj_net (trace world1) ObjDev + own lro ObjDev"
proof -
  obtain g' lro w' where p: "probe xdma_card card_globals world1 = Some (0, g', Some lro, w')"
    using card_probed [of world1] by blast
  from probe_accounts [OF p card_globals_free(1) card_vectors card_line] p show ?thesis by auto
qed

text \<open>C6: probing and removing is neutral: whatever card was bound, \<open>remove\<close> returns, and then
  every object allocated since is freed, every interrupt line requested is freed, and the
  instance number is free again.\<close>

theorem probe_remove_balanced:
  assumes "probe env g w = Some (0, g', Some lro, w')" "g_xdma_class g" "\<forall>i<32. msix_vec env i \<noteq> 0" "pci_irq env \<noteq> - 1"
  shows "\<exists>g'' w''. remove_dev env g' (Some lro) w' = Some (g'', w'') \<and> \<not> dev_present g'' (d_instance lro)
    \<and> obj_net (trace w'') = obj_net (trace w) \<and> irq_net (trace w'') = irq_net (trace w)"
proof -
  from probe_run [OF assms] have p: "g_xdma_class g'" "engines_live env lro" "chars_live lro" "config_base lro \<noteq> None"
    "gap lro w' = obj_net (trace w)" "irq_gap env lro w' = irq_net (trace w)"
    by (simp_all add: probed_def)
  then obtain cfg where "config_base lro = Some cfg" by auto
  from remove_dev_run [OF p(2,3) this p(1), of w'] show ?thesis unfolding p(5,6) .
qed

lemma probe_remove_balanced_witness:
  "\<exists>g' lro w' g'' w''. probe xdma_card card_globals world1 = Some (0, g', Some lro, w')
    \<and> remove_dev xdma_card g' (Some lro) w' = Some (g'', w'') \<and> obj_net (trace w'') = obj_net (trace world1)"
proof -
  obtain g' lro w' where p: "probe xdma_card card_globals world1 = Some (0, g', Some lro, w')"
    using card_probed [of world1] by blast
  from probe_remove_balanced [OF p card_globals_free(1) card_vectors card_line] p show ?thesis by blast
qed

text \<open>C32: when one of the steps of \<open>create_interfaces\<close> fails after another has created a character
  device, \<open>create_interfaces\<close> destroys and frees every device that was created but leaves the
  pointers to all of them in place, and the failure path of \<open>probe\<close>, which follows them, destroys
  them again: a use of freed memory.\<close>

theorem probe_destroys_interfaces_twice:
  assumes "create_loop env create_order g lro w = Some (rc, g1, lro1, w1)" "rc \<noteq> 0" "char_heap lro1 sl \<noteq> None"
    and "g_xdma_class g" "engines_live env lro" "char_heap lro = Map.empty" "\<forall>sl. \<not> char_ptr lro sl"
  shows "\<exists>lro' w'. create_interfaces env g lro w = Some (- 1, g1, lro', w') \<and> gap lro' w' = gap lro w
    \<and> char_heap lro' = Map.empty \<and> (\<forall>s. char_ptr lro' s \<longleftrightarrow> char_heap lro1 s \<noteq> None)
    \<and> probe_rmv_interface env g1 lro' w' = None"
proof -
  have live: "chars_live lro" "\<forall>sl\<in>set create_order. char_heap lro sl = None" "set create_order \<subseteq> set destroy_order"
    using assms(6,7) slots_ok(1) by (simp_all add: chars_live_def)
  from create_loop_run [OF assms(4) live slots_ok(2) assms(5), of w] assms(1)
  have c: "g_xdma_class g1" "chars_live lro1" "gap lro1 w1 = gap lro w" by auto
  let ?l = "lro1\<lparr>char_heap := Map.empty\<rparr>"
  obtain w2 where d: "destroy_interfaces g1 lro1 w1 = Some (?l, w2)" "gap ?l w2 = gap lro1 w1"
    using destroy_interfaces_run [OF c(2,1), of w1] by blast
  have ptr: "\<forall>s. char_ptr ?l s \<longleftrightarrow> char_heap lro1 s \<noteq> None" "sl \<in> set destroy_order"
    using c(2) assms(3) by (auto simp: chars_live_def)
  then have "probe_rmv_interface env g1 ?l w2 = None"
    using assms(3) destroy_interfaces_gone [of ?l g1 w2] by (auto simp: probe_rmv_interface_def)
  moreover have "create_interfaces env g lro w = Some (- 1, g1, ?l, w2)"
    using assms(1,2) d(1) by (simp add: create_interfaces_def)
  ultimately show ?thesis using d(2) c(3) ptr(1) by (intro exI [of _ ?l] exI [of _ w2]) simp
qed

text \<open>A card whose control device gets no memory.\<close>

definition short_card :: kenv where
  "short_card = xdma_card\<lparr>mem_ok := (\<lambda>_ ob. ob \<noteq> ObjChar SlotCtrl)\<rparr>"

lemma short_card_loop:
  "\<exists>g' lro' w'. create_loop short_card create_order card_globals card_dev world1 = Some (- 1, g', lro', w')
    \<and> char_heap lro' SlotUser \<noteq> None"
proof -
  obtain rest where o: "create_order = SlotUser # SlotCtrl # rest" by (simp add: create_order_def)
  have u: "\<exists>g' lro' w'. create_interface short_card SlotUser card_globals card_dev world1 = Some (0, g', lro', w')
      \<and> char_heap lro' SlotUser \<noteq> None"
  proof -
    have b: "\<not> user_bar_idx card_dev < 0" "d_major card_dev = 0" by (simp_all add: card_dev_def dev0_def)
    have v: "svc_rc short_card tr (SvcSetName nm) = 0" "svc_rc short_card tr (SvcCdevAdd m k) = 0"
      "svc_rc short_card tr (SvcDeviceCreate m k nm) = 1" "svc_rc short_card tr SvcAllocChrdev = 240"
      "mem_ok short_card tr (ObjChar SlotUser)" for tr nm m k
      by (simp_all add: short_card_def xdma_card_def env0_def)
    show ?thesis
      by (simp add: b new_char_def create_sg_char_def register_sg_char_def gen_dev_minor_def config_kobject_def
          create_dev_def gen_dev_major_def kalloc_def svc_call_def v card_globals_free(2) Let_def set_char_def
          card_globals_free(1))
        (simp add: card_globals_def)
  qed
  have k: "kalloc short_card (ObjChar SlotCtrl) w = (False, w)" for w :: "'w kworld_scheme"
    by (simp add: kalloc_def short_card_def)
  from u obtain g1 l1 w1 where u1: "create_interface short_card SlotUser card_globals card_dev world1 = Some (0, g1, l1, w1)"
    "char_heap l1 SlotUser \<noteq> None" by blast
  obtain l2 where c: "create_interface short_card SlotCtrl g1 l1 w1 = Some (- 1, g1, l2, w1)" "char_heap l2 SlotUser \<noteq> None"
    using u1(2) by (simp add: new_char_def create_sg_char_def k set_char_def)
  have "create_loop short_card create_order card_globals card_dev world1 = Some (- 1, g1, l2, w1)"
    unfolding o by (simp add: u1(1) c(1) del: create_interface.simps)
  with c(2) show ?thesis by blast
qed

lemma probe_destroys_interfaces_twice_witness:
  "\<exists>g' lro' w'. create_interfaces short_card card_globals card_dev world1 = Some (- 1, g', lro', w')
    \<and> char_heap lro' SlotUser = None \<and> char_ptr lro' SlotUser \<and> probe_rmv_interface short_card g' lro' w' = None"
proof -
  have h: "engines_live short_card card_dev" "char_heap card_dev = Map.empty" "\<forall>sl. \<not> char_ptr card_dev sl"
    by (simp_all add: card_dev_def dev0_def engines_live_def)
  obtain g1 l1 w1 where c: "create_loop short_card create_order card_globals card_dev world1 = Some (- 1, g1, l1, w1)"
    "char_heap l1 SlotUser \<noteq> None" using short_card_loop by blast
  from probe_destroys_interfaces_twice [OF c(1) _ c(2) card_globals_free(1) h] c(2) show ?thesis by fastforce
qed

text \<open>\<open>xdma_init\<close> clears the table of used instance numbers after it has registered the driver, and
  with it the numbers of the cards just probed: the next card that is plugged in is instance 0 again,
  whatever cards are bound.\<close>

theorem xdma_init_forgets_instances:
  assumes "xdma_init env cards g w = Some (rc, g', lros, w')" "kernel_ok env"
    and "create_sg_char env' sl bar ep type g' lro v = Some (Some c, g'', lro', v')" "d_major lro = 0"
  shows "d_instance lro' = 0 \<and> (\<forall>i<MAX_XDMA_DEVICES. \<not> dev_present g' i)"
proof -
  have "svc_rc env tr SvcClassCreate > 0" for tr using kernel_okD(5) [OF assms(2), of SvcClassCreate tr] by simp
  then have "\<not> svc_rc env tr SvcClassCreate < 0" for tr by (simp add: less_imp_le not_less)
  then have f: "\<forall>i<MAX_XDMA_DEVICES. \<not> dev_present g' i"
    using assms(1) by (auto simp: xdma_init_def svc_call_def Let_def split: Option.bind_splits)
  then have "find_instance (dev_present g') 0 = 0" by (simp add: find_instance.simps [of _ 0] MAX_XDMA_DEVICES_def)
  with assms(3,4) have "d_instance lro' = 0"
    by (auto simp: create_sg_char_def Let_def split: bool.splits if_splits Option.bind_splits prod.splits)
  with f show ?thesis by simp
qed

lemma xdma_init_forgets_instances_witness:
  "\<exists>g' lro w' c g'' lro' v'. xdma_init xdma_card [xdma_card] card_globals world1 = Some (0, g', [lro], w')
    \<and> create_sg_char xdma_card SlotUser 0 None CHAR_USER g' dev0 world1 = Some (Some c, g'', lro', v') \<and> d_instance lro' = 0"
proof -
  have v: "svc_rc xdma_card tr SvcClassCreate = 1" "svc_rc xdma_card tr SvcRegisterDriver = 0" for tr
    by (simp_all add: xdma_card_def env0_def)
  have g: "card_globals\<lparr>g_xdma_class := True\<rparr> = card_globals" by (simp add: card_globals_def)
  define w0 where "w0 = emit (Svc SvcRegisterDriver 0) (emit (Svc SvcClassCreate 1) world1)"
  obtain g1 lro w1 where p: "probe xdma_card card_globals w0 = Some (0, g1, Some lro, w1)"
    using card_probed [of w0] by blast
  let ?g = "g1\<lparr>dev_present := (\<lambda>i. if i < MAX_XDMA_DEVICES then False else dev_present g1 i)\<rparr>"
  have i: "xdma_init xdma_card [xdma_card] card_globals world1 = Some (0, ?g, [lro], w1)"
    by (simp add: xdma_init_def svc_call_def v g Let_def w0_def [symmetric] p)
  have "g_xdma_class ?g" using probe_run [OF p card_globals_free(1) card_vectors card_line] by simp
  moreover have "\<not> sgtype CHAR_USER" by (simp add: sgtype_def)
  ultimately obtain mc g'' lro' v' where c: "create_sg_char xdma_card SlotUser 0 None CHAR_USER ?g dev0 world1
      = Some (mc, g'', lro', v')"
    using create_sg_char_run [where ep = None and type = CHAR_USER and g = ?g and lro = dev0 and env = xdma_card
        and sl = SlotUser and bar = 0 and w = world1] by auto
  have "numbered ?g dev0" by (simp add: numbered_def find_instance.simps [of _ 0] MAX_XDMA_DEVICES_def)
  from create_sg_char_ok [OF xdma_card_kernel_ok this c] obtain ch where m: "mc = Some ch" by auto
  have "d_major dev0 = 0" by (simp add: dev0_def)
  from xdma_init_forgets_instances [OF i xdma_card_kernel_ok c [unfolded m] this] i c m show ?thesis by blast
qed

end
