(* ===== verification/Sd_Accel.thy ===== *)
theory Sd_Accel
  imports Chardev
begin

section \<open>The accelerator region: gate, compute units, clock\<close>

text \<open>
  \<open>xdma-ioctl.c\<close>: the part of the driver that is compiled when \<open>SD_ACCEL\<close> is set. A card
  of that kind keeps, beside the state of \<open>struct xdma_dev\<close> every build has, the identity of
  its PCI function, a stashed clearing bitstream, the flag of the AXI gate that isolates the
  accelerator region, and the base of the MCAP capability. \<open>sd_dev\<close> adds them to the device.
\<close>

record xdma_bitstream_container =
  stash_magic :: u64
  clear_bitstream :: "u8 list option"
  clear_bitstream_length :: u32

record sd_dev =
  sd_lro :: xdma_dev
  pd_vendor :: u16
  pd_device :: u16
  pd_subsystem_vendor :: u16
  pd_subsystem_device :: u16
  stash :: xdma_bitstream_container
  axi_gate_frozen :: bool
  mcap_base :: nat
  feature_id :: u64

text \<open>\<open>lro->bar[lro->user_bar_idx]\<close>.\<close>

definition user_base :: "sd_dev \<Rightarrow> addr option" where
  "user_base d = bar_at (sd_lro d) (user_bar_idx (sd_lro d))"

definition OCL_CTLR_OFFSET :: addr where "OCL_CTLR_OFFSET = 0x000000"
definition AXI_GATE_OFFSET :: addr where "AXI_GATE_OFFSET = 0x030000"
definition AXI_GATE_OFFSET_READ :: addr where "AXI_GATE_OFFSET_READ = 0x030008"
definition OCL_CLKWIZ_STATUS :: addr where "OCL_CLKWIZ_STATUS = 0x050004"
definition OCL_CLKWIZ_CONFIG :: "nat \<Rightarrow> addr" where "OCL_CLKWIZ_CONFIG n = 0x050200 + 4 * of_nat n"
definition OCL_CU_CTRL_RANGE :: addr where "OCL_CU_CTRL_RANGE = 0x1000"
definition XDMA_7V3_INPUT_FREQ :: u64 where "XDMA_7V3_INPUT_FREQ = 100"
definition XDMA_KU3_INPUT_FREQ :: u64 where "XDMA_KU3_INPUT_FREQ = 200"
definition FEATURE_ID :: addr where "FEATURE_ID = 0x031000"

definition write_register8 :: "u8 \<Rightarrow> addr \<Rightarrow> 'w kworld_scheme \<Rightarrow> 'w kworld_scheme" where
  "write_register8 v a w = emit (IoWrite8 a v) w"

lemma trace_write_register8 [simp]: "trace (write_register8 v a w) = trace w @ [IoWrite8 a v]"
  by (simp add: write_register8_def)

definition find_feature_id :: "kenv \<Rightarrow> sd_dev \<Rightarrow> 'w kworld_scheme \<Rightarrow> (u64 \<times> 'w kworld_scheme) option" where
  "find_feature_id env d w = do {
     base \<leftarrow> user_base d;
     let (low, w) = read_register env (base + FEATURE_ID) w;
     let (high, w) = read_register env (base + FEATURE_ID + 8) w;
     Some (ucast low OR push_bit 32 (ucast high), w) }"

subsection \<open>The compute units\<close>

fun compute_unit_loop ::
  "kenv \<Rightarrow> addr \<Rightarrow> nat list \<Rightarrow> u32 \<Rightarrow> 'w kworld_scheme \<Rightarrow> u32 \<times> 'w kworld_scheme" where
  "compute_unit_loop env base [] result w = (result, w)"
| "compute_unit_loop env base (i # is) result w =
    (let (r, w) = read_register env (base + OCL_CTLR_OFFSET + of_nat i * OCL_CU_CTRL_RANGE) w
     in compute_unit_loop env base is (if r = 1 then result OR push_bit i r else result) w)"

definition compute_unit_busy :: "kenv \<Rightarrow> sd_dev \<Rightarrow> 'w kworld_scheme \<Rightarrow> (u32 \<times> 'w kworld_scheme) option" where
  "compute_unit_busy env d w = do {
     base \<leftarrow> user_base d;
     let (r, w) = read_register env (base + AXI_GATE_OFFSET_READ) w;
     if r \<noteq> 0x3 then Some (0, w)
     else Some (compute_unit_loop env base [0..<16] 0 w) }"

subsection \<open>The AXI gate\<close>

definition freezeAXIGate :: "kenv \<Rightarrow> sd_dev \<Rightarrow> 'w kworld_scheme \<Rightarrow> (sd_dev \<times> 'w kworld_scheme) option" where
  "freezeAXIGate env d w = do {
     bug_on (axi_gate_frozen d);
     base \<leftarrow> user_base d;
     let (_, w) = read_register env (base + AXI_GATE_OFFSET_READ) w;
     let w = write_register8 0x0 (base + AXI_GATE_OFFSET) w;
     let (_, w) = read_register env (base + AXI_GATE_OFFSET_READ) w;
     Some (d\<lparr>axi_gate_frozen := True\<rparr>, w) }"

definition freeAXIGate :: "kenv \<Rightarrow> sd_dev \<Rightarrow> 'w kworld_scheme \<Rightarrow> (sd_dev \<times> 'w kworld_scheme) option" where
  "freeAXIGate env d w = do {
     bug_on (\<not> axi_gate_frozen d);
     base \<leftarrow> user_base d;
     let (_, w) = read_register env (base + AXI_GATE_OFFSET_READ) w;
     let w = write_register8 0x2 (base + AXI_GATE_OFFSET) w;
     let (_, w) = read_register env (base + AXI_GATE_OFFSET_READ) w;
     let w = write_register8 0x0 (base + AXI_GATE_OFFSET) w;
     let (_, w) = read_register env (base + AXI_GATE_OFFSET_READ) w;
     let w = write_register8 0x2 (base + AXI_GATE_OFFSET) w;
     let (_, w) = read_register env (base + AXI_GATE_OFFSET_READ) w;
     let w = write_register8 0x3 (base + AXI_GATE_OFFSET) w;
     let (_, w) = read_register env (base + AXI_GATE_OFFSET_READ) w;
     Some (d\<lparr>axi_gate_frozen := False\<rparr>, w) }"

subsection \<open>The clock\<close>

record xdma_ocl_clockwiz =
  ocl :: nat
  divide :: u32
  divide_frac :: u32

definition frequency_table :: "xdma_ocl_clockwiz list" where
  "frequency_table = map (\<lambda>(f, v, c). \<lparr>ocl = f, divide = v, divide_frac = c\<rparr>)
     [(25, 0x28, 0x0), (50, 0x14, 0x0), (75, 0xd, 0x14d), (100, 0xa, 0x0),
      (125, 0x8, 0x0), (150, 0x6, 0x29a), (175, 0x5, 0x2ca), (200, 0x5, 0x0),
      (225, 0x4, 0x1bc), (250, 0x4, 0x0), (275, 0x3, 0x27c), (300, 0x3, 0x14d),
      (325, 0x3, 0x4c), (350, 0x2, 0x359), (375, 0x2, 0x29a), (400, 0x2, 0x1f4)]"

text \<open>The arithmetic of \<open>get_ocl_frequency\<close>: the frequency the two configuration words stand for,
  in the 32-bit and 64-bit arithmetic of the code.\<close>

definition clockwiz_frequency :: "u64 \<Rightarrow> u32 \<Rightarrow> u32 \<Rightarrow> u64" where
  "clockwiz_frequency inp c0 c2 =
    (let div0 = c0 AND 0xff;
         mul0 = drop_bit 8 (c0 AND 0xff00);
         mul_frac0 = (if bit c0 26 then drop_bit 16 c0 AND 0x3ff else 0);
         mul0 = mul0 * 1000;
         mul0 = mul0 + mul_frac0;
         div0 = div0 * 1000;
         div1 = c2 AND 0xff;
         div_frac1 = (if bit c2 18 then drop_bit 8 c2 AND 0x3ff else 0);
         div1 = div1 * 1000;
         div1 = div1 + div_frac1;
         div0 = div0 * div1;
         mul0 = mul0 * 1000
     in if div0 = 0 then 0 else (inp * ucast mul0) div ucast div0)"

definition ocl_input :: "sd_dev \<Rightarrow> u64" where
  "ocl_input d = (if pd_device d = 0x8138 then XDMA_KU3_INPUT_FREQ else XDMA_7V3_INPUT_FREQ)"

definition get_ocl_frequency :: "kenv \<Rightarrow> sd_dev \<Rightarrow> 'w kworld_scheme \<Rightarrow> (u64 \<times> 'w kworld_scheme) option" where
  "get_ocl_frequency env d w = do {
     base \<leftarrow> user_base d;
     let (val, w) = read_register env (base + OCL_CLKWIZ_STATUS) w;
     if val AND 1 = 0 then Some (0, w)
     else do {
       let (c0, w) = read_register env (base + OCL_CLKWIZ_CONFIG 0) w;
       let (c2, w) = read_register env (base + OCL_CLKWIZ_CONFIG 2) w;
       Some (clockwiz_frequency (ocl_input d) c0 c2, w) } }"

text \<open>The word \<open>ocl_freqscaling_ioctl\<close> writes to \<open>CONFIG(2)\<close> for an entry of the table, and the
  word it writes to \<open>CONFIG(0)\<close>.\<close>

definition divider_word :: "xdma_ocl_clockwiz \<Rightarrow> u32" where
  "divider_word e =
    (let config = push_bit 8 (divide_frac e);
         config = (if config \<noteq> 0 then config AND push_bit 18 1 else config)
     in config OR divide e)"

definition multiplier_word :: "sd_dev \<Rightarrow> u32" where
  "multiplier_word d = (if pd_device d = 0x8138 then 0x04000501 else 0x04000a01)"

fun clock_wait_loop :: "kenv \<Rightarrow> addr \<Rightarrow> nat \<Rightarrow> u32 \<Rightarrow> 'w kworld_scheme \<Rightarrow> u32 \<times> 'w kworld_scheme" where
  "clock_wait_loop env base 0 val w = (val, w)"
| "clock_wait_loop env base (Suc n) val w =
    (let (val, w) = read_register env (base + OCL_CLKWIZ_STATUS) w in clock_wait_loop env base n val w)"

definition clock_done :: "kenv \<Rightarrow> int \<Rightarrow> sd_dev \<Rightarrow> 'w kworld_scheme \<Rightarrow> (int \<times> sd_dev \<times> 'w kworld_scheme) option" where
  "clock_done env err d w = do {
     (_, w) \<leftarrow> get_ocl_frequency env d w;
     (d, w) \<leftarrow> freeAXIGate env d w;
     Some (err, d, w) }"

text \<open>A structure the user passes by pointer: \<open>copy_from_user\<close> of \<open>n\<close> bytes, \<open>None\<close> when not all of
  them could be copied.\<close>

definition user_bytes :: "kenv \<Rightarrow> event list \<Rightarrow> u64 \<Rightarrow> nat \<Rightarrow> u8 list" where
  "user_bytes env tr a n = map (\<lambda>i. user_mem env tr (a + of_nat i)) [0..<n]"

definition copy_from_user ::
  "kenv \<Rightarrow> u64 \<Rightarrow> nat \<Rightarrow> 'w kworld_scheme \<Rightarrow> u8 list option \<times> 'w kworld_scheme" where
  "copy_from_user env a n w =
    (if copy_fails env (trace w) = 0 then (Some (user_bytes env (trace w) a n), emit (CopyFromUser a n) w)
     else (None, emit (CopyFromUser a n) w))"

text \<open>A little-endian field of such a structure, at a byte offset.\<close>

fun le_word :: "u8 list \<Rightarrow> 'a::len word" where
  "le_word [] = 0"
| "le_word (b # bs) = ucast b OR push_bit 8 (le_word bs)"

definition field32 :: "u8 list \<Rightarrow> nat \<Rightarrow> u32" where
  "field32 bs off = le_word (take 4 (drop off bs))"

definition field64 :: "u8 list \<Rightarrow> nat \<Rightarrow> u64" where
  "field64 bs off = le_word (take 8 (drop off bs))"

text \<open>What \<open>ocl_freqscaling_ioctl\<close> does behind the closed gate: every one of the thousand looks at the
  status word is taken, and the last one decides.\<close>

definition clock_program ::
  "kenv \<Rightarrow> addr \<Rightarrow> nat \<Rightarrow> sd_dev \<Rightarrow> 'w kworld_scheme \<Rightarrow> (int \<times> sd_dev \<times> 'w kworld_scheme) option" where
  "clock_program env base idx d w = do {
     let (_, w) = read_register env (base + OCL_CLKWIZ_CONFIG 0) w;
     let (_, w) = read_register env (base + OCL_CLKWIZ_CONFIG 2) w;
     let (val, w) = read_register env (base + OCL_CLKWIZ_STATUS) w;
     if val \<noteq> 1 then clock_done env (- EBUSY) d w
     else do {
       let w = write_register (multiplier_word d) (base + OCL_CLKWIZ_CONFIG 0) w;
       let w = write_register (divider_word (frequency_table ! idx)) (base + OCL_CLKWIZ_CONFIG 2) w;
       let w = write_register 0x00000007 (base + OCL_CLKWIZ_CONFIG 23) w;
       let w = write_register 0x00000002 (base + OCL_CLKWIZ_CONFIG 23) w;
       let (val, w) = clock_wait_loop env base 1000 val w;
       if val \<noteq> 1 then do {
         let w = write_register 0x00000004 (base + OCL_CLKWIZ_CONFIG 23) w;
         let w = write_register 0x00000000 (base + OCL_CLKWIZ_CONFIG 23) w;
         clock_done env (- EINVAL) d w }
       else clock_done env 0 d w } }"

definition ocl_freqscaling_ioctl ::
  "kenv \<Rightarrow> u64 \<Rightarrow> sd_dev \<Rightarrow> 'w kworld_scheme \<Rightarrow> (int \<times> sd_dev \<times> 'w kworld_scheme) option" where
  "ocl_freqscaling_ioctl env arg d w = (case copy_from_user env arg 12 w of
     (None, w) \<Rightarrow> Some (- EFAULT, d, w)
   | (Some obj, w) \<Rightarrow> do {
       let target = field32 obj 8;
       base \<leftarrow> user_base d;
       let (val, w) = read_register env (base + OCL_CLKWIZ_STATUS) w;
       if val AND 1 = 0 then Some (- EBUSY, d, w)
       else do {
         (busy, w) \<leftarrow> compute_unit_busy env d w;
         if busy \<noteq> 0 then Some (- EBUSY, d, w)
         else if 250 < target \<or> unat target < ocl (frequency_table ! 0) then Some (- EINVAL, d, w)
         else do {
           (_, w) \<leftarrow> get_ocl_frequency env d w;
           let idx = unat target div ocl (frequency_table ! 0) - 1;
           (d, w) \<leftarrow> freezeAXIGate env d w;
           clock_program env base idx d w } } })"

subsection \<open>Resets and the version\<close>

definition reset_ocl_ioctl :: "kenv \<Rightarrow> sd_dev \<Rightarrow> 'w kworld_scheme \<Rightarrow> (int \<times> sd_dev \<times> 'w kworld_scheme) option" where
  "reset_ocl_ioctl env d w = do {
     (busy, w) \<leftarrow> compute_unit_busy env d w;
     if busy = 0 then Some (0, d, w)
     else do {
       (d, w) \<leftarrow> freezeAXIGate env d w;
       (d, w) \<leftarrow> freeAXIGate env d w;
       (busy, w) \<leftarrow> compute_unit_busy env d w;
       Some (if busy \<noteq> 0 then - EBUSY else 0, d, w) } }"

definition le16 :: "u16 \<Rightarrow> u8 list" where "le16 v = [ucast v, ucast (drop_bit 8 v)]"

text \<open>\<open>struct xdma_ioc_info\<close> as \<open>version_ioctl\<close> fills it in: 40 bytes, with the padding the
  alignment of \<open>feature_id\<close> asks for.\<close>

definition ioc_info_bytes :: "sd_dev \<Rightarrow> u64 \<Rightarrow> u8 list" where
  "ioc_info_bytes d freq = replicate 8 0
     @ le16 (pd_vendor d) @ le16 (pd_device d) @ le16 (pd_subsystem_vendor d) @ le16 (pd_subsystem_device d)
     @ le32 0 @ le32 0x10000 @ le64 (feature_id d) @ le32 (ucast freq) @ replicate 4 0"

definition version_ioctl :: "kenv \<Rightarrow> u64 \<Rightarrow> sd_dev \<Rightarrow> 'w kworld_scheme \<Rightarrow> (int \<times> 'w kworld_scheme) option" where
  "version_ioctl env arg d w = (case copy_from_user env arg 40 w of
     (None, w) \<Rightarrow> Some (- EFAULT, w)
   | (Some _, w) \<Rightarrow> do {
       (freq, w) \<leftarrow> get_ocl_frequency env d w;
       let (n, w) = copy_to_user env arg (ioc_info_bytes d freq) w;
       Some (if n \<noteq> 0 then - EFAULT else 0, w) })"


subsection \<open>What the operations do\<close>

lemma io_writes_read [simp]: "io_writes (trace (snd (read_register env a w))) = io_writes (trace w)"
  by (simp add: read_register_def Let_def emit_def)

lemma read_register_run [simp]:
  "read_register env a w = (hw_read env (trace w) a, emit (IoRead a (hw_read env (trace w) a)) w)"
  by (simp add: read_register_def Let_def)

lemma freezeAXIGate_run:
  assumes "\<not> axi_gate_frozen d" "user_base d = Some base"
  obtains w' where "freezeAXIGate env d w = Some (d\<lparr>axi_gate_frozen := True\<rparr>, w')"
    "io_writes (trace w') = io_writes (trace w)" "obj_net (trace w') = obj_net (trace w)"
  using assms by (simp add: freezeAXIGate_def)

lemma freeAXIGate_run:
  assumes "axi_gate_frozen d" "user_base d = Some base"
  obtains w' where "freeAXIGate env d w = Some (d\<lparr>axi_gate_frozen := False\<rparr>, w')"
    "io_writes (trace w') = io_writes (trace w)" "obj_net (trace w') = obj_net (trace w)"
  using assms by (simp add: freeAXIGate_def)

lemma user_base_frozen [simp]: "user_base (d\<lparr>axi_gate_frozen := b\<rparr>) = user_base d"
  by (simp add: user_base_def)

lemma frozen_twice [simp]: "\<not> axi_gate_frozen d \<Longrightarrow> d\<lparr>axi_gate_frozen := False\<rparr> = d"
  by (cases d) simp

lemma compute_unit_loop_bits:
  assumes "\<forall>tr. hw_read env tr = R"
  shows "\<exists>w'. compute_unit_loop env base is result w
      = (fold (\<lambda>i acc. if R (base + OCL_CTLR_OFFSET + of_nat i * OCL_CU_CTRL_RANGE) = 1 then acc OR push_bit i 1 else acc)
          is result, w') \<and> io_writes (trace w') = io_writes (trace w)"
proof (induction "is" arbitrary: result w)
  case (Cons i "is")
  let ?a = "base + OCL_CTLR_OFFSET + of_nat i * OCL_CU_CTRL_RANGE"
  from Cons.IH [of "if R ?a = 1 then result OR push_bit i 1 else result" "emit (IoRead ?a (R ?a)) w"]
  show ?case by (simp add: assms Let_def cong: if_cong)
qed simp

lemma bit_or_set: "bit ((a :: u32) OR push_bit i 1) n \<longleftrightarrow> bit a n \<or> n < 32 \<and> n = i"
  by (auto simp: bit_or_iff bit_push_bit_iff bit_1_iff simp del: push_bit_of_1)

lemma bit_fold_or:
  "bit (fold (\<lambda>i acc. if P i then acc OR push_bit i 1 else acc) is (a :: u32)) n
    \<longleftrightarrow> bit a n \<or> n < 32 \<and> n \<in> set is \<and> P n"
  by (induction "is" arbitrary: a) (auto simp: bit_or_set simp del: push_bit_of_1)

text \<open>\<open>compute_unit_busy\<close> of a card whose registers do not change: bit \<open>i\<close> of the result is set
  exactly when the AXI gate is open and the control word of compute unit \<open>i < 16\<close> is 1; behind a
  closed gate the result is 0 and no compute unit is read.\<close>

theorem compute_unit_busy_bits:
  assumes "\<forall>tr. hw_read env tr = R" "user_base d = Some base"
  shows "\<exists>b w'. compute_unit_busy env d w = Some (b, w')
    \<and> (\<forall>i. bit b i \<longleftrightarrow> R (base + AXI_GATE_OFFSET_READ) = 3 \<and> i < 16
          \<and> R (base + OCL_CTLR_OFFSET + of_nat i * OCL_CU_CTRL_RANGE) = 1)
    \<and> (R (base + AXI_GATE_OFFSET_READ) \<noteq> 3 \<longrightarrow> trace w' = trace w @ [IoRead (base + AXI_GATE_OFFSET_READ) (R (base + AXI_GATE_OFFSET_READ))])"
proof (cases "R (base + AXI_GATE_OFFSET_READ) = 3")
  case True
  obtain w' where "compute_unit_loop env base [0..<16] 0 (emit (IoRead (base + AXI_GATE_OFFSET_READ) 3) w)
      = (fold (\<lambda>i acc. if R (base + OCL_CTLR_OFFSET + of_nat i * OCL_CU_CTRL_RANGE) = 1 then acc OR push_bit i 1 else acc)
          [0..<16] 0, w')"
    using compute_unit_loop_bits [OF assms(1)] by blast
  then show ?thesis
    using True by (simp add: compute_unit_busy_def assms bit_fold_or del: compute_unit_loop.simps fold.simps)
      auto
next
  case False
  then show ?thesis by (simp add: compute_unit_busy_def assms)
qed

text \<open>A card of the accelerator kind, for the examples.\<close>

definition sd0 :: sd_dev where
  "sd0 = \<lparr>sd_lro = dev0\<lparr>dev_bar := (\<lambda>i. if i = 0 then 0x1000000 else 0), user_bar_idx := 0\<rparr>,
     pd_vendor = 0x10EE, pd_device = 0x8138, pd_subsystem_vendor = 0x10EE, pd_subsystem_device = 0x4432,
     stash = \<lparr>stash_magic = 0xBBBBBBBB, clear_bitstream = None, clear_bitstream_length = 0\<rparr>,
     axi_gate_frozen = False, mcap_base = 0x340, feature_id = 0\<rparr>"

lemma sd0_base [simp]: "user_base sd0 = Some 0x1000000" "\<not> axi_gate_frozen sd0"
  by (simp_all add: user_base_def sd0_def bar_at_def XDMA_BAR_NUM_def)

lemma compute_unit_busy_bits_witness:
  "\<exists>b w'. compute_unit_busy (env0\<lparr>hw_read := (\<lambda>_ a. if a = 0x1030008 then 3 else if a = 0x1002000 then 1 else 4)\<rparr>) sd0 world1
     = Some (b, w') \<and> bit b 2 \<and> \<not> bit b 3"
  using compute_unit_busy_bits [of "env0\<lparr>hw_read := (\<lambda>_ a. if a = 0x1030008 then 3 else if a = 0x1002000 then 1 else 4)\<rparr>"
      "\<lambda>a. if a = 0x1030008 then 3 else if a = 0x1002000 then 1 else 4" sd0 "0x1000000" world1]
  by (auto simp: AXI_GATE_OFFSET_READ_def OCL_CTLR_OFFSET_def OCL_CU_CTRL_RANGE_def)


text \<open>The clock: what the ten entries the range test admits stand for, once their words are written.\<close>

lemma table_frequencies:
  "map (\<lambda>e. clockwiz_frequency 200 0x04000501 (divider_word e)) (take 10 frequency_table)
    = [25, 50, 76, 100, 125, 166, 200, 200, 250, 250]"
  "map (\<lambda>e. clockwiz_frequency 100 0x04000a01 (divider_word e)) (take 10 frequency_table)
    = [25, 50, 76, 100, 125, 166, 200, 200, 250, 250]"
  by code_simp+

lemma table_frequency:
  assumes "k < 10"
  shows "clockwiz_frequency (ocl_input d) (multiplier_word d) (divider_word (frequency_table ! k))
    = [25, 50, 76, 100, 125, 166, 200, 200, 250, 250] ! k"
proof -
  have l: "length frequency_table = 16" by (simp add: frequency_table_def)
  have "map (\<lambda>e. clockwiz_frequency (ocl_input d) (multiplier_word d) (divider_word e)) (take 10 frequency_table) ! k
      = [25, 50, 76, 100, 125, 166, 200, 200, 250, 250] ! k"
    by (cases "pd_device d = 0x8138")
      (simp_all only: table_frequencies ocl_input_def multiplier_word_def XDMA_KU3_INPUT_FREQ_def
        XDMA_7V3_INPUT_FREQ_def if_True if_False simp_thms)
  then show ?thesis using assms l by simp
qed

lemma clock_wait_loop_locked:
  assumes "\<forall>tr. hw_read env tr (base + OCL_CLKWIZ_STATUS) = v"
  shows "\<exists>w'. clock_wait_loop env base n v w = (v, w') \<and> io_writes (trace w') = io_writes (trace w)
    \<and> (\<exists>rs. trace w' = trace w @ rs \<and> rs = replicate n (IoRead (base + OCL_CLKWIZ_STATUS) v))"
proof (induction n arbitrary: w)
  case (Suc n)
  from Suc.IH [of "emit (IoRead (base + OCL_CLKWIZ_STATUS) v) w"] show ?case by (simp add: assms)
qed simp

lemma get_ocl_frequency_run:
  assumes "user_base d = Some base"
  shows "\<exists>f w'. get_ocl_frequency env d w = Some (f, w') \<and> io_writes (trace w') = io_writes (trace w)"
  using assms by (simp add: get_ocl_frequency_def)

lemma ocl_table0: "ocl (frequency_table ! 0) = 25" by (simp add: frequency_table_def)

lemma compute_unit_loop_idle:
  assumes "\<forall>tr. \<forall>i\<in>set is. hw_read env tr (base + OCL_CTLR_OFFSET + of_nat i * OCL_CU_CTRL_RANGE) \<noteq> 1"
  shows "\<exists>w'. compute_unit_loop env base is r w = (r, w') \<and> io_writes (trace w') = io_writes (trace w)"
  using assms
proof (induction "is" arbitrary: w)
  case (Cons i "is")
  let ?a = "base + OCL_CTLR_OFFSET + of_nat i * OCL_CU_CTRL_RANGE"
  from Cons.IH [of "emit (IoRead ?a (hw_read env (trace w) ?a)) w"] Cons.prems show ?case by simp
qed simp

text \<open>No compute unit is at work: none of the sixteen control words reads 1, or the gate is closed,
  so that they cannot be looked at.\<close>

definition units_idle :: "kenv \<Rightarrow> addr \<Rightarrow> bool" where
  "units_idle env base \<longleftrightarrow> (\<forall>tr. hw_read env tr (base + AXI_GATE_OFFSET_READ) \<noteq> 3)
     \<or> (\<forall>tr. \<forall>i<16. hw_read env tr (base + OCL_CTLR_OFFSET + of_nat i * OCL_CU_CTRL_RANGE) \<noteq> 1)"

lemma compute_unit_busy_idle:
  assumes "units_idle env base" "user_base d = Some base"
  obtains w' where "compute_unit_busy env d w = Some (0, w')" "io_writes (trace w') = io_writes (trace w)"
proof (cases "hw_read env (trace w) (base + AXI_GATE_OFFSET_READ) = 3")
  case True
  then have "\<forall>tr. \<forall>i\<in>set [0..<16]. hw_read env tr (base + OCL_CTLR_OFFSET + of_nat i * OCL_CU_CTRL_RANGE) \<noteq> 1"
    using assms(1) by (auto simp: units_idle_def)
  from compute_unit_loop_idle [OF this, of 0 "emit (IoRead (base + AXI_GATE_OFFSET_READ) 3) w"] obtain w' where
    "compute_unit_loop env base [0..<16] 0 (emit (IoRead (base + AXI_GATE_OFFSET_READ) 3) w) = (0, w')"
    "io_writes (trace w') = io_writes (trace w)" by auto
  then show ?thesis using True assms(2) by (intro that [of w']) (simp_all add: compute_unit_busy_def del: compute_unit_loop.simps)
next
  case False
  let ?w = "emit (IoRead (base + AXI_GATE_OFFSET_READ) (hw_read env (trace w) (base + AXI_GATE_OFFSET_READ))) w"
  show ?thesis using False assms(2) by (intro that [of ?w]) (simp_all add: compute_unit_busy_def)
qed

text \<open>C28: A request for 25 to 250 MHz on a card whose clock is locked and whose sixteen compute units
  are idle, the AXI gate being open or closed, writes the multiplier, the divider of the table's
  entry at or below the request, and the load and run words, opens the gate again and returns 0.
  But the words stand for the table's frequency only where it needs no fraction: masking the
  fraction instead of setting its enable bit drops it, so that 75, 150, 175 and 225 MHz come out as
  76, 166, 200 and 250.\<close>

theorem freqscaling_programs:
  assumes "\<not> axi_gate_frozen d" "user_base d = Some base" "copy_fails env (trace w) = 0"
    and "field32 (user_bytes env (trace w) arg 12) 8 = f" "25 \<le> unat f" "unat f \<le> 250"
    and "\<forall>tr. hw_read env tr (base + OCL_CLKWIZ_STATUS) = 1" "units_idle env base"
  shows "\<exists>w'. ocl_freqscaling_ioctl env arg d w = Some (0, d, w')
    \<and> (let c2 = divider_word (frequency_table ! (unat f div 25 - 1)) in
       io_writes (trace w') = io_writes (trace w)
         @ [(base + OCL_CLKWIZ_CONFIG 0, multiplier_word d), (base + OCL_CLKWIZ_CONFIG 2, c2),
            (base + OCL_CLKWIZ_CONFIG 23, 7), (base + OCL_CLKWIZ_CONFIG 23, 2)]
       \<and> clockwiz_frequency (ocl_input d) (multiplier_word d) c2
           = [25, 50, 76, 100, 125, 166, 200, 200, 250, 250] ! (unat f div 25 - 1))"
proof -
  have r: "\<not> 250 < f \<and> \<not> unat f < 25" using assms(5,6) by (simp add: word_less_nat_alt)
  have k: "unat f div 25 - 1 < 10"
    using div_le_mono [OF assms(6), of 25] by simp
  have m: "multiplier_word (d\<lparr>axi_gate_frozen := b\<rparr>) = multiplier_word d" for b by (simp add: multiplier_word_def)
  let ?w1 = "emit (IoRead (base + OCL_CLKWIZ_STATUS) 1) (emit (CopyFromUser arg 12) w)"
  obtain w2 where c: "compute_unit_busy env d ?w1 = Some (0, w2)" "io_writes (trace w2) = io_writes (trace w)"
    using compute_unit_busy_idle [OF assms(8,2), of ?w1] by auto
  obtain f3 w3 where g: "get_ocl_frequency env d w2 = Some (f3, w3)" "io_writes (trace w3) = io_writes (trace w)"
    using get_ocl_frequency_run [OF assms(2)] c(2) by metis
  obtain w4 where z: "freezeAXIGate env d w3 = Some (d\<lparr>axi_gate_frozen := True\<rparr>, w4)"
    "io_writes (trace w4) = io_writes (trace w)"
    using freezeAXIGate_run [OF assms(1,2)] g(2) by metis
  let ?c2 = "divider_word (frequency_table ! (unat f div 25 - 1))"
  let ?w5 = "emit (IoRead (base + OCL_CLKWIZ_STATUS) 1) (snd (read_register env (base + OCL_CLKWIZ_CONFIG 2)
      (snd (read_register env (base + OCL_CLKWIZ_CONFIG 0) w4))))"
  let ?w6 = "write_register 2 (base + OCL_CLKWIZ_CONFIG 23) (write_register 7 (base + OCL_CLKWIZ_CONFIG 23)
      (write_register ?c2 (base + OCL_CLKWIZ_CONFIG 2) (write_register (multiplier_word d) (base + OCL_CLKWIZ_CONFIG 0) ?w5)))"
  obtain w7 where l: "clock_wait_loop env base 1000 1 ?w6 = (1, w7)" "io_writes (trace w7) = io_writes (trace ?w6)"
    using clock_wait_loop_locked [OF assms(7)] by blast
  obtain f8 w8 where h: "get_ocl_frequency env (d\<lparr>axi_gate_frozen := True\<rparr>) w7 = Some (f8, w8)"
    "io_writes (trace w8) = io_writes (trace w7)"
    using get_ocl_frequency_run [of "d\<lparr>axi_gate_frozen := True\<rparr>" base env w7] assms(2) by auto
  obtain w9 where o: "freeAXIGate env (d\<lparr>axi_gate_frozen := True\<rparr>) w8 = Some (d\<lparr>axi_gate_frozen := False\<rparr>, w9)"
    "io_writes (trace w9) = io_writes (trace w8)"
    using freeAXIGate_run [of "d\<lparr>axi_gate_frozen := True\<rparr>" base env w8] assms(2) by auto
  have "ocl_freqscaling_ioctl env arg d w = Some (0, d, w9)"
    using assms(1,2,3,4,7) r c(1) g(1) z(1) l(1) h(1) o(1)
    by (simp add: ocl_freqscaling_ioctl_def clock_program_def copy_from_user_def ocl_table0 m clock_done_def del: clock_wait_loop.simps)
  moreover have "io_writes (trace w9) = io_writes (trace w)
      @ [(base + OCL_CLKWIZ_CONFIG 0, multiplier_word d), (base + OCL_CLKWIZ_CONFIG 2, ?c2),
         (base + OCL_CLKWIZ_CONFIG 23, 7), (base + OCL_CLKWIZ_CONFIG 23, 2)]"
    using o(2) h(2) l(2) z(2) by simp
  ultimately show ?thesis using table_frequency [OF k, of d] by (simp add: Let_def)
qed

lemma freqscaling_programs_witness:
  "\<exists>w'. ocl_freqscaling_ioctl (env0\<lparr>hw_read := (\<lambda>_ a. if a = 0x1030008 then 3 else if a = 0x1050004 then 1 else 0),
      user_mem := (\<lambda>_ a. if a = 0x1008 then 75 else 0)\<rparr>) 0x1000 sd0 world1
      = Some (0, sd0, w') \<and> clockwiz_frequency (ocl_input sd0) (multiplier_word sd0) (divider_word (frequency_table ! 2)) = 76"
proof -
  let ?env = "env0\<lparr>hw_read := (\<lambda>_ a. if a = 0x1030008 then 3 else if a = 0x1050004 then 1 else 0),
      user_mem := (\<lambda>_ a. if a = 0x1008 then 75 else 0)\<rparr>"
  have f: "field32 (user_bytes ?env (trace world1) 0x1000 12) 8 = 75"
    by code_simp
  have "\<forall>i\<in>set [0..<16]. (0x1000000 :: u64) + OCL_CTLR_OFFSET + of_nat i * OCL_CU_CTRL_RANGE \<noteq> 0x1050004"
    by code_simp
  then have u: "units_idle ?env 0x1000000" by (simp add: units_idle_def)
  have h: "\<not> axi_gate_frozen sd0" "user_base sd0 = Some 0x1000000" "copy_fails ?env (trace world1) = 0"
    "25 \<le> unat (75 :: u32)" "unat (75 :: u32) \<le> 250"
    "\<forall>tr. hw_read ?env tr (0x1000000 + OCL_CLKWIZ_STATUS) = 1"
    by (simp_all add: env0_def OCL_CLKWIZ_STATUS_def)
  from freqscaling_programs [OF h(1-3) f h(4-6) u] show ?thesis by (simp add: Let_def) blast
qed

end
