(* ===== verification/Bitstream.thy ===== *)
theory Bitstream
  imports Sd_Accel
begin

section \<open>Downloading bitstreams\<close>

text \<open>
  \<open>xdma-bit.c\<close>: a configuration bitstream reaches the card through the ICAP (a FIFO behind
  the user BAR) or through the MCAP (registers in the PCIe configuration space). A buffer is
  the list of its bytes; reading past its end, or through an index before its start, is a stray
  access, and the function has no result.
\<close>

subsection \<open>The file format\<close>

definition XHI_EVEN_MAGIC_BYTE :: u32 where "XHI_EVEN_MAGIC_BYTE = 0x0f"
definition XHI_ODD_MAGIC_BYTE :: u32 where "XHI_ODD_MAGIC_BYTE = 0xf0"
definition XHI_BIT_HEADER_FAILURE :: u32 where "XHI_BIT_HEADER_FAILURE = - 1"
definition DMA_HWICAP_BITFILE_BUFFER_SIZE :: nat where "DMA_HWICAP_BITFILE_BUFFER_SIZE = 1024"

record XHwIcap_Bit_Header =
  HeaderLength :: u32
  BitstreamLength :: u32
  bit_string :: "bit_field \<Rightarrow> u8 list option"
  MagicLength :: u32

definition header0 :: XHwIcap_Bit_Header where
  "header0 = \<lparr>HeaderLength = 0, BitstreamLength = 0, bit_string = (\<lambda>_. None), MagicLength = 0\<rparr>"

definition byte_at :: "u8 list \<Rightarrow> nat \<Rightarrow> u8 option" where
  "byte_at bs i = (if i < length bs then Some (bs ! i) else None)"

definition bytes_at :: "u8 list \<Rightarrow> nat \<Rightarrow> nat \<Rightarrow> u8 list option" where
  "bytes_at bs i n = (if i + n \<le> length bs then Some (take n (drop i bs)) else None)"

text \<open>Two bytes, the more significant one first.\<close>

definition be16 :: "u8 \<Rightarrow> u8 \<Rightarrow> u32" where "be16 h l = push_bit 8 (ucast h) OR ucast l"

text \<open>The magic bytes: \<open>n\<close> of them are left, the next one is number \<open>i\<close>. The result is false at
  a byte that does not alternate as it has to, and the index after the last one.\<close>

fun magic_loop :: "u8 list \<Rightarrow> nat \<Rightarrow> nat \<Rightarrow> nat \<Rightarrow> (bool \<times> nat) option" where
  "magic_loop bs 0 i k = Some (True, k)"
| "magic_loop bs (Suc n) i k = do {
     tmp \<leftarrow> byte_at bs k;
     if i mod 2 = 0 \<and> ucast tmp \<noteq> XHI_EVEN_MAGIC_BYTE then Some (False, k + 1)
     else if i mod 2 = 1 \<and> ucast tmp \<noteq> XHI_ODD_MAGIC_BYTE then Some (False, k + 1)
     else magic_loop bs n (i + 1) (k + 1) }"

text \<open>One of the four strings: its tag, its length, memory for it (whose absence the code does not
  test), its bytes, and the test that the last byte is NUL (byte \<open>-1\<close> when the length is 0).\<close>

definition parse_string ::
  "kenv \<Rightarrow> bit_field \<Rightarrow> u8 \<Rightarrow> u8 list \<Rightarrow> nat \<Rightarrow> XHwIcap_Bit_Header \<Rightarrow> 'w kworld_scheme
   \<Rightarrow> (bool \<times> nat \<times> XHwIcap_Bit_Header \<times> 'w kworld_scheme) option" where
  "parse_string env f tag bs k hdr w = do {
     tmp \<leftarrow> byte_at bs k;
     if tmp \<noteq> tag then Some (False, k + 1, hdr, w)
     else do {
       h \<leftarrow> byte_at bs (k + 1);
       l \<leftarrow> byte_at bs (k + 2);
       let len = unat (be16 h l);
       let (ok, w) = kalloc env (ObjBitField f) w;
       bug_on (\<not> ok \<or> len = 0);
       cs \<leftarrow> bytes_at bs (k + 3) len;
       let hdr = hdr\<lparr>bit_string := (bit_string hdr)(f := Some cs)\<rparr>;
       Some (cs ! (len - 1) = 0, k + 3 + len, hdr, w) } }"

fun parse_strings ::
  "kenv \<Rightarrow> (bit_field \<times> u8) list \<Rightarrow> u8 list \<Rightarrow> nat \<Rightarrow> XHwIcap_Bit_Header \<Rightarrow> 'w kworld_scheme
   \<Rightarrow> (bool \<times> nat \<times> XHwIcap_Bit_Header \<times> 'w kworld_scheme) option" where
  "parse_strings env [] bs k hdr w = Some (True, k, hdr, w)"
| "parse_strings env ((f, tag) # fs) bs k hdr w = do {
     (ok, k, hdr, w) \<leftarrow> parse_string env f tag bs k hdr w;
     if \<not> ok then Some (False, k, hdr, w) else parse_strings env fs bs k hdr w }"

definition bit_fields :: "(bit_field \<times> u8) list" where
  "bit_fields = [(DesignName, 0x61), (PartName, 0x62), (BitDate, 0x63), (BitTime, 0x64)]"

text \<open>The function's \<open>Size\<close> argument is never read; the tag \<open>'e'\<close> is followed by the length of
  the bitstream.\<close>

definition bitstream_parse_header ::
  "kenv \<Rightarrow> u8 list \<Rightarrow> nat \<Rightarrow> XHwIcap_Bit_Header \<Rightarrow> 'w kworld_scheme
   \<Rightarrow> (int \<times> XHwIcap_Bit_Header \<times> 'w kworld_scheme) option" where
  "bitstream_parse_header env bs sz hdr w = do {
     let hdr = hdr\<lparr>HeaderLength := XHI_BIT_HEADER_FAILURE\<rparr>;
     m1 \<leftarrow> byte_at bs 0;
     m0 \<leftarrow> byte_at bs 1;
     let hdr = hdr\<lparr>MagicLength := be16 m1 m0\<rparr>;
     (ok, k) \<leftarrow> magic_loop bs (unat (MagicLength hdr - 1)) 0 2;
     if \<not> ok then Some (- 1, hdr, w)
     else do {
       _ \<leftarrow> byte_at bs k;
       h \<leftarrow> byte_at bs (k + 1);
       l \<leftarrow> byte_at bs (k + 2);
       if be16 h l \<noteq> 0x01 then Some (- 1, hdr, w)
       else do {
         (ok, k, hdr, w) \<leftarrow> parse_strings env bit_fields bs (k + 3) hdr w;
         if \<not> ok then Some (- 1, hdr, w)
         else do {
           tmp \<leftarrow> byte_at bs k;
           if tmp \<noteq> 0x65 then Some (- 1, hdr, w)
           else do {
             b3 \<leftarrow> byte_at bs (k + 1);
             b2 \<leftarrow> byte_at bs (k + 2);
             b1 \<leftarrow> byte_at bs (k + 3);
             b0 \<leftarrow> byte_at bs (k + 4);
             let len = push_bit 8 (push_bit 8 (be16 b3 b2) OR ucast b1) OR ucast b0;
             Some (0, hdr\<lparr>BitstreamLength := len, HeaderLength := of_nat (k + 5)\<rparr>, w) } } } } }"

text \<open>The four \<open>kfree\<close>s at the end of every user of the header; \<open>kfree\<close> of NULL does nothing.\<close>

fun free_strings :: "bit_field list \<Rightarrow> XHwIcap_Bit_Header \<Rightarrow> 'w kworld_scheme \<Rightarrow> 'w kworld_scheme" where
  "free_strings [] hdr w = w"
| "free_strings (f # fs) hdr w =
    free_strings fs hdr (if bit_string hdr f \<noteq> None then kfree (ObjBitField f) w else w)"

definition free_header :: "XHwIcap_Bit_Header \<Rightarrow> 'w kworld_scheme \<Rightarrow> 'w kworld_scheme" where
  "free_header hdr w = free_strings [DesignName, PartName, BitDate, BitTime] hdr w"

text \<open>A word of the bitstream, as \<open>be32_to_cpu\<close> reads it from memory.\<close>

definition be32 :: "u8 \<Rightarrow> u8 \<Rightarrow> u8 \<Rightarrow> u8 \<Rightarrow> u32" where
  "be32 b3 b2 b1 b0 = push_bit 24 (ucast b3) OR push_bit 16 (ucast b2) OR push_bit 8 (ucast b1) OR ucast b0"

subsection \<open>The ICAP\<close>

definition XHWICAP_WF :: addr where "XHWICAP_WF = 0x020000 + 0x100"
definition XHWICAP_CR :: addr where "XHWICAP_CR = 0x020000 + 0x10c"
definition XHWICAP_SR :: addr where "XHWICAP_SR = 0x020000 + 0x110"
definition XHWICAP_WFV :: addr where "XHWICAP_WFV = 0x020000 + 0x114"

fun done_loop :: "kenv \<Rightarrow> addr \<Rightarrow> nat \<Rightarrow> 'w kworld_scheme \<Rightarrow> int \<times> 'w kworld_scheme" where
  "done_loop env base 0 w = (- EIO, w)"
| "done_loop env base (Suc n) w =
    (let (v, w) = read_register env (base + XHWICAP_SR) w
     in if v AND 0x5 \<noteq> 0 then (0, w) else done_loop env base n w)"

definition wait_for_done :: "kenv \<Rightarrow> sd_dev \<Rightarrow> 'w kworld_scheme \<Rightarrow> (int \<times> 'w kworld_scheme) option" where
  "wait_for_done env d w = do {
     base \<leftarrow> user_base d;
     Some (done_loop env base 10 w) }"

fun hwicap_words :: "addr \<Rightarrow> u8 list \<Rightarrow> nat \<Rightarrow> 'w kworld_scheme \<Rightarrow> 'w kworld_scheme option" where
  "hwicap_words base bs 0 w = Some w"
| "hwicap_words base (b3 # b2 # b1 # b0 # bs) (Suc n) w =
    hwicap_words base bs n (write_register (be32 b3 b2 b1 b0) (base + XHWICAP_WF) w)"
| "hwicap_words base _ (Suc n) w = None"

fun flush_loop :: "kenv \<Rightarrow> addr \<Rightarrow> nat \<Rightarrow> 'w kworld_scheme \<Rightarrow> int \<times> 'w kworld_scheme" where
  "flush_loop env base 0 w = (- EIO, w)"
| "flush_loop env base (Suc n) w =
    (let (v, w) = read_register env (base + XHWICAP_CR) w
     in if v AND 0x1 = 0 then (0, w) else flush_loop env base n w)"

definition hwicapWrite ::
  "kenv \<Rightarrow> sd_dev \<Rightarrow> u8 list \<Rightarrow> nat \<Rightarrow> 'w kworld_scheme \<Rightarrow> (int \<times> 'w kworld_scheme) option" where
  "hwicapWrite env d bs n w = do {
     base \<leftarrow> user_base d;
     w \<leftarrow> hwicap_words base bs n w;
     Some (flush_loop env base 10 (write_register 0x1 (base + XHWICAP_CR) w)) }"

text \<open>The write FIFO takes as many words as it has room for; a vacancy that reads as a negative
  number, or as 0, ends the download.\<close>

function bitstream_icap_helper ::
  "kenv \<Rightarrow> sd_dev \<Rightarrow> u8 list \<Rightarrow> nat \<Rightarrow> 'w kworld_scheme \<Rightarrow> (int \<times> 'w kworld_scheme) option" where
  "bitstream_icap_helper env d bs remain w =
    (if remain = 0 then Some (0, w)
     else do {
       base \<leftarrow> user_base d;
       let (v, w) = read_register env (base + XHWICAP_WFV) w;
       if sint v \<le> 0 then Some (- EIO, w)
       else do {
         let n = min (unat v) remain;
         (rc, w) \<leftarrow> hwicapWrite env d bs n w;
         if rc \<noteq> 0 then Some (- EIO, w)
         else bitstream_icap_helper env d (drop (4 * n) bs) (remain - n) w } })"
  by pat_completeness auto
termination
proof (relation "measure (\<lambda>(_, _, _, remain, _). remain)", goal_cases)
  case (2 env d bs remain w base x v w1)
  have "unat v \<noteq> 0"
  proof
    assume "unat v = 0"
    then have "v = 0" by (simp add: unat_eq_0)
    with 2 show False by simp
  qed
  with 2 show ?case by simp
qed simp

declare bitstream_icap_helper.simps [simp del]


text \<open>The bitstream goes out in pieces of \<open>DMA_HWICAP_BITFILE_BUFFER_SIZE\<close> bytes; the first result is
  false when the helper gave up on one of them.\<close>

function icap_chunk_loop ::
  "kenv \<Rightarrow> sd_dev \<Rightarrow> u8 list \<Rightarrow> nat \<Rightarrow> 'w kworld_scheme \<Rightarrow> (bool \<times> 'w kworld_scheme) option" where
  "icap_chunk_loop env d bs remain w =
    (if remain = 0 then Some (True, w)
     else do {
       let n = min remain DMA_HWICAP_BITFILE_BUFFER_SIZE;
       (rc, w) \<leftarrow> bitstream_icap_helper env d bs (n div 4) w;
       if rc \<noteq> 0 then Some (False, w) else icap_chunk_loop env d (drop n bs) (remain - n) w })"
  by pat_completeness auto
termination
  by (relation "measure (\<lambda>(_, _, _, remain, _). remain)") (simp_all add: DMA_HWICAP_BITFILE_BUFFER_SIZE_def)

declare icap_chunk_loop.simps [simp del]

definition bitstream_icap ::
  "kenv \<Rightarrow> sd_dev \<Rightarrow> u8 list \<Rightarrow> u32 \<Rightarrow> 'w kworld_scheme \<Rightarrow> (int \<times> 'w kworld_scheme) option" where
  "bitstream_icap env d bs len w = do {
     bug_on (len = 0);
     (rc, hdr, w) \<leftarrow> bitstream_parse_header env bs DMA_HWICAP_BITFILE_BUFFER_SIZE header0 w;
     if rc \<noteq> 0 then Some (- EINVAL, free_header hdr w)
     else if HeaderLength hdr + BitstreamLength hdr > len then Some (- EINVAL, free_header hdr w)
     else do {
       let bs = drop (unat (HeaderLength hdr)) bs;
       (ok, w) \<leftarrow> icap_chunk_loop env d bs (unat (BitstreamLength hdr)) w;
       if \<not> ok then Some (0, free_header hdr w)
       else do {
         (rc, w) \<leftarrow> wait_for_done env d w;
         Some (if rc \<noteq> 0 then - EIO else 0, free_header hdr w) } } }"

text \<open>\<open>vfree(lro->stash.clear_bitstream)\<close> and the two assignments after it.\<close>

definition drop_stash :: "sd_dev \<Rightarrow> 'w kworld_scheme \<Rightarrow> sd_dev \<times> 'w kworld_scheme" where
  "drop_stash d w =
    (d\<lparr>stash := (stash d)\<lparr>clear_bitstream := None, clear_bitstream_length := 0\<rparr>\<rparr>,
     if clear_bitstream (stash d) \<noteq> None then kfree ObjStash w else w)"

definition bitstream_clear_icap ::
  "kenv \<Rightarrow> sd_dev \<Rightarrow> 'w kworld_scheme \<Rightarrow> (int \<times> sd_dev \<times> 'w kworld_scheme) option" where
  "bitstream_clear_icap env d w = (case clear_bitstream (stash d) of
     None \<Rightarrow> Some (0, d, w)
   | Some bs \<Rightarrow> do {
       (err, w) \<leftarrow> bitstream_icap env d bs (clear_bitstream_length (stash d)) w;
       let (d, w) = drop_stash d w;
       Some (err, d, w) })"

text \<open>The same loop over a bitstream in user memory: each piece is copied first. The result is
  \<open>-EFAULT\<close> when a copy fails, and tells apart a download that ended from one that the helper
  gave up on.\<close>

function icap_user_loop ::
  "kenv \<Rightarrow> sd_dev \<Rightarrow> u64 \<Rightarrow> nat \<Rightarrow> 'w kworld_scheme \<Rightarrow> (int \<times> bool \<times> 'w kworld_scheme) option" where
  "icap_user_loop env d a remain w =
    (if remain = 0 then Some (0, True, w)
     else do {
       let n = min remain DMA_HWICAP_BITFILE_BUFFER_SIZE;
       (case copy_from_user env a n w of
          (None, w) \<Rightarrow> Some (- EFAULT, False, w)
        | (Some bs, w) \<Rightarrow> do {
            (rc, w) \<leftarrow> bitstream_icap_helper env d bs (n div 4) w;
            if rc \<noteq> 0 then Some (0, False, w)
            else icap_user_loop env d (a + of_nat n) (remain - n) w }) })"
  by pat_completeness auto
termination
  by (relation "measure (\<lambda>(_, _, _, remain, _). remain)") (simp_all add: DMA_HWICAP_BITFILE_BUFFER_SIZE_def)

declare icap_user_loop.simps [simp del]

text \<open>The label \<open>free_buffers\<close> of the two download functions.\<close>

definition free_buffers ::
  "kenv \<Rightarrow> int \<Rightarrow> bool \<Rightarrow> XHwIcap_Bit_Header \<Rightarrow> sd_dev \<Rightarrow> 'w kworld_scheme
   \<Rightarrow> (int \<times> sd_dev \<times> 'w kworld_scheme) option" where
  "free_buffers env err buffer hdr d w = do {
     (d, w) \<leftarrow> freeAXIGate env d w;
     let w = (if buffer then kfree ObjBitBuf w else w);
     Some (err, d, free_header hdr w) }"

definition bitstream_ioctl_icap ::
  "kenv \<Rightarrow> u64 \<Rightarrow> u64 \<Rightarrow> sd_dev \<Rightarrow> 'w kworld_scheme \<Rightarrow> (int \<times> sd_dev \<times> 'w kworld_scheme) option" where
  "bitstream_ioctl_icap env bit_buf len d w = do {
     (d, w) \<leftarrow> freezeAXIGate env d w;
     (err, d, w) \<leftarrow> bitstream_clear_icap env d w;
     if err \<noteq> 0 then free_buffers env err False header0 d w
     else (case kalloc env ObjBitBuf w of
       (False, w) \<Rightarrow> free_buffers env (- ENOMEM) False header0 d w
     | (True, w) \<Rightarrow> (case copy_from_user env bit_buf DMA_HWICAP_BITFILE_BUFFER_SIZE w of
         (None, w) \<Rightarrow> free_buffers env (- EFAULT) True header0 d w
       | (Some bs, w) \<Rightarrow> do {
           (rc, hdr, w) \<leftarrow> bitstream_parse_header env bs DMA_HWICAP_BITFILE_BUFFER_SIZE header0 w;
           if rc \<noteq> 0 then free_buffers env (- EINVAL) True hdr d w
           else if ucast (HeaderLength hdr + BitstreamLength hdr) > len
           then free_buffers env (- EINVAL) True hdr d w
           else do {
             (err, ok, w) \<leftarrow> icap_user_loop env d (bit_buf + ucast (HeaderLength hdr))
                 (unat (BitstreamLength hdr)) w;
             if \<not> ok then free_buffers env err True hdr d w
             else do {
               (rc, w) \<leftarrow> wait_for_done env d w;
               free_buffers env (if rc \<noteq> 0 then - EIO else 0) True hdr d w } } })) }"

subsection \<open>The MCAP\<close>

definition MCAP_STATUS :: nat where "MCAP_STATUS = 0x10"
definition MCAP_CONTROL :: nat where "MCAP_CONTROL = 0x14"
definition MCAP_DATA :: nat where "MCAP_DATA = 0x18"
definition MCAP_CTRL_MODE_MASK :: u32 where "MCAP_CTRL_MODE_MASK = push_bit 0 1"
definition MCAP_CTRL_REG_READ_MASK :: u32 where "MCAP_CTRL_REG_READ_MASK = push_bit 1 1"
definition MCAP_CTRL_RESET_MASK :: u32 where "MCAP_CTRL_RESET_MASK = push_bit 4 1"
definition MCAP_CTRL_MOD_RESET_MASK :: u32 where "MCAP_CTRL_MOD_RESET_MASK = push_bit 5 1"
definition MCAP_CTRL_IN_USE_MASK :: u32 where "MCAP_CTRL_IN_USE_MASK = push_bit 8 1"
definition MCAP_CTRL_DESIGN_SWITCH_MASK :: u32 where "MCAP_CTRL_DESIGN_SWITCH_MASK = push_bit 12 1"
definition MCAP_CTRL_DATA_REG_PROT_MASK :: u32 where "MCAP_CTRL_DATA_REG_PROT_MASK = push_bit 16 1"
definition MCAP_STS_ERR_MASK :: u32 where "MCAP_STS_ERR_MASK = push_bit 0 1"
definition MCAP_STS_EOS_MASK :: u32 where "MCAP_STS_EOS_MASK = push_bit 1 1"
definition MCAP_STS_REG_READ_CMP_MASK :: u32 where "MCAP_STS_REG_READ_CMP_MASK = push_bit 4 1"
definition MCAP_STS_FIFO_OVERFLOW_MASK :: u32 where "MCAP_STS_FIFO_OVERFLOW_MASK = push_bit 8 1"
definition MCAP_STS_CFG_MCAP_REQ_MASK :: u32 where "MCAP_STS_CFG_MCAP_REQ_MASK = push_bit 24 1"
definition MCAP_LOOP_COUNT :: nat where "MCAP_LOOP_COUNT = 1000000"
definition EMCAP_EOS_RETRY_COUNT :: nat where "EMCAP_EOS_RETRY_COUNT = 10"
definition EMCAP_EOS_LOOP_COUNT :: nat where "EMCAP_EOS_LOOP_COUNT = 100"
definition EMCAP_NOOP_VAL :: u32 where "EMCAP_NOOP_VAL = 0x2000000"

definition MCapRegWrite :: "sd_dev \<Rightarrow> nat \<Rightarrow> u32 \<Rightarrow> 'w kworld_scheme \<Rightarrow> 'w kworld_scheme" where
  "MCapRegWrite d off v w = emit (CfgWrite (mcap_base d + off) v) w"

definition MCapRegRead :: "kenv \<Rightarrow> sd_dev \<Rightarrow> nat \<Rightarrow> 'w kworld_scheme \<Rightarrow> u32 \<times> 'w kworld_scheme" where
  "MCapRegRead env d off w =
    (let v = cfg_read env (trace w) (mcap_base d + off) in (v, emit (CfgRead (mcap_base d + off) v) w))"

text \<open>The macros that test one bit of a register.\<close>

definition IsResetSet :: "kenv \<Rightarrow> sd_dev \<Rightarrow> 'w kworld_scheme \<Rightarrow> bool \<times> 'w kworld_scheme" where
  "IsResetSet env d w = (let (v, w) = MCapRegRead env d MCAP_CONTROL w in (v AND MCAP_CTRL_RESET_MASK \<noteq> 0, w))"

definition IsModuleResetSet :: "kenv \<Rightarrow> sd_dev \<Rightarrow> 'w kworld_scheme \<Rightarrow> bool \<times> 'w kworld_scheme" where
  "IsModuleResetSet env d w =
    (let (v, w) = MCapRegRead env d MCAP_CONTROL w in (v AND MCAP_CTRL_MOD_RESET_MASK \<noteq> 0, w))"

definition IsConfigureMCapReqSet :: "kenv \<Rightarrow> sd_dev \<Rightarrow> 'w kworld_scheme \<Rightarrow> bool \<times> 'w kworld_scheme" where
  "IsConfigureMCapReqSet env d w =
    (let (v, w) = MCapRegRead env d MCAP_STATUS w in (v AND MCAP_STS_CFG_MCAP_REQ_MASK \<noteq> 0, w))"

definition IsErrSet :: "kenv \<Rightarrow> sd_dev \<Rightarrow> 'w kworld_scheme \<Rightarrow> bool \<times> 'w kworld_scheme" where
  "IsErrSet env d w = (let (v, w) = MCapRegRead env d MCAP_STATUS w in (v AND MCAP_STS_ERR_MASK \<noteq> 0, w))"

definition IsRegReadComplete :: "kenv \<Rightarrow> sd_dev \<Rightarrow> 'w kworld_scheme \<Rightarrow> bool \<times> 'w kworld_scheme" where
  "IsRegReadComplete env d w =
    (let (v, w) = MCapRegRead env d MCAP_STATUS w in (v AND MCAP_STS_REG_READ_CMP_MASK \<noteq> 0, w))"

definition IsFifoOverflow :: "kenv \<Rightarrow> sd_dev \<Rightarrow> 'w kworld_scheme \<Rightarrow> bool \<times> 'w kworld_scheme" where
  "IsFifoOverflow env d w =
    (let (v, w) = MCapRegRead env d MCAP_STATUS w in (v AND MCAP_STS_FIFO_OVERFLOW_MASK \<noteq> 0, w))"

text \<open>The loop \<open>do ... while (loop--)\<close>: its value is what \<open>loop\<close> is afterwards.\<close>

fun mcap_request_loop :: "kenv \<Rightarrow> sd_dev \<Rightarrow> nat \<Rightarrow> 'w kworld_scheme \<Rightarrow> int \<times> 'w kworld_scheme" where
  "mcap_request_loop env d 0 w =
    (let (b, w) = IsConfigureMCapReqSet env d w in (if \<not> b then 0 else - 1, w))"
| "mcap_request_loop env d (Suc n) w =
    (let (b, w) = IsConfigureMCapReqSet env d w
     in if \<not> b then (int (Suc n), w) else mcap_request_loop env d n w)"

definition MCapClearRequestByConfigure ::
  "kenv \<Rightarrow> sd_dev \<Rightarrow> 'w kworld_scheme \<Rightarrow> int \<times> u32 \<times> 'w kworld_scheme" where
  "MCapClearRequestByConfigure env d w =
    (let (restore, w) = MCapRegRead env d MCAP_CONTROL w;
         (req, w) = IsConfigureMCapReqSet env d w
     in if req then
          (let set = restore OR (MCAP_CTRL_MODE_MASK OR MCAP_CTRL_IN_USE_MASK);
               w = MCapRegWrite d MCAP_CONTROL set w;
               (loop, w) = mcap_request_loop env d MCAP_LOOP_COUNT w
           in if loop = 0 then (- EIO, restore, MCapRegWrite d MCAP_CONTROL restore w)
              else (0, restore, w))
        else (0, restore, w))"

fun mcap_noops :: "sd_dev \<Rightarrow> nat \<Rightarrow> 'w kworld_scheme \<Rightarrow> 'w kworld_scheme" where
  "mcap_noops d 0 w = w"
| "mcap_noops d (Suc n) w = mcap_noops d n (MCapRegWrite d MCAP_DATA EMCAP_NOOP_VAL w)"

function completion_loop :: "kenv \<Rightarrow> sd_dev \<Rightarrow> nat \<Rightarrow> u32 \<Rightarrow> 'w kworld_scheme \<Rightarrow> int \<times> 'w kworld_scheme" where
  "completion_loop env d retry_count sr w =
    (if sr AND MCAP_STS_EOS_MASK \<noteq> 0 then (0, w)
     else
       (let w = mcap_noops d EMCAP_EOS_LOOP_COUNT w;
            (sr, w) = MCapRegRead env d MCAP_STATUS w;
            retry_count = retry_count + 1
        in if retry_count > EMCAP_EOS_RETRY_COUNT then (- EIO, w)
           else completion_loop env d retry_count sr w))"
  by pat_completeness auto
termination
  by (relation "measure (\<lambda>(_, _, retry, _, _). Suc EMCAP_EOS_RETRY_COUNT - retry)") simp_all

declare completion_loop.simps [simp del]

definition Checkforcompletion :: "kenv \<Rightarrow> sd_dev \<Rightarrow> 'w kworld_scheme \<Rightarrow> int \<times> 'w kworld_scheme" where
  "Checkforcompletion env d w =
    (let (sr, w) = MCapRegRead env d MCAP_STATUS w in completion_loop env d 0 sr w)"

text \<open>\<open>IsErrSet || !IsModuleResetSet || !IsResetSet\<close> and the other disjunctions read no further
  than they have to.\<close>

definition full_reset_failed :: "kenv \<Rightarrow> sd_dev \<Rightarrow> 'w kworld_scheme \<Rightarrow> bool \<times> 'w kworld_scheme" where
  "full_reset_failed env d w =
    (let (b, w) = IsErrSet env d w
     in if b then (True, w)
        else (let (b, w) = IsModuleResetSet env d w
              in if \<not> b then (True, w)
                 else (let (b, w) = IsResetSet env d w in (\<not> b, w))))"

definition MCapFullReset :: "kenv \<Rightarrow> sd_dev \<Rightarrow> 'w kworld_scheme \<Rightarrow> int \<times> 'w kworld_scheme" where
  "MCapFullReset env d w =
    (let (err, restore, w) = MCapClearRequestByConfigure env d w
     in if err \<noteq> 0 then (err, w)
        else
          (let (set, w) = MCapRegRead env d MCAP_CONTROL w;
               set = set OR (MCAP_CTRL_MODE_MASK OR MCAP_CTRL_IN_USE_MASK
                             OR MCAP_CTRL_RESET_MASK OR MCAP_CTRL_MOD_RESET_MASK);
               w = MCapRegWrite d MCAP_CONTROL set w;
               (failed, w) = full_reset_failed env d w;
               w = MCapRegWrite d MCAP_CONTROL restore w
           in (if failed then - EIO else 0, w)))"

definition setup_failed :: "kenv \<Rightarrow> sd_dev \<Rightarrow> 'w kworld_scheme \<Rightarrow> bool \<times> 'w kworld_scheme" where
  "setup_failed env d w =
    (let (b, w) = IsErrSet env d w
     in if b then (True, w)
        else (let (b, w) = IsRegReadComplete env d w
              in if b then (True, w) else IsFifoOverflow env d w))"

definition bitstream_mcap_setup ::
  "kenv \<Rightarrow> bool \<Rightarrow> sd_dev \<Rightarrow> 'w kworld_scheme \<Rightarrow> int \<times> u32 \<times> 'w kworld_scheme" where
  "bitstream_mcap_setup env design_switch d w =
    (let (err, restore, w) = MCapClearRequestByConfigure env d w
     in if err \<noteq> 0 then (err, restore, w)
        else
          (let (failed, w) = setup_failed env d w
           in if failed then (- EIO, restore, MCapRegWrite d MCAP_CONTROL restore w)
              else
                (let (set, w) = MCapRegRead env d MCAP_CONTROL w;
                     set = set OR (MCAP_CTRL_MODE_MASK OR MCAP_CTRL_IN_USE_MASK OR MCAP_CTRL_DATA_REG_PROT_MASK);
                     set = set AND NOT (MCAP_CTRL_RESET_MASK OR MCAP_CTRL_MOD_RESET_MASK OR MCAP_CTRL_REG_READ_MASK);
                     set = (if design_switch then set AND NOT MCAP_CTRL_DESIGN_SWITCH_MASK else set)
                 in (0, restore, MCapRegWrite d MCAP_CONTROL set w))))"

fun bitstream_mcap_helper :: "sd_dev \<Rightarrow> u8 list \<Rightarrow> nat \<Rightarrow> 'w kworld_scheme \<Rightarrow> 'w kworld_scheme option" where
  "bitstream_mcap_helper d bs 0 w = Some w"
| "bitstream_mcap_helper d (b3 # b2 # b1 # b0 # bs) (Suc n) w =
    bitstream_mcap_helper d bs n (MCapRegWrite d MCAP_DATA (be32 b3 b2 b1 b0) w)"
| "bitstream_mcap_helper d _ (Suc n) w = None"

definition bitstream_clear_mcap ::
  "kenv \<Rightarrow> sd_dev \<Rightarrow> 'w kworld_scheme \<Rightarrow> (int \<times> sd_dev \<times> 'w kworld_scheme) option" where
  "bitstream_clear_mcap env d w = (case clear_bitstream (stash d) of
     None \<Rightarrow> Some (0, d, w)
   | Some bs \<Rightarrow> do {
       let len = clear_bitstream_length (stash d);
       (rc, hdr, w) \<leftarrow> bitstream_parse_header env bs DMA_HWICAP_BITFILE_BUFFER_SIZE header0 w;
       if rc \<noteq> 0 then Some (- EINVAL, d, free_header hdr w)
       else if HeaderLength hdr + BitstreamLength hdr > len then Some (- EINVAL, d, free_header hdr w)
       else do {
         w \<leftarrow> bitstream_mcap_helper d (drop (unat (HeaderLength hdr)) bs) (unat (BitstreamLength hdr div 4)) w;
         let (d, w) = drop_stash d w;
         Some (0, d, free_header hdr w) } })"


function mcap_user_loop ::
  "kenv \<Rightarrow> sd_dev \<Rightarrow> u64 \<Rightarrow> nat \<Rightarrow> 'w kworld_scheme \<Rightarrow> (int \<times> 'w kworld_scheme) option" where
  "mcap_user_loop env d a remain w =
    (if remain = 0 then Some (0, w)
     else do {
       let n = min remain DMA_HWICAP_BITFILE_BUFFER_SIZE;
       (case copy_from_user env a n w of
          (None, w) \<Rightarrow> Some (- EFAULT, w)
        | (Some bs, w) \<Rightarrow> do {
            w \<leftarrow> bitstream_mcap_helper d bs (n div 4) w;
            mcap_user_loop env d (a + of_nat n) (remain - n) w }) })"
  by pat_completeness auto
termination
  by (relation "measure (\<lambda>(_, _, _, remain, _). remain)") (simp_all add: DMA_HWICAP_BITFILE_BUFFER_SIZE_def)

declare mcap_user_loop.simps [simp del]

definition write_failed :: "kenv \<Rightarrow> int \<Rightarrow> sd_dev \<Rightarrow> 'w kworld_scheme \<Rightarrow> bool \<times> 'w kworld_scheme" where
  "write_failed env err d w =
    (if err \<noteq> 0 then (True, w)
     else (let (b, w) = IsErrSet env d w in if b then (True, w) else IsFifoOverflow env d w))"

text \<open>What follows \<open>bitstream_mcap_setup\<close> up to the label \<open>design_switch\<close>.\<close>

definition mcap_write_user ::
  "kenv \<Rightarrow> u64 \<Rightarrow> XHwIcap_Bit_Header \<Rightarrow> u32 \<Rightarrow> sd_dev \<Rightarrow> 'w kworld_scheme
   \<Rightarrow> (int \<times> sd_dev \<times> 'w kworld_scheme) option" where
  "mcap_write_user env bit_buf hdr restore d w = do {
     (err, d, w) \<leftarrow> bitstream_clear_mcap env d w;
     if err \<noteq> 0 then Some (err, d, w)
     else do {
       (err, w) \<leftarrow> mcap_user_loop env d bit_buf (unat (BitstreamLength hdr)) w;
       if err \<noteq> 0 then Some (err, d, w)
       else do {
         let (err, w) = Checkforcompletion env d w;
         let (failed, w) = write_failed env err d w;
         if failed then do {
           let w = MCapRegWrite d MCAP_CONTROL restore w;
           let (_, w) = MCapFullReset env d w;
           Some (- EIO, d, w) }
         else Some (0, d, w) } } }"

text \<open>From the setup of the MCAP registers to the label \<open>design_switch\<close>, which restores the control
  register on every path.\<close>

definition mcap_download_user ::
  "kenv \<Rightarrow> u64 \<Rightarrow> XHwIcap_Bit_Header \<Rightarrow> sd_dev \<Rightarrow> 'w kworld_scheme \<Rightarrow> (int \<times> sd_dev \<times> 'w kworld_scheme) option" where
  "mcap_download_user env bit_buf hdr d w = do {
     let (err, restore, w) = bitstream_mcap_setup env False d w;
     (err, d, w) \<leftarrow> (if err \<noteq> 0 then Some (err, d, w) else mcap_write_user env bit_buf hdr restore d w);
     Some (err, d, MCapRegWrite d MCAP_CONTROL restore w) }"

definition bitstream_ioctl_mcap ::
  "kenv \<Rightarrow> u64 \<Rightarrow> u64 \<Rightarrow> sd_dev \<Rightarrow> 'w kworld_scheme \<Rightarrow> (int \<times> sd_dev \<times> 'w kworld_scheme) option" where
  "bitstream_ioctl_mcap env bit_buf len d w =
    (if bit_buf = 0 \<or> len = 0 then Some (- EINVAL, d, w)
     else do {
       (d, w) \<leftarrow> freezeAXIGate env d w;
       (case kalloc env ObjBitBuf w of
         (False, w) \<Rightarrow> free_buffers env (- ENOMEM) False header0 d w
       | (True, w) \<Rightarrow> (case copy_from_user env bit_buf DMA_HWICAP_BITFILE_BUFFER_SIZE w of
           (None, w) \<Rightarrow> free_buffers env (- EFAULT) True header0 d w
         | (Some bs, w) \<Rightarrow> do {
             (rc, hdr, w) \<leftarrow> bitstream_parse_header env bs DMA_HWICAP_BITFILE_BUFFER_SIZE header0 w;
             if rc \<noteq> 0 then free_buffers env (- EINVAL) True hdr d w
             else if ucast (HeaderLength hdr + BitstreamLength hdr) > len
             then free_buffers env (- EINVAL) True hdr d w
             else do {
               (err, d, w) \<leftarrow> mcap_download_user env (bit_buf + ucast (HeaderLength hdr)) hdr d w;
               free_buffers env err True hdr d w } })) })"

text \<open>The download of a second stage from kernel memory, with the design switch.\<close>

definition bitstream_mcap ::
  "kenv \<Rightarrow> u8 list \<Rightarrow> u32 \<Rightarrow> sd_dev \<Rightarrow> 'w kworld_scheme \<Rightarrow> (int \<times> 'w kworld_scheme) option" where
  "bitstream_mcap env bs len d w = do {
     bug_on (len = 0);
     (rc, hdr, w) \<leftarrow> bitstream_parse_header env bs DMA_HWICAP_BITFILE_BUFFER_SIZE header0 w;
     if rc \<noteq> 0 then Some (- EINVAL, free_header hdr w)
     else if HeaderLength hdr + BitstreamLength hdr > len then Some (- EINVAL, free_header hdr w)
     else do {
       let (err, restore, w) = bitstream_mcap_setup env True d w;
       if err \<noteq> 0 then Some (err, free_header hdr w)
       else do {
         w \<leftarrow> bitstream_mcap_helper d (drop (unat (HeaderLength hdr)) bs) (unat (BitstreamLength hdr div 4)) w;
         let (err, w) = Checkforcompletion env d w;
         let (failed, w) = write_failed env err d w;
         if failed then do {
           let w = MCapRegWrite d MCAP_CONTROL restore w;
           let (_, w) = MCapFullReset env d w;
           Some (- EIO, free_header hdr w) }
         else do {
           let w = MCapRegWrite d MCAP_CONTROL (restore OR MCAP_CTRL_DESIGN_SWITCH_MASK) w;
           Some (0, free_header hdr w) } } } }"

subsection \<open>The container\<close>

record xclBin =
  m_magic :: "u8 list"
  m_length :: u64
  m_primaryFirmwareOffset :: u64
  m_primaryFirmwareLength :: u64
  m_secondaryFirmwareOffset :: u64
  m_secondaryFirmwareLength :: u64

text \<open>The fields the driver reads, at their offsets in \<open>struct xclBin\<close> (128 bytes, with four
  bytes of padding after \<open>m_nextXclBin\<close>).\<close>

definition xclBin_of :: "u8 list \<Rightarrow> xclBin" where
  "xclBin_of bs = \<lparr>m_magic = take 8 bs, m_length = field64 bs 8,
     m_primaryFirmwareOffset = field64 bs 80, m_primaryFirmwareLength = field64 bs 88,
     m_secondaryFirmwareOffset = field64 bs 96, m_secondaryFirmwareLength = field64 bs 104\<rparr>"

text \<open>The string \<open>xclbin0\<close> with its NUL.\<close>

definition xclbin_magic :: "u8 list" where
  "xclbin_magic = [0x78, 0x63, 0x6c, 0x62, 0x69, 0x6e, 0x30, 0]"

definition XDMA_IOCICAPDOWNLOAD :: u32 where "XDMA_IOCICAPDOWNLOAD = 0x40107802"
definition XDMA_IOCMCAPDOWNLOAD :: u32 where "XDMA_IOCMCAPDOWNLOAD = 0x40107803"

definition stash_secondary ::
  "kenv \<Rightarrow> u64 \<Rightarrow> xclBin \<Rightarrow> int \<Rightarrow> sd_dev \<Rightarrow> 'w kworld_scheme \<Rightarrow> int \<times> sd_dev \<times> 'w kworld_scheme" where
  "stash_secondary env xclbin bin err d w =
    (if m_secondaryFirmwareLength bin = 0 then (err, d, w)
     else
       (let w = (if clear_bitstream (stash d) \<noteq> None then kfree ObjStash w else w)
        in case kalloc env ObjStash w of
          (False, w) \<Rightarrow> (- ENOMEM, d\<lparr>stash := (stash d)\<lparr>clear_bitstream := None, clear_bitstream_length := 0\<rparr>\<rparr>, w)
        | (True, w) \<Rightarrow>
            (case copy_from_user env (xclbin + m_secondaryFirmwareOffset bin) (unat (m_secondaryFirmwareLength bin)) w of
               (None, w) \<Rightarrow> (- EFAULT, d\<lparr>stash := (stash d)\<lparr>clear_bitstream := None, clear_bitstream_length := 0\<rparr>\<rparr>,
                             kfree ObjStash w)
             | (Some bs, w) \<Rightarrow> (0, d\<lparr>stash := (stash d)\<lparr>clear_bitstream := Some bs,
                                 clear_bitstream_length := ucast (m_secondaryFirmwareLength bin)\<rparr>\<rparr>, w))))"

definition bitstream_ioctl ::
  "kenv \<Rightarrow> u32 \<Rightarrow> u64 \<Rightarrow> sd_dev \<Rightarrow> 'w kworld_scheme \<Rightarrow> (int \<times> sd_dev \<times> 'w kworld_scheme) option" where
  "bitstream_ioctl env cmd arg d w = (case copy_from_user env arg 16 w of
     (None, w) \<Rightarrow> Some (- EFAULT, d, w)
   | (Some obj, w) \<Rightarrow>
       (let xclbin = field64 obj 8 in case copy_from_user env xclbin 128 w of
          (None, w) \<Rightarrow> Some (- EFAULT, d, w)
        | (Some bs, w) \<Rightarrow>
            (let bin = xclBin_of bs in
             if m_magic bin \<noteq> xclbin_magic then Some (- EINVAL, d, w)
             else if m_primaryFirmwareOffset bin + m_primaryFirmwareLength bin > m_length bin
             then Some (- EINVAL, d, w)
             else if m_secondaryFirmwareOffset bin + m_secondaryFirmwareLength bin > m_length bin
             then Some (- EINVAL, d, w)
             else
               (let (ok, w) = svc_call env (SvcAccessOk xclbin (m_length bin)) w;
                    buffer = xclbin + m_primaryFirmwareOffset bin
                in if ok = 0 then Some (- EFAULT, d, w)
                   else if cmd = XDMA_IOCICAPDOWNLOAD then do {
                     (err, d, w) \<leftarrow> bitstream_ioctl_icap env buffer (m_primaryFirmwareLength bin) d w;
                     Some (stash_secondary env xclbin bin err d w) }
                   else if cmd = XDMA_IOCMCAPDOWNLOAD then do {
                     (err, d, w) \<leftarrow> bitstream_ioctl_mcap env buffer (m_primaryFirmwareLength bin) d w;
                     Some (stash_secondary env xclbin bin err d w) }
                   else Some (- EINVAL, d, w)))))"

subsection \<open>Boot firmware\<close>

text \<open>\<open>snprintf\<close> with \<open>%04x\<close> and \<open>%016llx\<close> of values that have no more digits.\<close>

definition hex_pad :: "nat \<Rightarrow> nat \<Rightarrow> string" where
  "hex_pad k n = map (\<lambda>i. ''0123456789abcdef'' ! (n div 16 ^ i mod 16)) (rev [0..<k])"

definition fw_names :: "sd_dev \<Rightarrow> string list" where
  "fw_names d =
    [''xilinx/'' @ hex_pad 4 (unat (pd_vendor d)) @ ''-'' @ hex_pad 4 (unat (pd_device d)) @ ''-''
       @ hex_pad 4 (unat (pd_subsystem_device d)) @ ''-'' @ hex_pad 16 (unat (feature_id d)) @ ''.dsabin'',
     ''xilinx/xdma-'' @ hex_pad 4 (unat (pd_vendor d)) @ ''-'' @ hex_pad 4 (unat (pd_device d)) @ ''.dsabin'',
     ''xilinx/xilinx_adm-pcie-ku3_1ddr_2_0.dsabin'']"

fun request_firmware_names :: "kenv \<Rightarrow> string list \<Rightarrow> 'w kworld_scheme \<Rightarrow> string option \<times> 'w kworld_scheme" where
  "request_firmware_names env [] w = (None, w)"
| "request_firmware_names env (n # ns) w =
    (let (err, w) = svc_call env (SvcRequestFirmware n) w
     in if err \<noteq> 0 then request_firmware_names env ns w else (Some n, w))"

text \<open>The label \<open>done\<close>; the header structure has been cleared, and only the parse at the end fills it.\<close>

definition boot_done ::
  "int \<Rightarrow> XHwIcap_Bit_Header \<Rightarrow> sd_dev \<Rightarrow> 'w kworld_scheme \<Rightarrow> int \<times> sd_dev \<times> 'w kworld_scheme" where
  "boot_done err hdr d w = (err, d, free_header hdr (svc_void SvcReleaseFirmware w))"

definition boot_check_stash ::
  "kenv \<Rightarrow> sd_dev \<Rightarrow> 'w kworld_scheme \<Rightarrow> (int \<times> sd_dev \<times> 'w kworld_scheme) option" where
  "boot_check_stash env d w = (case clear_bitstream (stash d) of
     None \<Rightarrow> Some (boot_done 0 header0 d w)
   | Some bs \<Rightarrow> do {
       (rc, hdr, w) \<leftarrow> bitstream_parse_header env bs DMA_HWICAP_BITFILE_BUFFER_SIZE header0 w;
       if rc \<noteq> 0 then do {
         let (d, w) = drop_stash d w;
         Some (boot_done (- EINVAL) hdr d w) }
       else Some (boot_done 0 hdr d w) })"

definition boot_stash_secondary ::
  "kenv \<Rightarrow> u8 list \<Rightarrow> xclBin \<Rightarrow> sd_dev \<Rightarrow> 'w kworld_scheme \<Rightarrow> (int \<times> sd_dev \<times> 'w kworld_scheme) option" where
  "boot_stash_secondary env fw bin d w =
    (if m_secondaryFirmwareLength bin \<noteq> 0 \<and> (m_primaryFirmwareLength bin \<noteq> 0 \<or> clear_bitstream (stash d) = None)
     then
       (let (d, w) = drop_stash d w
        in case kalloc env ObjStash w of
          (False, w) \<Rightarrow> Some (boot_done (- ENOMEM) header0 d w)
        | (True, w) \<Rightarrow> do {
            let len = (ucast (m_secondaryFirmwareLength bin) :: u32);
            bs \<leftarrow> bytes_at fw (unat (m_secondaryFirmwareOffset bin)) (unat len);
            boot_check_stash env
              (d\<lparr>stash := (stash d)\<lparr>clear_bitstream := Some bs, clear_bitstream_length := len\<rparr>\<rparr>) w })
     else boot_check_stash env d w)"

text \<open>\<open>fw\<close> is the content of the firmware file of a name, which the kernel's loader returns. A file
  that is shorter than the fields that are read from it is read past its end.\<close>

definition load_boot_firmware ::
  "(string \<Rightarrow> u8 list) \<Rightarrow> kenv \<Rightarrow> sd_dev \<Rightarrow> 'w kworld_scheme \<Rightarrow> (int \<times> sd_dev \<times> 'w kworld_scheme) option" where
  "load_boot_firmware fw env d w = (case request_firmware_names env (fw_names d) w of
     (None, w) \<Rightarrow> Some (0, d, w)
   | (Some n, w) \<Rightarrow> do {
       let data = fw n;
       let bin = xclBin_of data;
       bug_on (length data < 16);
       if m_length bin > of_nat (length data) then Some (boot_done (- EINVAL) header0 d w)
       else do {
         bug_on (length data < 96);
         if m_primaryFirmwareOffset bin + m_primaryFirmwareLength bin > m_length bin
         then Some (boot_done (- EINVAL) header0 d w)
         else do {
           bug_on (length data < 112);
           if m_secondaryFirmwareOffset bin + m_secondaryFirmwareLength bin > m_length bin
           then Some (boot_done (- EINVAL) header0 d w)
           else if m_primaryFirmwareLength bin \<noteq> 0 then do {
             (err, w) \<leftarrow> bitstream_mcap env (drop (unat (m_primaryFirmwareOffset bin)) data)
                 (ucast (m_primaryFirmwareLength bin)) d w;
             let (d, w) = drop_stash d w;
             if err \<noteq> 0 then Some (boot_done err header0 d w)
             else boot_stash_secondary env data bin d w }
           else boot_stash_secondary env data bin d w } } })"

end
