(* ===== verification/Bit_Header.thy ===== *)
theory Bit_Header
  imports Bitstream
begin

section \<open>Downloads: the header, the words, the memory\<close>

text \<open>
  The parser of \<open>xdma-bit.c\<close> against the format it reads: with memory it accepts exactly the
  printed headers, and on others it may read past its buffer.
\<close>

subsection \<open>Bytes at an index\<close>

definition bytes_match :: "u8 list \<Rightarrow> nat \<Rightarrow> u8 list \<Rightarrow> bool" where
  "bytes_match bs k xs \<longleftrightarrow> take (length xs) (drop k bs) = xs"

named_theorems bytes \<open>reading bytes that are known\<close>

lemma bytes_match_Nil [bytes]: "bytes_match bs k []"
  by (simp add: bytes_match_def)

lemma bytes_match_append [bytes]:
  "bytes_match bs k (xs @ ys) \<longleftrightarrow> bytes_match bs k xs \<and> bytes_match bs (k + length xs) ys"
proof (cases "length xs \<le> length (drop k bs)")
  case True
  then have "length (take (length xs) (drop k bs)) = length xs" by simp
  then show ?thesis
    unfolding bytes_match_def by (simp add: take_add add.commute append_eq_append_conv)
next
  case False
  then show ?thesis
    unfolding bytes_match_def by (auto dest!: arg_cong [of _ _ length])
qed

lemma byte_at_match: "byte_at bs k = Some x \<longleftrightarrow> bytes_match bs k [x]"
  by (auto simp: byte_at_def bytes_match_def take_Suc_conv_app_nth nth_append dest: arg_cong [of _ _ length])

lemma bytes_match_Cons [bytes]:
  "bytes_match bs k (x # xs) \<longleftrightarrow> byte_at bs k = Some x \<and> bytes_match bs (k + 1) xs"
  using bytes_match_append [of bs k "[x]" xs] by (simp add: byte_at_match)

lemma bytes_at_match:
  "0 < n \<Longrightarrow> bytes_at bs k n = Some cs \<longleftrightarrow> length cs = n \<and> bytes_match bs k cs"
  by (auto simp: bytes_at_def bytes_match_def dest: arg_cong [of _ _ length])

lemma bytes_match_self: "bytes_match (xs @ ys) 0 xs"
  by (simp add: bytes_match_def)


subsection \<open>The header parser\<close>

definition be16_bytes :: "nat \<Rightarrow> u8 list" where "be16_bytes n = [of_nat (n div 256), of_nat n]"

definition be32_bytes :: "u32 \<Rightarrow> u8 list" where
  "be32_bytes v = [ucast (drop_bit 24 v), ucast (drop_bit 16 v), ucast (drop_bit 8 v), ucast v]"

definition magic_byte :: "nat \<Rightarrow> u8" where "magic_byte i = (if i mod 2 = 0 then 0x0f else 0xf0)"

definition string_bytes :: "(bit_field \<times> u8) list \<Rightarrow> (bit_field \<Rightarrow> u8 list) \<Rightarrow> u8 list" where
  "string_bytes fs names = concat (map (\<lambda>(f, tag). tag # be16_bytes (length (names f)) @ names f) fs)"

text \<open>The header a bitstream file starts with, printed.\<close>

definition header_bytes :: "nat \<Rightarrow> u8 \<Rightarrow> (bit_field \<Rightarrow> u8 list) \<Rightarrow> u32 \<Rightarrow> u8 list" where
  "header_bytes m z names len = be16_bytes m @ map magic_byte [0..<m - 1] @ [z, 0, 1]
     @ string_bytes bit_fields names @ 0x65 # be32_bytes len"

definition names_ok :: "(bit_field \<Rightarrow> u8 list) \<Rightarrow> bool" where
  "names_ok names \<longleftrightarrow> (\<forall>f. 0 < length (names f) \<and> length (names f) < 2 ^ 16 \<and> last (names f) = 0)"

lemma unat_u8_ucast [simp]: "unat (ucast (a :: u8) :: u32) = unat a"
  using unsigned_less [of a, where ?'a = nat] by (simp add: unsigned_ucast_eq take_bit_nat_eq_self)

lemma or_shifted: "unat (x :: u32) < 2 ^ 24 \<Longrightarrow> unat (push_bit 8 x OR ucast (l :: u8)) = 256 * unat x + unat l"
proof -
  assume x: "unat x < 2 ^ 24"
  have "push_bit 8 x AND ucast l = 0"
    by (rule bit_word_eqI) (auto simp: bit_simps dest: bit_imp_le_length)
  then have e: "push_bit 8 x OR ucast l = push_bit 8 x + ucast l"
    by (simp add: disjunctive_add_eq_or)
  have p: "unat (push_bit 8 x) = 256 * unat x"
    using x by (subst unat_push_bit_small) simp_all
  have "unat l < 256" using unsigned_less [of l, where ?'a = nat] by simp
  then have "unat (push_bit 8 x + ucast l) = 256 * unat x + unat l"
    using x p by (subst unat_add_small) simp_all
  then show ?thesis by (simp only: e)
qed

lemma unat_be16: "unat (be16 h l) = 256 * unat h + unat l"
proof -
  have "unat h < 256" using unsigned_less [of h, where ?'a = nat] by simp
  then show ?thesis unfolding be16_def by (subst or_shifted) simp_all
qed

lemma be16_bytes_iff:
  assumes "n < 2 ^ 16"
  shows "unat (be16 h l) = n \<longleftrightarrow> h = of_nat (n div 256) \<and> l = of_nat n"
proof -
  have b: "unat (of_nat (n div 256) :: u8) = n div 256" "unat (of_nat n :: u8) = n mod 256"
    using assms by (simp_all add: unat_of_nat take_bit_eq_mod)
  have "unat l < 256" using unsigned_less [of l, where ?'a = nat] by simp
  then have "256 * unat h + unat l = n \<longleftrightarrow> unat h = n div 256 \<and> unat l = n mod 256" by auto
  then show ?thesis by (metis b unat_be16 word_unat_eq_iff)
qed

lemma be16_self: "n < 2 ^ 16 \<Longrightarrow> be16 (of_nat (n div 256)) (of_nat n) = of_nat n"
  using be16_bytes_iff [of n "of_nat (n div 256)" "of_nat n"] unat_of_nat_small [of n, where ?'a = 32]
  by (simp add: word_unat_eq_iff)

lemma unat_be16_lt: "unat (be16 h l) < 2 ^ 16"
  using unsigned_less [of h, where ?'a = nat] unsigned_less [of l, where ?'a = nat] by (simp add: unat_be16)

lemma bit_u8: "8 \<le> n \<Longrightarrow> \<not> bit (a :: u8) n"
  using bit_imp_le_length [of a n] by auto

lemma be32_word_iff:
  "push_bit 8 (push_bit 8 (be16 b3 b2) OR ucast (b1 :: u8)) OR ucast (b0 :: u8) = v
    \<longleftrightarrow> b3 = ucast (drop_bit 24 v) \<and> b2 = ucast (drop_bit 16 v) \<and> b1 = ucast (drop_bit 8 v) \<and> b0 = ucast v"
  (is "?l = v \<longleftrightarrow> ?r")
proof -
  have bits: "bit ?l n \<longleftrightarrow> (if n < 8 then bit b0 n else if n < 16 then bit b1 (n - 8)
      else if n < 24 then bit b2 (n - 16) else n < 32 \<and> bit b3 (n - 24))" for n
    by (auto simp: be16_def bit_simps bit_u8)
  show ?thesis
  proof
    assume v: "?l = v"
    have bv: "bit v n \<longleftrightarrow> (if n < 8 then bit b0 n else if n < 16 then bit b1 (n - 8)
        else if n < 24 then bit b2 (n - 16) else n < 32 \<and> bit b3 (n - 24))" for n
      using bits [of n] by (simp only: v)
    show ?r
      by (intro conjI; rule bit_word_eqI) (simp_all add: bit_ucast_iff bit_drop_bit_eq bv)
  next
    assume r: ?r
    show "?l = v"
    proof (rule bit_word_eqI)
      fix n assume "n < LENGTH(32)"
      then show "bit ?l n \<longleftrightarrow> bit v n"
        unfolding bits using r by (auto simp: bit_ucast_iff bit_drop_bit_eq)
    qed
  qed
qed


lemma u8_word_eq: "(ucast (a :: u8) :: u32) = ucast b \<longleftrightarrow> a = b"
  by (metis unat_u8_ucast word_unat_eq_iff)

lemma magic_loop_iff:
  "magic_loop bs n i k = Some (True, k') \<longleftrightarrow> k' = k + n \<and> bytes_match bs k (map magic_byte [i..<i + n])"
proof (induction n arbitrary: i k)
  case 0 then show ?case by (auto simp: bytes)
next
  case (Suc n)
  have c: "ucast t = XHI_EVEN_MAGIC_BYTE \<longleftrightarrow> t = 0x0f" "ucast t = XHI_ODD_MAGIC_BYTE \<longleftrightarrow> t = 0xf0" for t :: u8
    using u8_word_eq [of t "0x0f"] u8_word_eq [of t "0xf0"]
    by (simp_all add: XHI_EVEN_MAGIC_BYTE_def XHI_ODD_MAGIC_BYTE_def)
  have m: "magic_loop bs (Suc n) i k = Option.bind (byte_at bs k)
      (\<lambda>t. if t = magic_byte i then magic_loop bs n (Suc i) (Suc k) else Some (False, k + 1))"
    by (cases "byte_at bs k"; cases "i mod 2 = 0") (simp_all add: c magic_byte_def)
  have u: "[i..<i + Suc n] = i # [Suc i..<Suc i + n]" by (simp add: upt_conv_Cons)
  have "magic_loop bs (Suc n) i k = Some (True, k')
      \<longleftrightarrow> (\<exists>t. byte_at bs k = Some t \<and> t = magic_byte i \<and> magic_loop bs n (Suc i) (Suc k) = Some (True, k'))"
    unfolding m by (auto simp: bind_Some_iff)
  also have "\<dots> \<longleftrightarrow> k' = k + Suc n \<and> bytes_match bs k (map magic_byte [i..<i + Suc n])"
    unfolding u by (auto simp: Suc.IH bytes)
  finally show ?case .
qed

lemma nth_pred_last: "0 < length xs \<Longrightarrow> xs ! (length xs - 1) = last xs"
  by (simp add: last_conv_nth)

lemma parse_string_iff:
  assumes "mem_ok env (trace w) (ObjBitField f)"
  shows "parse_string env f tag bs k hdr w = Some (True, k', hdr', w') \<longleftrightarrow>
    (\<exists>cs. 0 < length cs \<and> length cs < 2 ^ 16 \<and> last cs = 0 \<and> bytes_match bs k (tag # be16_bytes (length cs) @ cs)
      \<and> k' = k + 3 + length cs \<and> hdr' = hdr\<lparr>bit_string := (bit_string hdr)(f := Some cs)\<rparr>
      \<and> w' = emit (Alloc (ObjBitField f)) w)" (is "_ \<longleftrightarrow> ?r")
proof
  assume "parse_string env f tag bs k hdr w = Some (True, k', hdr', w')"
  then obtain h l cs where b: "byte_at bs k = Some tag" "byte_at bs (k + 1) = Some h" "byte_at bs (k + 2) = Some l"
    and n: "0 < unat (be16 h l)" and c: "bytes_at bs (k + 3) (unat (be16 h l)) = Some cs"
      "cs ! (unat (be16 h l) - 1) = 0" "k' = k + 3 + unat (be16 h l)"
      "hdr' = hdr\<lparr>bit_string := (bit_string hdr)(f := Some cs)\<rparr>" "w' = emit (Alloc (ObjBitField f)) w"
    using assms by (auto simp: parse_string_def bind_Some_iff kalloc_def Let_def split: if_splits)
  from c(1) n have l: "length cs = unat (be16 h l)" and m: "bytes_match bs (k + 3) cs"
    by (simp_all add: bytes_at_match)
  have s: "length cs < 2 ^ 16" using unat_be16_lt [of h l] l by simp
  then have "h = of_nat (length cs div 256) \<and> l = of_nat (length cs)"
    using be16_bytes_iff [of "length cs" h l] l by simp
  then have "bytes_match bs k (tag # be16_bytes (length cs) @ cs)"
    using b m by (simp add: bytes be16_bytes_def add.assoc numeral_2_eq_2 numeral_3_eq_3)
  moreover have "last cs = 0" using c(2) n l nth_pred_last [of cs] by simp
  ultimately show ?r using n l s c(3-) by (intro exI [of _ cs]) simp
next
  assume ?r
  then obtain cs where c: "0 < length cs" "length cs < 2 ^ 16" "last cs = 0"
    "bytes_match bs k (tag # be16_bytes (length cs) @ cs)" "k' = k + 3 + length cs"
    "hdr' = hdr\<lparr>bit_string := (bit_string hdr)(f := Some cs)\<rparr>" "w' = emit (Alloc (ObjBitField f)) w" by blast
  have "unat (be16 (of_nat (length cs div 256)) (of_nat (length cs))) = length cs"
    using be16_bytes_iff [OF c(2)] by simp
  moreover have "byte_at bs k = Some tag" "byte_at bs (k + 1) = Some (of_nat (length cs div 256))"
    "byte_at bs (k + 2) = Some (of_nat (length cs))" "bytes_match bs (k + 3) cs"
    using c(4) by (simp_all add: bytes be16_bytes_def add.assoc numeral_2_eq_2 numeral_3_eq_3)
  moreover have "bytes_at bs (k + 3) (length cs) = Some cs"
    using c(1) calculation(5) by (simp add: bytes_at_match)
  ultimately show "parse_string env f tag bs k hdr w = Some (True, k', hdr', w')"
    using c assms nth_pred_last [of cs] by (simp add: parse_string_def kalloc_def Let_def)
qed

lemma string_bytes_Cons [simp]:
  "string_bytes [] names = []"
  "string_bytes ((f, tag) # fs) names = (tag # be16_bytes (length (names f)) @ names f) @ string_bytes fs names"
  by (simp_all add: string_bytes_def)

lemma string_bytes_cong:
  "\<forall>f\<in>fst ` set fs. names f = names' f \<Longrightarrow> string_bytes fs names = string_bytes fs names'"
  by (induction fs) auto

lemma length_be16_bytes [simp]: "length (be16_bytes n) = 2"
  by (simp add: be16_bytes_def)


lemma parse_strings_iff:
  assumes "\<forall>tr f. mem_ok env tr (ObjBitField f)" "distinct (map fst fs)"
  shows "parse_strings env fs bs k hdr w = Some (True, k', hdr', w') \<longleftrightarrow>
    (\<exists>names. (\<forall>f\<in>fst ` set fs. 0 < length (names f) \<and> length (names f) < 2 ^ 16 \<and> last (names f) = 0)
      \<and> bytes_match bs k (string_bytes fs names) \<and> k' = k + length (string_bytes fs names)
      \<and> hdr' = hdr\<lparr>bit_string := (\<lambda>f. if f \<in> fst ` set fs then Some (names f) else bit_string hdr f)\<rparr>
      \<and> w' = emits (map (\<lambda>(f, _). Alloc (ObjBitField f)) fs) w)"
  using assms(2)
proof (induction fs arbitrary: k hdr w)
  case Nil
  then show ?case by (auto simp: bytes emits_def)
next
  case (Cons ft fs)
  obtain f tag where ft: "ft = (f, tag)" by (cases ft)
  have nf: "f \<notin> fst ` set fs" and d: "distinct (map fst fs)" using Cons.prems ft by (auto simp: image_iff)
  let ?ok = "\<lambda>cs :: u8 list. 0 < length cs \<and> length cs < 2 ^ 16 \<and> last cs = 0"
  have "parse_strings env (ft # fs) bs k hdr w = Some (True, k', hdr', w') \<longleftrightarrow>
      (\<exists>k1 h1 w1. parse_string env f tag bs k hdr w = Some (True, k1, h1, w1)
        \<and> parse_strings env fs bs k1 h1 w1 = Some (True, k', hdr', w'))"
    by (auto simp: ft bind_Some_iff)
  also have "\<dots> \<longleftrightarrow> (\<exists>cs names. ?ok cs \<and> bytes_match bs k (tag # be16_bytes (length cs) @ cs)
      \<and> (\<forall>f\<in>fst ` set fs. ?ok (names f)) \<and> bytes_match bs (k + 3 + length cs) (string_bytes fs names)
      \<and> k' = k + 3 + length cs + length (string_bytes fs names)
      \<and> hdr' = hdr\<lparr>bit_string := (bit_string hdr)(f := Some cs)\<rparr>\<lparr>bit_string := (\<lambda>g. if g \<in> fst ` set fs then Some (names g)
          else bit_string (hdr\<lparr>bit_string := (bit_string hdr)(f := Some cs)\<rparr>) g)\<rparr>
      \<and> w' = emits (map (\<lambda>(f, _). Alloc (ObjBitField f)) fs) (emit (Alloc (ObjBitField f)) w))"
    unfolding parse_string_iff [OF assms(1) [rule_format]] Cons.IH [OF d] by blast
  also have "\<dots> \<longleftrightarrow> (\<exists>names. (\<forall>f\<in>fst ` set (ft # fs). ?ok (names f))
      \<and> bytes_match bs k (string_bytes (ft # fs) names) \<and> k' = k + length (string_bytes (ft # fs) names)
      \<and> hdr' = hdr\<lparr>bit_string := (\<lambda>f. if f \<in> fst ` set (ft # fs) then Some (names f) else bit_string hdr f)\<rparr>
      \<and> w' = emits (map (\<lambda>(f, _). Alloc (ObjBitField f)) (ft # fs)) w)" (is "?l \<longleftrightarrow> ?r")
  proof
    assume ?l
    then obtain cs names where n: "?ok cs" "bytes_match bs k (tag # be16_bytes (length cs) @ cs)"
      "\<forall>f\<in>fst ` set fs. ?ok (names f)" "bytes_match bs (k + 3 + length cs) (string_bytes fs names)"
      "k' = k + 3 + length cs + length (string_bytes fs names)"
      "hdr' = hdr\<lparr>bit_string := (bit_string hdr)(f := Some cs)\<rparr>\<lparr>bit_string := (\<lambda>g. if g \<in> fst ` set fs then Some (names g)
          else bit_string (hdr\<lparr>bit_string := (bit_string hdr)(f := Some cs)\<rparr>) g)\<rparr>"
      "w' = emits (map (\<lambda>(f, _). Alloc (ObjBitField f)) fs) (emit (Alloc (ObjBitField f)) w)" by blast
    let ?n = "names(f := cs)"
    have sb: "string_bytes fs ?n = string_bytes fs names" using nf by (intro string_bytes_cong) auto
    have "string_bytes (ft # fs) ?n = (tag # be16_bytes (length cs) @ cs) @ string_bytes fs names"
      using sb by (simp add: ft)
    moreover have "bytes_match bs k ((tag # be16_bytes (length cs) @ cs) @ string_bytes fs names)"
      unfolding bytes_match_append using n(2,4) by (simp add: add.assoc numeral_3_eq_3)
    moreover have "\<forall>g\<in>fst ` set fs. ?n g = names g" using nf by auto
    ultimately show ?r using n nf
      by (intro exI [of _ ?n]) (auto simp: ft emits_def emit_def fun_eq_iff)
  next
    assume ?r
    then obtain names where n: "\<forall>f\<in>fst ` set (ft # fs). ?ok (names f)"
      "bytes_match bs k (string_bytes (ft # fs) names)" "k' = k + length (string_bytes (ft # fs) names)"
      "hdr' = hdr\<lparr>bit_string := (\<lambda>f. if f \<in> fst ` set (ft # fs) then Some (names f) else bit_string hdr f)\<rparr>"
      "w' = emits (map (\<lambda>(f, _). Alloc (ObjBitField f)) (ft # fs)) w" by blast
    have "bytes_match bs k (tag # be16_bytes (length (names f)) @ names f)"
      "bytes_match bs (k + 3 + length (names f)) (string_bytes fs names)"
      using n(2) bytes_match_append [of bs k "tag # be16_bytes (length (names f)) @ names f" "string_bytes fs names"]
      by (simp_all add: ft add.assoc numeral_3_eq_3)
    then show ?l using n
      by (intro exI [of _ "names f"] exI [of _ names]) (auto simp: ft add.assoc emits_def emit_def fun_eq_iff)
  qed
  finally show ?case .
qed


lemma bytes_match_bound: "bytes_match bs k xs \<Longrightarrow> 0 < length xs \<Longrightarrow> k + length xs \<le> length bs"
proof -
  assume "bytes_match bs k xs" "0 < length xs"
  then have "min (length bs - k) (length xs) = length xs"
    unfolding bytes_match_def by (metis length_take length_drop min.commute)
  with \<open>0 < length xs\<close> show ?thesis by linarith
qed

lemma bytes_match_0: "bytes_match bs 0 xs \<longleftrightarrow> (\<exists>rest. bs = xs @ rest)"
  unfolding bytes_match_def by (metis append_eq_conv_conj append_take_drop_id drop0)

lemma distinct_bit_fields: "distinct (map fst bit_fields)" "fst ` set bit_fields = UNIV"
proof -
  show "distinct (map fst bit_fields)" by (simp add: bit_fields_def)
  have "f \<in> fst ` set bit_fields" for f by (cases f) (simp_all add: bit_fields_def)
  then show "fst ` set bit_fields = UNIV" by auto
qed

text \<open>What the parser makes of a printed header.\<close>

definition parsed_header :: "nat \<Rightarrow> u8 \<Rightarrow> (bit_field \<Rightarrow> u8 list) \<Rightarrow> u32 \<Rightarrow> XHwIcap_Bit_Header" where
  "parsed_header m z names len = \<lparr>HeaderLength = of_nat (length (header_bytes m z names len)), BitstreamLength = len,
     bit_string = (\<lambda>f. Some (names f)), MagicLength = of_nat m\<rparr>"

definition string_allocs :: "'w kworld_scheme \<Rightarrow> 'w kworld_scheme" where
  "string_allocs w = emits (map (\<lambda>(f, _). Alloc (ObjBitField f)) bit_fields) w"

lemma parse_header_sound:
  assumes mem: "\<forall>tr f. mem_ok env tr (ObjBitField f)" and len: "length bs < 2 ^ 32"
    and "bitstream_parse_header env bs sz header0 w = Some (0, h, w')"
  shows "\<exists>m z names len. 1 \<le> m \<and> m < 2 ^ 16 \<and> names_ok names \<and> bytes_match bs 0 (header_bytes m z names len)
    \<and> h = parsed_header m z names len \<and> w' = string_allocs w"
proof -
  from assms(3) obtain m1 m0 k z x y k2 h2 w2 b3 b2 b1 b0 where
    p: "byte_at bs 0 = Some m1" "byte_at bs 1 = Some m0"
      "magic_loop bs (unat (be16 m1 m0 - 1)) 0 2 = Some (True, k)"
      "byte_at bs k = Some z" "byte_at bs (k + 1) = Some x" "byte_at bs (k + 2) = Some y" "be16 x y = 1"
    and q: "parse_strings env bit_fields bs (k + 3)
        (header0\<lparr>HeaderLength := XHI_BIT_HEADER_FAILURE, MagicLength := be16 m1 m0\<rparr>) w = Some (True, k2, h2, w2)"
    and r: "byte_at bs k2 = Some 0x65" "byte_at bs (k2 + 1) = Some b3" "byte_at bs (k2 + 2) = Some b2"
      "byte_at bs (k2 + 3) = Some b1" "byte_at bs (k2 + 4) = Some b0"
    and h: "h = h2\<lparr>BitstreamLength := push_bit 8 (push_bit 8 (be16 b3 b2) OR ucast b1) OR ucast b0,
        HeaderLength := of_nat (k2 + 5)\<rparr>" "w' = w2"
    unfolding bitstream_parse_header_def
    by (auto simp: bind_Some_iff Let_def split: if_splits prod.splits)
  define m where "m = unat (be16 m1 m0)"
  obtain n where n: "n = unat (be16 m1 m0 - 1)" by blast
  have lp: "k = 2 + n" "bytes_match bs 2 (map magic_byte [0..<n])"
    using p(3) unfolding n [symmetric] magic_loop_iff by simp_all
  have m: "1 \<le> m"
  proof (rule ccontr)
    assume "\<not> 1 \<le> m"
    then have "unat (be16 m1 m0) = 0" by (simp add: m_def)
    then have "be16 m1 m0 = 0" by (simp add: word_unat_eq_iff)
    then have "n = unat (- 1 :: u32)" using n by simp
    then have "n = 2 ^ 32 - 1" by (simp add: unsigned_minus_1_eq_mask mask_eq_exp_minus_1)
    moreover have "0 < n" using calculation by simp
    ultimately show False using bytes_match_bound [OF lp(2)] len by simp
  qed
  have m1: "n = m - 1"
    using m n by (simp add: m_def unat_sub word_le_nat_alt)
  have m2: "m < 2 ^ 16" unfolding m_def by (rule unat_be16_lt)
  have mb: "be16_bytes m = [m1, m0]"
    using be16_bytes_iff [OF m2, of m1 m0] by (simp add: m_def be16_bytes_def)
  have xy: "x = 0" "y = 1"
    using be16_bytes_iff [of 1 x y] p(7) by simp_all
  obtain names where nm: "names_ok names" "bytes_match bs (k + 3) (string_bytes bit_fields names)"
    "k2 = k + 3 + length (string_bytes bit_fields names)" "w2 = string_allocs w"
    "h2 = header0\<lparr>HeaderLength := XHI_BIT_HEADER_FAILURE, MagicLength := be16 m1 m0,
        bit_string := (\<lambda>f. Some (names f))\<rparr>"
    using q unfolding parse_strings_iff [OF mem distinct_bit_fields(1)] distinct_bit_fields(2)
    by (auto simp: names_ok_def string_allocs_def)
  define len' where "len' = push_bit 8 (push_bit 8 (be16 b3 b2) OR ucast b1) OR ucast b0"
  have lb: "be32_bytes len' = [b3, b2, b1, b0]"
    using be32_word_iff [of b3 b2 b1 b0 len'] by (simp add: len'_def be32_bytes_def)
  have "bytes_match bs 0 (header_bytes m z names len')"
    unfolding header_bytes_def bytes_match_append mb lb
    using p lp m1 m nm r xy
    by (simp add: bytes numeral_2_eq_2 numeral_3_eq_3 add.assoc eval_nat_numeral)
  moreover have "length (header_bytes m z names len') = k2 + 5"
    using nm(3) lp(1) m1 m by (simp add: header_bytes_def be32_bytes_def)
  then have "h = parsed_header m z names len'"
    using h(1) nm(5) by (simp add: parsed_header_def header0_def len'_def m_def)
  ultimately show ?thesis using m m2 nm(1,4) h(2) by blast
qed


lemma parse_header_complete:
  assumes mem: "\<forall>tr f. mem_ok env tr (ObjBitField f)" and m: "1 \<le> m" "m < 2 ^ 16" and nm: "names_ok names"
    and b: "bytes_match bs 0 (header_bytes m z names len)"
  shows "bitstream_parse_header env bs sz header0 w = Some (0, parsed_header m z names len, string_allocs w)"
proof -
  let ?h = "header0\<lparr>HeaderLength := XHI_BIT_HEADER_FAILURE, MagicLength := of_nat m\<rparr>"
  let ?k = "m + 1" and ?k2 = "m + 4 + length (string_bytes bit_fields names)"
  have w: "be16 (of_nat (m div 256)) (of_nat m) = of_nat m" by (rule be16_self [OF m(2)])
  have u: "unat (of_nat m - 1 :: u32) = m - 1"
    using m unat_of_nat_small [of m, where ?'a = 32] by (simp add: unat_sub word_le_nat_alt)
  have four: "4 = Suc (Suc (Suc (Suc 0)))" by simp
  from b have s: "bytes_match bs 0 (be16_bytes m)" "bytes_match bs 2 (map magic_byte [0..<m - 1])"
      "bytes_match bs ?k [z, 0, 1]" "bytes_match bs (?k + 3) (string_bytes bit_fields names)"
      "bytes_match bs ?k2 (0x65 # be32_bytes len)"
    using m(1) unfolding header_bytes_def bytes_match_append
    by (simp_all add: add.assoc numeral_2_eq_2 numeral_3_eq_3 four)
  then have p: "byte_at bs 0 = Some (of_nat (m div 256))" "byte_at bs 1 = Some (of_nat m)"
      "bytes_match bs 2 (map magic_byte [0..<m - 1])" "byte_at bs ?k = Some z" "byte_at bs (?k + 1) = Some 0"
      "byte_at bs (?k + 2) = Some 1" "bytes_match bs (?k + 3) (string_bytes bit_fields names)"
      "byte_at bs ?k2 = Some 0x65" "byte_at bs (?k2 + 1) = Some (ucast (drop_bit 24 len))"
      "byte_at bs (?k2 + 2) = Some (ucast (drop_bit 16 len))" "byte_at bs (?k2 + 3) = Some (ucast (drop_bit 8 len))"
      "byte_at bs (?k2 + 4) = Some (ucast len)"
    by (simp_all only: bytes be16_bytes_def be32_bytes_def add_Suc_right add_0_right numeral_2_eq_2 numeral_3_eq_3 four
        One_nat_def add_Suc add_0)
  have g: "magic_loop bs (m - 1) 0 2 = Some (True, ?k)"
    unfolding magic_loop_iff using p(3) m(1) by simp
  have ss: "parse_strings env bit_fields bs (?k + 3) ?h w
      = Some (True, ?k2, ?h\<lparr>bit_string := (\<lambda>f. Some (names f))\<rparr>, string_allocs w)"
    unfolding parse_strings_iff [OF mem distinct_bit_fields(1)] distinct_bit_fields(2)
    using nm p(7) by (auto simp: names_ok_def string_allocs_def intro!: exI [of _ names])
  have o: "be16 0 1 = 1" by (simp add: be16_def)
  have v: "push_bit 8 (push_bit 8 (be16 (ucast (drop_bit 24 len)) (ucast (drop_bit 16 len)))
      OR ucast (ucast (drop_bit 8 len) :: u8)) OR ucast (ucast len :: u8) = len"
    by (simp only: be32_word_iff)
  have l: "length (header_bytes m z names len) = ?k2 + 5"
    using m(1) by (simp add: header_bytes_def be32_bytes_def)
  show ?thesis
    unfolding bitstream_parse_header_def Let_def
    using p(1,2,4-6,8-12) g ss o u w v l
    by (simp add: parsed_header_def header0_def)
qed

text \<open>C11: With memory for its strings, the header parser accepts exactly the files that start with a
  printed header: a magic length and that many alternating bytes, the half word 1, the four strings
  with their tags, lengths and final NULs, and the length of the bitstream. It then returns those
  strings and lengths, and the length of the header; nothing else is accepted.\<close>

theorem parse_header_iff:
  assumes "\<forall>tr f. mem_ok env tr (ObjBitField f)" "length bs < 2 ^ 32"
  shows "bitstream_parse_header env bs sz header0 w = Some (0, h, w') \<longleftrightarrow>
    (\<exists>m z names len rest. 1 \<le> m \<and> m < 2 ^ 16 \<and> names_ok names \<and> bs = header_bytes m z names len @ rest
      \<and> h = parsed_header m z names len \<and> w' = string_allocs w)"
proof
  assume "bitstream_parse_header env bs sz header0 w = Some (0, h, w')"
  from parse_header_sound [OF assms this] show "\<exists>m z names len rest. 1 \<le> m \<and> m < 2 ^ 16 \<and> names_ok names
      \<and> bs = header_bytes m z names len @ rest \<and> h = parsed_header m z names len \<and> w' = string_allocs w"
    unfolding bytes_match_0 by blast
next
  assume "\<exists>m z names len rest. 1 \<le> m \<and> m < 2 ^ 16 \<and> names_ok names \<and> bs = header_bytes m z names len @ rest
      \<and> h = parsed_header m z names len \<and> w' = string_allocs w"
  then show "bitstream_parse_header env bs sz header0 w = Some (0, h, w')"
    using parse_header_complete [OF assms(1)] bytes_match_self by blast
qed

definition sample_names :: "bit_field \<Rightarrow> u8 list" where "sample_names f = [0x78, 0]"

lemma sample_names_ok: "names_ok sample_names"
  by (simp add: names_ok_def sample_names_def)

lemma parse_header_iff_witness:
  "bitstream_parse_header env0 (header_bytes 9 0 sample_names 8 @ [1, 2, 3, 4, 5, 6, 7, 8]) 1024 header0 world1
    = Some (0, parsed_header 9 0 sample_names 8, string_allocs world1)"
proof -
  have l: "length (header_bytes 9 0 sample_names 8 @ [1, 2, 3, 4, 5, 6, 7, 8 :: u8]) < 2 ^ 32"
    by (simp add: header_bytes_def bit_fields_def sample_names_def be32_bytes_def)
  have "\<forall>tr f. mem_ok env0 tr (ObjBitField f)" by (simp add: env0_def)
  then show ?thesis
    by (rule parse_header_iff [OF _ l, THEN iffD2])
      (rule exI [of _ 9], rule exI [of _ 0], rule exI [of _ sample_names], rule exI [of _ 8],
        rule exI [of _ "[1, 2, 3, 4, 5, 6, 7, 8]"], simp add: sample_names_ok)
qed


lemma parse_header_past_end:
  assumes m: "1 \<le> m" "m < 2 ^ 16" and n: "n < 2 ^ 16" "length cs < n"
    and b: "bs = be16_bytes m @ map magic_byte [0..<m - 1] @ [z, 0, 1] @ 0x61 # be16_bytes n @ cs"
  shows "bitstream_parse_header env bs sz hdr w = None"
proof -
  let ?k = "m + 1"
  have four: "4 = Suc (Suc (Suc (Suc 0)))" by simp
  have w: "be16 (of_nat (m div 256)) (of_nat m) = of_nat m" by (rule be16_self [OF m(2)])
  have u: "unat (of_nat m - 1 :: u32) = m - 1"
    using m unat_of_nat_small [of m, where ?'a = 32] by (simp add: unat_sub word_le_nat_alt)
  have nn: "unat (be16 (of_nat (n div 256)) (of_nat n)) = n" using be16_bytes_iff [OF n(1)] by simp
  have "bytes_match bs 0 (be16_bytes m @ map magic_byte [0..<m - 1] @ [z, 0, 1] @ 0x61 # be16_bytes n)"
    using bytes_match_self [of "be16_bytes m @ map magic_byte [0..<m - 1] @ [z, 0, 1] @ 0x61 # be16_bytes n" cs]
    by (simp only: b append_assoc append_Cons)
  then have s: "bytes_match bs 0 (be16_bytes m)" "bytes_match bs 2 (map magic_byte [0..<m - 1])"
      "bytes_match bs ?k [z, 0, 1]" "bytes_match bs (?k + 3) (0x61 # be16_bytes n)"
    using m(1) unfolding bytes_match_append
    by (simp_all add: add.assoc numeral_2_eq_2 numeral_3_eq_3 four)
  then have p: "byte_at bs 0 = Some (of_nat (m div 256))" "byte_at bs 1 = Some (of_nat m)"
      "byte_at bs ?k = Some z" "byte_at bs (?k + 1) = Some 0" "byte_at bs (?k + 2) = Some 1"
      "byte_at bs (?k + 3) = Some 0x61" "byte_at bs (?k + 3 + 1) = Some (of_nat (n div 256))"
      "byte_at bs (?k + 3 + 2) = Some (of_nat n)"
    by (simp_all only: bytes be16_bytes_def add_Suc_right add_0_right numeral_2_eq_2 numeral_3_eq_3
        One_nat_def add_Suc add_0)
  have g: "magic_loop bs (m - 1) 0 2 = Some (True, ?k)"
    unfolding magic_loop_iff using s(2) m(1) by simp
  have l: "length bs = ?k + 6 + length cs" using m(1) by (simp add: b)
  have "parse_string env DesignName 0x61 bs (?k + 3) h w = None" for h
    using p(6-8) nn n(2) l
    by (cases "kalloc env (ObjBitField DesignName) w") (simp add: parse_string_def bytes_at_def bug_on_def)
  then have "parse_strings env bit_fields bs (?k + 3) h w = None" for h
    by (simp add: bit_fields_def)
  then show ?thesis
    using p(1-5) g u w by (simp add: bitstream_parse_header_def be16_def)
qed

text \<open>C34: The parser never looks at the size it is given. A user who hands the ICAP download a file
  whose design name claims to be longer than the rest of the 1024 bytes the driver has copied makes
  the kernel read past its buffer: the request has no result, whatever the card and the allocator do.\<close>

theorem download_header_past_buffer:
  assumes "axi_gate_frozen d \<or> clear_bitstream (stash d) = None" "1 \<le> m" "m < 2 ^ 16" "n < 2 ^ 16" "length cs < n"
    and "\<forall>tr. user_bytes env tr a DMA_HWICAP_BITFILE_BUFFER_SIZE
          = be16_bytes m @ map magic_byte [0..<m - 1] @ [z, 0, 1] @ 0x61 # be16_bytes n @ cs"
    and "\<forall>tr. copy_fails env tr = 0" "\<forall>tr. mem_ok env tr ObjBitBuf"
  shows "bitstream_ioctl_icap env a len d w = None"
proof (cases "axi_gate_frozen d \<or> user_base d = None")
  case True
  then show ?thesis by (auto simp: bitstream_ioctl_icap_def freezeAXIGate_def)
next
  case False
  then obtain base w1 where "freezeAXIGate env d w = Some (d\<lparr>axi_gate_frozen := True\<rparr>, w1)"
    using freezeAXIGate_run by blast
  moreover have "bitstream_clear_icap env (d\<lparr>axi_gate_frozen := True\<rparr>) w1 = Some (0, d\<lparr>axi_gate_frozen := True\<rparr>, w1)"
    using False assms(1) by (simp add: bitstream_clear_icap_def)
  moreover obtain bs where
    b: "bs = be16_bytes m @ map magic_byte [0..<m - 1] @ [z, 0, 1] @ 0x61 # be16_bytes n @ cs" by blast
  ultimately show ?thesis
    using assms(6-8) unfolding b [symmetric]
    by (simp add: bitstream_ioctl_icap_def kalloc_def copy_from_user_def parse_header_past_end [OF assms(2-5) b])
qed

definition long_name :: "u64 \<Rightarrow> u8" where
  "long_name i = (if i = 1 then 1 else if i = 4 then 1 else if i = 5 then 0x61 else if i = 6 then 0xff else 0)"

lemma download_header_past_buffer_witness:
  "bitstream_ioctl_icap (env0\<lparr>user_mem := (\<lambda>_. long_name)\<rparr>) 0 2048 sd0 world1 = None"
proof -
  let ?env = "env0\<lparr>user_mem := (\<lambda>_. long_name)\<rparr>"
  let ?cs = "map (\<lambda>i. long_name (of_nat i)) [8..<1024]"
  have um: "user_mem ?env = (\<lambda>_. long_name)" by simp
  have "8 + 1016 = (1024 :: nat)" by simp
  then have sp: "[0..<1024] = [0..<8] @ [8..<1024 :: nat]" using upt_add_eq_append [of 0 8 1016] by (simp only:)
  have e: "map (\<lambda>i. long_name (of_nat i)) [0..<8]
      = be16_bytes 1 @ map magic_byte [0..<1 - 1] @ [0, 0, 1] @ 0x61 # be16_bytes 0xff00"
    by (simp add: long_name_def be16_bytes_def upt_conv_Cons)
  have u: "\<forall>tr. user_bytes ?env tr 0 DMA_HWICAP_BITFILE_BUFFER_SIZE
      = be16_bytes 1 @ map magic_byte [0..<1 - 1] @ [0, 0, 1] @ 0x61 # be16_bytes 0xff00 @ ?cs"
    by (simp only: DMA_HWICAP_BITFILE_BUFFER_SIZE_def user_bytes_def sp um add_0 map_append e append_assoc append_Cons simp_thms)
  have l: "length ?cs < 0xff00" by (simp only: length_map length_upt)
  show ?thesis
    by (rule download_header_past_buffer [where m = 1 and n = "0xff00" and cs = ?cs and z = 0, OF _ _ _ _ l u])
      (simp_all add: sd0_def env0_def)
qed

end
