(* ===== verification/Download.thy ===== *)
theory Download
  imports Bit_Header
begin

section \<open>Downloads: the words, the memory, the gate\<close>

text \<open>
  What the downloads of \<open>xdma-bit.c\<close> promise and where they fall short: the ICAP and the MCAP
  receive the words of the bitstream in order, every download gives back its memory, and the AXI
  gate is open again afterwards; but a stalled download is reported as a success.
\<close>

subsection \<open>Words\<close>

fun be_words :: "u8 list \<Rightarrow> u32 list" where
  "be_words (b3 # b2 # b1 # b0 # bs) = be32 b3 b2 b1 b0 # be_words bs"
| "be_words _ = []"

lemma length_be_words [simp]: "length (be_words bs) = length bs div 4"
  by (induction bs rule: be_words.induct) simp_all

lemma be_words_append: "length xs mod 4 = 0 \<Longrightarrow> be_words (xs @ ys) = be_words xs @ be_words ys"
  by (induction xs rule: be_words.induct) (simp_all add: mod_Suc split: if_splits)

lemma be_words_drop: "be_words (drop (4 * n) bs) = drop n (be_words bs)"
proof (induction n arbitrary: bs)
  case (Suc n)
  then show ?case by (cases bs rule: be_words.cases) (simp_all add: drop_Cons')
qed simp

lemma take_be_words: "be_words (take (4 * n) bs) = take n (be_words bs)"
proof (induction n arbitrary: bs)
  case (Suc n)
  then show ?case by (cases bs rule: be_words.cases) (simp_all add: take_Cons')
qed simp

text \<open>The words a trace writes to an address.\<close>

definition words_to :: "addr \<Rightarrow> event list \<Rightarrow> u32 list" where
  "words_to a tr = map snd (filter (\<lambda>(b, _). b = a) (io_writes tr))"

lemma words_to_append [simp]: "words_to a (xs @ ys) = words_to a xs @ words_to a ys"
  by (simp add: words_to_def)

lemma words_to_Nil [simp]: "words_to a [] = []"
  by (simp add: words_to_def)

lemma words_to_Cons:
  "words_to a (e # es) = (case e of IoWrite b v \<Rightarrow> if b = a then v # words_to a es else words_to a es | _ \<Rightarrow> words_to a es)"
  by (cases e) (simp_all add: words_to_def)

lemma hwicap_words_run:
  "4 * n \<le> length bs \<Longrightarrow>
    \<exists>w'. hwicap_words base bs n w = Some w' \<and> words_to (base + XHWICAP_WF) (trace w')
        = words_to (base + XHWICAP_WF) (trace w) @ take n (be_words bs) \<and> obj_net (trace w') = obj_net (trace w)"
proof (induction n arbitrary: bs w)
  case (Suc n)
  then obtain b3 b2 b1 b0 cs where bs: "bs = b3 # b2 # b1 # b0 # cs" by (cases bs rule: be_words.cases) auto
  with Suc.IH [of cs "write_register (be32 b3 b2 b1 b0) (base + XHWICAP_WF) w"] Suc.prems
  show ?case by (auto simp: words_to_Cons)
qed simp

lemma icap_regs: "base + XHWICAP_CR \<noteq> base + XHWICAP_WF"
  by (simp add: XHWICAP_CR_def XHWICAP_WF_def)

text \<open>A card that takes a download: there is always room in the FIFO, a flush ends at once, and the
  device reports completion.\<close>

definition icap_ready :: "kenv \<Rightarrow> addr \<Rightarrow> bool" where
  "icap_ready env base \<longleftrightarrow> (\<forall>tr. sint (hw_read env tr (base + XHWICAP_WFV)) > 0
     \<and> hw_read env tr (base + XHWICAP_CR) AND 1 = 0 \<and> hw_read env tr (base + XHWICAP_SR) AND 5 \<noteq> 0)"

lemma flush_loop_ready:
  "0 < n \<Longrightarrow> icap_ready env base \<Longrightarrow>
    \<exists>w'. flush_loop env base n w = (0, w') \<and> words_to a (trace w') = words_to a (trace w) \<and> obj_net (trace w') = obj_net (trace w)"
  by (cases n) (simp_all add: icap_ready_def words_to_Cons)

lemma hwicapWrite_run:
  assumes "icap_ready env base" "user_base d = Some base" "4 * n \<le> length bs"
  shows "\<exists>w'. hwicapWrite env d bs n w = Some (0, w') \<and> words_to (base + XHWICAP_WF) (trace w')
    = words_to (base + XHWICAP_WF) (trace w) @ take n (be_words bs) \<and> obj_net (trace w') = obj_net (trace w)"
proof -
  obtain w1 where w1: "hwicap_words base bs n w = Some w1" "words_to (base + XHWICAP_WF) (trace w1)
      = words_to (base + XHWICAP_WF) (trace w) @ take n (be_words bs)" "obj_net (trace w1) = obj_net (trace w)"
    using hwicap_words_run [OF assms(3)] by blast
  obtain w2 where "flush_loop env base 10 (write_register 1 (base + XHWICAP_CR) w1) = (0, w2)"
    "words_to (base + XHWICAP_WF) (trace w2) = words_to (base + XHWICAP_WF) (trace (write_register 1 (base + XHWICAP_CR) w1))"
    "obj_net (trace w2) = obj_net (trace (write_register 1 (base + XHWICAP_CR) w1))"
    using flush_loop_ready [of 10 env base "write_register 1 (base + XHWICAP_CR) w1"] assms(1) by fastforce
  then show ?thesis
    using assms(2) w1 icap_regs [of base] by (simp add: hwicapWrite_def words_to_Cons del: flush_loop.simps)
qed

lemma sint_pos_unat: "0 < sint (v :: u32) \<Longrightarrow> 0 < unat v"
  by (metis gr0I less_irrefl signed_0 unat_eq_zero unsigned_eq_0_iff)

lemma bitstream_icap_helper_run:
  assumes "icap_ready env base" "user_base d = Some base"
  shows "4 * n \<le> length bs \<Longrightarrow>
    \<exists>w'. bitstream_icap_helper env d bs n w = Some (0, w') \<and> words_to (base + XHWICAP_WF) (trace w')
    = words_to (base + XHWICAP_WF) (trace w) @ take n (be_words bs) \<and> obj_net (trace w') = obj_net (trace w)"
proof (induction n arbitrary: bs w rule: less_induct)
  case (less n)
  show ?case
  proof (cases "n = 0")
    case True
    then show ?thesis by (simp add: bitstream_icap_helper.simps [of _ _ _ 0])
  next
    case False
    define v where "v = hw_read env (trace w) (base + XHWICAP_WFV)"
    let ?w1 = "emit (IoRead (base + XHWICAP_WFV) v) w" and ?k = "min (unat v) n"
    have v: "0 < sint v" using assms(1) by (simp add: icap_ready_def v_def)
    then have k: "0 < ?k" using False sint_pos_unat by simp
    have k4: "4 * ?k \<le> length bs" using less.prems by linarith
    obtain w2 where w2: "hwicapWrite env d bs ?k ?w1 = Some (0, w2)" "words_to (base + XHWICAP_WF) (trace w2)
        = words_to (base + XHWICAP_WF) (trace ?w1) @ take ?k (be_words bs)" "obj_net (trace w2) = obj_net (trace ?w1)"
      using hwicapWrite_run [OF assms k4, of ?w1] by blast
    have "n - ?k < n" "4 * (n - ?k) \<le> length (drop (4 * ?k) bs)" using k less.prems by auto
    from less.IH [OF this, of w2] obtain w3 where
      w3: "bitstream_icap_helper env d (drop (4 * ?k) bs) (n - ?k) w2 = Some (0, w3)"
        "words_to (base + XHWICAP_WF) (trace w3)
          = words_to (base + XHWICAP_WF) (trace w2) @ take (n - ?k) (be_words (drop (4 * ?k) bs))"
        "obj_net (trace w3) = obj_net (trace w2)" by blast
    have "take ?k (be_words bs) @ take (n - ?k) (be_words (drop (4 * ?k) bs)) = take n (be_words bs)"
      unfolding be_words_drop using take_add [of ?k "n - ?k" "be_words bs"] by simp
    moreover have "bitstream_icap_helper env d bs n w = Some (0, w3)"
      using False v w2(1) w3(1)
      by (subst bitstream_icap_helper.simps) (simp add: assms(2) v_def [symmetric] Let_def not_le)
    ultimately show ?thesis using w2(2,3) w3(2,3) by (simp add: words_to_Cons)
  qed
qed


subsection \<open>The ICAP download\<close>

lemma user_bytes_add: "user_bytes env tr a (m + n) = user_bytes env tr a m @ user_bytes env tr (a + of_nat m) n"
  unfolding user_bytes_def map_upt_add by (simp add: add.assoc)

lemma length_user_bytes [simp]: "length (user_bytes env tr a n) = n"
  by (simp add: user_bytes_def)

text \<open>User memory that can be read and does not change.\<close>

definition user_stable :: "kenv \<Rightarrow> bool" where
  "user_stable env \<longleftrightarrow> (\<forall>tr a. copy_fails env tr = 0 \<and> user_mem env tr a = user_mem env [] a)"

lemma user_stable_bytes: "user_stable env \<Longrightarrow> user_bytes env tr a n = user_bytes env [] a n"
  unfolding user_stable_def user_bytes_def by metis

lemma copy_from_user_stable:
  "user_stable env \<Longrightarrow> copy_from_user env a n w = (Some (user_bytes env [] a n), emit (CopyFromUser a n) w)"
  using user_stable_bytes [of env "trace w" a n] by (simp add: copy_from_user_def user_stable_def)

lemma icap_user_loop_run:
  assumes "icap_ready env base" "user_base d = Some base" "user_stable env"
  shows "\<exists>w'. icap_user_loop env d a n w = Some (0, True, w') \<and> words_to (base + XHWICAP_WF) (trace w')
    = words_to (base + XHWICAP_WF) (trace w) @ be_words (user_bytes env [] a n) \<and> obj_net (trace w') = obj_net (trace w)"
proof (induction n arbitrary: a w rule: less_induct)
  case (less n)
  show ?case
  proof (cases "n = 0")
    case True
    then show ?thesis by (simp add: icap_user_loop.simps [of _ _ _ 0] user_bytes_def)
  next
    case False
    let ?k = "min n 1024" and ?w1 = "emit (CopyFromUser a (min n 1024)) w"
    let ?bs = "user_bytes env [] a ?k"
    have "4 * (?k div 4) \<le> length ?bs" by (simp only: length_user_bytes times_div_less_eq_dividend)
    from bitstream_icap_helper_run [OF assms(1,2) this, of ?w1] obtain w2 where
      w2: "bitstream_icap_helper env d ?bs (?k div 4) ?w1 = Some (0, w2)"
        "words_to (base + XHWICAP_WF) (trace w2)
          = words_to (base + XHWICAP_WF) (trace ?w1) @ take (?k div 4) (be_words ?bs)"
        "obj_net (trace w2) = obj_net (trace ?w1)" by blast
    have "n - ?k < n" using False by simp
    from less.IH [OF this, of "a + of_nat ?k" w2] obtain w3 where
      w3: "icap_user_loop env d (a + of_nat ?k) (n - ?k) w2 = Some (0, True, w3)"
        "words_to (base + XHWICAP_WF) (trace w3)
          = words_to (base + XHWICAP_WF) (trace w2) @ be_words (user_bytes env [] (a + of_nat ?k) (n - ?k))"
        "obj_net (trace w3) = obj_net (trace w2)" by blast
    have split: "be_words (user_bytes env [] a n) = be_words ?bs @ be_words (user_bytes env [] (a + of_nat ?k) (n - ?k))"
    proof (cases "n \<le> 1024")
      case True
      then show ?thesis by (simp add: user_bytes_def)
    next
      case False
      then have "user_bytes env [] a n = ?bs @ user_bytes env [] (a + of_nat ?k) (n - ?k)"
        using user_bytes_add [of env "[]" a ?k "n - ?k"] by simp
      then show ?thesis using False by (simp add: be_words_append)
    qed
    have "icap_user_loop env d a n w = Some (0, True, w3)"
      using False w2(1) w3(1)
      by (subst icap_user_loop.simps)
        (simp add: DMA_HWICAP_BITFILE_BUFFER_SIZE_def copy_from_user_stable [OF assms(3)])
    then show ?thesis using w2(2,3) w3(2,3) split by (simp add: words_to_Cons)
  qed
qed

lemma done_loop_ready:
  "0 < n \<Longrightarrow> icap_ready env base \<Longrightarrow>
    \<exists>w'. done_loop env base n w = (0, w') \<and> words_to a (trace w') = words_to a (trace w) \<and> obj_net (trace w') = obj_net (trace w)"
  by (cases n) (simp_all add: icap_ready_def words_to_Cons)

lemma free_parsed_net:
  "obj_net (trace (free_header (parsed_header m z names len) w)) ob
    = obj_net (trace w) ob - (\<Sum>f\<leftarrow>[DesignName, PartName, BitDate, BitTime]. of_bool (ObjBitField f = ob))"
  by (simp add: free_header_def parsed_header_def)

lemma string_allocs_net:
  "obj_net (trace (string_allocs w)) ob
    = obj_net (trace w) ob + (\<Sum>f\<leftarrow>[DesignName, PartName, BitDate, BitTime]. of_bool (ObjBitField f = ob))"
  by (simp add: string_allocs_def bit_fields_def)

lemma words_to_frames [simp]:
  "words_to a (trace (string_allocs w)) = words_to a (trace w)"
  "words_to a (trace (free_header hdr w)) = words_to a (trace w)"
  by (simp_all add: string_allocs_def bit_fields_def free_header_def words_to_Cons)


text \<open>A bitstream file in user memory: the first 1024 bytes hold the whole header.\<close>

definition user_file :: "kenv \<Rightarrow> u64 \<Rightarrow> u8 list \<Rightarrow> u8 list \<Rightarrow> bool" where
  "user_file env a hb payload \<longleftrightarrow> length hb \<le> DMA_HWICAP_BITFILE_BUFFER_SIZE
     \<and> user_bytes env [] a (length hb + length payload) = hb @ payload"

lemma user_file_header:
  assumes "user_file env a hb payload"
  shows "bytes_match (user_bytes env [] a 1024) 0 hb"
    and "user_bytes env [] (a + of_nat (length hb)) (length payload) = payload"
proof -
  have h: "user_bytes env [] a (length hb) = hb" "user_bytes env [] (a + of_nat (length hb)) (length payload) = payload"
    using assms user_bytes_add [of env "[]" a "length hb" "length payload"]
    by (simp_all add: user_file_def)
  then show "user_bytes env [] (a + of_nat (length hb)) (length payload) = payload" by simp
  have "user_bytes env [] a 1024 = hb @ user_bytes env [] (a + of_nat (length hb)) (1024 - length hb)"
    using user_bytes_add [of env "[]" a "length hb" "1024 - length hb"] h(1) assms
    by (simp add: user_file_def DMA_HWICAP_BITFILE_BUFFER_SIZE_def)
  then show "bytes_match (user_bytes env [] a 1024) 0 hb" by (simp only: bytes_match_self)
qed

lemma header_fits:
  assumes "length (header_bytes m z names L) + unat (L :: u32) < 2 ^ 32"
  shows "unat (HeaderLength (parsed_header m z names L) + L) = length (header_bytes m z names L) + unat L"
    "unat (HeaderLength (parsed_header m z names L)) = length (header_bytes m z names L)"
proof -
  show h: "unat (HeaderLength (parsed_header m z names L)) = length (header_bytes m z names L)"
    using assms by (simp add: parsed_header_def unat_of_nat_small)
  then show "unat (HeaderLength (parsed_header m z names L) + L) = length (header_bytes m z names L) + unat L"
    using assms by (subst unat_add_small) simp_all
qed

lemma ucast_of_nat64: "n < 2 ^ 32 \<Longrightarrow> (ucast (of_nat n :: u32) :: u64) = of_nat n"
  by (rule word_unat_eq_iff [THEN iffD2]) (simp add: unat_of_nat_small)

text \<open>C12: The ICAP download of a well-formed bitstream from user memory, on a card whose FIFO takes the
  words and which reports completion, returns 0, writes exactly the payload's words, each in
  big-endian order, to the write FIFO in the order of the file, opens the AXI gate again and gives
  back all the memory it took.\<close>

theorem icap_download_delivers:
  assumes "icap_ready env base" "user_base d = Some base" "user_stable env"
    and "\<forall>tr ob. mem_ok env tr ob" "\<not> axi_gate_frozen d" "clear_bitstream (stash d) = None"
    and "1 \<le> m" "m < 2 ^ 16" "names_ok names" "unat L = length payload"
    and "user_file env a (header_bytes m z names L) payload"
    and "length (header_bytes m z names L) + length payload < 2 ^ 32"
    and "length (header_bytes m z names L) + length payload \<le> unat len"
  shows "\<exists>w'. bitstream_ioctl_icap env a len d w = Some (0, d, w')
    \<and> words_to (base + XHWICAP_WF) (trace w') = words_to (base + XHWICAP_WF) (trace w) @ be_words payload
    \<and> obj_net (trace w') = obj_net (trace w)"
proof -
  let ?hd = "header_bytes m z names L" and ?ph = "parsed_header m z names L" and ?d = "d\<lparr>axi_gate_frozen := True\<rparr>"
  let ?wf = "base + XHWICAP_WF"
  note uf = user_file_header [OF assms(11)]
  obtain w1 where w1: "freezeAXIGate env d w = Some (?d, w1)" "io_writes (trace w1) = io_writes (trace w)"
    "obj_net (trace w1) = obj_net (trace w)"
    using freezeAXIGate_run [OF assms(5,2)] by metis
  let ?w2 = "emit (CopyFromUser a 1024) (emit (Alloc ObjBitBuf) w1)"
  have p: "bitstream_parse_header env (user_bytes env [] a 1024) 1024 header0 ?w2 = Some (0, ?ph, string_allocs ?w2)"
    by (rule parse_header_complete [OF _ assms(7-9) uf(1)]) (use assms(4) in simp)
  note hl = header_fits [of m z names L, unfolded assms(10), OF assms(12)]
  have "\<not> ucast (HeaderLength ?ph + BitstreamLength ?ph) > len"
    using hl(1) assms(13) by (simp add: parsed_header_def word_less_nat_alt not_less)
  moreover have ad: "a + ucast (HeaderLength ?ph) = a + of_nat (length ?hd)"
    using assms(12) by (simp add: parsed_header_def ucast_of_nat64)
  obtain w3 where w3: "icap_user_loop env ?d (a + of_nat (length ?hd)) (unat L) (string_allocs ?w2) = Some (0, True, w3)"
    "words_to ?wf (trace w3) = words_to ?wf (trace (string_allocs ?w2)) @ be_words payload"
    "obj_net (trace w3) = obj_net (trace (string_allocs ?w2))"
    using icap_user_loop_run [OF assms(1) _ assms(3), of ?d "a + of_nat (length ?hd)" "unat L" "string_allocs ?w2"]
      assms(2) uf(2) by (auto simp: assms(10))
  obtain w4 where w4: "wait_for_done env ?d w3 = Some (0, w4)" "words_to ?wf (trace w4) = words_to ?wf (trace w3)"
    "obj_net (trace w4) = obj_net (trace w3)"
    using done_loop_ready [OF _ assms(1), of 10 w3 ?wf] assms(2) by (auto simp: wait_for_done_def simp del: done_loop.simps)
  obtain w5 where w5: "freeAXIGate env ?d w4 = Some (d, w5)" "io_writes (trace w5) = io_writes (trace w4)"
    "obj_net (trace w5) = obj_net (trace w4)"
    using freeAXIGate_run [of ?d base env w4] assms(2,5) by auto
  let ?w6 = "free_header ?ph (kfree ObjBitBuf w5)"
  have "bitstream_ioctl_icap env a len d w = Some (0, d, ?w6)"
    using w1(1) p w3(1) w4(1) w5(1) calculation assms(4,6) ad
    by (simp add: bitstream_ioctl_icap_def bitstream_clear_icap_def kalloc_def copy_from_user_stable [OF assms(3)]
        DMA_HWICAP_BITFILE_BUFFER_SIZE_def free_buffers_def) (simp add: parsed_header_def free_buffers_def)
  moreover have "words_to ?wf (trace ?w6) = words_to ?wf (trace w) @ be_words payload"
    using w1(2) w3(2) w4(2) w5(2) by (simp add: words_to_Cons) (simp add: words_to_def)
  moreover have "obj_net (trace ?w6) = obj_net (trace w)"
    using w1(3) w3(3) w4(3) w5(3) by (simp add: fun_eq_iff free_parsed_net string_allocs_net)
  ultimately show ?thesis by blast
qed


lemma user_bytes_placed:
  assumes "user_mem env = (\<lambda>_ x. if unat (x - a) < length F then F ! unat (x - a) else 0)" "length F < 2 ^ 64"
  shows "user_bytes env tr a (length F) = F"
  by (rule nth_equalityI) (use assms in \<open>simp_all add: user_bytes_def unat_of_nat_small\<close>)

text \<open>A small file, placed at an address, and a card that takes it.\<close>

definition sample_header :: "u8 list" where "sample_header = header_bytes 9 0 sample_names 8"
definition sample_payload :: "u8 list" where "sample_payload = [0xaa, 0x99, 0x55, 0x66, 0x20, 0, 0, 0]"

definition icap_env :: "(addr \<Rightarrow> u32) \<Rightarrow> kenv" where
  "icap_env R = env0\<lparr>hw_read := (\<lambda>_. R), user_mem := (\<lambda>_ x. if unat (x - 0x1000) < length (sample_header @ sample_payload)
     then (sample_header @ sample_payload) ! unat (x - 0x1000) else 0)\<rparr>"

lemma length_sample: "length sample_header = 38" "length sample_payload = 8"
  by (simp_all add: sample_header_def header_bytes_def bit_fields_def sample_names_def be32_bytes_def sample_payload_def)

lemma icap_env_facts:
  "user_stable (icap_env R)" "\<forall>tr ob. mem_ok (icap_env R) tr ob"
  "user_file (icap_env R) 0x1000 (header_bytes 9 0 sample_names 8) sample_payload"
proof -
  show "user_stable (icap_env R)" by (simp add: user_stable_def icap_env_def env0_def)
  show "\<forall>tr ob. mem_ok (icap_env R) tr ob" by (simp add: icap_env_def env0_def)
  have "user_bytes (icap_env R) [] 0x1000 (length (sample_header @ sample_payload)) = sample_header @ sample_payload"
    by (rule user_bytes_placed) (simp_all add: icap_env_def length_sample)
  then show "user_file (icap_env R) 0x1000 (header_bytes 9 0 sample_names 8) sample_payload"
    by (simp add: user_file_def sample_header_def [symmetric] length_sample DMA_HWICAP_BITFILE_BUFFER_SIZE_def)
qed

lemma icap_download_delivers_witness:
  "\<exists>w'. bitstream_ioctl_icap (icap_env (\<lambda>a. if a = 0x1020114 then 1 else if a = 0x1020110 then 5 else 0)) 0x1000 54 sd0 world1
      = Some (0, sd0, w') \<and> words_to 0x1020100 (trace w') = [0xaa995566, 0x20000000]"
proof -
  let ?env = "icap_env (\<lambda>a. if a = 0x1020114 then 1 else if a = 0x1020110 then 5 else 0)"
  have r: "icap_ready ?env 0x1000000"
    by (simp add: icap_ready_def icap_env_def XHWICAP_WFV_def XHWICAP_CR_def XHWICAP_SR_def)
  have w: "be_words sample_payload = [0xaa995566, 0x20000000]" by (simp add: sample_payload_def be32_def)
  have "clear_bitstream (stash sd0) = None" by (simp add: sd0_def)
  then show ?thesis
    using icap_download_delivers [OF r sd0_base(1) icap_env_facts(1,2) sd0_base(2) _ _ _ sample_names_ok _ icap_env_facts(3),
        where len = 54 and w = world1] w
    by (auto simp: sample_header_def [symmetric] length_sample XHWICAP_WF_def words_to_def world1_def)
qed

text \<open>C35: A download that stalls is reported as a success: when the write FIFO never has room, the ICAP
  download of a well-formed bitstream returns 0 although not a single word was written, because
  the failure of the helper jumps to the end without setting the error.\<close>

theorem icap_stall_reports_success:
  assumes "\<forall>tr. hw_read env tr (base + XHWICAP_WFV) = 0" "user_base d = Some base" "user_stable env"
    and "\<forall>tr ob. mem_ok env tr ob" "\<not> axi_gate_frozen d" "clear_bitstream (stash d) = None"
    and "1 \<le> m" "m < 2 ^ 16" "names_ok names" "unat L = length payload" "4 \<le> length payload"
    and "user_file env a (header_bytes m z names L) payload"
    and "length (header_bytes m z names L) + length payload < 2 ^ 32"
    and "length (header_bytes m z names L) + length payload \<le> unat len"
  shows "\<exists>w'. bitstream_ioctl_icap env a len d w = Some (0, d, w') \<and> io_writes (trace w') = io_writes (trace w)"
proof -
  let ?ph = "parsed_header m z names L" and ?d = "d\<lparr>axi_gate_frozen := True\<rparr>"
  note uf = user_file_header [OF assms(12)]
  obtain w1 where w1: "freezeAXIGate env d w = Some (?d, w1)" "io_writes (trace w1) = io_writes (trace w)"
    using freezeAXIGate_run [OF assms(5,2)] by metis
  let ?w2 = "emit (CopyFromUser a 1024) (emit (Alloc ObjBitBuf) w1)"
  have p: "bitstream_parse_header env (user_bytes env [] a 1024) 1024 header0 ?w2 = Some (0, ?ph, string_allocs ?w2)"
    by (rule parse_header_complete [OF _ assms(7-9) uf(1)]) (use assms(4) in simp)
  note hl = header_fits [of m z names L, unfolded assms(10), OF assms(13)]
  have n: "\<not> ucast (HeaderLength ?ph + BitstreamLength ?ph) > len"
    using hl(1) assms(14) by (simp add: parsed_header_def word_less_nat_alt not_less)
  let ?n = "min (unat L) 1024" and ?b = "a + ucast (HeaderLength ?ph)"
  have k: "unat L \<noteq> 0" "?n div 4 \<noteq> 0" using assms(10,11) by (auto simp: min_def div_eq_0_iff)
  let ?w3 = "emit (CopyFromUser ?b ?n) (string_allocs ?w2)"
  have h: "bitstream_icap_helper env ?d bs (?n div 4) ?w3
      = Some (- EIO, emit (IoRead (base + XHWICAP_WFV) 0) ?w3)" for bs
    using k(2) assms(1,2) by (subst bitstream_icap_helper.simps) (simp add: Let_def)
  have l: "icap_user_loop env ?d ?b (unat L) (string_allocs ?w2)
      = Some (0, False, emit (IoRead (base + XHWICAP_WFV) 0) ?w3)"
    using k(1) h by (subst icap_user_loop.simps)
      (simp add: DMA_HWICAP_BITFILE_BUFFER_SIZE_def copy_from_user_stable [OF assms(3)])
  obtain w5 where w5: "freeAXIGate env ?d (emit (IoRead (base + XHWICAP_WFV) 0) ?w3) = Some (d, w5)"
    "io_writes (trace w5) = io_writes (trace ?w3)"
    using freeAXIGate_run [of ?d base env "emit (IoRead (base + XHWICAP_WFV) 0) ?w3"] assms(2,5) by auto
  have "bitstream_ioctl_icap env a len d w = Some (0, d, free_header ?ph (kfree ObjBitBuf w5))"
    using w1(1) p l w5(1) n assms(4,6)
    by (simp add: bitstream_ioctl_icap_def bitstream_clear_icap_def kalloc_def copy_from_user_stable [OF assms(3)]
        DMA_HWICAP_BITFILE_BUFFER_SIZE_def) (simp add: parsed_header_def free_buffers_def)
  moreover have "io_writes (trace (free_header ?ph (kfree ObjBitBuf w5))) = io_writes (trace w)"
    using w1(2) w5(2) by (simp add: free_header_def string_allocs_def bit_fields_def)
  ultimately show ?thesis by blast
qed

lemma icap_stall_reports_success_witness:
  "\<exists>w'. bitstream_ioctl_icap (icap_env (\<lambda>_. 0)) 0x1000 54 sd0 world1 = Some (0, sd0, w') \<and> io_writes (trace w') = []"
proof -
  have "clear_bitstream (stash sd0) = None" "\<forall>tr. hw_read (icap_env (\<lambda>_. 0)) tr (0x1000000 + XHWICAP_WFV) = 0"
    by (simp_all add: sd0_def icap_env_def)
  then show ?thesis
    using icap_stall_reports_success [OF _ sd0_base(1) icap_env_facts(1,2) sd0_base(2) _ _ _ sample_names_ok _ _ icap_env_facts(3),
        where len = 54 and w = world1]
    by (auto simp: sample_header_def [symmetric] length_sample world1_def)
qed

end
