(* ===== verification/Download_Account.thy ===== *)
theory Download_Account
  imports Download
begin

section \<open>The account of a download\<close>

text \<open>
  Whatever the card, the allocator and user space do: a download that returns has given back the
  buffer and the strings of the header, the AXI gate is open again, and the clearing bitstream it
  keeps is the only memory the device has gained or lost.
\<close>

subsection \<open>The strings of a header\<close>

definition own_header :: "XHwIcap_Bit_Header \<Rightarrow> kobj \<Rightarrow> int" where
  "own_header hdr ob = (\<Sum>f\<leftarrow>[DesignName, PartName, BitDate, BitTime].
     of_bool (bit_string hdr f \<noteq> None \<and> ob = ObjBitField f))"

definition header_gap :: "XHwIcap_Bit_Header \<Rightarrow> 'w kworld_scheme \<Rightarrow> kobj \<Rightarrow> int" where
  "header_gap hdr w ob = obj_net (trace w) ob - own_header hdr ob"

lemma own_header_frames [simp]:
  "own_header (hdr\<lparr>HeaderLength := n\<rparr>) = own_header hdr" "own_header (hdr\<lparr>BitstreamLength := n\<rparr>) = own_header hdr"
  "own_header (hdr\<lparr>MagicLength := n\<rparr>) = own_header hdr" "own_header header0 = (\<lambda>_. 0)"
  by (simp_all add: own_header_def header0_def fun_eq_iff)

lemma own_header_upd:
  "bit_string hdr f = None \<Longrightarrow> own_header (hdr\<lparr>bit_string := (bit_string hdr)(f := Some cs)\<rparr>) ob
    = own_header hdr ob + of_bool (ob = ObjBitField f)"
  by (cases f) (auto simp: own_header_def)

lemma parse_string_account:
  assumes "parse_string env f tag bs k hdr w = Some (ok, k', hdr', w')" "bit_string hdr f = None"
  shows "header_gap hdr' w' = header_gap hdr w" "g \<noteq> f \<Longrightarrow> bit_string hdr' g = bit_string hdr g"
proof -
  from assms(1) have "hdr' = hdr \<and> w' = w
      \<or> (\<exists>cs. hdr' = hdr\<lparr>bit_string := (bit_string hdr)(f := Some cs)\<rparr> \<and> w' = emit (Alloc (ObjBitField f)) w)"
    by (auto simp: parse_string_def bind_Some_iff kalloc_def Let_def split: if_splits)
  then show "header_gap hdr' w' = header_gap hdr w" "g \<noteq> f \<Longrightarrow> bit_string hdr' g = bit_string hdr g"
    using assms(2) by (auto simp: header_gap_def own_header_upd fun_eq_iff)
qed

lemma parse_strings_account:
  assumes "parse_strings env fs bs k hdr w = Some (ok, k', hdr', w')" "distinct (map fst fs)"
    "\<forall>f\<in>fst ` set fs. bit_string hdr f = None"
  shows "header_gap hdr' w' = header_gap hdr w"
  using assms
proof (induction fs arbitrary: k hdr w)
  case (Cons ft fs)
  obtain f tag where ft: "ft = (f, tag)" by (cases ft)
  from Cons.prems(1) obtain ok1 k1 h1 w1 where
    p: "parse_string env f tag bs k hdr w = Some (ok1, k1, h1, w1)"
      "(if \<not> ok1 then Some (False, k1, h1, w1) else parse_strings env fs bs k1 h1 w1) = Some (ok, k', hdr', w')"
    by (auto simp: ft bind_Some_iff)
  have n: "bit_string hdr f = None" using Cons.prems(3) ft by simp
  note a = parse_string_account [OF p(1) n]
  show ?case
  proof (cases ok1)
    case True
    have "\<forall>g\<in>fst ` set fs. bit_string h1 g = None"
      using Cons.prems(2,3) a(2) ft by (metis (no_types, lifting) distinct.simps(2) fst_conv image_insert insertCI
          list.set_map list.simps(15) list.simps(9))
    then show ?thesis using Cons.IH [of k1 h1 w1] p(2) True Cons.prems(2) a(1) by simp
  next
    case False
    then show ?thesis using p(2) a(1) by simp
  qed
qed simp

lemma parse_header_account:
  assumes "bitstream_parse_header env bs sz header0 w = Some (rc, hdr, w')"
  shows "obj_net (trace w') ob - own_header hdr ob = obj_net (trace w) ob"
proof -
  let ?h = "\<lambda>m. header0\<lparr>HeaderLength := XHI_BIT_HEADER_FAILURE, MagicLength := m\<rparr>"
  have n: "\<forall>f\<in>fst ` set bit_fields. bit_string (?h m) f = None" for m by (simp add: header0_def)
  have p: "obj_net (trace w2) ob - own_header h2 ob = obj_net (trace w) ob"
    if "parse_strings env bit_fields bs k (?h m) w = Some (ok, k', h2, w2)" for m k ok k' h2 w2
    using parse_strings_account [OF that distinct_bit_fields(1) n]
    by (simp add: header_gap_def fun_eq_iff)
  show ?thesis
    using assms by (auto simp: bitstream_parse_header_def bind_Some_iff Let_def split: if_splits dest!: p)
qed

lemma free_strings_net:
  "obj_net (trace (free_strings fs hdr w)) ob
    = obj_net (trace w) ob - (\<Sum>f\<leftarrow>fs. of_bool (bit_string hdr f \<noteq> None \<and> ob = ObjBitField f))"
  by (induction fs arbitrary: w) auto

lemma free_header_net [simp]: "obj_net (trace (free_header hdr w)) ob = obj_net (trace w) ob - own_header hdr ob"
  by (simp add: free_header_def free_strings_net own_header_def)


subsection \<open>The words cost nothing\<close>

named_theorems same_net \<open>operations that neither take nor give back memory\<close>

lemma hwicap_words_net [same_net]:
  "hwicap_words base bs n w = Some w' \<Longrightarrow> obj_net (trace w') = obj_net (trace w)"
  by (induction base bs n w rule: hwicap_words.induct) simp_all

lemma flush_loop_net [same_net]: "flush_loop env base n w = (rc, w') \<Longrightarrow> obj_net (trace w') = obj_net (trace w)"
  by (induction n arbitrary: w) (auto simp: Let_def split: if_splits)

lemma done_loop_net [same_net]: "done_loop env base n w = (rc, w') \<Longrightarrow> obj_net (trace w') = obj_net (trace w)"
  by (induction n arbitrary: w) (auto simp: Let_def split: if_splits)

lemma hwicapWrite_net [same_net]:
  "hwicapWrite env d bs n w = Some (rc, w') \<Longrightarrow> obj_net (trace w') = obj_net (trace w)"
  by (auto simp: hwicapWrite_def bind_Some_iff simp del: flush_loop.simps dest!: hwicap_words_net flush_loop_net)

lemma wait_for_done_net [same_net]:
  "wait_for_done env d w = Some (rc, w') \<Longrightarrow> obj_net (trace w') = obj_net (trace w)"
  by (auto simp: wait_for_done_def bind_Some_iff simp del: done_loop.simps dest!: done_loop_net)

lemma bitstream_icap_helper_net [same_net]:
  "bitstream_icap_helper env d bs n w = Some (rc, w') \<Longrightarrow> obj_net (trace w') = obj_net (trace w)"
proof (induction n arbitrary: bs w rule: less_induct)
  case (less n)
  note h = less.prems [unfolded bitstream_icap_helper.simps [of env d bs n w]]
  show ?case
  proof (cases "n = 0")
    case False
    then obtain base where b: "user_base d = Some base" using h by (auto simp: bind_Some_iff)
    let ?v = "hw_read env (trace w) (base + XHWICAP_WFV)"
    show ?thesis
    proof (cases "sint ?v \<le> 0")
      case True
      then show ?thesis using h False b by (auto simp: Let_def)
    next
      case pos: False
      let ?k = "min (unat ?v) n"
      obtain rc1 w1 where w1: "hwicapWrite env d bs ?k (emit (IoRead (base + XHWICAP_WFV) ?v) w) = Some (rc1, w1)"
        "(if rc1 \<noteq> 0 then Some (- EIO, w1) else bitstream_icap_helper env d (drop (4 * ?k) bs) (n - ?k) w1) = Some (rc, w')"
        using h False b pos by (auto simp: bind_Some_iff Let_def)
      have "n - ?k < n" using False pos sint_pos_unat [of ?v] by simp
      then show ?thesis
        using w1(2) hwicapWrite_net [OF w1(1)] less.IH [of "n - ?k" "drop (4 * ?k) bs" w1] by (auto split: if_splits)
    qed
  qed (use h in auto)
qed

lemma icap_chunk_loop_net [same_net]:
  "icap_chunk_loop env d bs n w = Some (ok, w') \<Longrightarrow> obj_net (trace w') = obj_net (trace w)"
proof (induction n arbitrary: bs w rule: less_induct)
  case (less n)
  note h = less.prems [unfolded icap_chunk_loop.simps [of env d bs n w]]
  have "0 < n \<Longrightarrow> n - min n DMA_HWICAP_BITFILE_BUFFER_SIZE < n" by (simp add: DMA_HWICAP_BITFILE_BUFFER_SIZE_def)
  then show ?case
    using h by (auto simp: bind_Some_iff Let_def split: if_splits dest!: bitstream_icap_helper_net less.IH [rotated])
qed

lemma copy_from_user_net [same_net]:
  "copy_from_user env a n w = (r, w') \<Longrightarrow> obj_net (trace w') = obj_net (trace w)"
  by (auto simp: copy_from_user_def split: if_splits)

lemma icap_user_loop_net [same_net]:
  "icap_user_loop env d a n w = Some (rc, ok, w') \<Longrightarrow> obj_net (trace w') = obj_net (trace w)"
proof (induction n arbitrary: a w rule: less_induct)
  case (less n)
  note h = less.prems [unfolded icap_user_loop.simps [of env d a n w]]
  have "0 < n \<Longrightarrow> n - min n DMA_HWICAP_BITFILE_BUFFER_SIZE < n" by (simp add: DMA_HWICAP_BITFILE_BUFFER_SIZE_def)
  then show ?case
    using h by (auto simp: bind_Some_iff Let_def split: if_splits prod.splits option.splits
        dest!: copy_from_user_net bitstream_icap_helper_net less.IH [rotated])
qed


lemma bitstream_icap_net [same_net]:
  "bitstream_icap env d bs len w = Some (rc, w') \<Longrightarrow> obj_net (trace w') = obj_net (trace w)"
  by (rule ext)
    (auto simp: bitstream_icap_def bind_Some_iff Let_def split: if_splits
      dest!: icap_chunk_loop_net wait_for_done_net dest: parse_header_account)

lemma MCapRegRead_net [same_net]: "MCapRegRead env d off w = (v, w') \<Longrightarrow> obj_net (trace w') = obj_net (trace w)"
  by (auto simp: MCapRegRead_def Let_def)

lemma MCapRegWrite_net [simp]: "obj_net (trace (MCapRegWrite d off v w)) = obj_net (trace w)"
  by (simp add: MCapRegWrite_def)

lemma mcap_bit_net [same_net]:
  "IsResetSet env d w = (b, w') \<Longrightarrow> obj_net (trace w') = obj_net (trace w)"
  "IsModuleResetSet env d w = (b, w') \<Longrightarrow> obj_net (trace w') = obj_net (trace w)"
  "IsConfigureMCapReqSet env d w = (b, w') \<Longrightarrow> obj_net (trace w') = obj_net (trace w)"
  "IsErrSet env d w = (b, w') \<Longrightarrow> obj_net (trace w') = obj_net (trace w)"
  "IsRegReadComplete env d w = (b, w') \<Longrightarrow> obj_net (trace w') = obj_net (trace w)"
  "IsFifoOverflow env d w = (b, w') \<Longrightarrow> obj_net (trace w') = obj_net (trace w)"
  by (auto simp: IsResetSet_def IsModuleResetSet_def IsConfigureMCapReqSet_def IsErrSet_def IsRegReadComplete_def
      IsFifoOverflow_def split: prod.splits dest: MCapRegRead_net)

lemma mcap_request_loop_net [same_net]:
  "mcap_request_loop env d n w = (r, w') \<Longrightarrow> obj_net (trace w') = obj_net (trace w)"
  by (induction n arbitrary: w) (auto split: prod.splits if_splits dest!: mcap_bit_net)

lemma MCapClearRequestByConfigure_net [same_net]:
  "MCapClearRequestByConfigure env d w = (rc, r, w') \<Longrightarrow> obj_net (trace w') = obj_net (trace w)"
  by (auto simp: MCapClearRequestByConfigure_def split: prod.splits if_splits
      dest!: mcap_bit_net mcap_request_loop_net MCapRegRead_net)

lemma mcap_noops_net [simp]: "obj_net (trace (mcap_noops d n w)) = obj_net (trace w)"
  by (induction n arbitrary: w) simp_all

lemma completion_loop_net [same_net]:
  "completion_loop env d r sr w = (rc, w') \<Longrightarrow> obj_net (trace w') = obj_net (trace w)"
proof (induction "Suc EMCAP_EOS_RETRY_COUNT - r" arbitrary: r sr w rule: less_induct)
  case less
  note h = less.prems [unfolded completion_loop.simps [of env d r sr w]]
  show ?case
    using h less.hyps [of "r + 1"]
    by (auto simp: Let_def split: if_splits prod.splits dest!: MCapRegRead_net)
qed

lemma Checkforcompletion_net [same_net]:
  "Checkforcompletion env d w = (rc, w') \<Longrightarrow> obj_net (trace w') = obj_net (trace w)"
  by (auto simp: Checkforcompletion_def split: prod.splits dest!: completion_loop_net MCapRegRead_net)

lemma mcap_checks_net [same_net]:
  "full_reset_failed env d w = (b, w') \<Longrightarrow> obj_net (trace w') = obj_net (trace w)"
  "setup_failed env d w = (b, w') \<Longrightarrow> obj_net (trace w') = obj_net (trace w)"
  "write_failed env rc d w = (b, w') \<Longrightarrow> obj_net (trace w') = obj_net (trace w)"
  by (auto simp: full_reset_failed_def setup_failed_def write_failed_def split: prod.splits if_splits dest!: mcap_bit_net)

lemma MCapFullReset_net [same_net]:
  "MCapFullReset env d w = (rc, w') \<Longrightarrow> obj_net (trace w') = obj_net (trace w)"
  by (auto simp: MCapFullReset_def Let_def split: prod.splits if_splits
      dest!: MCapClearRequestByConfigure_net mcap_checks_net MCapRegRead_net)

lemma bitstream_mcap_setup_net [same_net]:
  "bitstream_mcap_setup env sw d w = (rc, r, w') \<Longrightarrow> obj_net (trace w') = obj_net (trace w)"
  by (auto simp: bitstream_mcap_setup_def Let_def split: prod.splits if_splits
      dest!: MCapClearRequestByConfigure_net mcap_checks_net MCapRegRead_net)

lemma bitstream_mcap_helper_net [same_net]:
  "bitstream_mcap_helper d bs n w = Some w' \<Longrightarrow> obj_net (trace w') = obj_net (trace w)"
  by (induction d bs n w rule: bitstream_mcap_helper.induct) simp_all

lemma mcap_user_loop_net [same_net]:
  "mcap_user_loop env d a n w = Some (rc, w') \<Longrightarrow> obj_net (trace w') = obj_net (trace w)"
proof (induction n arbitrary: a w rule: less_induct)
  case (less n)
  note h = less.prems [unfolded mcap_user_loop.simps [of env d a n w]]
  have "0 < n \<Longrightarrow> n - min n DMA_HWICAP_BITFILE_BUFFER_SIZE < n" by (simp add: DMA_HWICAP_BITFILE_BUFFER_SIZE_def)
  then show ?case
    using h by (auto simp: bind_Some_iff Let_def split: if_splits prod.splits option.splits
        dest!: copy_from_user_net bitstream_mcap_helper_net less.IH [rotated])
qed

lemma snd_net [simp]:
  "obj_net (trace (snd (Checkforcompletion env d w))) = obj_net (trace w)"
  "obj_net (trace (snd (write_failed env rc d w))) = obj_net (trace w)"
  "obj_net (trace (snd (MCapFullReset env d w))) = obj_net (trace w)"
  "obj_net (trace (snd (snd (bitstream_mcap_setup env sw d w)))) = obj_net (trace w)"
  "obj_net (trace (snd (copy_from_user env a n w))) = obj_net (trace w)"
  by (metis Checkforcompletion_net mcap_checks_net(3) MCapFullReset_net bitstream_mcap_setup_net copy_from_user_net
      prod.collapse)+

lemma bitstream_mcap_net [same_net]:
  "bitstream_mcap env bs len d w = Some (rc, w') \<Longrightarrow> obj_net (trace w') = obj_net (trace w)"
  by (rule ext)
    (auto simp: bitstream_mcap_def bind_Some_iff Let_def case_prod_beta split: if_splits
      dest!: bitstream_mcap_helper_net dest: parse_header_account)

subsection \<open>The device and its stash\<close>

definition own_stash :: "sd_dev \<Rightarrow> kobj \<Rightarrow> int" where
  "own_stash d ob = of_bool (clear_bitstream (stash d) \<noteq> None \<and> ob = ObjStash)"

text \<open>An operation that keeps the device's side of the account: apart from the stash, nothing is
  gained or lost, and the driver state every build has is untouched.\<close>

definition kept :: "sd_dev \<Rightarrow> 'w kworld_scheme \<Rightarrow> sd_dev \<Rightarrow> 'w kworld_scheme \<Rightarrow> bool" where
  "kept d w d' w' \<longleftrightarrow> sd_lro d' = sd_lro d
     \<and> (\<forall>ob. obj_net (trace w') ob - own_stash d' ob = obj_net (trace w) ob - own_stash d ob)"

lemma kept_refl [simp]: "kept d w d w"
  by (simp add: kept_def)

lemma kept_trans: "kept d w d1 w1 \<Longrightarrow> kept d1 w1 d2 w2 \<Longrightarrow> kept d w d2 w2"
  by (simp add: kept_def)

lemma kept_net: "obj_net (trace w') = obj_net (trace w) \<Longrightarrow> kept d w d w'"
  by (simp add: kept_def)

lemma own_stash_frames [simp]: "own_stash (d\<lparr>axi_gate_frozen := b\<rparr>) = own_stash d"
  by (simp add: own_stash_def fun_eq_iff)

lemma drop_stash_kept:
  "drop_stash d w = (d', w') \<Longrightarrow> kept d w d' w' \<and> axi_gate_frozen d' = axi_gate_frozen d \<and> clear_bitstream (stash d') = None"
  by (auto simp: drop_stash_def kept_def own_stash_def)

lemma gate_kept:
  "freezeAXIGate env d w = Some (d', w') \<Longrightarrow> kept d w d' w' \<and> axi_gate_frozen d'"
  "freeAXIGate env d w = Some (d', w') \<Longrightarrow> kept d w d' w' \<and> \<not> axi_gate_frozen d'"
  by (auto simp: freezeAXIGate_def freeAXIGate_def bind_Some_iff kept_def own_stash_def)

lemma bitstream_clear_icap_kept:
  "bitstream_clear_icap env d w = Some (rc, d', w') \<Longrightarrow> kept d w d' w' \<and> axi_gate_frozen d' = axi_gate_frozen d"
  by (auto simp: bitstream_clear_icap_def bind_Some_iff split: option.splits prod.splits
      dest!: bitstream_icap_net drop_stash_kept dest: kept_net intro: kept_trans)

text \<open>The strings of a header, parsed at the start and freed at the end.\<close>

lemma kept_strings:
  assumes "bitstream_parse_header env bs sz header0 w = Some (rc, hdr, w1)" "kept d w1 d' w2"
  shows "kept d w d' (free_header hdr w2)"
proof -
  have "obj_net (trace w1) ob - own_header hdr ob = obj_net (trace w) ob" for ob
    by (rule parse_header_account [OF assms(1)])
  then show ?thesis using assms(2) by (simp add: kept_def algebra_simps)
qed

lemma bitstream_clear_mcap_kept:
  assumes "bitstream_clear_mcap env d w = Some (rc, d', w')"
  shows "kept d w d' w' \<and> axi_gate_frozen d' = axi_gate_frozen d"
proof (cases "clear_bitstream (stash d)")
  case None
  then show ?thesis using assms by (simp add: bitstream_clear_mcap_def)
next
  case (Some bs)
  then obtain rc1 hdr w1 where p: "bitstream_parse_header env bs DMA_HWICAP_BITFILE_BUFFER_SIZE header0 w = Some (rc1, hdr, w1)"
    using assms by (auto simp: bitstream_clear_mcap_def bind_Some_iff)
  consider "d' = d" "w' = free_header hdr w1"
    | w2 where "obj_net (trace w2) = obj_net (trace w1)" "d' = fst (drop_stash d w2)"
        "w' = free_header hdr (snd (drop_stash d w2))"
    using assms Some p by (auto simp: bitstream_clear_mcap_def Let_def bind_Some_iff case_prod_beta split: if_splits
        dest!: bitstream_mcap_helper_net)
  then show ?thesis
  proof cases
    case 1
    then show ?thesis using kept_strings [OF p, of d d w1] by simp
  next
    case 2
    have "kept d w1 d w2" using 2(1) by (rule kept_net)
    then have "kept d w1 d' (snd (drop_stash d w2))" "axi_gate_frozen d' = axi_gate_frozen d"
      using drop_stash_kept [of d w2 d' "snd (drop_stash d w2)"] 2(2) by (auto intro: kept_trans)
    then show ?thesis using kept_strings [OF p] 2(3) by simp
  qed
qed

text \<open>The label \<open>free_buffers\<close>: what is left is the buffer, when there is one, and the strings.\<close>

lemma free_buffers_kept:
  assumes "free_buffers env rc buf hdr d w = Some (rc', d', w')"
    and "kept d0 (if buf then emit (Alloc ObjBitBuf) w0 else w0) d wk"
    and "\<forall>ob. obj_net (trace w) ob - own_header hdr ob = obj_net (trace wk) ob"
  shows "kept d0 w0 d' w' \<and> \<not> axi_gate_frozen d'"
proof -
  from assms(1) obtain d2 w2 where f: "freeAXIGate env d w = Some (d2, w2)"
    "d' = d2" "w' = free_header hdr (if buf then kfree ObjBitBuf w2 else w2)"
    by (auto simp: free_buffers_def bind_Some_iff Let_def)
  have g: "kept d w d2 w2" "\<not> axi_gate_frozen d2" using gate_kept(2) [OF f(1)] by simp_all
  have k: "obj_net (trace w2) ob - own_stash d2 ob = obj_net (trace w) ob - own_stash d ob"
    "obj_net (trace wk) ob - own_stash d ob
      = obj_net (trace (if buf then emit (Alloc ObjBitBuf) w0 else w0)) ob - own_stash d0 ob" for ob
    using g(1) assms(2) by (simp_all only: kept_def)
  have "obj_net (trace w') ob - own_stash d' ob = obj_net (trace w0) ob - own_stash d0 ob" for ob
    using k [of ob] assms(3) [rule_format, of ob] f(2,3) by (cases buf) simp_all
  then show ?thesis using g f(2) assms(2) by (simp add: kept_def)
qed


lemma parse_header_net:
  "bitstream_parse_header env bs sz header0 w = Some (rc, hdr, w') \<Longrightarrow>
    obj_net (trace w') = (\<lambda>ob. obj_net (trace w) ob + own_header hdr ob)"
  using parse_header_account [of env bs sz w rc hdr w'] by (auto simp: fun_eq_iff algebra_simps)

lemma free_header0 [simp]: "free_header header0 w = w"
  by (simp add: free_header_def header0_def)

lemma bitstream_ioctl_icap_kept:
  assumes "bitstream_ioctl_icap env a len d w = Some (rc, d', w')"
  shows "kept d w d' w' \<and> \<not> axi_gate_frozen d'"
proof -
  from assms obtain d1 w1 rc2 d2 w2 where fz: "freezeAXIGate env d w = Some (d1, w1)"
    and cl: "bitstream_clear_icap env d1 w1 = Some (rc2, d2, w2)"
    by (auto simp: bitstream_ioctl_icap_def bind_Some_iff)
  have k: "kept d w d2 w2"
    using gate_kept(1) [OF fz] bitstream_clear_icap_kept [OF cl] by (auto intro: kept_trans)
  consider rc3 where "free_buffers env rc3 False header0 d2 w2 = Some (rc, d', w')"
    | rc3 hdr w3 where "free_buffers env rc3 True hdr d2 w3 = Some (rc, d', w')"
      "obj_net (trace w3) = (\<lambda>ob. obj_net (trace (emit (Alloc ObjBitBuf) w2)) ob + own_header hdr ob)"
    using assms fz cl
    by (auto simp: bitstream_ioctl_icap_def bind_Some_iff kalloc_def copy_from_user_def Let_def split: if_splits
        dest!: parse_header_net icap_user_loop_net wait_for_done_net)
  then show ?thesis
  proof cases
    case 1
    have "kept d2 w2 d' w' \<and> \<not> axi_gate_frozen d'"
      by (rule free_buffers_kept [where wk = w2, OF 1]) simp_all
    then show ?thesis using k by (blast intro: kept_trans)
  next
    case 2
    have "kept d2 w2 d' w' \<and> \<not> axi_gate_frozen d'"
      by (rule free_buffers_kept [where wk = "emit (Alloc ObjBitBuf) w2", OF 2(1)]) (simp_all add: 2(2))
    then show ?thesis using k by (blast intro: kept_trans)
  qed
qed

lemma kept_net_trans: "kept d w d' w1 \<Longrightarrow> obj_net (trace w') = obj_net (trace w1) \<Longrightarrow> kept d w d' w'"
  by (simp add: kept_def)

lemma mcap_write_user_kept:
  "mcap_write_user env a hdr r d w = Some (rc, d', w') \<Longrightarrow> kept d w d' w' \<and> axi_gate_frozen d' = axi_gate_frozen d"
  by (auto simp: mcap_write_user_def bind_Some_iff case_prod_beta Let_def split: if_splits
      dest!: bitstream_clear_mcap_kept mcap_user_loop_net elim!: kept_net_trans)

lemma mcap_download_user_kept:
  assumes "mcap_download_user env a hdr d w = Some (rc, d', w')"
  shows "kept d w d' w' \<and> axi_gate_frozen d' = axi_gate_frozen d"
proof -
  obtain e r w1 where s: "bitstream_mcap_setup env False d w = (e, r, w1)" by (cases "bitstream_mcap_setup env False d w")
  have "kept d w d w1" by (rule kept_net [OF bitstream_mcap_setup_net [OF s]])
  then show ?thesis
    using assms s
    by (auto simp: mcap_download_user_def bind_Some_iff split: if_splits dest!: mcap_write_user_kept
        intro: kept_net_trans kept_trans)
qed

lemma bitstream_ioctl_mcap_kept:
  assumes "bitstream_ioctl_mcap env a len d w = Some (rc, d', w')" "\<not> axi_gate_frozen d"
  shows "kept d w d' w' \<and> \<not> axi_gate_frozen d'"
proof (cases "a = 0 \<or> len = 0")
  case True
  then show ?thesis using assms by (simp add: bitstream_ioctl_mcap_def)
next
  case False
  then obtain d1 w1 where fz: "freezeAXIGate env d w = Some (d1, w1)"
    using assms by (auto simp: bitstream_ioctl_mcap_def bind_Some_iff)
  consider rc3 where "free_buffers env rc3 False header0 d1 w1 = Some (rc, d', w')"
    | rc3 w3 where "free_buffers env rc3 True header0 d1 w3 = Some (rc, d', w')"
      "obj_net (trace w3) = obj_net (trace (emit (Alloc ObjBitBuf) w1))"
    | rc3 hdr d3 w3 bs rc2 w2 where "free_buffers env rc3 True hdr d3 w3 = Some (rc, d', w')"
      "bitstream_parse_header env bs DMA_HWICAP_BITFILE_BUFFER_SIZE header0
        (emit (CopyFromUser a DMA_HWICAP_BITFILE_BUFFER_SIZE) (emit (Alloc ObjBitBuf) w1)) = Some (rc2, hdr, w2)" "kept d1 w2 d3 w3"
    using assms(1) False fz
    by (auto simp: bitstream_ioctl_mcap_def bind_Some_iff kalloc_def copy_from_user_def Let_def case_prod_beta
        split: if_splits dest!: mcap_download_user_kept intro: kept_refl)
  then show ?thesis
  proof cases
    case 1
    have "kept d1 w1 d' w' \<and> \<not> axi_gate_frozen d'"
      by (rule free_buffers_kept [where wk = w1, OF 1]) simp_all
    then show ?thesis using gate_kept(1) [OF fz] by (blast intro: kept_trans)
  next
    case 2
    have "kept d1 w1 d' w' \<and> \<not> axi_gate_frozen d'"
      by (rule free_buffers_kept [where wk = "emit (Alloc ObjBitBuf) w1", OF 2(1)]) (simp_all add: 2(2))
    then show ?thesis using gate_kept(1) [OF fz] by (blast intro: kept_trans)
  next
    case 3
    from kept_strings [OF 3(2,3)] have "kept d1 (emit (Alloc ObjBitBuf) w1) d3 (free_header hdr w3)"
      by (simp add: kept_def)
    then have "kept d1 w1 d' w' \<and> \<not> axi_gate_frozen d'"
      by (intro free_buffers_kept [where wk = "free_header hdr w3", OF 3(1)]) simp_all
    then show ?thesis using gate_kept(1) [OF fz] by (blast intro: kept_trans)
  qed
qed


lemma stash_secondary_kept:
  "stash_secondary env xclbin bin err d w = (rc, d', w') \<Longrightarrow> kept d w d' w' \<and> axi_gate_frozen d' = axi_gate_frozen d"
  by (cases "clear_bitstream (stash d)")
    (auto simp: stash_secondary_def kalloc_def copy_from_user_def kept_def own_stash_def Let_def split: if_splits)

lemma bitstream_ioctl_kept:
  assumes "bitstream_ioctl env cmd arg d w = Some (rc, d', w')" "\<not> axi_gate_frozen d"
  shows "kept d w d' w' \<and> \<not> axi_gate_frozen d'"
proof -
  consider "d' = d" "obj_net (trace w') = obj_net (trace w)"
    | a len rc1 d1 w1 w2 xclbin bin err where "bitstream_ioctl_icap env a len d w1 = Some (rc1, d1, w2)"
      "stash_secondary env xclbin bin err d1 w2 = (rc, d', w')" "obj_net (trace w1) = obj_net (trace w)"
    | a len rc1 d1 w1 w2 xclbin bin err where "bitstream_ioctl_mcap env a len d w1 = Some (rc1, d1, w2)"
      "stash_secondary env xclbin bin err d1 w2 = (rc, d', w')" "obj_net (trace w1) = obj_net (trace w)"
    using assms(1)
    by (auto simp: bitstream_ioctl_def bind_Some_iff copy_from_user_def svc_call_def Let_def split: if_splits)
  then show ?thesis
  proof cases
    case 1
    then show ?thesis using assms(2) by (simp add: kept_net)
  next
    case 2
    have "kept d w d w1" using 2(3) by (rule kept_net)
    then show ?thesis
      using bitstream_ioctl_icap_kept [OF 2(1)] stash_secondary_kept [OF 2(2)] by (auto intro: kept_trans)
  next
    case 3
    have "kept d w d w1" using 3(3) by (rule kept_net)
    then show ?thesis
      using bitstream_ioctl_mcap_kept [OF 3(1) assms(2)] stash_secondary_kept [OF 3(2)] by (auto intro: kept_trans)
  qed
qed

subsection \<open>Boot firmware\<close>

lemma boot_done_kept:
  assumes "boot_done err hdr d w = (rc, d', w')" "kept d0 w0 d (free_header hdr w)"
  shows "kept d0 w0 d' w' \<and> axi_gate_frozen d' = axi_gate_frozen d"
  using assms by (auto simp: boot_done_def kept_def svc_void_def)

lemma boot_check_stash_kept:
  assumes "boot_check_stash env d w = Some (rc, d', w')"
  shows "kept d w d' w' \<and> axi_gate_frozen d' = axi_gate_frozen d"
proof (cases "clear_bitstream (stash d)")
  case None
  then show ?thesis using assms boot_done_kept [of 0 header0 d w rc d' w' d w] by (simp add: boot_check_stash_def)
next
  case (Some bs)
  then obtain rc1 hdr w1 where p: "bitstream_parse_header env bs DMA_HWICAP_BITFILE_BUFFER_SIZE header0 w = Some (rc1, hdr, w1)"
    using assms by (auto simp: boot_check_stash_def bind_Some_iff)
  obtain d2 w2 where st: "drop_stash d w1 = (d2, w2)" by (cases "drop_stash d w1")
  have k: "kept d w d (free_header hdr w1)" "kept d w d2 (free_header hdr w2)"
    using kept_strings [OF p] drop_stash_kept [OF st] by simp_all
  show ?thesis
    using assms Some p st k drop_stash_kept [OF st]
    by (auto simp: boot_check_stash_def split: if_splits dest!: boot_done_kept)
qed

lemma boot_stash_secondary_kept:
  assumes "boot_stash_secondary env fw bin d w = Some (rc, d', w')"
  shows "kept d w d' w' \<and> axi_gate_frozen d' = axi_gate_frozen d"
proof -
  obtain d1 w1 where st: "drop_stash d w = (d1, w1)" by (cases "drop_stash d w")
  have k: "kept d w d1 w1" "axi_gate_frozen d1 = axi_gate_frozen d" using drop_stash_kept [OF st] by simp_all
  have new: "kept d w d' w' \<and> axi_gate_frozen d' = axi_gate_frozen d"
    if "boot_check_stash env (d1\<lparr>stash := (stash d1)\<lparr>clear_bitstream := Some bs, clear_bitstream_length := n\<rparr>\<rparr>)
        (emit (Alloc ObjStash) w1) = Some (rc, d', w')" for bs n
  proof -
    have "kept d1 w1 (d1\<lparr>stash := (stash d1)\<lparr>clear_bitstream := Some bs, clear_bitstream_length := n\<rparr>\<rparr>) (emit (Alloc ObjStash) w1)"
      using drop_stash_kept [OF st] by (simp add: kept_def own_stash_def)
    then show ?thesis using boot_check_stash_kept [OF that] k by (auto intro: kept_trans)
  qed
  have nomem: "kept d w d' w' \<and> axi_gate_frozen d' = axi_gate_frozen d"
    if "boot_done (- ENOMEM) header0 d1 w1 = (rc, d', w')"
    using boot_done_kept [OF that, of d w] k by simp
  show ?thesis
    using assms st new nomem
    by (auto simp: boot_stash_secondary_def kalloc_def bind_Some_iff Let_def split: if_splits
        dest: boot_check_stash_kept)
qed

lemma request_firmware_names_net [same_net]:
  "request_firmware_names env ns w = (r, w') \<Longrightarrow> obj_net (trace w') = obj_net (trace w)"
  by (induction ns arbitrary: w) (auto simp: svc_call_def Let_def split: if_splits)

lemma load_boot_firmware_kept:
  assumes "load_boot_firmware fw env d w = Some (rc, d', w')"
  shows "kept d w d' w' \<and> axi_gate_frozen d' = axi_gate_frozen d"
proof -
  obtain r w1 where rf: "request_firmware_names env (fw_names d) w = (r, w1)"
    by (cases "request_firmware_names env (fw_names d) w")
  have k: "kept d w d w1" by (rule kept_net [OF request_firmware_names_net [OF rf]])
  have drop: "kept d w (fst (drop_stash d w2)) (snd (drop_stash d w2))"
      "axi_gate_frozen (fst (drop_stash d w2)) = axi_gate_frozen d" if "obj_net (trace w2) = obj_net (trace w1)" for w2
    using drop_stash_kept [of d w2] kept_net_trans [OF k that] by (metis kept_trans prod.collapse)+
  consider "d' = d" "w' = w1"
    | e where "boot_done e header0 d w1 = (rc, d', w')"
    | e w2 where "obj_net (trace w2) = obj_net (trace w1)"
        "boot_done e header0 (fst (drop_stash d w2)) (snd (drop_stash d w2)) = (rc, d', w')"
    | data bin where "boot_stash_secondary env data bin d w1 = Some (rc, d', w')"
    | data bin w2 where "obj_net (trace w2) = obj_net (trace w1)"
        "boot_stash_secondary env data bin (fst (drop_stash d w2)) (snd (drop_stash d w2)) = Some (rc, d', w')"
    using assms rf
    by (auto simp: load_boot_firmware_def bind_Some_iff case_prod_beta Let_def split: option.splits if_splits
        dest!: bitstream_mcap_net)
  then show ?thesis
  proof cases
    case 1
    then show ?thesis using k by simp
  next
    case 2
    then show ?thesis using boot_done_kept [OF 2, of d w] k by simp
  next
    case 3
    then show ?thesis using boot_done_kept [OF 3(2), of d w] drop [OF 3(1)] by simp
  next
    case 4
    then show ?thesis using boot_stash_secondary_kept [OF 4] k by (auto intro: kept_trans)
  next
    case 5
    then show ?thesis using boot_stash_secondary_kept [OF 5(2)] drop [OF 5(1)] by (auto intro: kept_trans)
  qed
qed

end
