(* ===== verification/Mcap.thy ===== *)
theory Mcap
  imports Download_Account
begin

section \<open>What the MCAP is told\<close>

text \<open>
  The download of a second stage through the configuration space: the sequence of register writes
  of a clean run, and two defects of the error handling, the timeout of the request bit and the
  result of a control request that both downloads and stashes.
\<close>

fun cfg_writes :: "event list \<Rightarrow> (nat \<times> u32) list" where
  "cfg_writes [] = []"
| "cfg_writes (CfgWrite i v # es) = (i, v) # cfg_writes es"
| "cfg_writes (_ # es) = cfg_writes es"

lemma cfg_writes_append [simp]: "cfg_writes (xs @ ys) = cfg_writes xs @ cfg_writes ys"
  by (induction xs rule: cfg_writes.induct) auto

lemma MCapRegWrite_cfg [simp]: "cfg_writes (trace (MCapRegWrite d off v w)) = cfg_writes (trace w) @ [(mcap_base d + off, v)]"
  by (simp add: MCapRegWrite_def)

lemma free_header_cfg [simp]: "cfg_writes (trace (free_header hdr w)) = cfg_writes (trace w)"
  by (simp add: free_header_def)

lemma string_allocs_cfg [simp]: "cfg_writes (trace (string_allocs w)) = cfg_writes (trace w)"
  by (simp add: string_allocs_def bit_fields_def)

text \<open>A card at rest: the control register reads \<open>c\<close>; no request, no error, and the end of startup
  is reported.\<close>

definition mcap_ready :: "kenv \<Rightarrow> sd_dev \<Rightarrow> u32 \<Rightarrow> u32 \<Rightarrow> bool" where
  "mcap_ready env d c s \<longleftrightarrow>
    (\<forall>tr. cfg_read env tr (mcap_base d + MCAP_CONTROL) = c \<and> cfg_read env tr (mcap_base d + MCAP_STATUS) = s)
    \<and> s AND MCAP_STS_CFG_MCAP_REQ_MASK = 0 \<and> s AND MCAP_STS_ERR_MASK = 0 \<and> s AND MCAP_STS_REG_READ_CMP_MASK = 0
    \<and> s AND MCAP_STS_FIFO_OVERFLOW_MASK = 0 \<and> s AND MCAP_STS_EOS_MASK \<noteq> 0"

lemma mcap_ready_runs:
  assumes "mcap_ready env d c s"
  shows "\<exists>w'. IsConfigureMCapReqSet env d w = (False, w') \<and> cfg_writes (trace w') = cfg_writes (trace w)"
    "\<exists>w'. IsErrSet env d w = (False, w') \<and> cfg_writes (trace w') = cfg_writes (trace w)"
    "\<exists>w'. IsRegReadComplete env d w = (False, w') \<and> cfg_writes (trace w') = cfg_writes (trace w)"
    "\<exists>w'. IsFifoOverflow env d w = (False, w') \<and> cfg_writes (trace w') = cfg_writes (trace w)"
    "\<exists>w'. MCapRegRead env d MCAP_CONTROL w = (c, w') \<and> cfg_writes (trace w') = cfg_writes (trace w)"
    "\<exists>w'. Checkforcompletion env d w = (0, w') \<and> cfg_writes (trace w') = cfg_writes (trace w)"
  using assms
  by (auto simp: mcap_ready_def IsConfigureMCapReqSet_def IsErrSet_def IsRegReadComplete_def IsFifoOverflow_def
      MCapRegRead_def Checkforcompletion_def completion_loop.simps [of env d 0] Let_def)

text \<open>The word the setup writes: mode, in use and register protection set, the resets, the register
  read and, for the second stage, the design switch cleared.\<close>

definition setup_word :: "bool \<Rightarrow> u32 \<Rightarrow> u32" where
  "setup_word sw c =
    (let set = (c OR (MCAP_CTRL_MODE_MASK OR MCAP_CTRL_IN_USE_MASK OR MCAP_CTRL_DATA_REG_PROT_MASK))
       AND NOT (MCAP_CTRL_RESET_MASK OR MCAP_CTRL_MOD_RESET_MASK OR MCAP_CTRL_REG_READ_MASK)
     in if sw then set AND NOT MCAP_CTRL_DESIGN_SWITCH_MASK else set)"

lemma bitstream_mcap_setup_run:
  assumes "mcap_ready env d c s"
  shows "\<exists>w'. bitstream_mcap_setup env sw d w = (0, c, w')
    \<and> cfg_writes (trace w') = cfg_writes (trace w) @ [(mcap_base d + MCAP_CONTROL, setup_word sw c)]"
proof -
  obtain w1 where w1: "MCapRegRead env d MCAP_CONTROL w = (c, w1)" "cfg_writes (trace w1) = cfg_writes (trace w)"
    using mcap_ready_runs(5) [OF assms] by blast
  obtain w2 where w2: "IsConfigureMCapReqSet env d w1 = (False, w2)" "cfg_writes (trace w2) = cfg_writes (trace w1)"
    using mcap_ready_runs(1) [OF assms] by blast
  obtain w3 where w3: "IsErrSet env d w2 = (False, w3)" "cfg_writes (trace w3) = cfg_writes (trace w2)"
    using mcap_ready_runs(2) [OF assms] by blast
  obtain w4 where w4: "IsRegReadComplete env d w3 = (False, w4)" "cfg_writes (trace w4) = cfg_writes (trace w3)"
    using mcap_ready_runs(3) [OF assms] by blast
  obtain w5 where w5: "IsFifoOverflow env d w4 = (False, w5)" "cfg_writes (trace w5) = cfg_writes (trace w4)"
    using mcap_ready_runs(4) [OF assms] by blast
  obtain w6 where w6: "MCapRegRead env d MCAP_CONTROL w5 = (c, w6)" "cfg_writes (trace w6) = cfg_writes (trace w5)"
    using mcap_ready_runs(5) [OF assms] by blast
  show ?thesis
    using w1 w2 w3 w4 w5 w6
    by (simp add: bitstream_mcap_setup_def MCapClearRequestByConfigure_def setup_failed_def setup_word_def Let_def)
qed

lemma bitstream_mcap_helper_run:
  "4 * n \<le> length bs \<Longrightarrow> \<exists>w'. bitstream_mcap_helper d bs n w = Some w'
    \<and> cfg_writes (trace w') = cfg_writes (trace w) @ map (Pair (mcap_base d + MCAP_DATA)) (take n (be_words bs))"
proof (induction n arbitrary: bs w)
  case (Suc n)
  then obtain b3 b2 b1 b0 cs where bs: "bs = b3 # b2 # b1 # b0 # cs" by (cases bs rule: be_words.cases) auto
  with Suc.IH [of cs "MCapRegWrite d MCAP_DATA (be32 b3 b2 b1 b0) w"] Suc.prems show ?case by simp
qed simp

text \<open>C16: The download of a second stage through the MCAP of a card at rest: the configuration writes are
  exactly the setup of the control register, the payload's words in order to the data register, and
  the restored control register with the design switch set; it returns 0 and no memory is kept.\<close>

theorem mcap_download_delivers:
  assumes "mcap_ready env d c s" "\<forall>tr ob. mem_ok env tr ob" "len \<noteq> 0"
    and "1 \<le> m" "m < 2 ^ 16" "names_ok names" "unat L \<le> length payload"
    and "length (header_bytes m z names L) + unat L \<le> unat len"
  shows "\<exists>w'. bitstream_mcap env (header_bytes m z names L @ payload) len d w = Some (0, w')
    \<and> cfg_writes (trace w') = cfg_writes (trace w) @ [(mcap_base d + MCAP_CONTROL, setup_word True c)]
        @ map (Pair (mcap_base d + MCAP_DATA)) (take (unat L div 4) (be_words payload))
        @ [(mcap_base d + MCAP_CONTROL, c OR MCAP_CTRL_DESIGN_SWITCH_MASK)]
    \<and> obj_net (trace w') = obj_net (trace w)"
proof -
  let ?hb = "header_bytes m z names L" and ?ph = "parsed_header m z names L"
  have b: "length ?hb + unat L < 2 ^ 32" using assms(8) unsigned_less [of len, where ?'a = nat] by simp
  have p: "bitstream_parse_header env (?hb @ payload) DMA_HWICAP_BITFILE_BUFFER_SIZE header0 w = Some (0, ?ph, string_allocs w)"
    by (rule parse_header_complete [OF _ assms(4-6) bytes_match_self]) (use assms(2) in simp)
  note hl = header_fits [OF b]
  have n: "\<not> HeaderLength ?ph + BitstreamLength ?ph > len"
    using hl(1) assms(8) by (simp add: parsed_header_def word_less_nat_alt not_less)
  have BL: "BitstreamLength ?ph = L" by (simp add: parsed_header_def)
  have d4: "unat (L div 4) = unat L div 4" by (simp add: unat_div)
  obtain w1 where w1: "bitstream_mcap_setup env True d (string_allocs w) = (0, c, w1)"
    "cfg_writes (trace w1) = cfg_writes (trace w) @ [(mcap_base d + MCAP_CONTROL, setup_word True c)]"
    using bitstream_mcap_setup_run [OF assms(1), of True "string_allocs w"] by auto
  have "4 * (unat L div 4) \<le> length payload" using assms(7) by (metis le_trans times_div_less_eq_dividend)
  then obtain w2 where w2: "bitstream_mcap_helper d payload (unat L div 4) w1 = Some w2"
    "cfg_writes (trace w2) = cfg_writes (trace w1) @ map (Pair (mcap_base d + MCAP_DATA)) (take (unat L div 4) (be_words payload))"
    using bitstream_mcap_helper_run by blast
  obtain w3 where w3: "Checkforcompletion env d w2 = (0, w3)" "cfg_writes (trace w3) = cfg_writes (trace w2)"
    using mcap_ready_runs(6) [OF assms(1)] by blast
  obtain w4 where w4: "IsErrSet env d w3 = (False, w4)" "cfg_writes (trace w4) = cfg_writes (trace w3)"
    using mcap_ready_runs(2) [OF assms(1)] by blast
  obtain w5 where w5: "IsFifoOverflow env d w4 = (False, w5)" "cfg_writes (trace w5) = cfg_writes (trace w4)"
    using mcap_ready_runs(4) [OF assms(1)] by blast
  let ?w6 = "free_header ?ph (MCapRegWrite d MCAP_CONTROL (c OR MCAP_CTRL_DESIGN_SWITCH_MASK) w5)"
  have r: "bitstream_mcap env (?hb @ payload) len d w = Some (0, ?w6)"
    unfolding bitstream_mcap_def p BL
    using assms(3) n w1(1) w2(1) w3(1) w4(1) w5(1)
    by (simp add: BL hl(2) d4 write_failed_def Let_def)
  moreover have "cfg_writes (trace ?w6) = cfg_writes (trace w) @ [(mcap_base d + MCAP_CONTROL, setup_word True c)]
        @ map (Pair (mcap_base d + MCAP_DATA)) (take (unat L div 4) (be_words payload))
        @ [(mcap_base d + MCAP_CONTROL, c OR MCAP_CTRL_DESIGN_SWITCH_MASK)]"
    using w1(2) w2(2) w3(2) w4(2) w5(2) by simp
  moreover have "obj_net (trace ?w6) = obj_net (trace w)" by (rule bitstream_mcap_net [OF r])
  ultimately show ?thesis by blast
qed


lemma mcap_download_delivers_witness:
  "\<exists>w'. bitstream_mcap (env0\<lparr>cfg_read := (\<lambda>_ i. if i = 0x350 then 2 else 0)\<rparr>) (header_bytes 9 0 sample_names 8 @ sample_payload) 46 sd0 world1
      = Some (0, w') \<and> cfg_writes (trace w') = [(0x354, 0x10101), (0x358, 0xaa995566), (0x358, 0x20000000), (0x354, 0x1000)]"
proof -
  let ?env = "env0\<lparr>cfg_read := (\<lambda>_ i. if i = 0x350 then 2 else 0)\<rparr>"
  have r: "mcap_ready ?env sd0 0 2"
    by (simp add: mcap_ready_def sd0_def MCAP_CONTROL_def MCAP_STATUS_def MCAP_STS_CFG_MCAP_REQ_MASK_def MCAP_STS_ERR_MASK_def
        MCAP_STS_REG_READ_CMP_MASK_def MCAP_STS_FIFO_OVERFLOW_MASK_def MCAP_STS_EOS_MASK_def)
  have s: "setup_word True 0 = 0x10101" "MCAP_CTRL_DESIGN_SWITCH_MASK = 0x1000" by code_simp+
  have w: "be_words sample_payload = [0xaa995566, 0x20000000]" by (simp add: sample_payload_def be32_def)
  have m: "\<forall>tr ob. mem_ok ?env tr ob" by (simp add: env0_def)
  have b: "mcap_base sd0 = 0x340" by (simp add: sd0_def)
  show ?thesis
    using mcap_download_delivers [OF r m, of 46 9 sample_names 8 sample_payload 0 world1] w s b sample_names_ok
    by (auto simp: sample_header_def [symmetric] length_sample MCAP_CONTROL_def MCAP_DATA_def world1_def)
qed

subsection \<open>The request bit\<close>

lemma request_never_clears:
  assumes "\<forall>tr. cfg_read env tr (mcap_base d + MCAP_STATUS) AND MCAP_STS_CFG_MCAP_REQ_MASK \<noteq> 0"
  shows "\<exists>w'. mcap_request_loop env d n w = (- 1, w') \<and> cfg_writes (trace w') = cfg_writes (trace w)
    \<and> length (trace w') = length (trace w) + n + 1"
proof (induction n arbitrary: w)
  case 0
  show ?case using assms by (simp add: IsConfigureMCapReqSet_def MCapRegRead_def Let_def)
next
  case (Suc n)
  let ?v = "cfg_read env (trace w) (mcap_base d + MCAP_STATUS)"
  from Suc.IH [of "emit (CfgRead (mcap_base d + MCAP_STATUS) ?v) w"] show ?case
    using assms by (auto simp: IsConfigureMCapReqSet_def MCapRegRead_def Let_def)
qed

text \<open>C36: The timeout of the request bit is missed: on a card whose configuration engine never gives up
  its request, \<open>MCapClearRequestByConfigure\<close> looks at the bit \<open>MCAP_LOOP_COUNT + 1\<close> more times and
  then returns 0, because the counter has run past 0 to \<open>-1\<close> when it is tested; the control
  register is left with the mode and in-use bits set.\<close>

theorem mcap_request_timeout_missed:
  assumes "\<forall>tr. cfg_read env tr (mcap_base d + MCAP_STATUS) AND MCAP_STS_CFG_MCAP_REQ_MASK \<noteq> 0"
    and "\<forall>tr. cfg_read env tr (mcap_base d + MCAP_CONTROL) = c"
  shows "\<exists>w'. MCapClearRequestByConfigure env d w = (0, c, w')
    \<and> cfg_writes (trace w') = cfg_writes (trace w)
        @ [(mcap_base d + MCAP_CONTROL, c OR (MCAP_CTRL_MODE_MASK OR MCAP_CTRL_IN_USE_MASK))]
    \<and> length (trace w') = length (trace w) + MCAP_LOOP_COUNT + 4"
proof -
  let ?w1 = "emit (CfgRead (mcap_base d + MCAP_CONTROL) c) w"
  let ?v = "cfg_read env (trace ?w1) (mcap_base d + MCAP_STATUS)"
  let ?w2 = "emit (CfgRead (mcap_base d + MCAP_STATUS) ?v) ?w1"
  let ?w3 = "MCapRegWrite d MCAP_CONTROL (c OR (MCAP_CTRL_MODE_MASK OR MCAP_CTRL_IN_USE_MASK)) ?w2"
  obtain w4 where w4: "mcap_request_loop env d MCAP_LOOP_COUNT ?w3 = (- 1, w4)" "cfg_writes (trace w4) = cfg_writes (trace ?w3)"
    "length (trace w4) = length (trace ?w3) + MCAP_LOOP_COUNT + 1"
    using request_never_clears [OF assms(1)] by blast
  have r: "MCapRegRead env d MCAP_CONTROL w = (c, ?w1)" using assms(2) by (simp add: MCapRegRead_def)
  have q: "IsConfigureMCapReqSet env d ?w1 = (True, ?w2)"
    using assms(1) by (simp add: IsConfigureMCapReqSet_def MCapRegRead_def Let_def)
  have "MCapClearRequestByConfigure env d w = (0, c, w4)"
    using w4(1) by (simp add: MCapClearRequestByConfigure_def r q Let_def)
  then show ?thesis using w4(2,3) by (simp add: MCapRegWrite_def)
qed

lemma mcap_request_timeout_missed_witness:
  "\<exists>w'. MCapClearRequestByConfigure (env0\<lparr>cfg_read := (\<lambda>_ _. 0x1000000)\<rparr>) sd0 world1 = (0, 0x1000000, w')"
  using mcap_request_timeout_missed [of "env0\<lparr>cfg_read := (\<lambda>_ _. 0x1000000)\<rparr>" sd0 "0x1000000" world1]
  by (auto simp: MCAP_STS_CFG_MCAP_REQ_MASK_def)

subsection \<open>The result of a control request that stashes\<close>

text \<open>C37: A container with a clearing bitstream hides the result of the download: whatever error the
  download of the primary bitstream returned, the request returns 0 once the clearing bitstream
  was copied, and the device then keeps it.\<close>

theorem bitstream_ioctl_hides_error:
  fixes w :: "'w kworld_scheme"
  assumes "\<forall>tr. copy_fails env tr = 0" "\<forall>tr. mem_ok env tr ObjStash" "\<forall>tr s. svc_rc env tr s \<noteq> 0"
    and "xclbin = field64 (user_bytes env (trace w) arg 16) 8"
    and "\<forall>tr. xclBin_of (user_bytes env tr xclbin 128) = bin" "m_magic bin = xclbin_magic"
    and "m_primaryFirmwareOffset bin + m_primaryFirmwareLength bin \<le> m_length bin"
    and "m_secondaryFirmwareOffset bin + m_secondaryFirmwareLength bin \<le> m_length bin"
    and "m_secondaryFirmwareLength bin \<noteq> 0"
    and "\<And>w :: 'w kworld_scheme. \<exists>d1 w1. bitstream_ioctl_icap env (xclbin + m_primaryFirmwareOffset bin) (m_primaryFirmwareLength bin) d w = Some (err, d1, w1)"
  shows "\<exists>d' w'. bitstream_ioctl env XDMA_IOCICAPDOWNLOAD arg d w = Some (0, d', w')
    \<and> clear_bitstream_length (stash d') = ucast (m_secondaryFirmwareLength bin) \<and> clear_bitstream (stash d') \<noteq> None"
proof -
  let ?w1 = "emit (CopyFromUser xclbin 128) (emit (CopyFromUser arg 16) w)"
  obtain ok w2 where sv: "svc_call env (SvcAccessOk xclbin (m_length bin)) ?w1 = (ok, w2)" "ok \<noteq> 0"
    using assms(3) by (auto simp: svc_call_def Let_def)
  obtain d1 w3 where dl: "bitstream_ioctl_icap env (xclbin + m_primaryFirmwareOffset bin) (m_primaryFirmwareLength bin) d w2
      = Some (err, d1, w3)" using assms(10) by blast
  have "bitstream_ioctl env XDMA_IOCICAPDOWNLOAD arg d w = Some (stash_secondary env xclbin bin err d1 w3)"
    using assms(1,5-8) sv dl
    by (simp add: bitstream_ioctl_def copy_from_user_def assms(4) [symmetric] not_less [symmetric] Let_def)
  then show ?thesis
    using assms(1,2,9) by (auto simp: stash_secondary_def kalloc_def copy_from_user_def Let_def)
qed


text \<open>A container whose primary bitstream is not one, and whose clearing bitstream is there.\<close>

definition bad_mem :: "u64 \<Rightarrow> u8" where
  "bad_mem a = (if a = 0x1009 then 0x20 else if a = 0x2000 then 0x78 else if a = 0x2001 then 0x63 else if a = 0x2002 then 0x6c
     else if a = 0x2003 then 0x62 else if a = 0x2004 then 0x69 else if a = 0x2005 then 0x6e else if a = 0x2006 then 0x30
     else if a = 0x2009 then 1 else if a = 0x2050 then 0x80 else if a = 0x2058 then 0x40
     else if a = 0x2060 then 0xc0 else if a = 0x2068 then 0x40 else 0)"

definition bad_env :: kenv where
  "bad_env = env0\<lparr>user_mem := (\<lambda>_. bad_mem), svc_rc := (\<lambda>_ _. 1)\<rparr>"

definition bad_bin :: xclBin where
  "bad_bin = \<lparr>m_magic = xclbin_magic, m_length = 0x100, m_primaryFirmwareOffset = 0x80, m_primaryFirmwareLength = 0x40,
     m_secondaryFirmwareOffset = 0xc0, m_secondaryFirmwareLength = 0x40\<rparr>"

lemma bad_bytes: "user_bytes bad_env tr a n = map (\<lambda>i. bad_mem (a + of_nat i)) [0..<n]"
  by (simp add: user_bytes_def bad_env_def)

lemma bad_byte: "i < n \<Longrightarrow> byte_at (user_bytes bad_env tr a n) i = Some (bad_mem (a + of_nat i))"
  by (simp add: byte_at_def bad_bytes)

lemma take_drop_map_upt: "k + l \<le> n \<Longrightarrow> take l (drop k (map f [0..<n])) = map f [k..<k + l]"
  by (simp add: drop_map take_map drop_upt take_upt)

lemma bad_struct:
  "field64 (map (\<lambda>i. bad_mem (0x1000 + of_nat i)) [0..<16]) 8 = 0x2000"
  "xclBin_of (map (\<lambda>i. bad_mem (0x2000 + of_nat i)) [0..<128]) = bad_bin"
proof -
  have z: "field64 (map f [0..<n]) k = le_word (map f [k..<k + 8])" if "k + 8 \<le> n" for f k n
    unfolding field64_def by (subst take_drop_map_upt) (use that in simp_all)
  have t: "take 8 (map f [0..<128]) = map f [0..<8]" for f :: "nat \<Rightarrow> u8"
    using take_drop_map_upt [of 0 8 128 f] by (simp only: drop_0 add_0)
  show "field64 (map (\<lambda>i. bad_mem (0x1000 + of_nat i)) [0..<16]) 8 = 0x2000"
    by (subst z) (simp_all add: upt_conv_Cons bad_mem_def)
  show "xclBin_of (map (\<lambda>i. bad_mem (0x2000 + of_nat i)) [0..<128]) = bad_bin"
    unfolding xclBin_of_def t bad_bin_def xclbin_magic_def
    by (subst z, simp)+ (simp add: upt_conv_Cons bad_mem_def)
qed

lemma parse_no_magic:
  assumes "byte_at bs 0 = Some 0" "byte_at bs 1 = Some 0" "byte_at bs 2 = Some 0"
  shows "\<exists>h. bitstream_parse_header env bs sz header0 w = Some (- 1, h, w) \<and> bit_string h = (\<lambda>_. None)"
proof -
  have "unat (be16 0 0 - 1) = Suc (2 ^ 32 - 2)" by (simp add: be16_def unsigned_minus_1_eq_mask mask_eq_exp_minus_1)
  then have "magic_loop bs (unat (be16 0 0 - 1)) 0 2 = Some (False, 3)"
    using assms(3) by (simp only: magic_loop.simps) (simp add: XHI_EVEN_MAGIC_BYTE_def)
  then show ?thesis using assms(1,2) by (simp add: bitstream_parse_header_def header0_def)
qed

lemma bad_download: "\<exists>d1 w1. bitstream_ioctl_icap bad_env 0x2080 0x40 sd0 w = Some (- 22, d1, w1)"
proof -
  let ?d = "sd0\<lparr>axi_gate_frozen := True\<rparr>"
  have e: "copy_fails bad_env tr = 0" "mem_ok bad_env tr ob" for tr ob by (simp_all add: bad_env_def env0_def)
  have z: "bad_mem 0x2080 = 0" "bad_mem 0x2081 = 0" "bad_mem 0x2082 = 0" by (simp_all add: bad_mem_def)
  obtain w1 where w1: "freezeAXIGate bad_env sd0 w = Some (?d, w1)" using freezeAXIGate_run [OF sd0_base(2,1)] by metis
  let ?w2 = "emit (CopyFromUser 0x2080 1024) (emit (Alloc ObjBitBuf) w1)"
  let ?bs = "user_bytes bad_env (trace (emit (Alloc ObjBitBuf) w1)) 0x2080 1024"
  have "byte_at ?bs 0 = Some 0" "byte_at ?bs 1 = Some 0" "byte_at ?bs 2 = Some 0"
    using bad_byte [of 0 1024 "trace (emit (Alloc ObjBitBuf) w1)"] bad_byte [of 1 1024 "trace (emit (Alloc ObjBitBuf) w1)"]
      bad_byte [of 2 1024 "trace (emit (Alloc ObjBitBuf) w1)"] z by simp_all
  from parse_no_magic [OF this] obtain h where
    h: "bitstream_parse_header bad_env ?bs 1024 header0 ?w2 = Some (- 1, h, ?w2)" by blast
  obtain w3 where w3: "freeAXIGate bad_env ?d ?w2 = Some (?d\<lparr>axi_gate_frozen := False\<rparr>, w3)"
    using freeAXIGate_run [of ?d "0x1000000" bad_env ?w2] sd0_base(1) by auto
  have "clear_bitstream (stash sd0) = None" by (simp add: sd0_def)
  then have "bitstream_ioctl_icap bad_env 0x2080 0x40 sd0 w = free_buffers bad_env (- EINVAL) True h ?d ?w2"
    using w1 h e
    by (simp add: bitstream_ioctl_icap_def bitstream_clear_icap_def kalloc_def copy_from_user_def
        DMA_HWICAP_BITFILE_BUFFER_SIZE_def)
  then show ?thesis using w3 by (simp add: free_buffers_def)
qed

lemma bitstream_ioctl_hides_error_witness:
  "(\<exists>d1 w1. bitstream_ioctl_icap bad_env 0x2080 0x40 sd0 world1 = Some (- 22, d1, w1))
    \<and> (\<exists>d' w'. bitstream_ioctl bad_env XDMA_IOCICAPDOWNLOAD 0x1000 sd0 world1 = Some (0, d', w'))"
proof -
  have "\<forall>tr. copy_fails bad_env tr = 0" "\<forall>tr. mem_ok bad_env tr ObjStash" "\<forall>tr s. svc_rc bad_env tr s \<noteq> 0"
    by (simp_all add: bad_env_def env0_def)
  moreover have "0x2000 = field64 (user_bytes bad_env (trace world1) 0x1000 16) 8"
    "\<forall>tr. xclBin_of (user_bytes bad_env tr 0x2000 128) = bad_bin"
    by (simp_all only: bad_bytes bad_struct simp_thms)
  ultimately show ?thesis
    using bitstream_ioctl_hides_error [of bad_env "0x2000" world1 "0x1000" bad_bin sd0 "- 22"] bad_download
    by (auto simp: bad_bin_def)
qed

end
