(* ===== verification/Accel_Ioctl.thy ===== *)
theory Accel_Ioctl
  imports Download_Account
begin

section \<open>The control device\<close>

text \<open>
  The rest of \<open>xdma-ioctl.c\<close>: the hot reset of the card through its root port, the reset of a
  card that is found running, and the dispatcher of the control requests. \<open>reinit\<close> calls
  \<open>interrupts_enable\<close>, which \<open>xdma-core.h\<close> declares and no file defines; it is the parameter
  \<open>ie\<close>.
\<close>

definition engine_reinit :: "xdma_engine \<Rightarrow> 'w kworld_scheme \<Rightarrow> 'w kworld_scheme" where
  "engine_reinit e w =
    write_register (XDMA_CTRL_IE_DESC_STOPPED OR XDMA_CTRL_IE_DESC_COMPLETED OR XDMA_CTRL_IE_DESC_ALIGN_MISMATCH
      OR XDMA_CTRL_IE_MAGIC_STOPPED OR XDMA_CTRL_IE_READ_ERROR OR XDMA_CTRL_IE_DESC_ERROR)
      (engine_interrupt_enable_mask (e_regs e)) w"

fun reinit_loop :: "sd_dev \<Rightarrow> (nat \<times> nat) list \<Rightarrow> 'w kworld_scheme \<Rightarrow> 'w kworld_scheme option" where
  "reinit_loop d [] w = Some w"
| "reinit_loop d ((dir, ch) # cs) w =
    (if eng_ptr (sd_lro d) (ch, dir) then do {
       e \<leftarrow> eng_heap (sd_lro d) (ch, dir);
       reinit_loop d cs (engine_reinit e w) }
     else reinit_loop d cs w)"

definition reinit ::
  "(sd_dev \<Rightarrow> addr \<Rightarrow> u32 \<Rightarrow> 'w kworld_scheme \<Rightarrow> int \<times> 'w kworld_scheme) \<Rightarrow> sd_dev \<Rightarrow> 'w kworld_scheme
   \<Rightarrow> (int \<times> 'w kworld_scheme) option" where
  "reinit ie d w = do {
     let (rc, w) = ie d XDMA_OFS_INT_CTRL 0x00ffffff w;
     w \<leftarrow> reinit_loop d (List.product [0..<2] [0..<XDMA_CHANNEL_NUM_MAX]) w;
     Some (rc, w) }"


subsection \<open>Hot reset\<close>

text \<open>The configuration space of the card, read, written back and compared word by word.\<close>

fun cfg_save :: "kenv \<Rightarrow> nat list \<Rightarrow> u32 list \<Rightarrow> 'w kworld_scheme \<Rightarrow> u32 list \<times> 'w kworld_scheme" where
  "cfg_save env [] cfg w = (cfg, w)"
| "cfg_save env (i # is) cfg w =
    (let v = cfg_read env (trace w) i in cfg_save env is (cfg[i div 4 := v]) (emit (CfgRead i v) w))"

fun cfg_restore :: "nat list \<Rightarrow> u32 list \<Rightarrow> 'w kworld_scheme \<Rightarrow> 'w kworld_scheme" where
  "cfg_restore [] cfg w = w"
| "cfg_restore (i # is) cfg w = cfg_restore is cfg (emit (CfgWrite i (cfg ! (i div 4))) w)"

definition cfg_offsets :: "nat list" where "cfg_offsets = map (\<lambda>k. 4 * k) [0..<0x40]"

text \<open>The card's function has a bus and a root port (\<open>root\<close>), or \<open>BUG_ON\<close> stops the kernel before the
  test that was to report their absence. The words the last loop reads are only compared for a
  warning.\<close>

definition reset_hot_ioctl ::
  "(sd_dev \<Rightarrow> addr \<Rightarrow> u32 \<Rightarrow> 'w kworld_scheme \<Rightarrow> int \<times> 'w kworld_scheme) \<Rightarrow> bool \<Rightarrow> kenv \<Rightarrow> sd_dev
   \<Rightarrow> 'w kworld_scheme \<Rightarrow> (int \<times> 'w kworld_scheme) option" where
  "reset_hot_ioctl ie root env d w = do {
     bug_on (\<not> root);
     (case kalloc env ObjPciCfg w of
        (False, w) \<Rightarrow> Some (- ENOMEM, w)
      | (True, w) \<Rightarrow> do {
          let (cfg, w) = cfg_save env cfg_offsets (replicate 0x40 0) w;
          let hot = rp_read env (trace w);
          let w = emit (RpRead hot) w;
          let w = emit (RpWrite (hot OR 0x40)) w;
          let w = emit (RpWrite hot) w;
          let w = cfg_restore cfg_offsets cfg w;
          let (_, w) = cfg_save env cfg_offsets (replicate 0x40 0) w;
          (err, w) \<leftarrow> reinit ie d w;
          Some (err, kfree ObjPciCfg w) }) }"

definition reset_device_if_running ::
  "(sd_dev \<Rightarrow> addr \<Rightarrow> u32 \<Rightarrow> 'w kworld_scheme \<Rightarrow> int \<times> 'w kworld_scheme) \<Rightarrow> bool \<Rightarrow> kenv \<Rightarrow> sd_dev
   \<Rightarrow> 'w kworld_scheme \<Rightarrow> (int \<times> sd_dev \<times> 'w kworld_scheme) option" where
  "reset_device_if_running ie root env d w = do {
     (busy, w) \<leftarrow> compute_unit_busy env d w;
     if busy = 0 then Some (0, d, w)
     else do {
       (rc, d, w) \<leftarrow> reset_ocl_ioctl env d w;
       if rc = 0 then Some (0, d, w)
       else do {
         (rc, w) \<leftarrow> reset_hot_ioctl ie root env d w;
         Some (rc, d, w) } } }"

subsection \<open>The dispatcher\<close>

definition XDMA_IOC_MAGIC :: u32 where "XDMA_IOC_MAGIC = 0x78"
definition XDMA_XCL_MAGIC :: u32 where "XDMA_XCL_MAGIC = 0x586C0C6C"
definition XDMA_IOCINFO :: u32 where "XDMA_IOCINFO = 0xC0287801"
definition XDMA_IOCHOTRESET :: u32 where "XDMA_IOCHOTRESET = 0x40087804"
definition XDMA_IOCOCLRESET :: u32 where "XDMA_IOCOCLRESET = 0x40087805"
definition XDMA_IOCFREQSCALING :: u32 where "XDMA_IOCFREQSCALING = 0xC00C7806"

text \<open>\<open>_IOC_TYPE\<close>, \<open>_IOC_DIR\<close> and \<open>_IOC_SIZE\<close> of \<open>linux/ioctl.h\<close>: the second byte, the top two bits
  and the fourteen bits below them.\<close>

definition IOC_TYPE :: "u32 \<Rightarrow> u32" where "IOC_TYPE cmd = drop_bit 8 cmd AND 0xff"
definition IOC_DIR :: "u32 \<Rightarrow> u32" where "IOC_DIR cmd = drop_bit 30 cmd"
definition IOC_SIZE :: "u32 \<Rightarrow> u32" where "IOC_SIZE cmd = drop_bit 16 cmd AND 0x3fff"

definition char_ctrl_ioctl ::
  "(sd_dev \<Rightarrow> addr \<Rightarrow> u32 \<Rightarrow> 'w kworld_scheme \<Rightarrow> int \<times> 'w kworld_scheme) \<Rightarrow> bool \<Rightarrow> kenv \<Rightarrow> char_slot
   \<Rightarrow> u32 \<Rightarrow> u64 \<Rightarrow> sd_dev \<Rightarrow> 'w kworld_scheme \<Rightarrow> (int \<times> sd_dev \<times> 'w kworld_scheme) option" where
  "char_ctrl_ioctl ie root env sl cmd arg d w = do {
     _ \<leftarrow> file_char (sd_lro d) sl;
     if \<not> (sl = SlotUser \<and> char_ptr (sd_lro d) SlotUser) then Some (- ENOTTY, d, w)
     else if IOC_TYPE cmd \<noteq> XDMA_IOC_MAGIC then Some (- ENOTTY, d, w)
     else do {
       let (ok, w) = (if IOC_DIR cmd \<noteq> 0 then svc_call env (SvcAccessOk arg (ucast (IOC_SIZE cmd))) w else (1, w));
       if ok = 0 then Some (- EFAULT, d, w)
       else (case copy_from_user env arg 8 w of
         (None, w) \<Rightarrow> Some (- EFAULT, d, w)
       | (Some obj, w) \<Rightarrow>
           (if field32 obj 0 \<noteq> XDMA_XCL_MAGIC then Some (- ENOTTY, d, w)
            else if cmd = XDMA_IOCINFO then do { (rc, w) \<leftarrow> version_ioctl env arg d w; Some (rc, d, w) }
            else if cmd = XDMA_IOCICAPDOWNLOAD \<or> cmd = XDMA_IOCMCAPDOWNLOAD then bitstream_ioctl env cmd arg d w
            else if cmd = XDMA_IOCOCLRESET then reset_ocl_ioctl env d w
            else if cmd = XDMA_IOCHOTRESET then do { (rc, w) \<leftarrow> reset_hot_ioctl ie root env d w; Some (rc, d, w) }
            else if cmd = XDMA_IOCFREQSCALING then ocl_freqscaling_ioctl env arg d w
            else Some (- ENOTTY, d, w))) } }"


subsection \<open>The account of a control request\<close>

lemma compute_unit_loop_net [same_net]:
  "compute_unit_loop env base is r w = (r', w') \<Longrightarrow> obj_net (trace w') = obj_net (trace w)"
  by (induction "is" arbitrary: r w) (auto simp: Let_def)

lemma compute_unit_busy_net [same_net]:
  "compute_unit_busy env d w = Some (r, w') \<Longrightarrow> obj_net (trace w') = obj_net (trace w)"
  by (auto simp: compute_unit_busy_def bind_Some_iff split: if_splits simp del: compute_unit_loop.simps
      dest!: compute_unit_loop_net)

lemma get_ocl_frequency_net [same_net]:
  "get_ocl_frequency env d w = Some (f, w') \<Longrightarrow> obj_net (trace w') = obj_net (trace w)"
  by (auto simp: get_ocl_frequency_def bind_Some_iff split: if_splits)

lemma clock_wait_loop_net [same_net]:
  "clock_wait_loop env base n v w = (v', w') \<Longrightarrow> obj_net (trace w') = obj_net (trace w)"
  by (induction n arbitrary: v w) (auto simp: Let_def)

lemma version_ioctl_net [same_net]:
  "version_ioctl env arg d w = Some (rc, w') \<Longrightarrow> obj_net (trace w') = obj_net (trace w)"
  by (auto simp: version_ioctl_def copy_from_user_def copy_to_user_def bind_Some_iff split: if_splits
      dest!: get_ocl_frequency_net)

text \<open>An operation that keeps the account and leaves the gate open.\<close>

definition kept_open :: "sd_dev \<Rightarrow> 'w kworld_scheme \<Rightarrow> sd_dev \<Rightarrow> 'w kworld_scheme \<Rightarrow> bool" where
  "kept_open d w d' w' \<longleftrightarrow> kept d w d' w' \<and> \<not> axi_gate_frozen d'"

lemma reset_ocl_ioctl_kept:
  assumes "reset_ocl_ioctl env d w = Some (rc, d', w')" "\<not> axi_gate_frozen d"
  shows "kept_open d w d' w'"
proof -
  obtain b w1 where c: "compute_unit_busy env d w = Some (b, w1)"
    using assms(1) by (auto simp: reset_ocl_ioctl_def bind_Some_iff)
  have k: "kept d w d w1" by (rule kept_net [OF compute_unit_busy_net [OF c]])
  show ?thesis
  proof (cases "b = 0")
    case True
    then show ?thesis using assms c k by (auto simp: reset_ocl_ioctl_def kept_open_def)
  next
    case False
    then obtain d2 w2 d3 w3 b4 where "freezeAXIGate env d w1 = Some (d2, w2)" "freeAXIGate env d2 w2 = Some (d3, w3)"
      "compute_unit_busy env d3 w3 = Some (b4, w')" "d' = d3"
      using assms(1) c by (auto simp: reset_ocl_ioctl_def bind_Some_iff)
    then show ?thesis
      using k gate_kept compute_unit_busy_net kept_net unfolding kept_open_def by (metis kept_trans)
  qed
qed

lemma clock_done_kept:
  assumes "clock_done env err d w = Some (rc, d', w')" shows "kept_open d w d' w'"
proof -
  obtain f w1 where "get_ocl_frequency env d w = Some (f, w1)" "freeAXIGate env d w1 = Some (d', w')"
    using assms by (auto simp: clock_done_def bind_Some_iff)
  then show ?thesis
    using get_ocl_frequency_net gate_kept(2) kept_net unfolding kept_open_def by (metis kept_trans)
qed

lemma clock_program_kept:
  assumes "clock_program env base idx d w = Some (rc, d', w')" shows "kept_open d w d' w'"
proof -
  have l: "obj_net (trace (snd (clock_wait_loop env base n v w1))) = obj_net (trace w1)" for n v and w1 :: "'a kworld_scheme"
    by (rule clock_wait_loop_net [OF prod.collapse [symmetric]])
  obtain e w1 where "clock_done env e d w1 = Some (rc, d', w')" "obj_net (trace w1) = obj_net (trace w)"
    using assms l by (auto simp: clock_program_def Let_def case_prod_beta split: if_splits simp del: clock_wait_loop.simps)
  then show ?thesis
    using clock_done_kept kept_net unfolding kept_open_def by (metis kept_trans)
qed

lemma ocl_freqscaling_ioctl_kept:
  assumes "ocl_freqscaling_ioctl env arg d w = Some (rc, d', w')" "\<not> axi_gate_frozen d"
  shows "kept_open d w d' w'"
proof -
  consider "d' = d" "obj_net (trace w') = obj_net (trace w)"
    | d2 w1 w2 base idx where "freezeAXIGate env d w1 = Some (d2, w2)" "clock_program env base idx d2 w2 = Some (rc, d', w')"
      "obj_net (trace w1) = obj_net (trace w)"
    using assms(1)
    by (auto simp: ocl_freqscaling_ioctl_def copy_from_user_def bind_Some_iff Let_def split: if_splits
        dest!: compute_unit_busy_net get_ocl_frequency_net)
  then show ?thesis
  proof cases
    case 1
    then show ?thesis using assms(2) by (simp add: kept_open_def kept_net)
  next
    case 2
    have "kept d w d2 w2" using gate_kept(1) [OF 2(1)] kept_net [OF 2(3)] by (blast intro: kept_trans)
    then show ?thesis
      using clock_program_kept [OF 2(2)] unfolding kept_open_def by (blast intro: kept_trans)
  qed
qed


subsection \<open>The configuration space across a hot reset\<close>

lemma cfg_save_run:
  assumes "a + n \<le> length cfg"
  shows "\<exists>vs w'. cfg_save env (map (\<lambda>k. 4 * k) [a..<a + n]) cfg w = (take a cfg @ vs @ drop (a + n) cfg, w')
    \<and> length vs = n \<and> trace w' = trace w @ map (\<lambda>j. CfgRead (4 * (a + j)) (vs ! j)) [0..<n]
    \<and> kworld.more w' = kworld.more w"
  using assms
proof (induction n arbitrary: a cfg w)
  case (Suc n)
  let ?v = "cfg_read env (trace w) (4 * a)"
  let ?w1 = "emit (CfgRead (4 * a) ?v) w"
  from Suc.IH [of "Suc a" "cfg[a := ?v]" ?w1] Suc.prems obtain vs w' where
    v: "cfg_save env (map (\<lambda>k. 4 * k) [Suc a..<Suc a + n]) (cfg[a := ?v]) ?w1
      = (take (Suc a) (cfg[a := ?v]) @ vs @ drop (Suc a + n) (cfg[a := ?v]), w')"
    "length vs = n" "trace w' = trace ?w1 @ map (\<lambda>j. CfgRead (4 * (Suc a + j)) (vs ! j)) [0..<n]"
    "kworld.more w' = kworld.more ?w1" by auto
  have u: "[a..<a + Suc n] = a # [Suc a..<Suc a + n]" by (simp add: upt_conv_Cons)
  have t: "take (Suc a) (cfg[a := ?v]) = take a cfg @ [?v]" using Suc.prems by (simp add: take_Suc_update)
  have m: "map (\<lambda>j. CfgRead (4 * (a + j)) ((?v # vs) ! j)) [0..<Suc n]
      = CfgRead (4 * a) ?v # map (\<lambda>j. CfgRead (4 * (Suc a + j)) (vs ! j)) [0..<n]"
    by (simp only: upt_conv_Cons zero_less_Suc list.map map_Suc_upt [symmetric] map_map) simp
  have "cfg_save env (map (\<lambda>k. 4 * k) [a..<a + Suc n]) cfg w = (take a cfg @ (?v # vs) @ drop (a + Suc n) cfg, w')"
    unfolding u using v(1) t Suc.prems by (simp del: upt_Suc)
  moreover have "trace w' = trace w @ map (\<lambda>j. CfgRead (4 * (a + j)) ((?v # vs) ! j)) [0..<Suc n]"
    unfolding m using v(3) by simp
  ultimately show ?case
    using v(2,4) by (intro exI [of _ "?v # vs"] exI [of _ w']) (simp del: upt_Suc)
next
  case 0
  then show ?case by (auto intro!: exI [of _ "[]"])
qed

lemma cfg_restore_trace:
  "trace (cfg_restore is cfg w) = trace w @ map (\<lambda>i. CfgWrite i (cfg ! (i div 4))) is
    \<and> kworld.more (cfg_restore is cfg w) = kworld.more w"
  by (induction "is" arbitrary: w) auto

lemma cfg_save_all:
  assumes "cfg_offsets = map (\<lambda>k. 4 * k) [0..<N]"
  shows "\<exists>vs w'. cfg_save env cfg_offsets (replicate N 0) w = (vs, w') \<and> length vs = N
    \<and> trace w' = trace w @ map (\<lambda>j. CfgRead (4 * j) (vs ! j)) [0..<N]"
  using cfg_save_run [of 0 N "replicate N 0" env w] unfolding assms by auto

text \<open>C24: A hot reset reads the 64 words of the card's configuration space, toggles bit 6 of the root
  port's \<open>PCI_MIN_GNT\<close> on and back off, and then writes back exactly the words it had read, in
  order, before it reads them again and re-initialises the interrupts and engines; its result is
  the one of the re-initialisation, and the buffer is freed.\<close>

theorem hot_reset_restores:
  assumes "\<forall>tr. mem_ok env tr ObjPciCfg" "\<And>w. \<exists>w'. reinit ie d w = Some (rc, w')"
  shows "\<exists>vs us h rest w' w2. length vs = 0x40 \<and> length us = 0x40
    \<and> reset_hot_ioctl ie True env d w = Some (rc, w')
    \<and> trace w2 = trace w @ Alloc ObjPciCfg # map (\<lambda>j. CfgRead (4 * j) (vs ! j)) [0..<0x40]
        @ [RpRead h, RpWrite (h OR 0x40), RpWrite h] @ map (\<lambda>j. CfgWrite (4 * j) (vs ! j)) [0..<0x40]
        @ map (\<lambda>j. CfgRead (4 * j) (us ! j)) [0..<0x40]
    \<and> reinit ie d w2 = Some (rc, rest) \<and> trace w' = trace rest @ [Free ObjPciCfg]"
proof -
  obtain N :: nat where N: "N = 0x40" by blast
  have co: "cfg_offsets = map (\<lambda>k. 4 * k) [0..<N]" by (simp only: cfg_offsets_def N)
  let ?w1 = "emit (Alloc ObjPciCfg) w"
  obtain vs w2 where v: "cfg_save env cfg_offsets (replicate N 0) ?w1 = (vs, w2)" "length vs = N"
    "trace w2 = trace ?w1 @ map (\<lambda>j. CfgRead (4 * j) (vs ! j)) [0..<N]"
    using cfg_save_all [OF co, of env ?w1] by blast
  let ?h = "rp_read env (trace w2)"
  let ?w3 = "emit (RpWrite ?h) (emit (RpWrite (?h OR 0x40)) (emit (RpRead ?h) w2))"
  let ?w4 = "cfg_restore cfg_offsets vs ?w3"
  obtain us w5 where u: "cfg_save env cfg_offsets (replicate N 0) ?w4 = (us, w5)" "length us = N"
    "trace w5 = trace ?w4 @ map (\<lambda>j. CfgRead (4 * j) (us ! j)) [0..<N]"
    using cfg_save_all [OF co, of env ?w4] by blast
  have r: "map (\<lambda>i. CfgWrite i (vs ! (i div 4))) cfg_offsets = map (\<lambda>j. CfgWrite (4 * j) (vs ! j)) [0..<N]"
    unfolding co by simp
  obtain w6 where w6: "reinit ie d w5 = Some (rc, w6)" using assms(2) by blast
  have run: "reset_hot_ioctl ie True env d w = Some (rc, kfree ObjPciCfg w6)"
    using assms(1) v(1) u(1) w6 unfolding reset_hot_ioctl_def N [symmetric] by (simp add: kalloc_def Let_def)
  have tr: "trace w5 = trace w @ Alloc ObjPciCfg # map (\<lambda>j. CfgRead (4 * j) (vs ! j)) [0..<N]
        @ [RpRead ?h, RpWrite (?h OR 0x40), RpWrite ?h] @ map (\<lambda>j. CfgWrite (4 * j) (vs ! j)) [0..<N]
        @ map (\<lambda>j. CfgRead (4 * j) (us ! j)) [0..<N]"
    unfolding u(3) using cfg_restore_trace [of cfg_offsets vs ?w3] v(3) unfolding r by simp
  show ?thesis
    unfolding N [symmetric]
    by (rule exI [of _ vs], rule exI [of _ us], rule exI [of _ ?h], rule exI [of _ w6],
        rule exI [of _ "kfree ObjPciCfg w6"], rule exI [of _ w5], intro conjI, rule v(2), rule u(2), rule run, rule tr,
        rule w6, rule trace_kfree)
qed


lemma reinit_loop_idle: "\<forall>p. \<not> eng_ptr (sd_lro d) p \<Longrightarrow> reinit_loop d cs w = Some w"
  by (induction cs) auto

text \<open>In the examples \<open>interrupts_enable\<close> writes the mask to the register its name in \<open>xdma-core.h\<close>
  suggests.\<close>

definition sample_ie :: "sd_dev \<Rightarrow> addr \<Rightarrow> u32 \<Rightarrow> 'w kworld_scheme \<Rightarrow> int \<times> 'w kworld_scheme" where
  "sample_ie d ofs m w = (0, write_register m (0x1000000 + ofs + 4) w)"

lemma sample_reinit: "\<exists>w'. reinit sample_ie sd0 w = Some (0, w')"
proof -
  have e: "\<forall>p. \<not> eng_ptr (sd_lro sd0) p" by (simp add: sd0_def dev0_def)
  show ?thesis by (simp add: reinit_def sample_ie_def reinit_loop_idle [OF e])
qed

lemma hot_reset_restores_witness: "\<exists>w'. reset_hot_ioctl sample_ie True env0 sd0 world1 = Some (0, w')"
proof -
  have "\<forall>tr. mem_ok env0 tr ObjPciCfg" by (simp add: env0_def)
  from hot_reset_restores [of env0 sample_ie sd0 0 world1, OF this sample_reinit] show ?thesis by blast
qed

subsection \<open>The account of every control request\<close>

lemma reinit_loop_net: "reinit_loop d cs w = Some w' \<Longrightarrow> obj_net (trace w') = obj_net (trace w)"
  by (induction cs arbitrary: w) (auto simp: bind_Some_iff engine_reinit_def split: if_splits)

lemma cfg_loops_net:
  "obj_net (trace (snd (cfg_save env is cfg w))) = obj_net (trace w)"
  "obj_net (trace (cfg_restore is cfg w)) = obj_net (trace w)"
  by (induction "is" arbitrary: cfg w) (simp_all add: Let_def)

lemma reset_hot_ioctl_net:
  assumes "reset_hot_ioctl ie root env d w = Some (rc, w')"
    and "\<And>m w rc w'. ie d XDMA_OFS_INT_CTRL m w = (rc, w') \<Longrightarrow> obj_net (trace w') = obj_net (trace w)"
  shows "obj_net (trace w') = obj_net (trace w)"
proof -
  have r: "obj_net (trace w2) = obj_net (trace w1)" if "reinit ie d w1 = Some (rc, w2)" for rc w1 w2
  proof -
    obtain rc' w3 where "ie d XDMA_OFS_INT_CTRL 0xffffff w1 = (rc', w3)" by (cases "ie d XDMA_OFS_INT_CTRL 0xffffff w1")
    then show ?thesis using that assms(2) by (auto simp: reinit_def bind_Some_iff dest!: reinit_loop_net)
  qed
  show ?thesis
    using assms(1) by (auto simp: reset_hot_ioctl_def bind_Some_iff kalloc_def Let_def case_prod_beta cfg_loops_net fun_eq_iff
        split: if_splits dest!: r)
qed

text \<open>C8: Whatever the card, the allocator and user space do, a control request that returns has given
  back all the memory it took apart from the clearing bitstream the device keeps, has left the AXI
  gate open, and has not touched the state of the DMA part of the driver.\<close>

theorem char_ctrl_ioctl_accounts:
  assumes "char_ctrl_ioctl ie root env sl cmd arg d w = Some (rc, d', w')" "\<not> axi_gate_frozen d"
    and "\<And>m w rc w'. ie d XDMA_OFS_INT_CTRL m w = (rc, w') \<Longrightarrow> obj_net (trace w') = obj_net (trace w)"
  shows "\<not> axi_gate_frozen d' \<and> sd_lro d' = sd_lro d
    \<and> obj_net (trace w') ob - own_stash d' ob = obj_net (trace w) ob - own_stash d ob"
proof -
  consider "d' = d" "obj_net (trace w') = obj_net (trace w)"
    | w1 where "bitstream_ioctl env cmd arg d w1 = Some (rc, d', w')" "obj_net (trace w1) = obj_net (trace w)"
    | w1 where "reset_ocl_ioctl env d w1 = Some (rc, d', w')" "obj_net (trace w1) = obj_net (trace w)"
    | w1 where "ocl_freqscaling_ioctl env arg d w1 = Some (rc, d', w')" "obj_net (trace w1) = obj_net (trace w)"
    using assms(1)
    by (auto simp: char_ctrl_ioctl_def bind_Some_iff svc_call_def copy_from_user_def Let_def split: if_splits
        dest!: version_ioctl_net reset_hot_ioctl_net [OF _ assms(3)])
  then have "kept_open d w d' w'"
  proof cases
    case 1
    then show ?thesis using assms(2) by (simp add: kept_open_def kept_net)
  next
    case 2
    then show ?thesis
      using bitstream_ioctl_kept [OF _ assms(2)] kept_net unfolding kept_open_def by (metis kept_trans)
  next
    case 3
    then show ?thesis
      using reset_ocl_ioctl_kept [OF _ assms(2)] kept_net unfolding kept_open_def by (metis kept_trans)
  next
    case 4
    then show ?thesis
      using ocl_freqscaling_ioctl_kept [OF _ assms(2)] kept_net unfolding kept_open_def by (metis kept_trans)
  qed
  then show ?thesis by (simp add: kept_open_def kept_def)
qed


definition sd1 :: sd_dev where
  "sd1 = sd0\<lparr>sd_lro := (sd_lro sd0)\<lparr>char_ptr := (\<lambda>s. s = SlotUser), char_heap := [SlotUser \<mapsto> \<lparr>c_magic = MAGIC_CHAR,
     c_major = 240, c_minor = 0, c_bar = 0, c_engine = None, c_user_irq = None, sys_device = True\<rparr>]\<rparr>\<rparr>"

definition ioctl_env :: kenv where
  "ioctl_env = env0\<lparr>user_mem := (\<lambda>_ a. if a = 0x1000 then 0x6C else if a = 0x1001 then 0x0C else if a = 0x1002 then 0x6C
     else if a = 0x1003 then 0x58 else 0), svc_rc := (\<lambda>_ _. 1)\<rparr>"

lemma char_ctrl_ioctl_accounts_witness:
  "\<exists>w'. char_ctrl_ioctl sample_ie True ioctl_env SlotUser XDMA_IOCOCLRESET 0x1000 sd1 world1 = Some (0, sd1, w')
    \<and> obj_net (trace w') ObjBitBuf = 0"
proof -
  have f: "field32 (user_bytes ioctl_env [Svc (SvcAccessOk 0x1000 8) 1] 0x1000 8) 0 = XDMA_XCL_MAGIC"
    by code_simp
  have c: "file_char (sd_lro sd1) SlotUser \<noteq> None" by (simp add: file_char_def sd1_def sd0_def dev0_def)
  have u: "user_base sd1 = Some 0x1000000" "char_ptr (sd_lro sd1) SlotUser"
    by (simp_all add: user_base_def sd1_def sd0_def bar_at_def XDMA_BAR_NUM_def)
  have e: "copy_fails ioctl_env tr = 0" "hw_read ioctl_env tr a = 0" "svc_rc ioctl_env tr s = 1" for tr a s
    by (simp_all add: ioctl_env_def env0_def)
  have n: "XDMA_IOCOCLRESET \<noteq> XDMA_IOCINFO" "XDMA_IOCOCLRESET \<noteq> XDMA_IOCICAPDOWNLOAD" "XDMA_IOCOCLRESET \<noteq> XDMA_IOCMCAPDOWNLOAD"
    "IOC_TYPE XDMA_IOCOCLRESET = XDMA_IOC_MAGIC" "IOC_DIR XDMA_IOCOCLRESET \<noteq> 0" "IOC_SIZE XDMA_IOCOCLRESET = 8"
    by code_simp+
  have r: "\<exists>w'. char_ctrl_ioctl sample_ie True ioctl_env SlotUser XDMA_IOCOCLRESET 0x1000 sd1 world1 = Some (0, sd1, w')"
    using c u f
    by (auto simp: char_ctrl_ioctl_def n e svc_call_def copy_from_user_def reset_ocl_ioctl_def compute_unit_busy_def world1_def)
  then obtain w' where w': "char_ctrl_ioctl sample_ie True ioctl_env SlotUser XDMA_IOCOCLRESET 0x1000 sd1 world1 = Some (0, sd1, w')"
    by blast
  have "\<not> axi_gate_frozen sd1" by (simp add: sd1_def sd0_def)
  from char_ctrl_ioctl_accounts [OF w' this, of ObjBitBuf] have "obj_net (trace w') ObjBitBuf = obj_net (trace world1) ObjBitBuf"
    by (simp add: sample_ie_def)
  then show ?thesis using w' by (simp add: world1_def)
qed

end
