(* ===== verification/Host_Channel.thy ===== *)
theory Host_Channel
  imports Prelude
begin

section \<open>The host side: time, channels and control registers\<close>

text \<open>
  The user-space test program under \<open>src/host_code\<close>: the time arithmetic of \<open>utils.c\<close>, the reads
  and writes of a DMA channel of \<open>channel_readwrite.c\<close>, the search for enabled channels of
  \<open>ctrl_register_read.c\<close> and the look-up in \<open>/proc/devices\<close> of \<open>device_check.c\<close>. The program runs in
  user space, so \<open>None\<close> is here an \<open>assert\<close> that fails, an \<open>exit(1)\<close>, or an access outside an
  array. The operating system and the card behind the device files are the record \<open>henv\<close>; every
  call is appended to the log \<open>calls\<close>, and each answer may depend on the calls made before it. What
  is on the card is of a type \<open>'c\<close> of its own. Memory is a list of 32-bit cells, which hold a
  \<open>float\<close> or an \<open>unsigned int\<close>: every transfer of the program is a whole number of cells.
\<close>

subsection \<open>Time\<close>

record timespec =
  tv_sec :: int
  tv_nsec :: int

definition BILLION :: int where "BILLION = 1000000000"

definition normalized :: "timespec \<Rightarrow> bool" where
  "normalized t \<longleftrightarrow> 0 \<le> tv_nsec t \<and> tv_nsec t < BILLION"

definition timespec_init :: timespec where
  "timespec_init = \<lparr>tv_sec = 0, tv_nsec = 0\<rparr>"

definition timespec_sub :: "timespec \<Rightarrow> timespec \<Rightarrow> timespec option" where
  "timespec_sub t1 t2 = do {
     bug_on (\<not> (tv_nsec t1 \<ge> 0));
     bug_on (\<not> (tv_nsec t1 < BILLION));
     bug_on (\<not> (tv_nsec t2 \<ge> 0));
     bug_on (\<not> (tv_nsec t2 < BILLION));
     let t1 = t1\<lparr>tv_sec := tv_sec t1 - tv_sec t2\<rparr>;
     let t1 = t1\<lparr>tv_nsec := tv_nsec t1 - tv_nsec t2\<rparr>;
     Some (if tv_nsec t1 < 0 then t1\<lparr>tv_sec := tv_sec t1 - 1, tv_nsec := tv_nsec t1 + BILLION\<rparr> else t1) }"

definition timespec_add :: "timespec \<Rightarrow> timespec \<Rightarrow> timespec option" where
  "timespec_add t1 t2 = do {
     bug_on (\<not> (tv_nsec t1 \<ge> 0));
     bug_on (\<not> (tv_nsec t1 < BILLION));
     bug_on (\<not> (tv_nsec t2 \<ge> 0));
     bug_on (\<not> (tv_nsec t2 < BILLION));
     let t1 = t1\<lparr>tv_sec := tv_sec t1 + tv_sec t2\<rparr>;
     let t1 = t1\<lparr>tv_nsec := tv_nsec t1 + tv_nsec t2\<rparr>;
     Some (if tv_nsec t1 \<ge> BILLION then t1\<lparr>tv_sec := tv_sec t1 + 1, tv_nsec := tv_nsec t1 - BILLION\<rparr> else t1) }"

text \<open>A time in nanoseconds: what the pair of fields stands for.\<close>

definition nanos :: "timespec \<Rightarrow> int" where
  "nanos t = tv_sec t * BILLION + tv_nsec t"

lemma timespec_init_normalized [simp]: "normalized timespec_init" "nanos timespec_init = 0"
  by (simp_all add: normalized_def timespec_init_def BILLION_def nanos_def)

lemma timespec_sub_Some:
  assumes "normalized a" "normalized b"
  shows "\<exists>t. timespec_sub a b = Some t \<and> normalized t \<and> nanos t = nanos a - nanos b"
  using assms by (auto simp: timespec_sub_def normalized_def nanos_def BILLION_def Let_def algebra_simps)

lemma timespec_add_Some:
  assumes "normalized a" "normalized b"
  shows "\<exists>t. timespec_add a b = Some t \<and> normalized t \<and> nanos t = nanos a + nanos b"
  using assms by (auto simp: timespec_add_def normalized_def nanos_def BILLION_def Let_def algebra_simps)

lemma timespec_sub_None: "\<not> normalized a \<or> \<not> normalized b \<Longrightarrow> timespec_sub a b = None"
  by (auto simp: timespec_sub_def normalized_def bug_on_bind)

subsection \<open>The operating system and the card\<close>

datatype hcall =
    GetTime timespec
  | MemAlign nat
  | OpenDev string int
  | SeekTo int u32
  | WriteDev u32 "u32 list" int
  | ReadDev u32 nat int
  | CloseFd int
  | FreeMem
  | MapRegs
  | ReadReg nat u32
  | UnmapRegs

record 'c henv =
  os_clock :: "hcall list \<Rightarrow> timespec"
  os_memalign :: "hcall list \<Rightarrow> nat \<Rightarrow> bool"
  os_open :: "hcall list \<Rightarrow> string \<Rightarrow> int"
  dev_write :: "hcall list \<Rightarrow> u32 \<Rightarrow> u32 list \<Rightarrow> 'c \<Rightarrow> int \<times> 'c"
  dev_read :: "hcall list \<Rightarrow> u32 \<Rightarrow> nat \<Rightarrow> 'c \<Rightarrow> int \<times> u32 list \<times> 'c"
  os_mmap :: "hcall list \<Rightarrow> bool"
  ctrl_reg :: "hcall list \<Rightarrow> nat \<Rightarrow> u32"
  os_munmap :: "hcall list \<Rightarrow> bool"
  proc_devices :: "string list option"

record 'c hworld =
  on_card :: 'c
  calls :: "hcall list"

definition log_call :: "hcall \<Rightarrow> 'c hworld \<Rightarrow> 'c hworld" where
  "log_call x w = w\<lparr>calls := calls w @ [x]\<rparr>"

definition clock_gettime :: "'c henv \<Rightarrow> 'c hworld \<Rightarrow> timespec \<times> 'c hworld" where
  "clock_gettime env w = (let t = os_clock env (calls w) in (t, log_call (GetTime t) w))"

definition posix_memalign :: "'c henv \<Rightarrow> nat \<Rightarrow> 'c hworld \<Rightarrow> 'c hworld option" where
  "posix_memalign env n w = (if os_memalign env (calls w) n then Some (log_call (MemAlign n) w) else None)"

definition open_dev :: "'c henv \<Rightarrow> string \<Rightarrow> 'c hworld \<Rightarrow> int \<times> 'c hworld" where
  "open_dev env name w = (let fd = os_open env (calls w) name in (fd, log_call (OpenDev name fd) w))"

definition write_dev :: "'c henv \<Rightarrow> u32 \<Rightarrow> u32 list \<Rightarrow> 'c hworld \<Rightarrow> int \<times> 'c hworld" where
  "write_dev env addr xs w =
    (let (rc, c) = dev_write env (calls w) addr xs (on_card w)
     in (rc, log_call (WriteDev addr xs rc) (w\<lparr>on_card := c\<rparr>)))"

text \<open>A read stores cells at the start of a buffer of \<open>n\<close> cells that was zeroed before.\<close>

definition read_dev :: "'c henv \<Rightarrow> u32 \<Rightarrow> nat \<Rightarrow> 'c hworld \<Rightarrow> int \<times> u32 list \<times> 'c hworld" where
  "read_dev env addr n w =
    (let (rc, xs, c) = dev_read env (calls w) addr n (on_card w)
     in (rc, take n (xs @ replicate n 0), log_call (ReadDev addr n rc) (w\<lparr>on_card := c\<rparr>)))"

lemma log_call_card [simp]: "on_card (log_call x w) = on_card w"
  by (simp add: log_call_def)

subsection \<open>Arrays\<close>

text \<open>A load, a store and a copy between arrays; outside an array there is no result.\<close>

definition load :: "u32 list \<Rightarrow> nat \<Rightarrow> u32 option" where
  "load xs k = (if k < length xs then Some (xs ! k) else None)"

definition store :: "u32 list \<Rightarrow> nat \<Rightarrow> u32 \<Rightarrow> u32 list option" where
  "store xs k x = (if k < length xs then Some (xs[k := x]) else None)"

definition memcpy :: "u32 list \<Rightarrow> nat \<Rightarrow> u32 list \<Rightarrow> nat \<Rightarrow> nat \<Rightarrow> u32 list option" where
  "memcpy dst d src s n =
    (if d + n \<le> length dst \<and> s + n \<le> length src
     then Some (take d dst @ take n (drop s src) @ drop (d + n) dst) else None)"

lemma load_Some [simp]: "k < length xs \<Longrightarrow> load xs k = Some (xs ! k)"
  by (simp add: load_def)

lemma store_Some [simp]: "k < length xs \<Longrightarrow> store xs k x = Some (xs[k := x])"
  by (simp add: store_def)

lemma memcpy_run:
  assumes "d + n \<le> length dst" "s + n \<le> length src"
  shows "\<exists>xs. memcpy dst d src s n = Some xs \<and> length xs = length dst
    \<and> (\<forall>k < length dst. xs ! k = (if d \<le> k \<and> k < d + n then src ! (s + (k - d)) else dst ! k))"
  using assms by (auto simp: memcpy_def nth_append)

subsection \<open>Reading and writing a channel\<close>

text \<open>\<open>transferSize\<close> is in bytes, a \<open>uint32_t\<close>: callers compute it as \<open>size_t\<close> and it is cut to 32
  bits (\<open>u32_size\<close>), and \<open>transferSize + 4096\<close> may wrap around; a copy into the buffer that is then
  too small has no result. The time the function took is its result.\<close>

definition u32_size :: "nat \<Rightarrow> u32" where "u32_size n = of_nat n"

definition buffer_fits :: "u32 \<Rightarrow> bool" where
  "buffer_fits transferSize \<longleftrightarrow> unat transferSize \<le> unat (transferSize + 4096)"

lemma u32_size_run:
  assumes "n + 4096 < 2 ^ 32"
  shows "unat (u32_size n) = n" "buffer_fits (u32_size n)" "(of_nat n :: u32) = u32_size n"
proof -
  show u: "unat (u32_size n) = n" using assms by (simp add: u32_size_def unat_of_nat_small)
  have "unat (u32_size n + 4096) = n + 4096" using unat_add_small [of "u32_size n" 4096] assms by (simp add: u)
  then show "buffer_fits (u32_size n)" by (simp add: buffer_fits_def u)
qed (simp add: u32_size_def)

definition write_to_channel ::
  "'c henv \<Rightarrow> string \<Rightarrow> u32 \<Rightarrow> u32 \<Rightarrow> u32 list \<Rightarrow> nat \<Rightarrow> 'c hworld \<Rightarrow> (timespec \<times> 'c hworld) option" where
  "write_to_channel env channelDevice addr transferSize xs off w = do {
     let n = unat transferSize div 4;
     let (ts_start, w) = clock_gettime env w;
     w \<leftarrow> posix_memalign env (unat (transferSize + 4096)) w;
     bug_on (\<not> buffer_fits transferSize);
     buffer \<leftarrow> memcpy (replicate n 0) 0 xs off n;
     let (fpga_fd, w) = open_dev env channelDevice w;
     bug_on (\<not> (fpga_fd \<ge> 0));
     let w = log_call (SeekTo fpga_fd addr) w;
     let (rc, w) = write_dev env addr buffer w;
     bug_on (of_int rc \<noteq> transferSize);
     let w = log_call FreeMem (log_call (CloseFd fpga_fd) w);
     let (ts_end, w) = clock_gettime env w;
     ts_end \<leftarrow> timespec_sub ts_end ts_start;
     Some (ts_end, w) }"

definition read_from_channel ::
  "'c henv \<Rightarrow> string \<Rightarrow> u32 \<Rightarrow> u32 \<Rightarrow> u32 list \<Rightarrow> nat \<Rightarrow> 'c hworld
   \<Rightarrow> (timespec \<times> u32 list \<times> 'c hworld) option" where
  "read_from_channel env channelDevice addr transferSize out off w = do {
     let n = unat transferSize div 4;
     let (ts_start, w) = clock_gettime env w;
     w \<leftarrow> posix_memalign env (unat (transferSize + 4096)) w;
     bug_on (\<not> buffer_fits transferSize);
     let (fpga_fd, w) = open_dev env channelDevice w;
     bug_on (\<not> (fpga_fd \<ge> 0));
     let w = log_call (SeekTo fpga_fd addr) w;
     let (rc, buffer, w) = read_dev env addr n w;
     out \<leftarrow> memcpy out off buffer 0 n;
     let w = log_call FreeMem (log_call (CloseFd fpga_fd) w);
     let (ts_end, w) = clock_gettime env w;
     ts_end \<leftarrow> timespec_sub ts_end ts_start;
     Some (ts_end, out, w) }"

text \<open>The profiling versions read the clock around every step and return the time of the transfer.
  The reading one subtracts from \<open>ts_global_end\<close> before it has set it: \<open>garbage\<close> is what the stack
  holds there.\<close>

definition write_to_channel_verbose ::
  "'c henv \<Rightarrow> string \<Rightarrow> u32 \<Rightarrow> u32 \<Rightarrow> u32 list \<Rightarrow> nat \<Rightarrow> 'c hworld \<Rightarrow> (timespec \<times> 'c hworld) option" where
  "write_to_channel_verbose env channelDevice addr transferSize xs off w = do {
     let n = unat transferSize div 4;
     let (ts_global_start, w) = clock_gettime env w;
     let (ts_mem_start, w) = clock_gettime env w;
     w \<leftarrow> posix_memalign env (unat (transferSize + 4096)) w;
     bug_on (\<not> buffer_fits transferSize);
     buffer \<leftarrow> memcpy (replicate n 0) 0 xs off n;
     let (ts_mem_end, w) = clock_gettime env w;
     let (ts_open_start, w) = clock_gettime env w;
     let (fpga_fd, w) = open_dev env channelDevice w;
     bug_on (\<not> (fpga_fd \<ge> 0));
     let (ts_open_end, w) = clock_gettime env w;
     let w = log_call (SeekTo fpga_fd addr) w;
     let (ts_write_start, w) = clock_gettime env w;
     let (rc, w) = write_dev env addr buffer w;
     bug_on (of_int rc \<noteq> transferSize);
     let (ts_write_end, w) = clock_gettime env w;
     let (ts_close_start, w) = clock_gettime env w;
     let w = log_call (CloseFd fpga_fd) w;
     let (ts_close_end, w) = clock_gettime env w;
     let (ts_cleanup_start, w) = clock_gettime env w;
     let w = log_call FreeMem w;
     let (ts_cleanup_end, w) = clock_gettime env w;
     let (ts_global_end, w) = clock_gettime env w;
     _ \<leftarrow> timespec_sub ts_global_end ts_global_start;
     _ \<leftarrow> timespec_sub ts_mem_end ts_mem_start;
     _ \<leftarrow> timespec_sub ts_open_end ts_open_start;
     ts_write_end \<leftarrow> timespec_sub ts_write_end ts_write_start;
     _ \<leftarrow> timespec_sub ts_close_end ts_close_start;
     _ \<leftarrow> timespec_sub ts_cleanup_end ts_cleanup_start;
     Some (ts_write_end, w) }"

definition read_from_channel_verbose ::
  "'c henv \<Rightarrow> timespec \<Rightarrow> string \<Rightarrow> u32 \<Rightarrow> u32 \<Rightarrow> u32 list \<Rightarrow> nat \<Rightarrow> 'c hworld
   \<Rightarrow> (timespec \<times> u32 list \<times> 'c hworld) option" where
  "read_from_channel_verbose env garbage channelDevice addr transferSize out off w = do {
     let n = unat transferSize div 4;
     let (ts_global_start, w) = clock_gettime env w;
     let (ts_mem_start, w) = clock_gettime env w;
     w \<leftarrow> posix_memalign env (unat (transferSize + 4096)) w;
     bug_on (\<not> buffer_fits transferSize);
     let (ts_mem_end, w) = clock_gettime env w;
     let (ts_open_start, w) = clock_gettime env w;
     let (fpga_fd, w) = open_dev env channelDevice w;
     bug_on (\<not> (fpga_fd \<ge> 0));
     let (ts_open_end, w) = clock_gettime env w;
     let w = log_call (SeekTo fpga_fd addr) w;
     let (ts_read_start, w) = clock_gettime env w;
     let (rc, buffer, w) = read_dev env addr n w;
     let (ts_read_end, w) = clock_gettime env w;
     out \<leftarrow> memcpy out off buffer 0 n;
     _ \<leftarrow> timespec_sub garbage ts_global_start;
     let (ts_close_start, w) = clock_gettime env w;
     let w = log_call (CloseFd fpga_fd) w;
     let (ts_close_end, w) = clock_gettime env w;
     let (ts_cleanup_start, w) = clock_gettime env w;
     let w = log_call FreeMem w;
     let (ts_cleanup_end, w) = clock_gettime env w;
     let (ts_global_end, w) = clock_gettime env w;
     _ \<leftarrow> timespec_sub ts_global_end ts_global_start;
     _ \<leftarrow> timespec_sub ts_mem_end ts_mem_start;
     _ \<leftarrow> timespec_sub ts_open_end ts_open_start;
     ts_read_end \<leftarrow> timespec_sub ts_read_end ts_read_start;
     _ \<leftarrow> timespec_sub ts_close_end ts_close_start;
     _ \<leftarrow> timespec_sub ts_cleanup_end ts_cleanup_start;
     Some (ts_read_end, out, w) }"

text \<open>An operating system that has memory and opens the devices, and whose clock is normalized.\<close>

definition os_good :: "'c henv \<Rightarrow> bool" where
  "os_good env \<longleftrightarrow> (\<forall>cs. normalized (os_clock env cs)) \<and> (\<forall>cs n. os_memalign env cs n)
     \<and> (\<forall>cs name. 0 \<le> os_open env cs name)"

lemma timespec_sub_clock:
  assumes "os_good env"
  obtains f where "\<And>cs cs'. timespec_sub (os_clock env cs) (os_clock env cs') = Some (f cs cs')"
    "\<And>cs cs'. normalized (f cs cs')"
proof -
  have "\<forall>cs cs'. \<exists>t. timespec_sub (os_clock env cs) (os_clock env cs') = Some t \<and> normalized t"
    using assms timespec_sub_Some unfolding os_good_def by blast
  then show ?thesis using that by metis
qed

lemmas channel_run = clock_gettime_def posix_memalign_def open_dev_def write_dev_def read_dev_def
  Let_def case_prod_beta bug_on_bind

text \<open>What a transfer does to the card, where every answer of the card to it is known.\<close>

lemma write_to_channel_run:
  assumes "os_good env" "len + 4096 < 2 ^ 32" "off + len div 4 \<le> length xs"
    and "\<And>cs. \<exists>c. dev_write env cs addr (take (len div 4) (drop off xs)) (on_card w) = (int len, c) \<and> Q c"
  shows "\<exists>t w'. write_to_channel env dev addr (u32_size len) xs off w = Some (t, w') \<and> normalized t \<and> Q (on_card w')"
proof -
  have m: "memcpy (replicate (len div 4) 0) 0 xs off (len div 4) = Some (take (len div 4) (drop off xs))"
    using assms(3) by (simp add: memcpy_def)
  have o: "os_memalign env cs n" "0 \<le> os_open env cs name" for cs n name
    using assms(1) by (simp_all add: os_good_def)
  obtain f where t: "\<And>cs cs'. timespec_sub (os_clock env cs) (os_clock env cs') = Some (f cs cs')"
    "\<And>cs cs'. normalized (f cs cs')"
    using timespec_sub_clock [OF assms(1)] by blast
  obtain g where g: "\<And>cs. dev_write env cs addr (take (len div 4) (drop off xs)) (on_card w) = (int len, g cs)"
    "\<And>cs. Q (g cs)"
    using assms(4) by metis
  show ?thesis
    by (simp add: write_to_channel_def channel_run u32_size_run [OF assms(2)] m o g t)
qed

lemma read_from_channel_run:
  assumes "os_good env" "len + 4096 < 2 ^ 32" "off + len div 4 \<le> length out"
    and "\<And>cs. \<exists>rc xs c. dev_read env cs addr (len div 4) (on_card w) = (rc, xs, c)
      \<and> Q (take (len div 4) (xs @ replicate (len div 4) 0)) c"
  shows "\<exists>t out' w' ys. read_from_channel env dev addr (u32_size len) out off w = Some (t, out', w') \<and> normalized t
    \<and> Q ys (on_card w') \<and> length ys = len div 4 \<and> memcpy out off ys 0 (len div 4) = Some out'"
proof -
  obtain f where t: "\<And>cs cs'. timespec_sub (os_clock env cs) (os_clock env cs') = Some (f cs cs')"
    "\<And>cs cs'. normalized (f cs cs')"
    using timespec_sub_clock [OF assms(1)] by blast
  obtain rc xs g where g: "\<And>cs. dev_read env cs addr (len div 4) (on_card w) = (rc cs, xs cs, g cs)"
    "\<And>cs. Q (take (len div 4) (xs cs @ replicate (len div 4) 0)) (g cs)"
    using assms(4) by metis
  have l: "length (take (len div 4) (xs cs @ replicate (len div 4) 0)) = len div 4" for cs
    by (simp del: take_append)
  define out' where "out' cs = take off out @ take (len div 4) (xs cs @ replicate (len div 4) 0) @ drop (off + len div 4) out" for cs
  have m: "memcpy out off (take (len div 4) (xs cs @ replicate (len div 4) 0)) 0 (len div 4) = Some (out' cs)" for cs
    using assms(3) by (simp add: memcpy_def out'_def del: take_append)
  have o: "os_memalign env cs n" "0 \<le> os_open env cs name" for cs n name
    using assms(1) by (simp_all add: os_good_def)
  obtain cs t w' where "read_from_channel env dev addr (u32_size len) out off w = Some (t, out' cs, w')" "normalized t" "on_card w' = g cs"
    using assms(3) by (simp add: read_from_channel_def channel_run u32_size_run [OF assms(2)] m o g t del: take_append)
  then show ?thesis using g(2) [of cs] l [of cs] m [of cs] by metis
qed

subsection \<open>Searching for the card and its channels\<close>

definition H2C_REG :: nat where "H2C_REG = 0x0000"
definition C2H_REG :: nat where "C2H_REG = 0x1000"

text \<open>The loop over the four offsets, from \<open>offset\<close> on.\<close>

function check_loop :: "'c henv \<Rightarrow> nat \<Rightarrow> nat \<Rightarrow> int \<Rightarrow> 'c hworld \<Rightarrow> int \<times> 'c hworld" where
  "check_loop env target offset num_ch w =
    (if offset < 0x0400
     then (let read_result = ctrl_reg env (calls w) (target + offset);
               w = log_call (ReadReg (target + offset) read_result) w;
               num_ch = (if read_result AND 0xfff00000 = 0x1fc00000 then num_ch + 1 else num_ch)
           in check_loop env target (offset + 0x0100) num_ch w)
     else (num_ch, w))"
  by pat_completeness auto
termination
  by (relation "measure (\<lambda>(_, _, offset, _, _). 0x0400 - offset)") simp_all

declare check_loop.simps [simp del]

text \<open>\<open>FATAL\<close> prints and exits.\<close>

definition check_channels :: "'c henv \<Rightarrow> nat \<Rightarrow> 'c hworld \<Rightarrow> (int \<times> 'c hworld) option" where
  "check_channels env target_addr w = do {
     let (fd, w) = open_dev env ''/dev/xdma0_control'' w;
     bug_on (fd = -1);
     bug_on (\<not> os_mmap env (calls w));
     let w = log_call MapRegs w;
     let (num_ch, w) = check_loop env target_addr 0x0000 0 w;
     bug_on (\<not> os_munmap env (calls w));
     let w = log_call UnmapRegs w;
     Some (num_ch, log_call (CloseFd fd) w) }"

definition check_h2c_channels :: "'c henv \<Rightarrow> 'c hworld \<Rightarrow> (int \<times> 'c hworld) option" where
  "check_h2c_channels env = check_channels env H2C_REG"

definition check_c2h_channels :: "'c henv \<Rightarrow> 'c hworld \<Rightarrow> (int \<times> 'c hworld) option" where
  "check_c2h_channels env = check_channels env C2H_REG"

text \<open>The words of \<open>/proc/devices\<close> in order; \<open>fscanf\<close> puts a word and its NUL into 1024 bytes.\<close>

fun device_loop :: "string list \<Rightarrow> int option" where
  "device_loop [] = Some 0"
| "device_loop (t # ts) = do {
     bug_on (length t \<ge> 1024);
     if t = ''xdma'' then Some 1 else device_loop ts }"

definition device_check :: "'c henv \<Rightarrow> int option" where
  "device_check env = do {
     ts \<leftarrow> proc_devices env;
     success_flag \<leftarrow> device_loop ts;
     bug_on (success_flag = 0);
     Some success_flag }"

lemma device_loop_finds:
  "\<forall>t\<in>set ts. length t < 1024 \<Longrightarrow> device_loop ts = Some (if ''xdma'' \<in> set ts then 1 else 0)"
  by (induction ts) auto

lemma device_check_iff:
  assumes "proc_devices env = Some ts" "\<forall>t\<in>set ts. length t < 1024"
  shows "device_check env = (if ''xdma'' \<in> set ts then Some 1 else None)"
  using assms by (simp add: device_check_def device_loop_finds)

definition channel_at :: "(nat \<Rightarrow> u32) \<Rightarrow> nat \<Rightarrow> nat \<Rightarrow> bool" where
  "channel_at R target k \<longleftrightarrow> R (target + 0x0100 * k) AND 0xfff00000 = 0x1fc00000"

lemma check_loop_counts:
  assumes "\<forall>cs. ctrl_reg env cs = R" "k \<le> 4"
  shows "fst (check_loop env target (0x0100 * k) n w) = n + int (length (filter (channel_at R target) [k..<4]))"
  using assms(2)
proof (induction "4 - k" arbitrary: k n w)
  case 0
  then show ?case by (simp add: check_loop.simps)
next
  case (Suc j)
  from Suc.hyps(2) have k: "k < 4" by simp
  let ?w = "log_call (ReadReg (target + 0x0100 * k) (R (target + 0x0100 * k))) w"
  have "[k..<4] = k # [Suc k..<4]"
    using Suc.hyps(2) by (simp add: upt_conv_Cons)
  moreover have "fst (check_loop env target (0x0100 * Suc k) m ?w) = m + int (length (filter (channel_at R target) [Suc k..<4]))" for m
    using Suc.hyps(2) by (intro Suc.hyps(1)) simp_all
  ultimately show ?case
    using k assms(1) by (subst check_loop.simps) (simp add: channel_at_def Let_def add.commute)
qed

section \<open>Properties\<close>

text \<open>C39: The sum of two times exists exactly when both are normalized (0 to 999999999 nanoseconds);
  it is normalized, is the sum in nanoseconds, and subtracting one of the times gives the other.\<close>

theorem timespec_add_normalized:
  "case timespec_add a b of
     None \<Rightarrow> \<not> (normalized a \<and> normalized b)
   | Some t \<Rightarrow> normalized a \<and> normalized b \<and> normalized t \<and> nanos t = nanos a + nanos b \<and> timespec_sub t b = Some a"
  by (auto simp: timespec_add_def timespec_sub_def normalized_def nanos_def BILLION_def Let_def bug_on_bind
      algebra_simps)

text \<open>C40: The search for channels counts the engines, of the four that can be there, whose identifier
  starts with \<open>1fc\<close>, whatever else the registers hold.\<close>

theorem check_channels_counts:
  assumes "\<forall>cs name. os_open env cs name \<noteq> -1" "\<forall>cs. os_mmap env cs" "\<forall>cs. os_munmap env cs"
    and "\<forall>cs. ctrl_reg env cs = R"
  shows "\<exists>w'. check_channels env target w = Some (int (card {k. k < 4 \<and> channel_at R target k}), w')"
proof -
  have "length (filter P [0..<n]) = card {k. k < n \<and> P k}" for P and n :: nat
    using distinct_card [of "filter P [0..<n]"] by (simp add: conj_commute)
  then show ?thesis
    using assms check_loop_counts [OF assms(4), of 0 target 0]
    by (simp add: check_channels_def open_dev_def Let_def case_prod_beta)
qed

definition henv0 :: "unit henv" where
  "henv0 = \<lparr>os_clock = \<lambda>cs. \<lparr>tv_sec = int (length cs), tv_nsec = 0\<rparr>, os_memalign = \<lambda>_ _. True, os_open = \<lambda>_ _. 3,
     dev_write = \<lambda>_ _ xs c. (4 * int (length xs), c), dev_read = \<lambda>_ _ n c. (4 * int n, replicate n 0, c),
     os_mmap = \<lambda>_. True, ctrl_reg = \<lambda>_ k. if k < 0x200 then 0x1fc00006 else 0xffffffff, os_munmap = \<lambda>_. True,
     proc_devices = Some [''248'', ''xdma'']\<rparr>"

lemma check_channels_counts_witness:
  "\<exists>w'. check_channels henv0 H2C_REG \<lparr>on_card = (), calls = []\<rparr>
     = Some (int (card {k. k < 4 \<and> channel_at (\<lambda>k. if k < 0x200 then 0x1fc00006 else 0xffffffff) H2C_REG k}), w')"
  by (rule check_channels_counts) (simp_all add: henv0_def)

end
