(* ===== verification/Host_Matrix.thy ===== *)
theory Host_Matrix
  imports Host_Channel
begin

section \<open>Matrices on the host\<close>

text \<open>
  The matrix routines of \<open>utils.c\<close>: the transposition and the reference products the results of the
  card are compared with. A matrix is an array of cells, row by row. The arithmetic of \<open>float\<close> is the
  record \<open>fpu\<close>, its two operations on the 32 bits of the numbers; \<open>0.0f\<close> is the word 0. No law of
  arithmetic is assumed of the operations. \<open>exact_fpu\<close> is what IEEE single precision promises: some
  patterns stand for integers, and a sum or product of two of them that does not exceed a bound
  (\<open>2 ^ 24\<close>) is exact.
\<close>

record fpu =
  fadd :: "u32 \<Rightarrow> u32 \<Rightarrow> u32"
  fmul :: "u32 \<Rightarrow> u32 \<Rightarrow> u32"

definition exact_fpu :: "fpu \<Rightarrow> (u32 \<Rightarrow> int option) \<Rightarrow> int \<Rightarrow> bool" where
  "exact_fpu fp val B \<longleftrightarrow> val 0 = Some 0
     \<and> (\<forall>x y a b. val x = Some a \<longrightarrow> val y = Some b \<longrightarrow> \<bar>a + b\<bar> \<le> B \<longrightarrow> val (fadd fp x y) = Some (a + b))
     \<and> (\<forall>x y a b. val x = Some a \<longrightarrow> val y = Some b \<longrightarrow> \<bar>a * b\<bar> \<le> B \<longrightarrow> val (fmul fp x y) = Some (a * b))"

lemma exact_fpu_zero: "exact_fpu fp val B \<Longrightarrow> val 0 = Some 0"
  by (simp add: exact_fpu_def)

lemma exact_fpu_add:
  "exact_fpu fp val B \<Longrightarrow> val x = Some a \<Longrightarrow> val y = Some b \<Longrightarrow> \<bar>a + b\<bar> \<le> B \<Longrightarrow> val (fadd fp x y) = Some (a + b)"
  unfolding exact_fpu_def by blast

lemma exact_fpu_mul:
  "exact_fpu fp val B \<Longrightarrow> val x = Some a \<Longrightarrow> val y = Some b \<Longrightarrow> \<bar>a * b\<bar> \<le> B \<Longrightarrow> val (fmul fp x y) = Some (a * b)"
  unfolding exact_fpu_def by blast

subsection \<open>Loops\<close>

text \<open>\<open>for (j = i; j < n; j += step)\<close>, with a body that can fail.\<close>

function for_loop :: "nat \<Rightarrow> nat \<Rightarrow> nat \<Rightarrow> (nat \<Rightarrow> 's \<Rightarrow> 's option) \<Rightarrow> 's \<Rightarrow> 's option" where
  "for_loop step n i f s =
    (if i < n \<and> 0 < step then do { s \<leftarrow> f i s; for_loop step n (i + step) f s } else Some s)"
  by pat_completeness auto
termination
  by (relation "measure (\<lambda>(step, n, i, f, s). n - i)") (auto intro: diff_less_mono2)

declare for_loop.simps [simp del]

text \<open>The rule of the loops: an invariant that the body keeps, which goes through, gives a loop that
  goes through.\<close>

lemma for_loop_rule_from:
  assumes "0 < step" "P k s"
    and "\<And>j s. step * j < n \<Longrightarrow> P j s \<Longrightarrow> \<exists>s'. f (step * j) s = Some s' \<and> P (Suc j) s'"
  shows "\<exists>s' m. for_loop step n (step * k) f s = Some s' \<and> P m s' \<and> n \<le> step * m \<and> (m = k \<or> step * (m - 1) < n)"
  using assms(2)
proof (induction "n - step * k" arbitrary: k s rule: less_induct)
  case less
  show ?case
  proof (cases "step * k < n")
    case True
    obtain s1 where s1: "f (step * k) s = Some s1" "P (Suc k) s1"
      using assms(3) [OF True less.prems] by blast
    have eq: "for_loop step n (step * k) f s = for_loop step n (step * Suc k) f s1"
      using True assms(1) s1(1) by (subst for_loop.simps) (simp add: add.commute)
    have "n - step * Suc k < n - step * k"
      using True assms(1) by simp
    from less.hyps [OF this s1(2)] obtain s' m where
      "for_loop step n (step * Suc k) f s1 = Some s'" "P m s'" "n \<le> step * m" "m = Suc k \<or> step * (m - 1) < n"
      by blast
    then show ?thesis
      using True unfolding eq by (metis diff_Suc_1)
  next
    case False
    then show ?thesis
      using less.prems by (subst for_loop.simps) auto
  qed
qed

lemma for_loop_rule:
  assumes "0 < step" "P 0 s"
    and "\<And>j s. step * j < n \<Longrightarrow> P j s \<Longrightarrow> \<exists>s'. f (step * j) s = Some s' \<and> P (Suc j) s'"
  obtains s' m where "for_loop step n 0 f s = Some s'" "P m s'" "n \<le> step * m" "m = 0 \<or> step * (m - 1) < n"
  using for_loop_rule_from [of step P 0 s n f] assms by auto

lemma for_each_rule:
  assumes "P 0 s" and "\<And>j s. j < n \<Longrightarrow> P j s \<Longrightarrow> \<exists>s'. f j s = Some s' \<and> P (Suc j) s'"
  shows "\<exists>s'. for_loop 1 n 0 f s = Some s' \<and> P n s'"
proof -
  obtain s' m where "for_loop 1 n 0 f s = Some s'" "P m s'" "n \<le> 1 * m" "m = 0 \<or> 1 * (m - 1) < n"
    using for_loop_rule [of 1 P s n f] assms by auto
  then show ?thesis by (cases "m = n") auto
qed

subsection \<open>Row-major indices\<close>

lemma row_index_less: "i < m \<Longrightarrow> j < n \<Longrightarrow> i * n + j < m * (n :: nat)"
  using mult_le_mono1 [of "Suc i" m n] by (simp add: algebra_simps)

lemma row_index_eq: "j < n \<Longrightarrow> j' < n \<Longrightarrow> i * n + j = i' * n + j' \<longleftrightarrow> i = i' \<and> j = (j' :: nat)"
  by (metis add.commute div_mult_self3 div_less add_0 add_left_cancel gr_implies_not0)

subsection \<open>Transposition\<close>

definition mat_transpose_naive :: "u32 list \<Rightarrow> u32 list \<Rightarrow> nat \<Rightarrow> nat \<Rightarrow> u32 list option" where
  "mat_transpose_naive in_matrix out_matrix num_row num_col =
    for_loop 1 num_row 0 (\<lambda>i out_matrix.
      for_loop 1 num_col 0 (\<lambda>j out_matrix. do {
        x \<leftarrow> load in_matrix (i * num_col + j);
        store out_matrix (j * num_row + i) x }) out_matrix) out_matrix"

lemma mat_transpose_naive_run:
  assumes "num_row * num_col \<le> length M" "num_row * num_col \<le> length out"
  shows "\<exists>out'. mat_transpose_naive M out num_row num_col = Some out' \<and> length out' = length out
    \<and> (\<forall>i<num_row. \<forall>j<num_col. out' ! (j * num_row + i) = M ! (i * num_col + j))"
proof -
  let ?ok = "\<lambda>i j xs. xs ! (j * num_row + i) = M ! (i * num_col + j)"
  let ?P = "\<lambda>i xs. length xs = length out \<and> (\<forall>i'<i. \<forall>j<num_col. ?ok i' j xs)"
  have "\<exists>xs'. for_loop 1 num_row 0 (\<lambda>i out_matrix. for_loop 1 num_col 0 (\<lambda>j out_matrix. do {
        x \<leftarrow> load M (i * num_col + j); store out_matrix (j * num_row + i) x }) out_matrix) out = Some xs' \<and> ?P num_row xs'"
  proof (rule for_each_rule [where P = ?P])
    fix i xs assume i: "i < num_row" and P: "?P i xs"
    have "\<exists>xs'. for_loop 1 num_col 0 (\<lambda>j out_matrix. do {
        x \<leftarrow> load M (i * num_col + j); store out_matrix (j * num_row + i) x }) xs = Some xs'
        \<and> (?P i xs' \<and> (\<forall>j<num_col. ?ok i j xs'))"
    proof (rule for_each_rule [where P = "\<lambda>j xs. ?P i xs \<and> (\<forall>j'<j. ?ok i j' xs)"])
      fix j xs assume j: "j < num_col" and Q: "?P i xs \<and> (\<forall>j'<j. ?ok i j' xs)"
      have "i * num_col + j < length M" "j * num_row + i < length xs"
        using row_index_less [OF i j] row_index_less [OF j i] assms Q by (simp_all add: mult.commute)
      moreover have "xs[j * num_row + i := y] ! (j' * num_row + i') = xs ! (j' * num_row + i')"
        if "i' < i \<or> i' = i \<and> j' < j" for i' j' y
        using row_index_eq [of i' num_row i j' j] i that by (auto intro: nth_list_update_neq)
      ultimately show "\<exists>xs'. (do { x \<leftarrow> load M (i * num_col + j); store xs (j * num_row + i) x }) = Some xs'
          \<and> (?P i xs' \<and> (\<forall>j'<Suc j. ?ok i j' xs'))"
        using Q by (auto simp: less_Suc_eq)
    qed (use P in simp)
    then show "\<exists>xs'. for_loop 1 num_col 0 (\<lambda>j out_matrix. do {
        x \<leftarrow> load M (i * num_col + j); store out_matrix (j * num_row + i) x }) xs = Some xs' \<and> ?P (Suc i) xs'"
      by (auto simp: less_Suc_eq)
  qed simp
  then show ?thesis
    unfolding mat_transpose_naive_def by blast
qed

subsection \<open>Multiply and accumulate\<close>

text \<open>\<open>out[p] += a[k] * b[l]\<close>, the step of the three reference products.\<close>

definition mac :: "fpu \<Rightarrow> u32 list \<Rightarrow> nat \<Rightarrow> u32 list \<Rightarrow> nat \<Rightarrow> u32 list \<Rightarrow> nat \<Rightarrow> u32 list option" where
  "mac fp out p a k b l = do {
     y \<leftarrow> load out p;
     x1 \<leftarrow> load a k;
     x2 \<leftarrow> load b l;
     store out p (fadd fp y (fmul fp x1 x2)) }"

definition dot :: "fpu \<Rightarrow> u32 \<Rightarrow> nat \<Rightarrow> (nat \<Rightarrow> u32) \<Rightarrow> (nat \<Rightarrow> u32) \<Rightarrow> u32" where
  "dot fp y n a b = foldl (\<lambda>y j. fadd fp y (fmul fp (a j) (b j))) y [0..<n]"

lemma mac_loop:
  assumes "p < length out" "\<And>j. j < n \<Longrightarrow> f j < length a" "\<And>j. j < n \<Longrightarrow> g j < length b"
  shows "for_loop 1 n 0 (\<lambda>j out. mac fp out p a (f j) b (g j)) out
    = Some (out[p := dot fp (out ! p) n (\<lambda>j. a ! f j) (\<lambda>j. b ! g j)])"
proof -
  have "\<exists>xs. for_loop 1 n 0 (\<lambda>j out. mac fp out p a (f j) b (g j)) out = Some xs
      \<and> xs = out[p := dot fp (out ! p) n (\<lambda>j. a ! f j) (\<lambda>j. b ! g j)]"
    by (rule for_each_rule) (simp_all add: mac_def dot_def assms)
  then show ?thesis by simp
qed

lemma dot_exact:
  assumes "exact_fpu fp val B" "val y = Some s"
    and "\<And>j. j < n \<Longrightarrow> val (a j) = Some (A j)" "\<And>j. j < n \<Longrightarrow> val (b j) = Some (X j)"
    and "\<bar>s\<bar> + (\<Sum>j<n. \<bar>A j * X j\<bar>) \<le> B"
  shows "val (dot fp y n a b) = Some (s + (\<Sum>j<n. A j * X j))"
  using assms(3-)
proof (induction n)
  case 0
  then show ?case using assms(2) by (simp add: dot_def)
next
  case (Suc n)
  have nonneg: "0 \<le> (\<Sum>j<n. \<bar>A j * X j\<bar>)"
    by (simp add: sum_nonneg)
  have y: "val (dot fp y n a b) = Some (s + (\<Sum>j<n. A j * X j))"
    using Suc.prems by (intro Suc.IH) auto
  have "\<bar>A n * X n\<bar> \<le> B"
    using Suc.prems(3) nonneg unfolding sum.lessThan_Suc by linarith
  then have x: "val (fmul fp (a n) (b n)) = Some (A n * X n)"
    using Suc.prems(1,2) by (intro exact_fpu_mul [OF assms(1)]) simp_all
  have "\<bar>s + (\<Sum>j<n. A j * X j) + A n * X n\<bar> \<le> B"
    using Suc.prems(3) sum_abs [of "\<lambda>j. A j * X j" "{..<n}"] unfolding sum.lessThan_Suc by linarith
  from exact_fpu_add [OF assms(1) y x this] show ?case
    by (simp add: dot_def add.assoc)
qed

subsection \<open>The reference products\<close>

text \<open>The reference products take their time, and add to what is in the output; the last two zero it
  first. The inner product does not.\<close>

definition timed :: "'c henv \<Rightarrow> u32 list option \<Rightarrow> 'c hworld \<Rightarrow> (timespec \<times> u32 list \<times> 'c hworld) option" where
  "timed env run w = do {
     let (ts_start, w) = clock_gettime env w;
     out \<leftarrow> run;
     let (ts_end, w) = clock_gettime env w;
     ts_end \<leftarrow> timespec_sub ts_end ts_start;
     Some (ts_end, out, w) }"

definition zero_fill :: "nat \<Rightarrow> u32 list \<Rightarrow> u32 list option" where
  "zero_fill n out = for_loop 1 n 0 (\<lambda>p out. store out p 0) out"

definition cpu_innerproduct ::
  "fpu \<Rightarrow> 'c henv \<Rightarrow> u32 list \<Rightarrow> u32 list \<Rightarrow> u32 list \<Rightarrow> nat \<Rightarrow> 'c hworld \<Rightarrow> (timespec \<times> u32 list \<times> 'c hworld) option" where
  "cpu_innerproduct fp env in_vector1 in_vector2 out n w =
    timed env (for_loop 1 n 0 (\<lambda>i out. mac fp out 0 in_vector1 i in_vector2 i) out) w"

definition cpu_matvec ::
  "fpu \<Rightarrow> 'c henv \<Rightarrow> u32 list \<Rightarrow> u32 list \<Rightarrow> u32 list \<Rightarrow> nat \<Rightarrow> nat \<Rightarrow> 'c hworld
   \<Rightarrow> (timespec \<times> u32 list \<times> 'c hworld) option" where
  "cpu_matvec fp env in_matrix in_vector out_vector num_row num_col w = do {
     out_vector \<leftarrow> zero_fill num_row out_vector;
     timed env (for_loop 1 num_row 0 (\<lambda>i out_vector.
       for_loop 1 num_col 0 (\<lambda>j out_vector.
         mac fp out_vector i in_matrix (num_col * i + j) in_vector j) out_vector) out_vector) w }"

definition cpu_matmul ::
  "fpu \<Rightarrow> 'c henv \<Rightarrow> u32 list \<Rightarrow> u32 list \<Rightarrow> u32 list \<Rightarrow> nat \<Rightarrow> nat \<Rightarrow> nat \<Rightarrow> 'c hworld
   \<Rightarrow> (timespec \<times> u32 list \<times> 'c hworld) option" where
  "cpu_matmul fp env in_matrix1 in_matrix2 out_matrix num_rowA num_colA num_colB w =
    timed env (do {
      out_matrix \<leftarrow> zero_fill (num_rowA * num_colB) out_matrix;
      for_loop 1 num_rowA 0 (\<lambda>i out_matrix.
        for_loop 1 num_colB 0 (\<lambda>j out_matrix.
          for_loop 1 num_colA 0 (\<lambda>k out_matrix.
            mac fp out_matrix (i * num_colB + j) in_matrix1 (i * num_colA + k) in_matrix2 (k * num_colB + j))
            out_matrix) out_matrix) out_matrix }) w"

lemma timed_run:
  assumes "os_good env"
  shows "\<exists>t w'. timed env (Some out) w = Some (t, out, w') \<and> normalized t \<and> on_card w' = on_card w"
proof -
  obtain f where "\<And>cs cs'. timespec_sub (os_clock env cs) (os_clock env cs') = Some (f cs cs')"
    "\<And>cs cs'. normalized (f cs cs')"
    using timespec_sub_clock [OF assms] by blast
  then show ?thesis by (simp add: timed_def channel_run)
qed

lemma zero_fill_run:
  assumes "n \<le> length out"
  shows "\<exists>out'. zero_fill n out = Some out' \<and> length out' = length out
    \<and> (\<forall>k<length out. out' ! k = (if k < n then 0 else out ! k))"
  unfolding zero_fill_def
  by (rule for_each_rule [where P = "\<lambda>n xs. length xs = length out \<and> (\<forall>k<length out. xs ! k = (if k < n then 0 else out ! k))"])
    (use assms in \<open>auto simp: less_Suc_eq\<close>)

lemma cpu_matvec_run:
  assumes "os_good env" "num_row * num_col \<le> length M" "num_col \<le> length v" "num_row \<le> length out"
  shows "\<exists>t out' w'. cpu_matvec fp env M v out num_row num_col w = Some (t, out', w')
    \<and> normalized t \<and> length out' = length out
    \<and> (\<forall>i<num_row. out' ! i = dot fp 0 num_col (\<lambda>j. M ! (num_col * i + j)) (\<lambda>j. v ! j))"
proof -
  let ?row = "\<lambda>i. dot fp 0 num_col (\<lambda>j. M ! (num_col * i + j)) (\<lambda>j. v ! j)"
  let ?P = "\<lambda>i xs. length xs = length out \<and> (\<forall>k<num_row. xs ! k = (if k < i then ?row k else 0))"
  obtain z where z: "zero_fill num_row out = Some z" "?P 0 z"
    using zero_fill_run [OF assms(4)] assms(4) by auto
  have "\<exists>xs. for_loop 1 num_row 0 (\<lambda>i out_vector. for_loop 1 num_col 0 (\<lambda>j out_vector.
         mac fp out_vector i M (num_col * i + j) v j) out_vector) z = Some xs \<and> ?P num_row xs"
  proof (rule for_each_rule [where P = ?P])
    fix i xs assume i: "i < num_row" and P: "?P i xs"
    have "num_col * i + j < length M" if "j < num_col" for j
      using row_index_less [OF i that] assms(2) by (simp add: mult.commute)
    then show "\<exists>xs'. for_loop 1 num_col 0 (\<lambda>j out_vector. mac fp out_vector i M (num_col * i + j) v j) xs = Some xs'
        \<and> ?P (Suc i) xs'"
      using P i assms(3,4) by (subst mac_loop) (auto simp: less_Suc_eq nth_list_update)
  qed (rule z(2))
  then obtain xs where "for_loop 1 num_row 0 (\<lambda>i out_vector. for_loop 1 num_col 0 (\<lambda>j out_vector.
         mac fp out_vector i M (num_col * i + j) v j) out_vector) z = Some xs" "?P num_row xs"
    by blast
  then show ?thesis
    using timed_run [OF assms(1), of xs w] by (auto simp: cpu_matvec_def z(1))
qed

lemma cpu_matmul_run:
  assumes "os_good env" "num_rowA * num_colA \<le> length A" "num_colA * num_colB \<le> length B"
    and "num_rowA * num_colB \<le> length out"
  shows "\<exists>t out' w'. cpu_matmul fp env A B out num_rowA num_colA num_colB w = Some (t, out', w')
    \<and> normalized t \<and> length out' = length out
    \<and> (\<forall>i<num_rowA. \<forall>j<num_colB. out' ! (i * num_colB + j)
          = dot fp 0 num_colA (\<lambda>k. A ! (i * num_colA + k)) (\<lambda>k. B ! (k * num_colB + j)))"
proof -
  let ?e = "\<lambda>i j. dot fp 0 num_colA (\<lambda>k. A ! (i * num_colA + k)) (\<lambda>k. B ! (k * num_colB + j))"
  let ?Q = "\<lambda>i j xs. length xs = length out \<and> (\<forall>i'<num_rowA. \<forall>j'<num_colB. xs ! (i' * num_colB + j')
      = (if i' < i \<or> i' = i \<and> j' < j then ?e i' j' else 0))"
  let ?body = "\<lambda>i j. for_loop 1 num_colA 0 (\<lambda>k out_matrix.
            mac fp out_matrix (i * num_colB + j) A (i * num_colA + k) B (k * num_colB + j))"
  have idx: "i * num_colB + j < length out" if "i < num_rowA" "j < num_colB" for i j
    using row_index_less [OF that] assms(4) by simp
  obtain z where z: "zero_fill (num_rowA * num_colB) out = Some z" "?Q 0 0 z"
    using zero_fill_run [OF assms(4)] idx by (auto simp: row_index_less)
  have row: "\<exists>xs'. for_loop 1 num_colB 0 (?body i) xs = Some xs' \<and> ?Q i num_colB xs'"
    if i: "i < num_rowA" and xs: "?Q i 0 xs" for i xs
  proof (rule for_each_rule [where P = "?Q i"])
    fix j ys assume j: "j < num_colB" and Q: "?Q i j ys"
    have a: "i * num_colA + k < length A" if "k < num_colA" for k
      using row_index_less [OF i that] assms(2) by simp
    have b: "k * num_colB + j < length B" if "k < num_colA" for k
      using row_index_less [OF that j] assms(3) by simp
    have p: "i * num_colB + j < length ys" "ys ! (i * num_colB + j) = 0"
      using idx [OF i j] Q i j by simp_all
    have "?body i j ys = Some (ys[i * num_colB + j := ?e i j])"
      using mac_loop [OF p(1), where f = "\<lambda>k. i * num_colA + k" and g = "\<lambda>k. k * num_colB + j", OF a b] p(2) by simp
    moreover have "?Q i (Suc j) (ys[i * num_colB + j := ?e i j])"
      using Q j p(1) by (auto simp: nth_list_update row_index_eq less_Suc_eq)
    ultimately show "\<exists>zs. ?body i j ys = Some zs \<and> ?Q i (Suc j) zs" by blast
  qed (use xs in simp)
  have "\<exists>xs. for_loop 1 num_rowA 0 (\<lambda>i. for_loop 1 num_colB 0 (?body i)) z = Some xs \<and> ?Q num_rowA 0 xs"
  proof (rule for_each_rule [where P = "\<lambda>i. ?Q i 0"])
    fix i xs assume i: "i < num_rowA" "?Q i 0 xs"
    from row [OF this] obtain ys where "for_loop 1 num_colB 0 (?body i) xs = Some ys" "?Q i num_colB ys"
      by blast
    moreover from this have "?Q (Suc i) 0 ys" by (auto simp: less_Suc_eq)
    ultimately show "\<exists>ys. for_loop 1 num_colB 0 (?body i) xs = Some ys \<and> ?Q (Suc i) 0 ys" by blast
  qed (rule z(2))
  then obtain xs where "for_loop 1 num_rowA 0 (\<lambda>i. for_loop 1 num_colB 0 (?body i)) z = Some xs" "?Q num_rowA 0 xs"
    by blast
  then show ?thesis
    using timed_run [OF assms(1), of xs w] by (auto simp: cpu_matmul_def z(1))
qed

section \<open>Properties\<close>

text \<open>Transposing a matrix, and transposing the result with the dimensions swapped, gives the
  matrix back, whatever was in the two output arrays.\<close>

theorem mat_transpose_twice:
  assumes "length M = num_row * num_col" "length T = num_row * num_col" "length out = num_row * num_col"
  shows "do { T' \<leftarrow> mat_transpose_naive M T num_row num_col; mat_transpose_naive T' out num_col num_row } = Some M"
proof -
  obtain T' where T': "mat_transpose_naive M T num_row num_col = Some T'" "length T' = num_row * num_col"
    "\<forall>i<num_row. \<forall>j<num_col. T' ! (j * num_row + i) = M ! (i * num_col + j)"
    using mat_transpose_naive_run [of num_row num_col M T] assms by auto
  obtain out' where out': "mat_transpose_naive T' out num_col num_row = Some out'" "length out' = num_row * num_col"
    "\<forall>j<num_col. \<forall>i<num_row. out' ! (i * num_col + j) = T' ! (j * num_row + i)"
    using mat_transpose_naive_run [of num_col num_row T' out] T'(2) assms by (auto simp: mult.commute)
  have "out' = M"
  proof (rule nth_equalityI)
    fix k assume "k < length out'"
    then have k: "k < num_row * num_col" using out'(2) by simp
    then have "k div num_col < num_row" "k mod num_col < num_col"
      by (cases "num_col = 0"; simp add: less_mult_imp_div_less)+
    then have "out' ! (k div num_col * num_col + k mod num_col) = M ! (k div num_col * num_col + k mod num_col)"
      using T'(3) out'(3) by (metis (no_types))
    then show "out' ! k = M ! k" by simp
  qed (use assms out'(2) in simp)
  with T'(1) out'(1) show ?thesis by simp
qed

lemma mat_transpose_twice_witness:
  "do { T' \<leftarrow> mat_transpose_naive [1, 2, 3, 4, 5, 6] (replicate 6 0) 2 3; mat_transpose_naive T' (replicate 6 9) 3 2 }
   = Some [1, 2, 3, 4, 5, 6]"
  by (rule mat_transpose_twice) simp_all

end
