(* ===== verification/Host_Offload.thy ===== *)
theory Host_Offload
  imports Host_Matrix
begin

section \<open>Offloading products to the card\<close>

text \<open>
  The products of \<open>fpga_offload.c\<close>: the protocol with the matrix-vector unit of the card (write the
  operands, write the opcode, poll it, read the result), and the tiled products of matrices of any
  size that are built from it. The hardware under test is not part of the repository: \<open>matvec_card\<close> says
  what the program relies on, that the unit leaves \<open>hw M v\<close> at the start of the block RAM when the
  opcode reads as something else, and \<open>exact_hw\<close> that \<open>hw\<close> is the product where that is exact.
\<close>

definition BRAM_ADDR :: u32 where "BRAM_ADDR = 0x40000000"
definition IP_ADDR :: u32 where "IP_ADDR = 0x43C00000"
definition SIZE :: nat where "SIZE = 64"

definition h2c_0 :: string where "h2c_0 = ''/dev/xdma0_h2c_0''"
definition c2h_0 :: string where "c2h_0 = ''/dev/xdma0_c2h_0''"

subsection \<open>The protocol\<close>

text \<open>\<open>while(1)\<close>: the loop may not end.\<close>

partial_function (option) wait_done ::
  "'c henv \<Rightarrow> u32 list \<Rightarrow> 'c hworld \<Rightarrow> (u32 list \<times> 'c hworld) option" where
  "wait_done env op_code w = do {
     (_, op_code, w) \<leftarrow> read_from_channel env c2h_0 IP_ADDR (u32_size 4) op_code 0 w;
     if op_code ! 0 \<noteq> 0x5555 then Some (op_code, w) else wait_done env op_code w }"

definition fpga_innerproduct ::
  "'c henv \<Rightarrow> u32 list \<Rightarrow> u32 list \<Rightarrow> u32 list \<Rightarrow> 'c hworld \<Rightarrow> (timespec \<times> u32 list \<times> 'c hworld) option" where
  "fpga_innerproduct env in_vector1 in_vector2 out w = do {
     let (ts_start, w) = clock_gettime env w;
     (_, w) \<leftarrow> write_to_channel env h2c_0 BRAM_ADDR (u32_size (4 * SIZE)) in_vector1 0 w;
     (_, w) \<leftarrow> write_to_channel env h2c_0 (BRAM_ADDR + 4 * of_nat SIZE) (u32_size (4 * SIZE)) in_vector2 0 w;
     (_, w) \<leftarrow> write_to_channel env h2c_0 IP_ADDR (u32_size 4) [0x5555] 0 w;
     (_, w) \<leftarrow> wait_done env [0x5555] w;
     (_, out, w) \<leftarrow> read_from_channel env c2h_0 BRAM_ADDR (u32_size 4) out 0 w;
     let (ts_end, w) = clock_gettime env w;
     ts_end \<leftarrow> timespec_sub ts_end ts_start;
     Some (ts_end, out, w) }"

definition fpga_matvec ::
  "'c henv \<Rightarrow> u32 list \<Rightarrow> u32 list \<Rightarrow> u32 list \<Rightarrow> 'c hworld \<Rightarrow> (timespec \<times> u32 list \<times> 'c hworld) option" where
  "fpga_matvec env in_matrix in_vector out_vector w = do {
     let (ts_start, w) = clock_gettime env w;
     (_, w) \<leftarrow> write_to_channel env h2c_0 BRAM_ADDR (u32_size (4 * SIZE)) in_vector 0 w;
     (_, w) \<leftarrow> write_to_channel env h2c_0 (BRAM_ADDR + 4 * of_nat SIZE) (u32_size (4 * SIZE * SIZE)) in_matrix 0 w;
     (_, w) \<leftarrow> write_to_channel env h2c_0 IP_ADDR (u32_size 4) [0x5555] 0 w;
     (_, w) \<leftarrow> wait_done env [0x5555] w;
     (_, out_vector, w) \<leftarrow> read_from_channel env c2h_0 BRAM_ADDR (u32_size (4 * SIZE)) out_vector 0 w;
     let (ts_end, w) = clock_gettime env w;
     ts_end \<leftarrow> timespec_sub ts_end ts_start;
     Some (ts_end, out_vector, w) }"

text \<open>The profiling version reads the result from behind the matrix.\<close>

definition fpga_matvec_verbose ::
  "'c henv \<Rightarrow> u32 list \<Rightarrow> u32 list \<Rightarrow> u32 list \<Rightarrow> 'c hworld \<Rightarrow> (u32 list \<times> 'c hworld) option" where
  "fpga_matvec_verbose env in_matrix in_vector out_vector w = do {
     let (ts_global_start, w) = clock_gettime env w;
     (_, w) \<leftarrow> write_to_channel env h2c_0 BRAM_ADDR (u32_size (4 * SIZE)) in_vector 0 w;
     (_, w) \<leftarrow> write_to_channel env h2c_0 (BRAM_ADDR + 4 * of_nat SIZE) (u32_size (4 * SIZE * SIZE)) in_matrix 0 w;
     (_, w) \<leftarrow> write_to_channel env h2c_0 IP_ADDR (u32_size 4) [0x5555] 0 w;
     let (ts_hw_start, w) = clock_gettime env w;
     (_, w) \<leftarrow> wait_done env [0x5555] w;
     let (ts_hw_end, w) = clock_gettime env w;
     (_, out_vector, w) \<leftarrow>
       read_from_channel env c2h_0 (BRAM_ADDR + 4 * of_nat (SIZE + SIZE * SIZE)) (u32_size (4 * SIZE)) out_vector 0 w;
     let (ts_global_end, w) = clock_gettime env w;
     _ \<leftarrow> timespec_sub ts_global_end ts_global_start;
     _ \<leftarrow> timespec_sub ts_hw_end ts_hw_start;
     Some (out_vector, w) }"

text \<open>\<open>in_matrix2_t\<close> is what \<open>malloc\<close> returns, with any content; the code does not test that it does.\<close>

definition fpga_matmul ::
  "'c henv \<Rightarrow> u32 list \<Rightarrow> u32 list \<Rightarrow> u32 list \<Rightarrow> u32 list \<Rightarrow> 'c hworld \<Rightarrow> (timespec \<times> u32 list \<times> 'c hworld) option" where
  "fpga_matmul env in_matrix2_t in_matrix1 in_matrix2 out_matrix w = do {
     let (ts_start, w) = clock_gettime env w;
     in_matrix2_t \<leftarrow> mat_transpose_naive in_matrix2 in_matrix2_t SIZE SIZE;
     (_, w) \<leftarrow> write_to_channel env h2c_0 (BRAM_ADDR + 4 * of_nat SIZE) (u32_size (4 * SIZE * SIZE)) in_matrix2_t 0 w;
     (out_matrix, w) \<leftarrow> for_loop 1 SIZE 0 (\<lambda>k (out_matrix, w). do {
       (_, w) \<leftarrow> write_to_channel env h2c_0 BRAM_ADDR (u32_size (4 * SIZE)) in_matrix1 (SIZE * k) w;
       (_, w) \<leftarrow> write_to_channel env h2c_0 IP_ADDR (u32_size 4) [0x5555] 0 w;
       (_, w) \<leftarrow> wait_done env [0x5555] w;
       (_, out_matrix, w) \<leftarrow> read_from_channel env c2h_0 BRAM_ADDR (u32_size (4 * SIZE)) out_matrix (SIZE * k) w;
       Some (out_matrix, w) }) (out_matrix, w);
     let (ts_end, w) = clock_gettime env w;
     ts_end \<leftarrow> timespec_sub ts_end ts_start;
     Some (ts_end, out_matrix, w) }"

text \<open>The write-and-read test of the card's memory: \<open>input\<close> holds the random numbers, \<open>output\<close> what
  \<open>malloc\<close> returned. The numbers are positive, so that two are equal when their bits are.\<close>

definition bram_readwrite_test :: "'c henv \<Rightarrow> u32 list \<Rightarrow> u32 list \<Rightarrow> nat \<Rightarrow> 'c hworld \<Rightarrow> (bool \<times> 'c hworld) option" where
  "bram_readwrite_test env input output test_size w = do {
     (_, w) \<leftarrow> write_to_channel env h2c_0 BRAM_ADDR (u32_size (4 * test_size)) input 0 w;
     (_, output, w) \<leftarrow> read_from_channel env c2h_0 BRAM_ADDR (u32_size (4 * test_size)) output 0 w;
     test_success \<leftarrow> for_loop 1 test_size 0 (\<lambda>j test_success. do {
       x \<leftarrow> load input j;
       y \<leftarrow> load output j;
       Some (if x \<noteq> y then False else test_success) }) True;
     Some (test_success, w) }"

subsection \<open>What the program relies on of the card\<close>

record 'c matvec_view =
  bram :: "'c \<Rightarrow> nat \<Rightarrow> u32"
  pending :: "'c \<Rightarrow> nat"
  outcome :: "'c \<Rightarrow> nat \<Rightarrow> u32"

definition matvec_card ::
  "'c henv \<Rightarrow> 'c matvec_view \<Rightarrow> (u32 list \<Rightarrow> u32 list \<Rightarrow> u32 list) \<Rightarrow> bool" where
  "matvec_card env V hw \<longleftrightarrow>
    (\<forall>cs c k xs. k + length xs \<le> 8192 \<longrightarrow> (\<exists>c'. dev_write env cs (BRAM_ADDR + 4 * of_nat k) xs c = (4 * int (length xs), c')
       \<and> bram V c' = (\<lambda>i. if k \<le> i \<and> i < k + length xs then xs ! (i - k) else bram V c i)))
  \<and> (\<forall>cs c k n. k + n \<le> 8192 \<longrightarrow> (\<exists>c'. dev_read env cs (BRAM_ADDR + 4 * of_nat k) n c = (4 * int n, map (bram V c) [k..<k + n], c')
       \<and> bram V c' = bram V c))
  \<and> (\<forall>cs c. \<exists>c'. dev_write env cs IP_ADDR [0x5555] c = (4, c')
       \<and> outcome V c' = (\<lambda>i. if i < SIZE then hw (map (bram V c) [SIZE..<SIZE + SIZE * SIZE]) (map (bram V c) [0..<SIZE]) ! i
            else bram V c i))
  \<and> (\<forall>cs c. \<exists>v c'. dev_read env cs IP_ADDR 1 c = (4, [v], c')
       \<and> (if pending V c = 0 then v \<noteq> 0x5555 \<and> bram V c' = outcome V c
          else v = 0x5555 \<and> pending V c' < pending V c \<and> outcome V c' = outcome V c))"

lemma matvec_card_write:
  assumes "matvec_card env V hw" "k + length xs \<le> 8192"
  shows "\<exists>c'. dev_write env cs (BRAM_ADDR + 4 * of_nat k) xs c = (4 * int (length xs), c')
    \<and> bram V c' = (\<lambda>i. if k \<le> i \<and> i < k + length xs then xs ! (i - k) else bram V c i)"
  using assms unfolding matvec_card_def by blast

lemma matvec_card_read:
  assumes "matvec_card env V hw" "k + n \<le> 8192"
  shows "\<exists>c'. dev_read env cs (BRAM_ADDR + 4 * of_nat k) n c = (4 * int n, map (bram V c) [k..<k + n], c') \<and> bram V c' = bram V c"
  using assms unfolding matvec_card_def by blast

lemma matvec_card_poll:
  assumes "matvec_card env V hw"
  shows "\<exists>v c'. dev_read env cs IP_ADDR 1 c = (4, [v], c')
    \<and> (if pending V c = 0 then v \<noteq> 0x5555 \<and> bram V c' = outcome V c
       else v = 0x5555 \<and> pending V c' < pending V c \<and> outcome V c' = outcome V c)"
  using assms unfolding matvec_card_def by blast

lemma write_bram:
  assumes "os_good env" "matvec_card env V hw" "off + n \<le> length xs" "k + n \<le> 8192"
  shows "\<exists>t w'. write_to_channel env dev (BRAM_ADDR + 4 * of_nat k) (u32_size (4 * n)) xs off w = Some (t, w')
    \<and> bram V (on_card w') = (\<lambda>i. if k \<le> i \<and> i < k + n then xs ! (off + (i - k)) else bram V (on_card w) i)"
proof -
  let ?xs = "take n (drop off xs)" and ?Q = "\<lambda>c. bram V c = (\<lambda>i. if k \<le> i \<and> i < k + n
      then xs ! (off + (i - k)) else bram V (on_card w) i)"
  have l: "length ?xs = n" using assms(3) by simp
  have nth: "?xs ! (i - k) = xs ! (off + (i - k))" if "k \<le> i \<and> i < k + n" for i
  proof -
    from that have "i - k < n" by arith
    then show ?thesis using assms(3) by simp
  qed
  have "\<exists>c. dev_write env cs (BRAM_ADDR + 4 * of_nat k) ?xs (on_card w) = (int (4 * n), c) \<and> ?Q c" for cs
    using matvec_card_write [OF assms(2), of k ?xs cs "on_card w"] assms(4) unfolding l by (auto simp: nth fun_eq_iff)
  then show ?thesis
    using write_to_channel_run [where Q = ?Q and len = "4 * n" and addr = "BRAM_ADDR + 4 * of_nat k" and w = w
        and xs = xs and off = off and dev = dev, OF assms(1)] assms(3,4) by auto
qed

lemma start_op:
  assumes "os_good env" "matvec_card env V hw"
  shows "\<exists>t w'. write_to_channel env dev IP_ADDR (u32_size 4) [0x5555] 0 w = Some (t, w')
    \<and> outcome V (on_card w') = (\<lambda>i. if i < SIZE
        then hw (map (bram V (on_card w)) [SIZE..<SIZE + SIZE * SIZE]) (map (bram V (on_card w)) [0..<SIZE]) ! i
        else bram V (on_card w) i)" (is "\<exists>t w'. _ \<and> ?Q (on_card w')")
proof -
  have "\<exists>c. dev_write env cs IP_ADDR (take (4 div 4) (drop 0 [0x5555])) (on_card w) = (int 4, c) \<and> ?Q c" for cs
    using assms(2) by (simp add: matvec_card_def)
  from write_to_channel_run [where Q = ?Q, OF assms(1) _ _ this, of dev] show ?thesis by auto
qed

lemma read_bram:
  assumes "os_good env" "matvec_card env V hw" "off + n \<le> length out" "k + n \<le> 8192"
  shows "\<exists>t out' w'. read_from_channel env dev (BRAM_ADDR + 4 * of_nat k) (u32_size (4 * n)) out off w = Some (t, out', w')
    \<and> bram V (on_card w') = bram V (on_card w) \<and> length out' = length out
    \<and> (\<forall>i<length out. out' ! i = (if off \<le> i \<and> i < off + n then bram V (on_card w) (k + (i - off)) else out ! i))"
proof -
  let ?Q = "\<lambda>ys c. ys = map (bram V (on_card w)) [k..<k + n] \<and> bram V c = bram V (on_card w)"
  have "\<exists>rc xs c. dev_read env cs (BRAM_ADDR + 4 * of_nat k) (4 * n div 4) (on_card w) = (rc, xs, c)
      \<and> ?Q (take (4 * n div 4) (xs @ replicate (4 * n div 4) 0)) c" for cs
    using matvec_card_read [OF assms(2,4), of cs "on_card w"] by auto
  from read_from_channel_run [where Q = ?Q, OF assms(1) _ _ this, of off out dev] assms(3,4) obtain t out' w' where
    r: "read_from_channel env dev (BRAM_ADDR + 4 * of_nat k) (u32_size (4 * n)) out off w = Some (t, out', w')"
    "bram V (on_card w') = bram V (on_card w)" "memcpy out off (map (bram V (on_card w)) [k..<k + n]) 0 n = Some out'"
    by auto
  from memcpy_run [of off n out 0 "map (bram V (on_card w)) [k..<k + n]"] assms(3) r(3) have
    "length out' = length out" "\<forall>i<length out. out' ! i
      = (if off \<le> i \<and> i < off + n then map (bram V (on_card w)) [k..<k + n] ! (i - off) else out ! i)"
    by auto
  then show ?thesis using r(1,2) by auto
qed

lemma wait_done_run:
  assumes "os_good env" "matvec_card env V hw" "length ops = 1"
  shows "\<exists>ops' w'. wait_done env ops w = Some (ops', w') \<and> bram V (on_card w') = outcome V (on_card w)"
  using assms(3)
proof (induction "pending V (on_card w)" arbitrary: ops w rule: less_induct)
  case less
  let ?c = "on_card w"
  let ?Q = "\<lambda>ys c'. if pending V ?c = 0 then ys ! 0 \<noteq> 0x5555 \<and> bram V c' = outcome V ?c
       else ys ! 0 = 0x5555 \<and> pending V c' < pending V ?c \<and> outcome V c' = outcome V ?c"
  have "\<exists>rc xs c'. dev_read env cs IP_ADDR (4 div 4) ?c = (rc, xs, c') \<and> ?Q (take (4 div 4) (xs @ replicate (4 div 4) 0)) c'" for cs
  proof -
    obtain v c' where "dev_read env cs IP_ADDR 1 ?c = (4, [v], c')" "?Q [v] c'"
      using matvec_card_poll [OF assms(2), of cs ?c] by auto
    then show ?thesis by (intro exI [of _ 4] exI [of _ "[v]"] exI [of _ c']) (auto split: if_splits)
  qed
  from read_from_channel_run [where Q = ?Q, OF assms(1) _ _ this, of 0 ops c2h_0] less.prems obtain t ops' w' ys where
    r: "read_from_channel env c2h_0 IP_ADDR (u32_size 4) ops 0 w = Some (t, ops', w')" "?Q ys (on_card w')"
      "length ys = 1" "memcpy ops 0 ys 0 1 = Some ops'"
    by auto
  have ops': "ops' = ys" using r(3,4) less.prems by (auto simp: memcpy_def split: if_splits)
  show ?case
  proof (cases "pending V ?c = 0")
    case True
    then show ?thesis using r(1,2) by (subst wait_done.simps) (auto simp: ops')
  next
    case False
    with r(2) have "pending V (on_card w') < pending V ?c" "ys ! 0 = 0x5555" "outcome V (on_card w') = outcome V ?c"
      by simp_all
    from less.hyps [OF this(1), of ys] this(2,3) r(1,3) show ?thesis
      by (subst wait_done.simps) (auto simp: ops')
  qed
qed

lemma BRAM_fits: "SIZE + SIZE * SIZE \<le> 8192" "SIZE \<le> 8192" "SIZE + SIZE * SIZE + SIZE \<le> 8192"
  by (simp_all add: SIZE_def)

text \<open>The operands written, the unit started and waited for.\<close>

lemma run_matvec_unit:
  assumes "os_good env" "matvec_card env V hw"
    and "\<forall>i<SIZE * SIZE. bram V (on_card w) (SIZE + i) = M ! i" "length M = SIZE * SIZE"
    and "\<forall>i<SIZE. bram V (on_card w) i = v ! i" "length v = SIZE"
  shows "\<exists>t w1 ops w2. write_to_channel env h2c_0 IP_ADDR (u32_size 4) [0x5555] 0 w = Some (t, w1)
    \<and> wait_done env [0x5555] w1 = Some (ops, w2)
    \<and> (\<forall>i<SIZE. bram V (on_card w2) i = hw M v ! i) \<and> (\<forall>i\<ge>SIZE. bram V (on_card w2) i = bram V (on_card w) i)"
proof -
  have "map (bram V (on_card w)) [SIZE..<SIZE + SIZE * SIZE] = M" "map (bram V (on_card w)) [0..<SIZE] = v"
    using assms(3-) by (auto intro!: nth_equalityI)
  with start_op [OF assms(1,2), of h2c_0 w] obtain t w1 where
    w1: "write_to_channel env h2c_0 IP_ADDR (u32_size 4) [0x5555] 0 w = Some (t, w1)"
    "outcome V (on_card w1) = (\<lambda>i. if i < SIZE then hw M v ! i else bram V (on_card w) i)"
    by auto
  from wait_done_run [OF assms(1,2), of "[0x5555]" w1] obtain ops w2 where
    "wait_done env [0x5555] w1 = Some (ops, w2)" "bram V (on_card w2) = outcome V (on_card w1)"
    by auto
  with w1 show ?thesis by auto
qed

lemma clock_gettime_eq: "clock_gettime env w = (os_clock env (calls w), log_call (GetTime (os_clock env (calls w))) w)"
  by (simp add: clock_gettime_def Let_def)

lemma fpga_matvec_run:
  assumes "os_good env" "matvec_card env V hw" "length M = SIZE * SIZE" "length v = SIZE" "length out = SIZE"
  shows "\<exists>t out' w'. fpga_matvec env M v out w = Some (t, out', w')
    \<and> normalized t \<and> length out' = SIZE \<and> (\<forall>i<SIZE. out' ! i = hw M v ! i)"
proof -
  let ?w = "log_call (GetTime (os_clock env (calls w))) w"
  obtain f where f: "\<And>cs cs'. timespec_sub (os_clock env cs) (os_clock env cs') = Some (f cs cs')"
    "\<And>cs cs'. normalized (f cs cs')"
    using timespec_sub_clock [OF assms(1)] by blast
  obtain t1 w1 where w1: "write_to_channel env h2c_0 BRAM_ADDR (u32_size (4 * SIZE)) v 0 ?w = Some (t1, w1)"
    "\<forall>i<SIZE. bram V (on_card w1) i = v ! i"
    using write_bram [OF assms(1,2), of 0 SIZE v 0 h2c_0 ?w] assms(4) BRAM_fits by auto
  obtain t2 w2 where w2: "write_to_channel env h2c_0 (BRAM_ADDR + 4 * of_nat SIZE) (u32_size (4 * SIZE * SIZE)) M 0 w1 = Some (t2, w2)"
    "\<forall>i<SIZE * SIZE. bram V (on_card w2) (SIZE + i) = M ! i" "\<forall>i<SIZE. bram V (on_card w2) i = v ! i"
    using write_bram [OF assms(1,2), of 0 "SIZE * SIZE" M SIZE h2c_0 w1] assms(3) BRAM_fits w1(2)
    by (auto simp: mult.assoc)
  obtain t3 w3 ops w4 where w4: "write_to_channel env h2c_0 IP_ADDR (u32_size 4) [0x5555] 0 w2 = Some (t3, w3)"
    "wait_done env [0x5555] w3 = Some (ops, w4)" "\<forall>i<SIZE. bram V (on_card w4) i = hw M v ! i"
    using run_matvec_unit [OF assms(1,2) w2(2) assms(3) w2(3) assms(4)] by blast
  obtain t5 out' w5 where w5: "read_from_channel env c2h_0 BRAM_ADDR (u32_size (4 * SIZE)) out 0 w4 = Some (t5, out', w5)"
    "length out' = SIZE" "\<forall>i<SIZE. out' ! i = hw M v ! i"
    using read_bram [OF assms(1,2), of 0 SIZE out 0 c2h_0 w4] assms(5) BRAM_fits w4(3) by auto
  show ?thesis
    using w5(2,3) by (simp add: fpga_matvec_def clock_gettime_eq w1(1) w2(1) w4(1,2) w5(1) f Let_def)
qed

lemma fpga_matmul_run:
  assumes "os_good env" "matvec_card env V hw" "length A = SIZE * SIZE" "length B = SIZE * SIZE"
    and "length T = SIZE * SIZE" "length out = SIZE * SIZE"
  shows "\<exists>t out' w' T'. fpga_matmul env T A B out w = Some (t, out', w')
    \<and> normalized t \<and> length out' = SIZE * SIZE \<and> length T' = SIZE * SIZE
    \<and> (\<forall>i<SIZE. \<forall>j<SIZE. T' ! (j * SIZE + i) = B ! (i * SIZE + j))
    \<and> (\<forall>k<SIZE. \<forall>i<SIZE. out' ! (k * SIZE + i) = hw T' (take SIZE (drop (SIZE * k) A)) ! i)"
proof -
  let ?w = "log_call (GetTime (os_clock env (calls w))) w"
  obtain f where f: "\<And>cs cs'. timespec_sub (os_clock env cs) (os_clock env cs') = Some (f cs cs')"
    "\<And>cs cs'. normalized (f cs cs')"
    using timespec_sub_clock [OF assms(1)] by blast
  obtain T' where T': "mat_transpose_naive B T SIZE SIZE = Some T'" "length T' = SIZE * SIZE"
    "\<forall>i<SIZE. \<forall>j<SIZE. T' ! (j * SIZE + i) = B ! (i * SIZE + j)"
    using mat_transpose_naive_run [of SIZE SIZE B T] assms(4,5) by auto
  obtain t1 w1 where w1: "write_to_channel env h2c_0 (BRAM_ADDR + 4 * of_nat SIZE) (u32_size (4 * SIZE * SIZE)) T' 0 ?w = Some (t1, w1)"
    "\<forall>i<SIZE * SIZE. bram V (on_card w1) (SIZE + i) = T' ! i"
    using write_bram [OF assms(1,2), of 0 "SIZE * SIZE" T' SIZE h2c_0 ?w] T'(2) BRAM_fits
    by (auto simp: mult.assoc)
  let ?row = "\<lambda>k. take SIZE (drop (SIZE * k) A)"
  let ?P = "\<lambda>k (xs, w). length xs = SIZE * SIZE \<and> (\<forall>i<SIZE * SIZE. bram V (on_card w) (SIZE + i) = T' ! i)
      \<and> (\<forall>k'<k. \<forall>i<SIZE. xs ! (k' * SIZE + i) = hw T' (?row k') ! i)"
  let ?body = "\<lambda>k (out_matrix, w). do {
       (_, w) \<leftarrow> write_to_channel env h2c_0 BRAM_ADDR (u32_size (4 * SIZE)) A (SIZE * k) w;
       (_, w) \<leftarrow> write_to_channel env h2c_0 IP_ADDR (u32_size 4) [0x5555] 0 w;
       (_, w) \<leftarrow> wait_done env [0x5555] w;
       (_, out_matrix, w) \<leftarrow> read_from_channel env c2h_0 BRAM_ADDR (u32_size (4 * SIZE)) out_matrix (SIZE * k) w;
       Some (out_matrix, w) }"
  have "\<exists>s'. for_loop 1 SIZE 0 ?body (out, w1) = Some s' \<and> ?P SIZE s'"
  proof (rule for_each_rule [where P = ?P])
    fix k and s :: "u32 list \<times> 'a hworld" assume k: "k < SIZE" and P: "?P k s"
    obtain xs w where s: "s = (xs, w)" by (cases s)
    have fit: "SIZE * k + SIZE \<le> SIZE * SIZE"
      using k mult_le_mono2 [of "Suc k" SIZE SIZE] by simp
    have le: "SIZE * k \<le> length A" using fit unfolding assms(3) by linarith
    obtain t2 w2 where w2: "write_to_channel env h2c_0 BRAM_ADDR (u32_size (4 * SIZE)) A (SIZE * k) w = Some (t2, w2)"
      "\<forall>i<SIZE. bram V (on_card w2) i = ?row k ! i" "\<forall>i\<ge>SIZE. bram V (on_card w2) i = bram V (on_card w) i"
      using write_bram [OF assms(1,2), of "SIZE * k" SIZE A 0 h2c_0 w] fit le assms(3) BRAM_fits by auto
    obtain t3 w3 ops w4 where w4: "write_to_channel env h2c_0 IP_ADDR (u32_size 4) [0x5555] 0 w2 = Some (t3, w3)"
      "wait_done env [0x5555] w3 = Some (ops, w4)" "\<forall>i<SIZE. bram V (on_card w4) i = hw T' (?row k) ! i"
      "\<forall>i\<ge>SIZE. bram V (on_card w4) i = bram V (on_card w2) i"
      using run_matvec_unit [OF assms(1,2), of w2 T' "?row k"] w2(2,3) T'(2) P fit assms(3) by (auto simp: s)
    obtain t5 xs' w5 where w5: "read_from_channel env c2h_0 BRAM_ADDR (u32_size (4 * SIZE)) xs (SIZE * k) w4 = Some (t5, xs', w5)"
      "length xs' = length xs" "bram V (on_card w5) = bram V (on_card w4)"
      "\<forall>i<length xs. xs' ! i = (if SIZE * k \<le> i \<and> i < SIZE * k + SIZE then bram V (on_card w4) (i - SIZE * k) else xs ! i)"
      using read_bram [OF assms(1,2), of "SIZE * k" SIZE xs 0 c2h_0 w4] P fit BRAM_fits by (auto simp: s)
    have "xs' ! (k' * SIZE + i) = hw T' (?row k') ! i" if "k' < Suc k" "i < SIZE" for k' i
    proof -
      have "k' * SIZE + i < length xs" using row_index_less [of k' SIZE i SIZE] that k P by (simp add: s)
      then show ?thesis
      proof (cases "k' = k")
        case False
        then have "k' < k" using that by simp
        then have "k' * SIZE + i < SIZE * k"
          using row_index_less [of k' k i SIZE] that(2) by (simp add: mult.commute)
        with \<open>k' * SIZE + i < length xs\<close> \<open>k' < k\<close> show ?thesis
          using w5(4) P that(2) by (simp add: s)
      qed (use w5(4) w4(3) that(2) in \<open>simp add: mult.commute\<close>)
    qed
    then show "\<exists>s'. ?body k s = Some s' \<and> ?P (Suc k) s'"
      using w2(3) w4(4) w5(2,3) P by (simp add: s w2(1) w4(1,2) w5(1))
  qed (use w1(2) assms(6) in simp)
  then obtain out' w' where "for_loop 1 SIZE 0 ?body (out, w1) = Some (out', w')" "?P SIZE (out', w')"
    by auto
  then show ?thesis
    using T' by (simp add: fpga_matmul_def clock_gettime_eq w1(1) f Let_def) blast
qed

subsection \<open>A card to try it on\<close>

text \<open>A card that promises what \<open>matvec_card\<close> says: its memory, how many polls it still needs, and its
  memory when it is done. Its arithmetic is that of signed 32-bit words.\<close>

definition hw0 :: "u32 list \<Rightarrow> u32 list \<Rightarrow> u32 list" where
  "hw0 M v = map (\<lambda>i. word_of_int (\<Sum>c<SIZE. sint (M ! (SIZE * i + c)) * sint (v ! c))) [0..<SIZE]"

type_synonym card0 = "(nat \<Rightarrow> u32) \<times> nat \<times> (nat \<Rightarrow> u32)"

definition cell_of :: "u32 \<Rightarrow> nat" where
  "cell_of a = unat (a - BRAM_ADDR) div 4"

definition card0_write :: "u32 \<Rightarrow> u32 list \<Rightarrow> card0 \<Rightarrow> int \<times> card0" where
  "card0_write a xs = (\<lambda>(m, p, r). (4 * int (length xs),
     if a = IP_ADDR then (m, 2, \<lambda>i. if i < SIZE then hw0 (map m [SIZE..<SIZE + SIZE * SIZE]) (map m [0..<SIZE]) ! i else m i)
     else (\<lambda>i. if cell_of a \<le> i \<and> i < cell_of a + length xs then xs ! (i - cell_of a) else m i, p, r)))"

definition card0_read :: "u32 \<Rightarrow> nat \<Rightarrow> card0 \<Rightarrow> int \<times> u32 list \<times> card0" where
  "card0_read a n = (\<lambda>(m, p, r).
     if a = IP_ADDR then (if p = 0 then (4, [0], (r, 0, r)) else (4, [0x5555], (m, p - 1, r)))
     else (4 * int n, map m [cell_of a..<cell_of a + n], (m, p, r)))"

definition henv1 :: "card0 henv" where
  "henv1 = \<lparr>os_clock = \<lambda>cs. \<lparr>tv_sec = int (length cs), tv_nsec = 0\<rparr>, os_memalign = \<lambda>_ _. True, os_open = \<lambda>_ _. 3,
     dev_write = \<lambda>_. card0_write, dev_read = \<lambda>_. card0_read,
     os_mmap = \<lambda>_. True, ctrl_reg = \<lambda>_ _. 0, os_munmap = \<lambda>_. True, proc_devices = None\<rparr>"

definition view0 :: "card0 matvec_view" where
  "view0 = \<lparr>bram = fst, pending = \<lambda>c. fst (snd c), outcome = \<lambda>c. snd (snd c)\<rparr>"

definition hworld0 :: "card0 hworld" where
  "hworld0 = \<lparr>on_card = (\<lambda>_. 0, 0, \<lambda>_. 0), calls = []\<rparr>"

lemma cell_of_BRAM: "k \<le> 8192 \<Longrightarrow> cell_of (BRAM_ADDR + 4 * of_nat k) = k"
proof -
  assume "k \<le> 8192"
  then have "unat (of_nat (4 * k) :: u32) = 4 * k" by (intro unat_of_nat_small) simp
  then show ?thesis by (simp add: cell_of_def)
qed

lemma BRAM_not_IP: "k \<le> 8192 \<Longrightarrow> BRAM_ADDR + 4 * of_nat k \<noteq> IP_ADDR"
proof
  assume k: "k \<le> 8192" and "BRAM_ADDR + 4 * of_nat k = IP_ADDR"
  then have "cell_of IP_ADDR = k" using cell_of_BRAM [OF k] by simp
  with k show False by (simp add: cell_of_def IP_ADDR_def BRAM_ADDR_def)
qed

lemma length_hw0: "length (hw0 M v) = SIZE"
  by (simp add: hw0_def)

lemma henv1_os_good: "os_good henv1"
  by (simp add: os_good_def henv1_def normalized_def BILLION_def)

lemma henv1_matvec_card: "matvec_card henv1 view0 hw0"
  unfolding matvec_card_def
  by (auto simp: henv1_def view0_def card0_write_def card0_read_def cell_of_BRAM BRAM_not_IP split: prod.splits)

section \<open>Properties\<close>

text \<open>C27: The matrix-vector product on a card that keeps its promises returns, with the outcome of the
  unit for exactly the matrix and the vector that were passed, however long the unit takes.\<close>

theorem fpga_matvec_returns_product:
  assumes "os_good env" "matvec_card env V hw" "length M = SIZE * SIZE" "length v = SIZE" "length out = SIZE"
    and "length (hw M v) = SIZE"
  shows "\<exists>t w'. fpga_matvec env M v out w = Some (t, hw M v, w') \<and> normalized t"
proof -
  obtain t out' w' where r: "fpga_matvec env M v out w = Some (t, out', w')" "normalized t" "length out' = SIZE"
    "\<forall>i<SIZE. out' ! i = hw M v ! i"
    using fpga_matvec_run [OF assms(1-5)] by blast
  then have "out' = hw M v" using assms(6) by (intro nth_equalityI) simp_all
  with r(1,2) show ?thesis by blast
qed

lemma fpga_matvec_returns_product_witness:
  "\<exists>t w'. fpga_matvec henv1 (replicate (SIZE * SIZE) 1) (replicate SIZE 2) (replicate SIZE 0) hworld0
     = Some (t, hw0 (replicate (SIZE * SIZE) 1) (replicate SIZE 2), w') \<and> normalized t"
  by (rule fpga_matvec_returns_product [OF henv1_os_good henv1_matvec_card]) (simp_all only: length_replicate length_hw0)

text \<open>What was written to the card's memory is read back.\<close>

lemma bram_readwrite_test_passes:
  assumes "os_good env" "matvec_card env V hw" "n \<le> 8192" "n \<le> length input" "n \<le> length out"
  shows "\<exists>w'. bram_readwrite_test env input out n w = Some (True, w')"
proof -
  obtain t1 w1 where w1: "write_to_channel env h2c_0 BRAM_ADDR (u32_size (4 * n)) input 0 w = Some (t1, w1)"
    "\<forall>i<n. bram V (on_card w1) i = input ! i"
    using write_bram [OF assms(1,2), of 0 n input 0 h2c_0 w] assms(3,4) by auto
  obtain t2 out' w2 where w2: "read_from_channel env c2h_0 BRAM_ADDR (u32_size (4 * n)) out 0 w1 = Some (t2, out', w2)"
    "length out' = length out" "\<forall>i<n. out' ! i = input ! i"
    using read_bram [OF assms(1,2), of 0 n out 0 c2h_0 w1] assms(3,5) w1(2) by auto
  let ?loop = "for_loop 1 n 0 (\<lambda>j test_success. do { x \<leftarrow> load input j; y \<leftarrow> load out' j;
       Some (if x \<noteq> y then False else test_success) }) True"
  have "\<exists>ok. ?loop = Some ok \<and> ok = True"
    by (rule for_each_rule [where P = "\<lambda>_ ok. ok = True"]) (use assms(4,5) w2(2,3) in auto)
  then have "?loop = Some True" by blast
  then show ?thesis using w1(1) w2(1) by (simp add: bram_readwrite_test_def)
qed

text \<open>The profiling version of the product reads its result behind the matrix, where the unit does not
  put it: what it returns is what the card's memory held there before, whatever the operands are.\<close>

theorem fpga_matvec_verbose_reads_stale:
  assumes "os_good env" "matvec_card env V hw" "length M = SIZE * SIZE" "length v = SIZE" "length out = SIZE"
  shows "\<exists>out' w'. fpga_matvec_verbose env M v out w = Some (out', w')
    \<and> out' = map (bram V (on_card w)) [SIZE + SIZE * SIZE..<SIZE + SIZE * SIZE + SIZE]"
proof -
  let ?w = "log_call (GetTime (os_clock env (calls w))) w"
  obtain f where f: "\<And>cs cs'. timespec_sub (os_clock env cs) (os_clock env cs') = Some (f cs cs')"
    "\<And>cs cs'. normalized (f cs cs')"
    using timespec_sub_clock [OF assms(1)] by blast
  obtain t1 w1 where w1: "write_to_channel env h2c_0 BRAM_ADDR (u32_size (4 * SIZE)) v 0 ?w = Some (t1, w1)"
    "\<forall>i<SIZE. bram V (on_card w1) i = v ! i" "\<forall>i\<ge>SIZE. bram V (on_card w1) i = bram V (on_card w) i"
    using write_bram [OF assms(1,2), of 0 SIZE v 0 h2c_0 ?w] assms(4) BRAM_fits by auto
  obtain t2 w2 where w2: "write_to_channel env h2c_0 (BRAM_ADDR + 4 * of_nat SIZE) (u32_size (4 * SIZE * SIZE)) M 0 w1 = Some (t2, w2)"
    "\<forall>i<SIZE * SIZE. bram V (on_card w2) (SIZE + i) = M ! i" "\<forall>i<SIZE. bram V (on_card w2) i = v ! i"
    "\<forall>i\<ge>SIZE + SIZE * SIZE. bram V (on_card w2) i = bram V (on_card w) i"
    using write_bram [OF assms(1,2), of 0 "SIZE * SIZE" M SIZE h2c_0 w1] assms(3) BRAM_fits w1(2,3)
    by (auto simp: mult.assoc)
  let ?w2 = "log_call (GetTime (os_clock env (calls w2))) w2"
  obtain t3 w3 where w3: "write_to_channel env h2c_0 IP_ADDR (u32_size 4) [0x5555] 0 w2 = Some (t3, w3)"
    "\<forall>i\<ge>SIZE. outcome V (on_card w3) i = bram V (on_card w2) i"
    using start_op [OF assms(1,2), of h2c_0 w2] by auto
  let ?w3 = "log_call (GetTime (os_clock env (calls w3))) w3"
  obtain ops w4 where w4: "wait_done env [0x5555] ?w3 = Some (ops, w4)" "bram V (on_card w4) = outcome V (on_card w3)"
    using wait_done_run [OF assms(1,2), of "[0x5555]" ?w3] by auto
  let ?k = "SIZE + SIZE * SIZE" and ?w4 = "log_call (GetTime (os_clock env (calls w4))) w4"
  obtain t5 out' w5 where w5: "read_from_channel env c2h_0 (BRAM_ADDR + 4 * of_nat ?k) (u32_size (4 * SIZE)) out 0 ?w4 = Some (t5, out', w5)"
    "length out' = SIZE" "\<forall>i<SIZE. out' ! i = bram V (on_card w4) (?k + i)"
    using read_bram [OF assms(1,2), of 0 SIZE out ?k c2h_0 ?w4] assms(5) BRAM_fits(3) by (auto simp del: of_nat_add of_nat_mult)
  have "bram V (on_card w4) (?k + i) = bram V (on_card w) (?k + i)" for i
    unfolding w4(2) using w3(2) [rule_format, of "?k + i"] w2(4) [rule_format, of "?k + i"] by simp
  then have "out' = map (bram V (on_card w)) [?k..<?k + SIZE]"
    using w5(2,3) by (intro nth_equalityI) simp_all
  then show ?thesis
    using w1(1) w2(1) w3(1) w4(1) w5(1)
    by (simp add: fpga_matvec_verbose_def clock_gettime_eq f Let_def del: of_nat_add of_nat_mult)
qed

lemma fpga_matvec_verbose_reads_stale_witness:
  "\<exists>out' w'. fpga_matvec_verbose henv1 (replicate (SIZE * SIZE) 1) (replicate SIZE 2) (replicate SIZE 9) hworld0
     = Some (out', w') \<and> out' = map (bram view0 (on_card hworld0)) [SIZE + SIZE * SIZE..<SIZE + SIZE * SIZE + SIZE]"
  by (rule fpga_matvec_verbose_reads_stale [OF henv1_os_good henv1_matvec_card]) (simp_all only: length_replicate)

text \<open>C38: A read of the opcode that fails is taken for the end of the computation: the buffer was zeroed
  before and the result of \<open>read\<close> is not looked at, so the loop ends with the opcode 0.\<close>

theorem read_failure_ends_wait:
  assumes "os_good env" "\<forall>cs c. dev_read env cs IP_ADDR 1 c = (-1, [], c)"
  shows "\<exists>w'. wait_done env [0x5555] w = Some ([0], w') \<and> on_card w' = on_card w"
proof -
  obtain t out' w' ys where r: "read_from_channel env c2h_0 IP_ADDR (u32_size 4) [0x5555] 0 w = Some (t, out', w')"
    "ys = [0] \<and> on_card w' = on_card w" "memcpy [0x5555] 0 ys 0 (4 div 4) = Some out'"
    using read_from_channel_run [OF assms(1), of 4 0 "[0x5555]" IP_ADDR w "\<lambda>ys c. ys = [0] \<and> c = on_card w" c2h_0] assms(2)
    by auto
  then have "out' = [0]" by (auto simp: memcpy_def)
  with r(1,2) show ?thesis by (subst wait_done.simps) simp
qed

lemma read_failure_ends_wait_witness:
  "\<exists>w'. wait_done (henv1\<lparr>dev_read := \<lambda>_ _ _ c. (-1, [], c)\<rparr>) [0x5555] hworld0 = Some ([0], w') \<and> on_card w' = on_card hworld0"
  by (rule read_failure_ends_wait) (use henv1_os_good in \<open>simp_all add: os_good_def\<close>)

end
