(* ===== verification/Host_Tiling.thy ===== *)
theory Host_Tiling
  imports Host_Offload
begin

section \<open>Products of any size\<close>

text \<open>
  The tiled products of \<open>fpga_offload.c\<close>. A matrix is cut into tiles of \<open>SIZE\<close> by \<open>SIZE\<close>, the tiles at the
  right and lower edges padded with zeros, and the products of the tiles are added up. A pointer into
  an array is the rest of the array from there on. The local arrays and what \<open>malloc\<close> returns have any
  content at first, those of a called product at every call another one; the theorems hold for all of them.
\<close>

definition copy_padded :: "u32 list \<Rightarrow> nat \<Rightarrow> u32 list \<Rightarrow> nat \<Rightarrow> nat \<Rightarrow> u32 list option" where
  "copy_padded dst d src s remaining =
    (if remaining \<ge> SIZE then memcpy dst d src s SIZE
     else do {
       dst \<leftarrow> memcpy dst d src s remaining;
       for_loop 1 (SIZE - remaining) 0 (\<lambda>k dst. store dst (d + remaining + k) 0) dst })"

definition add_into :: "fpu \<Rightarrow> u32 list \<Rightarrow> u32 list \<Rightarrow> nat \<Rightarrow> u32 list option" where
  "add_into fp buf out len =
    for_loop 1 len 0 (\<lambda>n buf. do {
      a \<leftarrow> load buf n;
      b \<leftarrow> load out n;
      store buf n (fadd fp a b) }) buf"

text \<open>One tile of the matrix-vector product: copy the tile and its part of the vector, multiply, add.\<close>

definition matvec_tile ::
  "fpu \<Rightarrow> 'c henv \<Rightarrow> u32 list \<Rightarrow> u32 list \<Rightarrow> nat \<Rightarrow> nat \<Rightarrow> nat \<Rightarrow> nat
   \<Rightarrow> u32 list \<times> u32 list \<times> u32 list \<times> u32 list \<times> 'c hworld
   \<Rightarrow> (u32 list \<times> u32 list \<times> u32 list \<times> u32 list \<times> 'c hworld) option" where
  "matvec_tile fp env in_matrix in_vector num_row num_col i j = (\<lambda>(fpga_matrix, fpga_vector, out, output_buffer, w). do {
     (num_row_in_tile, fpga_matrix) \<leftarrow>
       (if num_row - i \<ge> SIZE then Some (SIZE, fpga_matrix)
        else do { fpga_matrix \<leftarrow> zero_fill (SIZE * SIZE) fpga_matrix; Some (num_row - i, fpga_matrix) });
     fpga_matrix \<leftarrow> for_loop 1 num_row_in_tile 0 (\<lambda>m fpga_matrix.
       copy_padded fpga_matrix (SIZE * m) in_matrix (num_col * i + j + num_col * m) (num_col - j)) fpga_matrix;
     fpga_vector \<leftarrow> copy_padded fpga_vector 0 in_vector j (num_col - j);
     (_, out, w) \<leftarrow> fpga_matvec env fpga_matrix fpga_vector out w;
     output_buffer \<leftarrow> add_into fp output_buffer out SIZE;
     Some (fpga_matrix, fpga_vector, out, output_buffer, w) })"

definition matvec_tile_row ::
  "fpu \<Rightarrow> 'c henv \<Rightarrow> u32 list \<Rightarrow> u32 list \<Rightarrow> nat \<Rightarrow> nat \<Rightarrow> nat
   \<Rightarrow> u32 list \<times> u32 list \<times> u32 list \<times> 'c hworld \<Rightarrow> (u32 list \<times> u32 list \<times> u32 list \<times> 'c hworld) option" where
  "matvec_tile_row fp env in_matrix in_vector num_row num_col i = (\<lambda>(fpga_matrix, fpga_vector, out_vector, w). do {
     (fpga_matrix, fpga_vector, out, output_buffer, w) \<leftarrow>
       for_loop SIZE num_col 0 (matvec_tile fp env in_matrix in_vector num_row num_col i)
         (fpga_matrix, fpga_vector, replicate SIZE 0, replicate SIZE 0, w);
     out_vector \<leftarrow> memcpy out_vector i output_buffer 0 (if num_row - i \<ge> SIZE then SIZE else num_row - i);
     Some (fpga_matrix, fpga_vector, out_vector, w) })"

definition fpga_large_matvec_naive ::
  "fpu \<Rightarrow> 'c henv \<Rightarrow> u32 list \<Rightarrow> u32 list \<Rightarrow> u32 list \<Rightarrow> u32 list \<Rightarrow> u32 list \<Rightarrow> nat \<Rightarrow> nat \<Rightarrow> 'c hworld
   \<Rightarrow> (timespec \<times> u32 list \<times> 'c hworld) option" where
  "fpga_large_matvec_naive fp env fpga_matrix fpga_vector in_matrix in_vector out_vector num_row num_col w = do {
     out_vector \<leftarrow> zero_fill num_row out_vector;
     let (ts_start, w) = clock_gettime env w;
     (fpga_matrix, fpga_vector, out_vector, w) \<leftarrow>
       for_loop SIZE num_row 0 (matvec_tile_row fp env in_matrix in_vector num_row num_col)
         (fpga_matrix, fpga_vector, out_vector, w);
     let (ts_end, w) = clock_gettime env w;
     ts_end \<leftarrow> timespec_sub ts_end ts_start;
     fpga_matrix \<leftarrow> zero_fill (SIZE * SIZE) fpga_matrix;
     fpga_vector \<leftarrow> zero_fill SIZE fpga_vector;
     Some (ts_end, out_vector, w) }"

definition fpga_large_matmul_naive ::
  "fpu \<Rightarrow> 'c henv \<Rightarrow> (hcall list \<Rightarrow> u32 list) \<Rightarrow> (hcall list \<Rightarrow> u32 list) \<Rightarrow> u32 list \<Rightarrow> u32 list \<Rightarrow> u32 list \<Rightarrow> u32 list \<Rightarrow> u32 list
   \<Rightarrow> nat \<Rightarrow> nat \<Rightarrow> nat \<Rightarrow> 'c hworld \<Rightarrow> (timespec \<times> u32 list \<times> 'c hworld) option" where
  "fpga_large_matmul_naive fp env fpga_matrix fpga_vector in_matrix2_t out_matrix_t in_matrix1 in_matrix2 out_matrix
      num_rowA num_colA num_colB w = do {
     out_matrix_t \<leftarrow> zero_fill (num_rowA * num_colB) out_matrix_t;
     let (ts_start, w) = clock_gettime env w;
     in_matrix2_t \<leftarrow> mat_transpose_naive in_matrix2 in_matrix2_t num_colA num_colB;
     (out_matrix_t, w) \<leftarrow> for_loop 1 num_colB 0 (\<lambda>i (out_matrix_t, w). do {
       (_, col, w) \<leftarrow> fpga_large_matvec_naive fp env (fpga_matrix (calls w)) (fpga_vector (calls w)) in_matrix1
          (drop (num_colA * i) in_matrix2_t) (drop (num_rowA * i) out_matrix_t) num_rowA num_colA w;
       Some (take (num_rowA * i) out_matrix_t @ col, w) }) (out_matrix_t, w);
     out_matrix \<leftarrow> mat_transpose_naive out_matrix_t out_matrix num_colB num_rowA;
     let (ts_end, w) = clock_gettime env w;
     ts_end \<leftarrow> timespec_sub ts_end ts_start;
     Some (ts_end, out_matrix, w) }"

text \<open>The product of two matrices tile by tile. \<open>heap\<close> gives the content of what \<open>malloc\<close> returns.\<close>

definition matmul_tile ::
  "fpu \<Rightarrow> 'c henv \<Rightarrow> (hcall list \<Rightarrow> u32 list) \<Rightarrow> u32 list \<Rightarrow> u32 list \<Rightarrow> nat \<Rightarrow> nat \<Rightarrow> nat \<Rightarrow> nat \<Rightarrow> nat \<Rightarrow> nat \<Rightarrow> nat
   \<Rightarrow> u32 list \<times> u32 list \<times> u32 list \<times> u32 list \<times> 'c hworld
   \<Rightarrow> (u32 list \<times> u32 list \<times> u32 list \<times> u32 list \<times> 'c hworld) option" where
  "matmul_tile fp env heap in_matrix1 in_matrix2 num_colA num_colB i tilesize_i j tilesize_j k =
    (\<lambda>(fpga_matrix1, fpga_matrix2, out, output_buffer, w). do {
     fpga_matrix1 \<leftarrow> zero_fill (SIZE * SIZE) fpga_matrix1;
     fpga_matrix2 \<leftarrow> zero_fill (SIZE * SIZE) fpga_matrix2;
     let tilesize_k = (if num_colA - k \<ge> SIZE then SIZE else num_colA - k);
     fpga_matrix1 \<leftarrow> for_loop 1 tilesize_i 0 (\<lambda>p fpga_matrix1.
       memcpy fpga_matrix1 (SIZE * p) in_matrix1 (num_colA * i + num_colA * p + k) tilesize_k) fpga_matrix1;
     fpga_matrix2 \<leftarrow> for_loop 1 tilesize_k 0 (\<lambda>p fpga_matrix2.
       memcpy fpga_matrix2 (SIZE * p) in_matrix2 (num_colB * k + num_colB * p + j) tilesize_j) fpga_matrix2;
     (_, out, w) \<leftarrow> fpga_matmul env (heap (calls w)) fpga_matrix1 fpga_matrix2 out w;
     output_buffer \<leftarrow> add_into fp output_buffer out (SIZE * SIZE);
     Some (fpga_matrix1, fpga_matrix2, out, output_buffer, w) })"

definition matmul_tile_col ::
  "fpu \<Rightarrow> 'c henv \<Rightarrow> (hcall list \<Rightarrow> u32 list) \<Rightarrow> u32 list \<Rightarrow> u32 list \<Rightarrow> nat \<Rightarrow> nat \<Rightarrow> nat \<Rightarrow> nat \<Rightarrow> nat
   \<Rightarrow> u32 list \<times> u32 list \<times> u32 list \<times> 'c hworld \<Rightarrow> (u32 list \<times> u32 list \<times> u32 list \<times> 'c hworld) option" where
  "matmul_tile_col fp env heap in_matrix1 in_matrix2 num_colA num_colB i tilesize_i j =
    (\<lambda>(fpga_matrix1, fpga_matrix2, out_matrix, w). do {
     let tilesize_j = (if num_colB - j \<ge> SIZE then SIZE else num_colB - j);
     (fpga_matrix1, fpga_matrix2, out, output_buffer, w) \<leftarrow>
       for_loop SIZE num_colA 0 (matmul_tile fp env heap in_matrix1 in_matrix2 num_colA num_colB i tilesize_i j tilesize_j)
         (fpga_matrix1, fpga_matrix2, replicate (SIZE * SIZE) 0, replicate (SIZE * SIZE) 0, w);
     out_matrix \<leftarrow> for_loop 1 tilesize_i 0 (\<lambda>p out_matrix.
       memcpy out_matrix (num_colB * i + num_colB * p + j) output_buffer (SIZE * p) tilesize_j) out_matrix;
     Some (fpga_matrix1, fpga_matrix2, out_matrix, w) })"

definition fpga_large_matmul_naive2 ::
  "fpu \<Rightarrow> 'c henv \<Rightarrow> (hcall list \<Rightarrow> u32 list) \<Rightarrow> u32 list \<Rightarrow> u32 list \<Rightarrow> u32 list \<Rightarrow> u32 list \<Rightarrow> u32 list
   \<Rightarrow> nat \<Rightarrow> nat \<Rightarrow> nat \<Rightarrow> 'c hworld \<Rightarrow> (timespec \<times> u32 list \<times> 'c hworld) option" where
  "fpga_large_matmul_naive2 fp env heap fpga_matrix1 fpga_matrix2 in_matrix1 in_matrix2 out_matrix
      num_rowA num_colA num_colB w = do {
     let (ts_start, w) = clock_gettime env w;
     (fpga_matrix1, fpga_matrix2, out_matrix, w) \<leftarrow> for_loop SIZE num_rowA 0 (\<lambda>i s. do {
       let tilesize_i = (if num_rowA - i \<ge> SIZE then SIZE else num_rowA - i);
       for_loop SIZE num_colB 0 (matmul_tile_col fp env heap in_matrix1 in_matrix2 num_colA num_colB i tilesize_i) s })
         (fpga_matrix1, fpga_matrix2, out_matrix, w);
     let (ts_end, w) = clock_gettime env w;
     ts_end \<leftarrow> timespec_sub ts_end ts_start;
     Some (ts_end, out_matrix, w) }"

subsection \<open>Copies\<close>

lemma copy_padded_run:
  assumes "d + SIZE \<le> length dst" "s + min remaining SIZE \<le> length src"
  shows "\<exists>xs. copy_padded dst d src s remaining = Some xs \<and> length xs = length dst
    \<and> (\<forall>k<length dst. xs ! k = (if d \<le> k \<and> k < d + SIZE
          then (if k - d < remaining then src ! (s + (k - d)) else 0) else dst ! k))"
proof (cases "remaining \<ge> SIZE")
  case True
  then show ?thesis
    using memcpy_run [of d SIZE dst s src] assms by (auto simp: copy_padded_def)
next
  case False
  then obtain ys where ys: "memcpy dst d src s remaining = Some ys" "length ys = length dst"
    "\<forall>k<length dst. ys ! k = (if d \<le> k \<and> k < d + remaining then src ! (s + (k - d)) else dst ! k)"
    using memcpy_run [of d remaining dst s src] assms by auto
  let ?P = "\<lambda>n xs. length xs = length dst
    \<and> (\<forall>k<length dst. xs ! k = (if d + remaining \<le> k \<and> k < d + remaining + n then 0 else ys ! k))"
  have "\<exists>xs. for_loop 1 (SIZE - remaining) 0 (\<lambda>k dst. store dst (d + remaining + k) 0) ys = Some xs \<and> ?P (SIZE - remaining) xs"
    by (rule for_each_rule [where P = ?P]) (use ys False assms in \<open>auto simp: nth_list_update less_Suc_eq\<close>)
  then show ?thesis
    using False ys(1,3) by (auto simp: copy_padded_def)
qed

lemma add_into_run:
  assumes "len \<le> length buf" "len \<le> length out"
  shows "\<exists>xs. add_into fp buf out len = Some xs \<and> length xs = length buf
    \<and> (\<forall>k<length buf. xs ! k = (if k < len then fadd fp (buf ! k) (out ! k) else buf ! k))"
  unfolding add_into_def
  by (rule for_each_rule [where P = "\<lambda>n xs. length xs = length buf
      \<and> (\<forall>k<length buf. xs ! k = (if k < n then fadd fp (buf ! k) (out ! k) else buf ! k))"])
    (use assms in \<open>auto simp: nth_list_update less_Suc_eq\<close>)

subsection \<open>Sums over tiles\<close>

definition exact_hw :: "(u32 list \<Rightarrow> u32 list \<Rightarrow> u32 list) \<Rightarrow> (u32 \<Rightarrow> int option) \<Rightarrow> int \<Rightarrow> bool" where
  "exact_hw hw val B \<longleftrightarrow> (\<forall>M v A X i. length M = SIZE * SIZE \<longrightarrow> length v = SIZE
     \<longrightarrow> (\<forall>m<SIZE. \<forall>c<SIZE. val (M ! (SIZE * m + c)) = Some (A m c)) \<longrightarrow> (\<forall>c<SIZE. val (v ! c) = Some (X c)) \<longrightarrow> i < SIZE
     \<longrightarrow> (\<Sum>c<SIZE. \<bar>A i c * X c\<bar>) \<le> B \<longrightarrow> val (hw M v ! i) = Some (\<Sum>c<SIZE. A i c * X c))"

lemma exact_hwD:
  assumes "exact_hw hw val B" "length M = SIZE * SIZE" "length v = SIZE"
    and "\<And>m c. m < SIZE \<Longrightarrow> c < SIZE \<Longrightarrow> val (M ! (SIZE * m + c)) = Some (A m c)"
    and "\<And>c. c < SIZE \<Longrightarrow> val (v ! c) = Some (X c)" "i < SIZE" "(\<Sum>c<SIZE. \<bar>A i c * X c\<bar>) \<le> B"
  shows "val (hw M v ! i) = Some (\<Sum>c<SIZE. A i c * X c)"
  using assms unfolding exact_hw_def by blast

lemma SIZE_pos: "0 < SIZE"
  by (simp add: SIZE_def)

lemma row_block: "c < s \<Longrightarrow> s * n \<le> s * m + c \<and> s * m + c < s * n + s \<longleftrightarrow> m = (n :: nat)"
  using row_index_less [of m n c s] mult_le_mono2 [of "Suc n" m s]
  by (cases m n rule: linorder_cases) (auto simp: mult.commute)

text \<open>The terms of a tile, and those of the tiles before it.\<close>

lemma tile_sum:
  fixes g :: "nat \<Rightarrow> int"
  shows "(\<Sum>c<n. if j + c < C then g (j + c) else 0) + (\<Sum>c<min j C. g c) = (\<Sum>c<min (j + n) C. g c)"
proof (induction n)
  case (Suc n)
  show ?case
  proof (cases "j + n < C")
    case True
    then have "min (j + Suc n) C = Suc (min (j + n) C)" "min (j + n) C = j + n" by simp_all
    with Suc True show ?thesis by simp
  next
    case False
    then have "min (j + Suc n) C = min (j + n) C" by simp
    with Suc False show ?thesis by simp
  qed
qed simp

lemma prefix_sum_le: "(\<Sum>c<min j C :: nat. \<bar>g c\<bar> :: int) \<le> (\<Sum>c<C. \<bar>g c\<bar>)"
  by (rule sum_mono2) auto

lemma tile_sum_bounds:
  fixes g :: "nat \<Rightarrow> int"
  assumes "(\<Sum>c<C. \<bar>g c\<bar>) \<le> B"
  shows "(\<Sum>c<n. \<bar>if j + c < C then g (j + c) else 0\<bar>) \<le> B" "\<bar>\<Sum>c<min j C. g c\<bar> \<le> B"
proof -
  have "(\<Sum>c<n. \<bar>if j + c < C then g (j + c) else 0\<bar>) = (\<Sum>c<n. if j + c < C then \<bar>g (j + c)\<bar> else 0)"
    by (rule sum.cong) simp_all
  also have "\<dots> \<le> (\<Sum>c<min (j + n) C. \<bar>g c\<bar>)"
    using tile_sum [of j C "\<lambda>c. \<bar>g c\<bar>" n] sum_abs_ge_zero [of g "{..<min j C}"] by linarith
  finally show "(\<Sum>c<n. \<bar>if j + c < C then g (j + c) else 0\<bar>) \<le> B"
    using prefix_sum_le [of g "j + n" C] assms by linarith
  show "\<bar>\<Sum>c<min j C. g c\<bar> \<le> B"
    using sum_abs [of g "{..<min j C}"] prefix_sum_le [of g j C] assms by linarith
qed

subsection \<open>The tiled matrix-vector product\<close>

lemma matvec_tile_prepare:
  assumes "length F = SIZE * SIZE"
  shows "\<exists>F'. (if R - i \<ge> SIZE then Some (SIZE, F)
        else do { F \<leftarrow> zero_fill (SIZE * SIZE) F; Some (R - i, F) }) = Some (min SIZE (R - i), F')
    \<and> length F' = SIZE * SIZE \<and> (\<forall>m<SIZE. \<forall>c<SIZE. R - i \<le> m \<longrightarrow> F' ! (SIZE * m + c) = 0)"
proof (cases "R - i \<ge> SIZE")
  case False
  then show ?thesis
    using zero_fill_run [of "SIZE * SIZE" F] row_index_less [of _ SIZE _ SIZE] assms by (auto simp: mult.commute)
qed (use assms in auto)

lemma matvec_tile_rows:
  assumes "R * C \<le> length M" "length F = SIZE * SIZE" "j < C" "i + n \<le> R" "n \<le> SIZE"
  shows "\<exists>F'. for_loop 1 n 0 (\<lambda>m F. copy_padded F (SIZE * m) M (C * i + j + C * m) (C - j)) F = Some F'
    \<and> length F' = SIZE * SIZE \<and> (\<forall>m<SIZE. \<forall>c<SIZE. F' ! (SIZE * m + c)
        = (if m < n then (if j + c < C then M ! (C * (i + m) + (j + c)) else 0) else F ! (SIZE * m + c)))"
proof (rule for_each_rule [where P = "\<lambda>n F'. length F' = SIZE * SIZE \<and> (\<forall>m<SIZE. \<forall>c<SIZE. F' ! (SIZE * m + c)
        = (if m < n then (if j + c < C then M ! (C * (i + m) + (j + c)) else 0) else F ! (SIZE * m + c)))"])
  fix m F' assume m: "m < n" and F': "length F' = SIZE * SIZE \<and> (\<forall>m'<SIZE. \<forall>c<SIZE. F' ! (SIZE * m' + c)
        = (if m' < m then (if j + c < C then M ! (C * (i + m') + (j + c)) else 0) else F ! (SIZE * m' + c)))"
  have "SIZE * m + SIZE \<le> SIZE * SIZE"
    using m assms(5) mult_le_mono2 [of "Suc m" SIZE SIZE] by simp
  moreover have "C * i + j + C * m + min (C - j) SIZE \<le> length M"
    using m assms(1,3,4) mult_le_mono1 [of "Suc (i + m)" R C] by (simp add: algebra_simps)
  ultimately obtain G where G: "copy_padded F' (SIZE * m) M (C * i + j + C * m) (C - j) = Some G" "length G = SIZE * SIZE"
    "\<forall>k<SIZE * SIZE. G ! k = (if SIZE * m \<le> k \<and> k < SIZE * m + SIZE
          then (if k - SIZE * m < C - j then M ! (C * i + j + C * m + (k - SIZE * m)) else 0) else F' ! k)"
    using copy_padded_run [of "SIZE * m" F' "C * i + j + C * m" "C - j" M] F' by auto
  have "G ! (SIZE * m' + c) = (if m' < Suc m then (if j + c < C then M ! (C * (i + m') + (j + c)) else 0)
      else F ! (SIZE * m' + c))" if "m' < SIZE" "c < SIZE" for m' c
  proof -
    have "SIZE * m' + c < SIZE * SIZE"
      using row_index_less [OF that] by (simp add: mult.commute)
    then show ?thesis
      using G(3) F' that row_block [OF that(2), of m m'] by (auto simp: less_Suc_eq algebra_simps)
  qed
  with G(1,2) show "\<exists>F''. copy_padded F' (SIZE * m) M (C * i + j + C * m) (C - j) = Some F''
      \<and> (length F'' = SIZE * SIZE \<and> (\<forall>m'<SIZE. \<forall>c<SIZE. F'' ! (SIZE * m' + c)
        = (if m' < Suc m then (if j + c < C then M ! (C * (i + m') + (j + c)) else 0) else F ! (SIZE * m' + c))))"
    by blast
qed (use assms(2) in simp)

text \<open>What the products rely on: the operating system, the card, and exact arithmetic up to \<open>B\<close>.\<close>

definition exact_offload ::
  "fpu \<Rightarrow> 'c henv \<Rightarrow> 'c matvec_view \<Rightarrow> (u32 list \<Rightarrow> u32 list \<Rightarrow> u32 list) \<Rightarrow> (u32 \<Rightarrow> int option) \<Rightarrow> int \<Rightarrow> bool" where
  "exact_offload fp env V hw val B \<longleftrightarrow> os_good env \<and> matvec_card env V hw \<and> exact_fpu fp val B \<and> exact_hw hw val B"

text \<open>The operands stand for integers, and every row of the product stays within the bound.\<close>

definition exact_operands ::
  "(u32 \<Rightarrow> int option) \<Rightarrow> int \<Rightarrow> nat \<Rightarrow> nat \<Rightarrow> u32 list \<Rightarrow> u32 list \<Rightarrow> (nat \<Rightarrow> int) \<Rightarrow> (nat \<Rightarrow> int) \<Rightarrow> bool" where
  "exact_operands val B R C M v A X \<longleftrightarrow> R * C \<le> length M \<and> C \<le> length v
     \<and> (\<forall>k<R * C. val (M ! k) = Some (A k)) \<and> (\<forall>c<C. val (v ! c) = Some (X c))
     \<and> (\<forall>r<R. (\<Sum>c<C. \<bar>A (C * r + c) * X c\<bar>) \<le> B)"

lemma exact_operands_nonneg:
  assumes "exact_operands val B R C M v A X" "i < R" shows "0 \<le> B"
proof -
  have "(\<Sum>c<C. \<bar>A (C * i + c) * X c\<bar>) \<le> B" using assms by (simp add: exact_operands_def)
  moreover have "0 \<le> (\<Sum>c<C. \<bar>A (C * i + c) * X c\<bar>)" by (simp add: sum_nonneg)
  ultimately show ?thesis by linarith
qed

lemma matvec_tile_run:
  assumes "exact_offload fp env V hw val B" "exact_operands val B R C M v A X" "i < R" "j < C"
    and "length F = SIZE * SIZE" "length W = SIZE" "length out = SIZE" "length buf = SIZE"
    and "\<forall>m<SIZE. val (buf ! m) = Some (if i + m < R then \<Sum>c<min j C. A (C * (i + m) + c) * X c else 0)"
  shows "\<exists>F' W' out' buf' w'. matvec_tile fp env M v R C i j (F, W, out, buf, w) = Some (F', W', out', buf', w')
    \<and> length F' = SIZE * SIZE \<and> length W' = SIZE \<and> length out' = SIZE \<and> length buf' = SIZE
    \<and> (\<forall>m<SIZE. val (buf' ! m) = Some (if i + m < R then \<Sum>c<min (j + SIZE) C. A (C * (i + m) + c) * X c else 0))"
proof -
  note S = assms(1) [unfolded exact_offload_def] and O = assms(2) [unfolded exact_operands_def]
  note zero = exact_fpu_zero [OF S [THEN conjunct2, THEN conjunct2, THEN conjunct1]]
  let ?g = "\<lambda>m c. A (C * (i + m) + c) * X c"
  obtain F0 where F0: "(if R - i \<ge> SIZE then Some (SIZE, F)
        else do { F \<leftarrow> zero_fill (SIZE * SIZE) F; Some (R - i, F) }) = Some (min SIZE (R - i), F0)"
    "length F0 = SIZE * SIZE" "\<forall>m<SIZE. \<forall>c<SIZE. R - i \<le> m \<longrightarrow> F0 ! (SIZE * m + c) = 0"
    using matvec_tile_prepare [OF assms(5), of R i] by blast
  have n: "i + min SIZE (R - i) \<le> R" using assms(3) by arith
  obtain F' where F': "for_loop 1 (min SIZE (R - i)) 0 (\<lambda>m F. copy_padded F (SIZE * m) M (C * i + j + C * m) (C - j)) F0 = Some F'"
    "length F' = SIZE * SIZE" "\<forall>m<SIZE. \<forall>c<SIZE. F' ! (SIZE * m + c)
        = (if m < min SIZE (R - i) then (if j + c < C then M ! (C * (i + m) + (j + c)) else 0) else F0 ! (SIZE * m + c))"
    using matvec_tile_rows [of R C M F0 j i "min SIZE (R - i)", OF _ F0(2) assms(4) n min.cobounded1] O by blast
  have l: "j + min (C - j) SIZE \<le> length v" using O assms(4) by arith
  obtain W' where W': "copy_padded W 0 v j (C - j) = Some W'" "length W' = SIZE"
    "\<forall>c<SIZE. W' ! c = (if j + c < C then v ! (j + c) else 0)"
    using copy_padded_run [OF _ l, of 0 W] assms(6) by (auto simp: less_diff_conv add.commute)
  obtain t out' w' where o: "fpga_matvec env F' W' out w = Some (t, out', w')" "length out' = SIZE"
    "\<forall>m<SIZE. out' ! m = hw F' W' ! m"
    using fpga_matvec_run [of env V hw F' W' out w] S F'(2) W'(2) assms(7) by blast
  have val_o: "val (out' ! m) = Some (if i + m < R then \<Sum>c<SIZE. if j + c < C then ?g m (j + c) else 0 else 0)"
    if m: "m < SIZE" for m
  proof -
    let ?A = "\<lambda>m c. if i + m < R \<and> j + c < C then A (C * (i + m) + (j + c)) else 0"
    let ?X = "\<lambda>c. if j + c < C then X (j + c) else 0"
    have vF: "val (F' ! (SIZE * m + c)) = Some (?A m c)" if "m < SIZE" "c < SIZE" for m c
    proof -
      have idx: "C * (i + m) + (j + c) < R * C" if "i + m < R" "j + c < C"
        using row_index_less [OF that] by (simp add: mult.commute)
      show ?thesis using F'(3) F0(3) that O zero idx by auto
    qed
    have vW: "val (W' ! c) = Some (?X c)" if "c < SIZE" for c
      using W'(3) that O zero by auto
    have split: "?A m c * ?X c = (if i + m < R then if j + c < C then ?g m (j + c) else 0 else 0)" for c
      by simp
    have "0 \<le> B" by (rule exact_operands_nonneg [OF assms(2,3)])
    then have "(\<Sum>c<SIZE. \<bar>?A m c * ?X c\<bar>) \<le> B"
      unfolding split using tile_sum_bounds(1) [where g = "?g m" and C = C and j = j and n = SIZE and B = B] O
      by (cases "i + m < R") auto
    from exact_hwD [of hw val B F' W' ?A ?X, OF _ F'(2) W'(2) vF vW m this] S
    have "val (hw F' W' ! m) = Some (\<Sum>c<SIZE. ?A m c * ?X c)" by blast
    then show ?thesis using o(3) m unfolding split by (auto cong: if_cong)
  qed
  obtain buf' where buf': "add_into fp buf out' SIZE = Some buf'" "length buf' = SIZE"
    "\<forall>m<SIZE. buf' ! m = fadd fp (buf ! m) (out' ! m)"
    using add_into_run [of SIZE buf out' fp] assms(8) o(2) by auto
  have "val (buf' ! m) = Some (if i + m < R then \<Sum>c<min (j + SIZE) C. ?g m c else 0)" if m: "m < SIZE" for m
  proof -
    have "(\<Sum>c<SIZE. if j + c < C then ?g m (j + c) else 0) + (\<Sum>c<min j C. ?g m c) = (\<Sum>c<min (j + SIZE) C. ?g m c)"
      by (rule tile_sum)
    moreover have "\<bar>\<Sum>c<min (j + SIZE) C. ?g m c\<bar> \<le> B" if "i + m < R"
      using tile_sum_bounds(2) [where g = "?g m" and C = C and j = "j + SIZE" and B = B] O that by blast
    moreover have "0 \<le> B" by (rule exact_operands_nonneg [OF assms(2,3)])
    ultimately show ?thesis
      using exact_fpu_add [of fp val B, OF _ assms(9) [rule_format, OF m] val_o [OF m]] buf'(3) m S
      by (auto simp: add.commute split: if_splits)
  qed
  with F0(1) F'(1,2) W'(1,2) o(1,2) buf'(1,2) show ?thesis
    by (simp add: matvec_tile_def)
qed

lemma matvec_tile_row_run:
  assumes "exact_offload fp env V hw val B" "exact_operands val B R C M v A X" "i < R"
    and "length F = SIZE * SIZE" "length W = SIZE" "R \<le> length out"
  shows "\<exists>F' W' out' w'. matvec_tile_row fp env M v R C i (F, W, out, w) = Some (F', W', out', w')
    \<and> length F' = SIZE * SIZE \<and> length W' = SIZE \<and> length out' = length out
    \<and> (\<forall>r<length out. if i \<le> r \<and> r < min (i + SIZE) R
         then val (out' ! r) = Some (\<Sum>c<C. A (C * r + c) * X c) else out' ! r = out ! r)"
proof -
  let ?e = "\<lambda>k m. if i + m < R then \<Sum>c<min (SIZE * k) C. A (C * (i + m) + c) * X c else 0"
  let ?P = "\<lambda>k (F, W, x, y, w). length F = SIZE * SIZE \<and> length W = SIZE \<and> length x = SIZE \<and> length y = SIZE
    \<and> (\<forall>m<SIZE. val (y ! m) = Some (?e k m))"
  have zero: "val 0 = Some 0"
    using assms(1) exact_fpu_zero unfolding exact_offload_def by blast
  have start: "?P 0 (F, W, replicate SIZE 0, replicate SIZE 0, w)"
    using assms(4,5) zero by simp
  obtain s' k where s': "for_loop SIZE C 0 (matvec_tile fp env M v R C i) (F, W, replicate SIZE 0, replicate SIZE 0, w) = Some s'"
    "?P k s'" "C \<le> SIZE * k"
  proof (rule for_loop_rule [where P = ?P, OF SIZE_pos start])
    fix k and s :: "u32 list \<times> u32 list \<times> u32 list \<times> u32 list \<times> 'a hworld"
    assume k: "SIZE * k < C" and P: "?P k s"
    obtain F W x y w where s: "s = (F, W, x, y, w)" by (cases s)
    from matvec_tile_run [OF assms(1-3) k, of F W x y w] P
    show "\<exists>s'. matvec_tile fp env M v R C i (SIZE * k) s = Some s' \<and> ?P (Suc k) s'"
      by (fastforce simp: s add.commute)
  qed blast
  obtain F' W' x y w' where s: "s' = (F', W', x, y, w')" by (cases s')
  let ?n = "if R - i \<ge> SIZE then SIZE else R - i"
  have n: "i + ?n = min (i + SIZE) R" "?n \<le> SIZE" using assms(3) by auto
  have l: "min (i + SIZE) R \<le> length out" using assms(6) by arith
  obtain out' where out': "memcpy out i y 0 ?n = Some out'" "length out' = length out"
    "\<forall>r<length out. out' ! r = (if i \<le> r \<and> r < i + ?n then y ! (r - i) else out ! r)"
    using memcpy_run [of i ?n out 0 y] n l s'(2) by (auto simp: s)
  have "if i \<le> r \<and> r < min (i + SIZE) R
         then val (out' ! r) = Some (\<Sum>c<C. A (C * r + c) * X c) else out' ! r = out ! r" if "r < length out" for r
  proof (cases "i \<le> r \<and> r < min (i + SIZE) R")
    case True
    then have "r - i < SIZE" "i + (r - i) = r" by arith+
    with s'(2) True have "val (y ! (r - i)) = Some (\<Sum>c<min (SIZE * k) C. A (C * r + c) * X c)"
      by (simp add: s)
    with True s'(3) show ?thesis using out'(3) that unfolding n(1) by (simp add: min_absorb2)
  next
    case False
    then show ?thesis using out'(3) that unfolding n(1) by auto
  qed
  with s'(1,2) out'(1,2) show ?thesis
    by (simp add: matvec_tile_row_def s)
qed

lemma fpga_large_matvec_naive_run:
  assumes "exact_offload fp env V hw val B" "exact_operands val B R C M v A X"
    and "length F = SIZE * SIZE" "length W = SIZE" "R \<le> length out"
  shows "\<exists>t out' w'. fpga_large_matvec_naive fp env F W M v out R C w = Some (t, out', w')
    \<and> normalized t \<and> length out' = length out \<and> (\<forall>r<R. val (out' ! r) = Some (\<Sum>c<C. A (C * r + c) * X c))
    \<and> (\<forall>r<length out. R \<le> r \<longrightarrow> out' ! r = out ! r)"
proof -
  have S: "os_good env" using assms(1) by (simp add: exact_offload_def)
  obtain f where f: "\<And>cs cs'. timespec_sub (os_clock env cs) (os_clock env cs') = Some (f cs cs')"
    "\<And>cs cs'. normalized (f cs cs')"
    using timespec_sub_clock [OF S] by blast
  obtain z where z: "zero_fill R out = Some z" "length z = length out"
    "\<forall>k<length out. z ! k = (if k < R then 0 else out ! k)"
    using zero_fill_run [OF assms(5)] by blast
  let ?w = "log_call (GetTime (os_clock env (calls w))) w"
  let ?P = "\<lambda>k (F, W, x, w). length F = SIZE * SIZE \<and> length W = SIZE \<and> length x = length out
    \<and> (\<forall>r<min (SIZE * k) R. val (x ! r) = Some (\<Sum>c<C. A (C * r + c) * X c))
    \<and> (\<forall>r<length out. R \<le> r \<longrightarrow> x ! r = out ! r)"
  have start: "?P 0 (F, W, z, ?w)" using assms(3,4) z(2,3) by simp
  obtain s' k where s': "for_loop SIZE R 0 (matvec_tile_row fp env M v R C) (F, W, z, ?w) = Some s'" "?P k s'" "R \<le> SIZE * k"
  proof (rule for_loop_rule [where P = ?P, OF SIZE_pos start])
    fix k and s :: "u32 list \<times> u32 list \<times> u32 list \<times> 'a hworld"
    assume k: "SIZE * k < R" and P: "?P k s"
    obtain F W x w where s: "s = (F, W, x, w)" by (cases s)
    from P have P: "length F = SIZE * SIZE" "length W = SIZE" "length x = length out"
      "\<forall>r<min (SIZE * k) R. val (x ! r) = Some (\<Sum>c<C. A (C * r + c) * X c)"
      "\<forall>r<length out. R \<le> r \<longrightarrow> x ! r = out ! r" by (simp_all add: s)
    obtain F' W' x' w' where r: "matvec_tile_row fp env M v R C (SIZE * k) (F, W, x, w) = Some (F', W', x', w')"
      "length F' = SIZE * SIZE" "length W' = SIZE" "length x' = length out"
      "\<forall>r<length out. if SIZE * k \<le> r \<and> r < min (SIZE * k + SIZE) R
         then val (x' ! r) = Some (\<Sum>c<C. A (C * r + c) * X c) else x' ! r = x ! r"
      using matvec_tile_row_run [OF assms(1,2) k P(1,2), of x w] P(3) assms(5) by auto
    have "val (x' ! r) = Some (\<Sum>c<C. A (C * r + c) * X c)" if "r < min (SIZE * Suc k) R" for r
      using r(5) P(4) that k assms(5) by (cases "SIZE * k \<le> r") (auto simp: add.commute split: if_splits)
    moreover have "\<forall>r<length out. R \<le> r \<longrightarrow> x' ! r = out ! r"
      using r(5) P(5) by auto
    ultimately show "\<exists>s'. matvec_tile_row fp env M v R C (SIZE * k) s = Some s' \<and> ?P (Suc k) s'"
      using r(1-4) by (simp add: s)
  qed blast
  obtain F' W' x w' where s: "s' = (F', W', x, w')" by (cases s')
  have cleared: "\<exists>y. zero_fill (SIZE * SIZE) F' = Some y" "\<exists>y. zero_fill SIZE W' = Some y"
    using zero_fill_run [of "SIZE * SIZE" F'] zero_fill_run [of SIZE W'] s'(2) by (auto simp: s)
  have "\<forall>r<R. val (x ! r) = Some (\<Sum>c<C. A (C * r + c) * X c)" using s'(2,3) by (auto simp: s)
  then show ?thesis
    using s'(1,2) z(1) cleared f by (auto simp: fpga_large_matvec_naive_def clock_gettime_eq s Let_def)
qed

subsection \<open>The product of matrices, column by column\<close>

definition exact_factors ::
  "(u32 \<Rightarrow> int option) \<Rightarrow> int \<Rightarrow> nat \<Rightarrow> nat \<Rightarrow> nat \<Rightarrow> u32 list \<Rightarrow> u32 list \<Rightarrow> (nat \<Rightarrow> int) \<Rightarrow> (nat \<Rightarrow> int) \<Rightarrow> bool" where
  "exact_factors val B RA CA CB M N X Y \<longleftrightarrow> RA * CA \<le> length M \<and> CA * CB \<le> length N
     \<and> (\<forall>k<RA * CA. val (M ! k) = Some (X k)) \<and> (\<forall>k<CA * CB. val (N ! k) = Some (Y k))
     \<and> (\<forall>i<RA. \<forall>j<CB. (\<Sum>k<CA. \<bar>X (i * CA + k) * Y (k * CB + j)\<bar>) \<le> B)"

lemma exact_factors_column:
  assumes "exact_factors val B RA CA CB M N X Y" "j < CB" "length T = CA * CB"
    and "\<forall>i<CA. \<forall>j<CB. T ! (j * CA + i) = N ! (i * CB + j)"
  shows "exact_operands val B RA CA M (drop (CA * j) T) X (\<lambda>c. Y (c * CB + j))"
proof -
  have fit: "CA * j + CA \<le> CA * CB"
    using assms(2) mult_le_mono2 [of "Suc j" CB CA] by simp
  then have le: "CA * j \<le> length T" unfolding assms(3) by linarith
  have "drop (CA * j) T ! c = N ! (c * CB + j)" if "c < CA" for c
    using assms(4) [rule_format, OF that assms(2)] le by (simp add: mult.commute [of j CA])
  moreover have "c * CB + j < CA * CB" if "c < CA" for c
    by (rule row_index_less [OF that assms(2)])
  ultimately show ?thesis
    using assms(1-3) fit by (simp add: exact_factors_def exact_operands_def mult.commute)
qed

lemma fpga_large_matmul_naive_run:
  assumes "exact_offload fp env V hw val B" "exact_factors val B RA CA CB M N X Y"
    and "\<forall>cs. length (F cs) = SIZE * SIZE" "\<forall>cs. length (W cs) = SIZE" "length T = CA * CB" "length O' = RA * CB" "RA * CB \<le> length out"
  shows "\<exists>t out' w'. fpga_large_matmul_naive fp env F W T O' M N out RA CA CB w = Some (t, out', w') \<and> normalized t
    \<and> length out' = length out \<and> (\<forall>i<RA. \<forall>j<CB. val (out' ! (i * CB + j)) = Some (\<Sum>k<CA. X (i * CA + k) * Y (k * CB + j)))"
proof -
  have S: "os_good env" using assms(1) by (simp add: exact_offload_def)
  obtain f where f: "\<And>cs cs'. timespec_sub (os_clock env cs) (os_clock env cs') = Some (f cs cs')"
    "\<And>cs cs'. normalized (f cs cs')"
    using timespec_sub_clock [OF S] by blast
  obtain z where z: "zero_fill (RA * CB) O' = Some z" "length z = RA * CB"
    using zero_fill_run [of "RA * CB" O'] assms(6) by auto
  obtain T' where T': "mat_transpose_naive N T CA CB = Some T'" "length T' = CA * CB"
    "\<forall>i<CA. \<forall>j<CB. T' ! (j * CA + i) = N ! (i * CB + j)"
    using mat_transpose_naive_run [of CA CB N T] assms(2,5) by (auto simp: exact_factors_def)
  let ?w = "log_call (GetTime (os_clock env (calls w))) w"
  let ?e = "\<lambda>i j. \<Sum>k<CA. X (i * CA + k) * Y (k * CB + j)"
  let ?P = "\<lambda>n (xs, w). length xs = RA * CB \<and> (\<forall>j<n. \<forall>i<RA. val (xs ! (j * RA + i)) = Some (?e i j))"
  let ?body = "\<lambda>i (out_matrix_t, w). do {
       (_, col, w) \<leftarrow> fpga_large_matvec_naive fp env (F (calls w)) (W (calls w)) M (drop (CA * i) T') (drop (RA * i) out_matrix_t) RA CA w;
       Some (take (RA * i) out_matrix_t @ col, w) }"
  have "\<exists>s'. for_loop 1 CB 0 ?body (z, ?w) = Some s' \<and> ?P CB s'"
  proof (rule for_each_rule [where P = ?P])
    fix j and s :: "u32 list \<times> 'a hworld" assume j: "j < CB" and P: "?P j s"
    obtain xs w where s: "s = (xs, w)" by (cases s)
    have fit: "RA * j + RA \<le> RA * CB"
      using j mult_le_mono2 [of "Suc j" CB RA] by simp
    have xs: "length xs = RA * CB" using P by (simp add: s)
    have R: "RA \<le> length (drop (RA * j) xs)" using fit xs by simp
    obtain t col w' where c: "fpga_large_matvec_naive fp env (F (calls w)) (W (calls w)) M (drop (CA * j) T') (drop (RA * j) xs) RA CA w = Some (t, col, w')"
      "length col = length (drop (RA * j) xs)" "\<forall>r<RA. val (col ! r) = Some (\<Sum>c<CA. X (CA * r + c) * Y (c * CB + j))"
      using fpga_large_matvec_naive_run [OF assms(1) exact_factors_column [OF assms(2) j T'(2,3)]
          assms(3) [rule_format] assms(4) [rule_format] R, of "calls w" "calls w" w] by blast
    let ?xs = "take (RA * j) xs @ col"
    have len: "length (take (RA * j) xs) = RA * j" using fit xs by simp
    have "val (?xs ! (j' * RA + i)) = Some (?e i j')" if "j' < Suc j" "i < RA" for j' i
    proof (cases "j' = j")
      case True
      have "?xs ! (RA * j + i) = col ! i" using nth_append_length_plus [of "take (RA * j) xs" col i] by (simp only: len)
      then show ?thesis using c(3) that True by (simp add: mult.commute)
    next
      case False
      then have "j' * RA + i < RA * j"
        using row_index_less [of j' j i RA] that by (simp add: mult.commute)
      then show ?thesis using P that False len by (simp add: s nth_append)
    qed
    then show "\<exists>s'. ?body j s = Some s' \<and> ?P (Suc j) s'"
      using c(1,2) fit xs by (simp add: s)
  qed (use z(2) in simp)
  then obtain xs w' where xs: "for_loop 1 CB 0 ?body (z, ?w) = Some (xs, w')" "?P CB (xs, w')" by auto
  obtain out' where out': "mat_transpose_naive xs out CB RA = Some out'" "length out' = length out"
    "\<forall>j<CB. \<forall>i<RA. out' ! (i * CB + j) = xs ! (j * RA + i)"
    using mat_transpose_naive_run [of CB RA xs out] xs(2) assms(7) by (auto simp: mult.commute)
  have "\<forall>i<RA. \<forall>j<CB. val (out' ! (i * CB + j)) = Some (?e i j)" using out'(3) xs(2) by simp
  then show ?thesis
    using out'(1,2) xs(1) by (simp add: fpga_large_matmul_naive_def clock_gettime_eq z(1) T'(1) f Let_def)
qed

subsection \<open>The product of matrices, tile by tile\<close>

text \<open>Rows copied between arrays of different widths.\<close>

lemma copy_rows:
  assumes "\<And>p. p < n \<Longrightarrow> d + dw * p + cnt \<le> length dst" "\<And>p. p < n \<Longrightarrow> b + sw * p + cnt \<le> length src" "cnt \<le> dw"
  shows "\<exists>xs. for_loop 1 n 0 (\<lambda>p xs. memcpy xs (d + dw * p) src (b + sw * p) cnt) dst = Some xs \<and> length xs = length dst
    \<and> (\<forall>p<n. \<forall>q<cnt. xs ! (d + dw * p + q) = src ! (b + sw * p + q))
    \<and> (\<forall>k<length dst. (\<forall>p<n. \<not> (d + dw * p \<le> k \<and> k < d + dw * p + cnt)) \<longrightarrow> xs ! k = dst ! k)"
proof (rule for_each_rule [where P = "\<lambda>n xs. length xs = length dst
    \<and> (\<forall>p<n. \<forall>q<cnt. xs ! (d + dw * p + q) = src ! (b + sw * p + q))
    \<and> (\<forall>k<length dst. (\<forall>p<n. \<not> (d + dw * p \<le> k \<and> k < d + dw * p + cnt)) \<longrightarrow> xs ! k = dst ! k)"])
  fix p xs assume p: "p < n" and P: "length xs = length dst
    \<and> (\<forall>p'<p. \<forall>q<cnt. xs ! (d + dw * p' + q) = src ! (b + sw * p' + q))
    \<and> (\<forall>k<length dst. (\<forall>p'<p. \<not> (d + dw * p' \<le> k \<and> k < d + dw * p' + cnt)) \<longrightarrow> xs ! k = dst ! k)"
  obtain ys where ys: "memcpy xs (d + dw * p) src (b + sw * p) cnt = Some ys" "length ys = length dst"
    "\<forall>k<length dst. ys ! k = (if d + dw * p \<le> k \<and> k < d + dw * p + cnt then src ! (b + sw * p + (k - (d + dw * p))) else xs ! k)"
    using memcpy_run [of "d + dw * p" cnt xs "b + sw * p" src] assms(1,2) [OF p] P by auto
  have "ys ! (d + dw * p' + q) = src ! (b + sw * p' + q)" if "p' < Suc p" "q < cnt" for p' q
  proof (cases "p' = p")
    case True
    then show ?thesis using ys(3) assms(1) [OF p] that(2) by simp
  next
    case False
    then have "p' < p" using that by simp
    then have "dw * p' + q < dw * p"
      using row_index_less [of p' p q dw] that(2) assms(3) by (simp add: mult.commute)
    with \<open>p' < p\<close> show ?thesis using ys(3) P assms(1) [OF p] that(2) by simp
  qed
  moreover have "ys ! k = dst ! k" if "k < length dst" "\<forall>p'<Suc p. \<not> (d + dw * p' \<le> k \<and> k < d + dw * p' + cnt)" for k
    using that ys(3) P by (auto simp: less_Suc_eq)
  ultimately show "\<exists>ys. memcpy xs (d + dw * p) src (b + sw * p) cnt = Some ys \<and> (length ys = length dst
    \<and> (\<forall>p'<Suc p. \<forall>q<cnt. ys ! (d + dw * p' + q) = src ! (b + sw * p' + q))
    \<and> (\<forall>k<length dst. (\<forall>p'<Suc p. \<not> (d + dw * p' \<le> k \<and> k < d + dw * p' + cnt)) \<longrightarrow> ys ! k = dst ! k))"
    using ys(1,2) by blast
qed simp

text \<open>A tile of a matrix with rows of \<open>w\<close> cells, taken at row \<open>r\<close> and column \<open>c\<close>.\<close>

definition is_tile :: "u32 list \<Rightarrow> nat \<Rightarrow> nat \<Rightarrow> nat \<Rightarrow> nat \<Rightarrow> u32 list \<Rightarrow> bool" where
  "is_tile M h w r c F \<longleftrightarrow> length F = SIZE * SIZE \<and> (\<forall>p<SIZE. \<forall>q<SIZE. F ! (SIZE * p + q)
     = (if r + p < h \<and> c + q < w then M ! ((r + p) * w + (c + q)) else 0))"

lemma gather_tile:
  assumes "length F = SIZE * SIZE" "h * w \<le> length M" "r < h" "c < w"
    and "n = (if h - r \<ge> SIZE then SIZE else h - r)" "cnt = (if w - c \<ge> SIZE then SIZE else w - c)"
  shows "\<exists>Z F'. zero_fill (SIZE * SIZE) F = Some Z
    \<and> for_loop 1 n 0 (\<lambda>p F. memcpy F (SIZE * p) M (w * r + w * p + c) cnt) Z = Some F' \<and> is_tile M h w r c F'"
proof -
  obtain Z where Z: "zero_fill (SIZE * SIZE) F = Some Z" "length Z = SIZE * SIZE" "\<forall>k<SIZE * SIZE. Z ! k = 0"
    using zero_fill_run [of "SIZE * SIZE" F] assms(1) by auto
  have cs: "cnt \<le> SIZE" using assms(6) by simp
  have dst: "0 + SIZE * p + cnt \<le> length Z" if "p < n" for p
    using that assms(5,6) mult_le_mono2 [of "Suc p" SIZE SIZE] Z(2) by (auto split: if_splits)
  have src: "(w * r + c) + w * p + cnt \<le> length M" if "p < n" for p
  proof -
    have "(r + p) * w + (c + cnt) \<le> (r + p) * w + w" "Suc (r + p) \<le> h"
      using that assms(3-6) by (auto split: if_splits)
    then have "(r + p) * w + (c + cnt) \<le> h * w"
      using mult_le_mono1 [of "Suc (r + p)" h w] by simp
    then show ?thesis using assms(2) by (simp add: algebra_simps)
  qed
  obtain F' where F': "for_loop 1 n 0 (\<lambda>p F. memcpy F (0 + SIZE * p) M (w * r + c + w * p) cnt) Z = Some F'"
    "length F' = SIZE * SIZE" "\<forall>p<n. \<forall>q<cnt. F' ! (0 + SIZE * p + q) = M ! (w * r + c + w * p + q)"
    "\<forall>k<SIZE * SIZE. (\<forall>p<n. \<not> (0 + SIZE * p \<le> k \<and> k < 0 + SIZE * p + cnt)) \<longrightarrow> F' ! k = Z ! k"
    using copy_rows [where n = n, OF dst src cs] unfolding Z(2) by blast
  have eq: "w * r + c + w * p = w * r + w * p + c" for p by simp
  have "F' ! (SIZE * p + q) = (if r + p < h \<and> c + q < w then M ! ((r + p) * w + (c + q)) else 0)"
    if "p < SIZE" "q < SIZE" for p q
  proof (cases "p < n \<and> q < cnt")
    case True
    then have in_range: "r + p < h \<and> c + q < w" using assms(5,6) by (auto split: if_splits)
    have "w * r + c + w * p + q = (r + p) * w + (c + q)" by (simp add: algebra_simps)
    from F'(3) [rule_format, of p q, unfolded this] True in_range show ?thesis by simp
  next
    case False
    moreover have "\<not> (SIZE * p' \<le> SIZE * p + q \<and> SIZE * p + q < SIZE * p' + cnt)" if "p' < n" for p'
    proof
      assume a: "SIZE * p' \<le> SIZE * p + q \<and> SIZE * p + q < SIZE * p' + cnt"
      then have "p = p'" using row_block [OF \<open>q < SIZE\<close>, of p' p] assms(6) by (auto split: if_splits)
      with a that False show False by simp
    qed
    moreover have "SIZE * p + q < SIZE * SIZE"
      using row_index_less [OF that] by (simp add: mult.commute)
    ultimately have "F' ! (SIZE * p + q) = 0" using F'(4) Z(3) by simp
    moreover have "\<not> (r + p < h \<and> c + q < w)" using False that assms(5,6) by (auto split: if_splits)
    ultimately show ?thesis by auto
  qed
  with F'(2) have "is_tile M h w r c F'" by (simp add: is_tile_def)
  then show ?thesis using Z(1) F'(1) by (simp add: eq)
qed

lemma is_tile_val:
  assumes "is_tile M h w r c F" "\<forall>k<h * w. val (M ! k) = Some (X k)" "val 0 = Some 0" "p < SIZE" "q < SIZE"
  shows "val (F ! (SIZE * p + q)) = Some (if r + p < h \<and> c + q < w then X ((r + p) * w + (c + q)) else 0)"
  using assms row_index_less [of "r + p" h "c + q" w] by (auto simp: is_tile_def)

lemma exact_factors_nonneg:
  assumes "exact_factors val B RA CA CB M N X Y" "i < RA" "j < CB" shows "0 \<le> B"
proof -
  have "(\<Sum>k<CA. \<bar>X (i * CA + k) * Y (k * CB + j)\<bar>) \<le> B" using assms by (simp add: exact_factors_def)
  moreover have "0 \<le> (\<Sum>k<CA. \<bar>X (i * CA + k) * Y (k * CB + j)\<bar>)" by (simp add: sum_nonneg)
  ultimately show ?thesis by linarith
qed

text \<open>The product of two tiles by the unit.\<close>

lemma tile_product:
  assumes "exact_offload fp env V hw val B" "exact_factors val B RA CA CB M N X Y" "i < RA" "j < CB"
    and "is_tile M RA CA i k F" "is_tile N CA CB k j G" "length T = SIZE * SIZE" "length out = SIZE * SIZE"
  shows "\<exists>t out' w'. fpga_matmul env T F G out w = Some (t, out', w') \<and> length out' = SIZE * SIZE
    \<and> (\<forall>p<SIZE. \<forall>q<SIZE. val (out' ! (SIZE * p + q)) = Some (if i + p < RA \<and> j + q < CB
          then \<Sum>c<SIZE. if k + c < CA then X ((i + p) * CA + (k + c)) * Y ((k + c) * CB + (j + q)) else 0 else 0))"
proof -
  note S = assms(1) [unfolded exact_offload_def] and O = assms(2) [unfolded exact_factors_def]
  have zero: "val 0 = Some 0" using S exact_fpu_zero by blast
  have M: "\<forall>k<RA * CA. val (M ! k) = Some (X k)" and N: "\<forall>k<CA * CB. val (N ! k) = Some (Y k)"
    using O by blast+
  have len: "length F = SIZE * SIZE" "length G = SIZE * SIZE" using assms(5,6) by (simp_all add: is_tile_def)
  obtain t out' w' T' where o: "fpga_matmul env T F G out w = Some (t, out', w')" "length out' = SIZE * SIZE"
    "length T' = SIZE * SIZE" "\<forall>i<SIZE. \<forall>j<SIZE. T' ! (j * SIZE + i) = G ! (i * SIZE + j)"
    "\<forall>k<SIZE. \<forall>i<SIZE. out' ! (k * SIZE + i) = hw T' (take SIZE (drop (SIZE * k) F)) ! i"
    using fpga_matmul_run [of env V hw F G T out w] S len assms(7,8) by blast
  have "val (out' ! (SIZE * p + q)) = Some (if i + p < RA \<and> j + q < CB
          then \<Sum>c<SIZE. if k + c < CA then X ((i + p) * CA + (k + c)) * Y ((k + c) * CB + (j + q)) else 0 else 0)"
    if p: "p < SIZE" and q: "q < SIZE" for p q
  proof -
    let ?v = "take SIZE (drop (SIZE * p) F)"
    let ?A = "\<lambda>m c. if k + c < CA \<and> j + m < CB then Y ((k + c) * CB + (j + m)) else 0"
    let ?X = "\<lambda>c. if i + p < RA \<and> k + c < CA then X ((i + p) * CA + (k + c)) else 0"
    let ?g = "\<lambda>c. X ((i + p) * CA + c) * Y (c * CB + (j + q))"
    have fit: "SIZE * p + SIZE \<le> length F"
      using p mult_le_mono2 [of "Suc p" SIZE SIZE] len by simp
    have v: "length ?v = SIZE" using fit by simp
    have vT: "val (T' ! (SIZE * m + c)) = Some (?A m c)" if "m < SIZE" "c < SIZE" for m c
      using o(4) [rule_format, OF that(2,1)] is_tile_val [OF assms(6) N zero that(2,1)] by (simp add: mult.commute)
    have vF: "val (?v ! c) = Some (?X c)" if "c < SIZE" for c
      using is_tile_val [OF assms(5) M zero p that] that fit by simp
    have split: "?A q c * ?X c = (if i + p < RA \<and> j + q < CB then if k + c < CA then ?g (k + c) else 0 else 0)" for c
      by simp
    have "0 \<le> B" by (rule exact_factors_nonneg [OF assms(2-4)])
    then have "(\<Sum>c<SIZE. \<bar>?A q c * ?X c\<bar>) \<le> B"
      unfolding split using tile_sum_bounds(1) [where g = ?g and C = CA and j = k and n = SIZE and B = B] O
      by (cases "i + p < RA \<and> j + q < CB") auto
    from exact_hwD [of hw val B T' ?v ?A ?X, OF _ o(3) v vT vF q this] S
    have "val (hw T' ?v ! q) = Some (\<Sum>c<SIZE. ?A q c * ?X c)" by blast
    then show ?thesis
      using o(5) p q unfolding split by (auto simp: mult.commute [of SIZE p] cong: if_cong)
  qed
  then show ?thesis using o(1,2) by blast
qed

definition tile_size :: "nat \<Rightarrow> nat \<Rightarrow> nat" where
  "tile_size n i = (if n - i \<ge> SIZE then SIZE else n - i)"

lemma matmul_tile_run:
  assumes "exact_offload fp env V hw val B" "exact_factors val B RA CA CB M N X Y" "i < RA" "j < CB" "k < CA"
    and "\<forall>cs. length (heap cs) = SIZE * SIZE"
    and "length F = SIZE * SIZE" "length G = SIZE * SIZE" "length out = SIZE * SIZE" "length buf = SIZE * SIZE"
    and "\<forall>p<SIZE. \<forall>q<SIZE. val (buf ! (SIZE * p + q)) = Some (if i + p < RA \<and> j + q < CB
          then \<Sum>c<min k CA. X ((i + p) * CA + c) * Y (c * CB + (j + q)) else 0)"
  shows "\<exists>F' G' out' buf' w'. matmul_tile fp env heap M N CA CB i (tile_size RA i) j (tile_size CB j) k (F, G, out, buf, w)
      = Some (F', G', out', buf', w')
    \<and> length F' = SIZE * SIZE \<and> length G' = SIZE * SIZE \<and> length out' = SIZE * SIZE \<and> length buf' = SIZE * SIZE
    \<and> (\<forall>p<SIZE. \<forall>q<SIZE. val (buf' ! (SIZE * p + q)) = Some (if i + p < RA \<and> j + q < CB
          then \<Sum>c<min (k + SIZE) CA. X ((i + p) * CA + c) * Y (c * CB + (j + q)) else 0))"
proof -
  note S = assms(1) [unfolded exact_offload_def] and O = assms(2) [unfolded exact_factors_def]
  have fit: "RA * CA \<le> length M" "CA * CB \<le> length N" using O by blast+
  obtain Z1 F' where F': "zero_fill (SIZE * SIZE) F = Some Z1"
    "for_loop 1 (tile_size RA i) 0 (\<lambda>p F. memcpy F (SIZE * p) M (CA * i + CA * p + k) (tile_size CA k)) Z1 = Some F'"
    "is_tile M RA CA i k F'"
    using gather_tile [OF assms(7) fit(1) assms(3,5) refl refl] unfolding tile_size_def by blast
  obtain Z2 G' where G': "zero_fill (SIZE * SIZE) G = Some Z2"
    "for_loop 1 (tile_size CA k) 0 (\<lambda>p G. memcpy G (SIZE * p) N (CB * k + CB * p + j) (tile_size CB j)) Z2 = Some G'"
    "is_tile N CA CB k j G'"
    using gather_tile [OF assms(8) fit(2) assms(5,4) refl refl] unfolding tile_size_def by blast
  obtain t out' w' where o: "fpga_matmul env (heap (calls w)) F' G' out w = Some (t, out', w')" "length out' = SIZE * SIZE"
    "\<forall>p<SIZE. \<forall>q<SIZE. val (out' ! (SIZE * p + q)) = Some (if i + p < RA \<and> j + q < CB
          then \<Sum>c<SIZE. if k + c < CA then X ((i + p) * CA + (k + c)) * Y ((k + c) * CB + (j + q)) else 0 else 0)"
    using tile_product [OF assms(1-4) F'(3) G'(3) assms(6) [rule_format] assms(9)] by blast
  obtain buf' where buf': "add_into fp buf out' (SIZE * SIZE) = Some buf'" "length buf' = SIZE * SIZE"
    "\<forall>m<SIZE * SIZE. buf' ! m = fadd fp (buf ! m) (out' ! m)"
    using add_into_run [of "SIZE * SIZE" buf out' fp] assms(10) o(2) by auto
  have "val (buf' ! (SIZE * p + q)) = Some (if i + p < RA \<and> j + q < CB
          then \<Sum>c<min (k + SIZE) CA. X ((i + p) * CA + c) * Y (c * CB + (j + q)) else 0)"
    if p: "p < SIZE" and q: "q < SIZE" for p q
  proof -
    let ?g = "\<lambda>c. X ((i + p) * CA + c) * Y (c * CB + (j + q))"
    have idx: "SIZE * p + q < SIZE * SIZE" using row_index_less [OF p q] by (simp add: mult.commute)
    have "(\<Sum>c<SIZE. if k + c < CA then ?g (k + c) else 0) + (\<Sum>c<min k CA. ?g c) = (\<Sum>c<min (k + SIZE) CA. ?g c)"
      by (rule tile_sum)
    moreover have "\<bar>\<Sum>c<min (k + SIZE) CA. ?g c\<bar> \<le> B" if "i + p < RA" "j + q < CB"
      using tile_sum_bounds(2) [where g = ?g and C = CA and j = "k + SIZE" and B = B] O that by blast
    moreover have "0 \<le> B" by (rule exact_factors_nonneg [OF assms(2-4)])
    ultimately show ?thesis
      using exact_fpu_add [of fp val B, OF _ assms(11) [rule_format, OF p q] o(3) [rule_format, OF p q]] buf'(3) idx S
      by (auto simp: add.commute split: if_splits)
  qed
  with F' G' o(1,2) buf'(1,2) show ?thesis
    by (simp add: matmul_tile_def is_tile_def Let_def flip: tile_size_def)
qed

text \<open>What is known of the output: the rows before tile row \<open>i\<close>, and of that row the columns before \<open>j\<close>.\<close>

definition product_upto ::
  "(u32 \<Rightarrow> int option) \<Rightarrow> nat \<Rightarrow> nat \<Rightarrow> nat \<Rightarrow> (nat \<Rightarrow> int) \<Rightarrow> (nat \<Rightarrow> int) \<Rightarrow> nat \<Rightarrow> nat \<Rightarrow> u32 list \<Rightarrow> bool" where
  "product_upto val RA CA CB X Y i j out \<longleftrightarrow> (\<forall>r<RA. \<forall>c<CB. r < i \<or> r < i + SIZE \<and> c < j \<longrightarrow>
     val (out ! (r * CB + c)) = Some (\<Sum>k<CA. X (r * CA + k) * Y (k * CB + c)))"

lemma matmul_tile_col_run:
  assumes "exact_offload fp env V hw val B" "exact_factors val B RA CA CB M N X Y" "i < RA" "j < CB"
    and "\<forall>cs. length (heap cs) = SIZE * SIZE" "length F = SIZE * SIZE" "length G = SIZE * SIZE" "RA * CB \<le> length out"
    and "product_upto val RA CA CB X Y i j out"
  shows "\<exists>F' G' out' w'. matmul_tile_col fp env heap M N CA CB i (tile_size RA i) j (F, G, out, w) = Some (F', G', out', w')
    \<and> length F' = SIZE * SIZE \<and> length G' = SIZE * SIZE \<and> length out' = length out
    \<and> product_upto val RA CA CB X Y i (j + SIZE) out'"
proof -
  let ?e = "\<lambda>r c. \<Sum>k<CA. X (r * CA + k) * Y (k * CB + c)"
  let ?P = "\<lambda>n (F, G, x, y, w). length F = SIZE * SIZE \<and> length G = SIZE * SIZE \<and> length x = SIZE * SIZE
    \<and> length y = SIZE * SIZE \<and> (\<forall>p<SIZE. \<forall>q<SIZE. val (y ! (SIZE * p + q)) = Some (if i + p < RA \<and> j + q < CB
          then \<Sum>c<min (SIZE * n) CA. X ((i + p) * CA + c) * Y (c * CB + (j + q)) else 0))"
  have zero: "val 0 = Some 0"
    using assms(1) exact_fpu_zero unfolding exact_offload_def by blast
  have start: "?P 0 (F, G, replicate (SIZE * SIZE) 0, replicate (SIZE * SIZE) 0, w)"
    using assms(6,7) zero row_index_less [of _ SIZE _ SIZE] by (simp add: mult.commute)
  obtain s' n where s': "for_loop SIZE CA 0 (matmul_tile fp env heap M N CA CB i (tile_size RA i) j (tile_size CB j))
      (F, G, replicate (SIZE * SIZE) 0, replicate (SIZE * SIZE) 0, w) = Some s'" "?P n s'" "CA \<le> SIZE * n"
  proof (rule for_loop_rule [where P = ?P, OF SIZE_pos start])
    fix n and s :: "u32 list \<times> u32 list \<times> u32 list \<times> u32 list \<times> 'a hworld"
    assume n: "SIZE * n < CA" and P: "?P n s"
    obtain F G x y w where s: "s = (F, G, x, y, w)" by (cases s)
    from P have P: "length F = SIZE * SIZE" "length G = SIZE * SIZE" "length x = SIZE * SIZE" "length y = SIZE * SIZE"
      "\<forall>p<SIZE. \<forall>q<SIZE. val (y ! (SIZE * p + q)) = Some (if i + p < RA \<and> j + q < CB
          then \<Sum>c<min (SIZE * n) CA. X ((i + p) * CA + c) * Y (c * CB + (j + q)) else 0)"
      by (simp_all add: s)
    from matmul_tile_run [OF assms(1-4) n assms(5) P, of w]
    show "\<exists>s'. matmul_tile fp env heap M N CA CB i (tile_size RA i) j (tile_size CB j) (SIZE * n) s = Some s' \<and> ?P (Suc n) s'"
      unfolding s mult_Suc_right add.commute [of SIZE "SIZE * n"] by blast
  qed blast
  obtain F' G' x y w' where s: "s' = (F', G', x, y, w')" by (cases s')
  have y: "val (y ! (SIZE * p + q)) = Some (?e (i + p) (j + q))" if "p < SIZE" "q < SIZE" "i + p < RA" "j + q < CB" for p q
    using s'(2,3) that by (simp add: s min_absorb2)
  let ?ti = "tile_size RA i" and ?tj = "tile_size CB j"
  have ti: "?ti \<le> SIZE" "i + ?ti \<le> RA" "r < i + ?ti \<longleftrightarrow> r < i + SIZE \<and> r < RA" for r
    using assms(3) by (auto simp: tile_size_def)
  have tj: "?tj \<le> SIZE" "j + ?tj \<le> CB" "c < j + ?tj \<longleftrightarrow> c < j + SIZE \<and> c < CB" for c
    using assms(4) by (auto simp: tile_size_def)
  have dst: "CB * i + j + CB * p + ?tj \<le> length out" if "p < ?ti" for p
  proof -
    have "(i + p) * CB + (j + ?tj) \<le> Suc (i + p) * CB" using tj(2) by simp
    also have "\<dots> \<le> RA * CB" using that ti(2) by (intro mult_le_mono1) simp
    finally show ?thesis using assms(8) by (simp add: algebra_simps)
  qed
  have src: "0 + SIZE * p + ?tj \<le> length y" if "p < ?ti" for p
    using that ti(1) tj(1) mult_le_mono2 [of "Suc p" SIZE SIZE] s'(2) by (simp add: s)
  have w: "?tj \<le> CB" using tj(2) by simp
  obtain out' where out': "for_loop 1 ?ti 0 (\<lambda>p xs. memcpy xs (CB * i + j + CB * p) y (0 + SIZE * p) ?tj) out = Some out'"
    "length out' = length out" "\<forall>p<?ti. \<forall>q<?tj. out' ! (CB * i + j + CB * p + q) = y ! (0 + SIZE * p + q)"
    "\<forall>k<length out. (\<forall>p<?ti. \<not> (CB * i + j + CB * p \<le> k \<and> k < CB * i + j + CB * p + ?tj)) \<longrightarrow> out' ! k = out ! k"
    using copy_rows [where n = ?ti, OF dst src w] by blast
  have eq: "CB * i + j + CB * p = CB * i + CB * p + j" for p by simp
  have idx: "CB * i + j + CB * p + q = (i + p) * CB + (j + q)" for p q by (simp add: algebra_simps)
  have "val (out' ! (r * CB + c)) = Some (?e r c)" if rc: "r < RA" "c < CB" "r < i \<or> r < i + SIZE \<and> c < j + SIZE" for r c
  proof (cases "i \<le> r \<and> j \<le> c")
    case True
    with rc have pq: "r - i < ?ti" "c - j < ?tj" "i + (r - i) = r" "j + (c - j) = c"
      using ti(3) [of r] tj(3) [of c] by auto
    then have "out' ! (r * CB + c) = y ! (SIZE * (r - i) + (c - j))"
      using out'(3) [rule_format, OF pq(1,2)] unfolding idx by simp
    with y [of "r - i" "c - j"] pq rc ti(1) tj(1) show ?thesis by simp
  next
    case False
    have "\<not> (CB * i + j + CB * p \<le> r * CB + c \<and> r * CB + c < CB * i + j + CB * p + ?tj)" if p: "p < ?ti" for p
    proof
      assume a: "CB * i + j + CB * p \<le> r * CB + c \<and> r * CB + c < CB * i + j + CB * p + ?tj"
      define q where "q = r * CB + c - (CB * i + j + CB * p)"
      from a have q: "q < ?tj" "r * CB + c = (i + p) * CB + (j + q)"
        unfolding q_def idx [symmetric] by auto
      then have "r = i + p \<and> c = j + q"
        using row_index_eq [of c CB "j + q" r "i + p"] rc(2) tj(2) by simp
      with False show False by simp
    qed
    moreover have "r * CB + c < length out"
      using row_index_less [OF rc(1,2)] assms(8) by simp
    ultimately have "out' ! (r * CB + c) = out ! (r * CB + c)" using out'(4) by blast
    then show ?thesis using assms(9) rc False by (auto simp: product_upto_def)
  qed
  then have "product_upto val RA CA CB X Y i (j + SIZE) out'" by (simp add: product_upto_def)
  then show ?thesis
    using s'(1,2) out'(1,2) by (simp add: matmul_tile_col_def s eq Let_def flip: tile_size_def)
qed

lemma fpga_large_matmul_naive2_run:
  assumes "exact_offload fp env V hw val B" "exact_factors val B RA CA CB M N X Y"
    and "\<forall>cs. length (heap cs) = SIZE * SIZE" "length F = SIZE * SIZE" "length G = SIZE * SIZE" "RA * CB \<le> length out"
  shows "\<exists>t out' w'. fpga_large_matmul_naive2 fp env heap F G M N out RA CA CB w = Some (t, out', w') \<and> normalized t
    \<and> length out' = length out \<and> (\<forall>i<RA. \<forall>j<CB. val (out' ! (i * CB + j)) = Some (\<Sum>k<CA. X (i * CA + k) * Y (k * CB + j)))"
proof -
  have "os_good env" using assms(1) by (simp add: exact_offload_def)
  then obtain f where f: "\<And>cs cs'. timespec_sub (os_clock env cs) (os_clock env cs') = Some (f cs cs')"
    "\<And>cs cs'. normalized (f cs cs')"
    using timespec_sub_clock by blast
  let ?w = "log_call (GetTime (os_clock env (calls w))) w"
  let ?ok = "\<lambda>i j (F, G, x, w). length F = SIZE * SIZE \<and> length G = SIZE * SIZE \<and> length x = length out
      \<and> product_upto val RA CA CB X Y i j x"
  have row: "\<exists>s'. for_loop SIZE CB 0 (matmul_tile_col fp env heap M N CA CB i (tile_size RA i)) s = Some s' \<and> ?ok (i + SIZE) 0 s'"
    if i: "i < RA" and start: "?ok i 0 s" for i and s :: "u32 list \<times> u32 list \<times> u32 list \<times> 'a hworld"
  proof -
    have st: "?ok i (SIZE * 0) s" using start by simp
    obtain s' n where s': "for_loop SIZE CB 0 (matmul_tile_col fp env heap M N CA CB i (tile_size RA i)) s = Some s'"
      "?ok i (SIZE * n) s'" "CB \<le> SIZE * n"
    proof (rule for_loop_rule [where P = "\<lambda>n. ?ok i (SIZE * n)", OF SIZE_pos st])
      fix n and s :: "u32 list \<times> u32 list \<times> u32 list \<times> 'a hworld"
      assume n: "SIZE * n < CB" and P: "?ok i (SIZE * n) s"
      obtain F G x w where s: "s = (F, G, x, w)" by (cases s)
      from P have P: "length F = SIZE * SIZE" "length G = SIZE * SIZE" "length x = length out"
        "product_upto val RA CA CB X Y i (SIZE * n) x" by (simp_all add: s)
      have len: "RA * CB \<le> length x" using P(3) assms(6) by simp
      from matmul_tile_col_run [OF assms(1,2) i n assms(3) P(1,2) len P(4), of w]
      show "\<exists>s'. matmul_tile_col fp env heap M N CA CB i (tile_size RA i) (SIZE * n) s = Some s' \<and> ?ok i (SIZE * Suc n) s'"
        unfolding s mult_Suc_right add.commute [of SIZE "SIZE * n"] by (auto simp: P(3))
    qed blast
    then have "?ok (i + SIZE) 0 s'" by (auto simp: product_upto_def)
    with s'(1) show ?thesis by blast
  qed
  have start: "?ok (SIZE * 0) 0 (F, G, out, ?w)" using assms(4,5) by (simp add: product_upto_def)
  obtain s' n where s': "for_loop SIZE RA 0 (\<lambda>i s. for_loop SIZE CB 0 (matmul_tile_col fp env heap M N CA CB i (tile_size RA i)) s)
      (F, G, out, ?w) = Some s'" "?ok (SIZE * n) 0 s'" "RA \<le> SIZE * n"
  proof (rule for_loop_rule [where P = "\<lambda>n. ?ok (SIZE * n) 0", OF SIZE_pos start])
    fix n and s :: "u32 list \<times> u32 list \<times> u32 list \<times> 'a hworld"
    assume "SIZE * n < RA" "?ok (SIZE * n) 0 s"
    from row [OF this] show "\<exists>s'. for_loop SIZE CB 0 (matmul_tile_col fp env heap M N CA CB (SIZE * n) (tile_size RA (SIZE * n))) s = Some s'
        \<and> ?ok (SIZE * Suc n) 0 s'"
      unfolding mult_Suc_right add.commute [of SIZE "SIZE * n"] .
  qed blast
  obtain F' G' x w' where s: "s' = (F', G', x, w')" by (cases s')
  have "\<forall>i<RA. \<forall>j<CB. val (x ! (i * CB + j)) = Some (\<Sum>k<CA. X (i * CA + k) * Y (k * CB + j))"
    using s'(2,3) by (simp add: s product_upto_def)
  then show ?thesis
    using s'(1,2) f by (simp add: fpga_large_matmul_naive2_def clock_gettime_eq s Let_def flip: tile_size_def)
qed

subsection \<open>Exact arithmetic to try it on\<close>

definition fpu0 :: fpu where "fpu0 = \<lparr>fadd = (+), fmul = (*)\<rparr>"
definition val0 :: "u32 \<Rightarrow> int option" where "val0 x = Some (sint x)"

lemma sint_of_small:
  assumes "\<bar>n\<bar> \<le> 2 ^ 24" shows "sint (word_of_int n :: u32) = n"
proof -
  have "- 2147483648 \<le> n" "n < 2147483648" using assms by simp_all
  then show ?thesis by (simp add: sint_sbintrunc' signed_take_bit_int_eq_self_iff)
qed

lemma exact_offload0: "exact_offload fpu0 henv1 view0 hw0 val0 (2 ^ 24)"
proof -
  have "exact_fpu fpu0 val0 (2 ^ 24)"
    unfolding exact_fpu_def fpu0_def val0_def
    using sint_of_small [of "sint x + sint y" for x y :: u32] sint_of_small [of "sint x * sint y" for x y :: u32] by auto
  moreover have "exact_hw hw0 val0 (2 ^ 24)"
  proof (unfold exact_hw_def val0_def, intro allI impI)
    fix M v :: "u32 list" and A X i
    assume MA: "\<forall>m<SIZE. \<forall>c<SIZE. Some (sint (M ! (SIZE * m + c))) = Some (A m c)"
      and vX: "\<forall>c<SIZE. Some (sint (v ! c)) = Some (X c)" and i: "i < SIZE" and B: "(\<Sum>c<SIZE. \<bar>A i c * X c\<bar>) \<le> 2 ^ 24"
    have "(\<Sum>c<SIZE. sint (M ! (SIZE * i + c)) * sint (v ! c)) = (\<Sum>c<SIZE. A i c * X c)"
      using MA vX i by (intro sum.cong) simp_all
    moreover have "\<bar>\<Sum>c<SIZE. A i c * X c\<bar> \<le> 2 ^ 24"
      using sum_abs [of "\<lambda>c. A i c * X c" "{..<SIZE}"] B by linarith
    ultimately show "Some (sint (hw0 M v ! i)) = Some (\<Sum>c<SIZE. A i c * X c)"
      using i sint_of_small by (simp add: hw0_def del: of_int_sum of_int_mult)
  qed
  ultimately show ?thesis using henv1_os_good henv1_matvec_card by (simp add: exact_offload_def)
qed

section \<open>Properties\<close>

text \<open>C15: The tiled matrix-vector product of any size, on a card that keeps its promises: where the
  products are exact, it returns the same numbers as the reference product of the CPU, the products
  of the matrix with the vector, whatever the sizes are and whatever the local arrays held.\<close>

theorem large_matvec_matches_cpu:
  assumes "exact_offload fp env V hw val B" "exact_operands val B R C M v A X"
    and "length F = SIZE * SIZE" "length W = SIZE" "R \<le> length out" "R \<le> length ref"
  shows "\<exists>t1 o1 w1 t2 o2 w2. fpga_large_matvec_naive fp env F W M v out R C w = Some (t1, o1, w1)
    \<and> cpu_matvec fp env M v ref R C w = Some (t2, o2, w2)
    \<and> (\<forall>r<R. val (o1 ! r) = Some (\<Sum>c<C. A (C * r + c) * X c) \<and> val (o2 ! r) = val (o1 ! r))"
proof -
  note S = assms(1) [unfolded exact_offload_def] and O = assms(2) [unfolded exact_operands_def]
  obtain t1 o1 w1 where 1: "fpga_large_matvec_naive fp env F W M v out R C w = Some (t1, o1, w1)"
    "\<forall>r<R. val (o1 ! r) = Some (\<Sum>c<C. A (C * r + c) * X c)"
    using fpga_large_matvec_naive_run [OF assms(1-5)] by blast
  obtain t2 o2 w2 where 2: "cpu_matvec fp env M v ref R C w = Some (t2, o2, w2)"
    "\<forall>i<R. o2 ! i = dot fp 0 C (\<lambda>j. M ! (C * i + j)) (\<lambda>j. v ! j)"
    using cpu_matvec_run [of env R C M v ref fp w] S O assms(6) by blast
  have "val (o2 ! r) = Some (0 + (\<Sum>c<C. A (C * r + c) * X c))" if r: "r < R" for r
  proof -
    have idx: "C * r + c < R * C" if "c < C" for c
      using row_index_less [OF r that] by (simp add: mult.commute)
    show ?thesis
      unfolding 2(2) [rule_format, OF r] using S O r idx exact_fpu_zero by (intro dot_exact [where B = B]) auto
  qed
  then show ?thesis using 1 2(1) by simp
qed

lemma large_matvec_matches_cpu_witness:
  "\<exists>t1 o1 w1 t2 o2 w2. fpga_large_matvec_naive fpu0 henv1 (replicate (SIZE * SIZE) 7) (replicate SIZE 7) [1, 2, 3, 4, 5, 6] [1, 2, 3] [0, 0] 2 3 hworld0
      = Some (t1, o1, w1)
    \<and> cpu_matvec fpu0 henv1 [1, 2, 3, 4, 5, 6] [1, 2, 3] [9, 9] 2 3 hworld0 = Some (t2, o2, w2)
    \<and> (\<forall>r<2. val0 (o1 ! r) = Some (\<Sum>c<3. (int (3 * r + c) + 1) * (int c + 1)) \<and> val0 (o2 ! r) = val0 (o1 ! r))"
proof (rule large_matvec_matches_cpu [OF exact_offload0])
  show "exact_operands val0 (2 ^ 24) 2 3 [1, 2, 3, 4, 5, 6] [1, 2, 3] (\<lambda>k. int k + 1) (\<lambda>c. int c + 1)"
    unfolding exact_operands_def val0_def
    by (auto simp: less_Suc_eq numeral_eq_Suc)
qed simp_all

text \<open>C7: Both tiled products of two matrices return the product, and the same numbers as the reference
  product of the CPU, for all dimensions.\<close>

theorem large_matmul_matches_cpu:
  assumes "exact_offload fp env V hw val B" "exact_factors val B RA CA CB M N X Y"
    and "\<forall>cs. length (F cs) = SIZE * SIZE" "length F' = SIZE * SIZE" "length G = SIZE * SIZE"
      "\<forall>cs. length (W cs) = SIZE" "\<forall>cs. length (heap cs) = SIZE * SIZE"
    and "length T = CA * CB" "length O' = RA * CB" "length out = RA * CB"
  shows "\<exists>t1 o1 w1 t2 o2 w2 t3 o3 w3. fpga_large_matmul_naive fp env F W T O' M N out RA CA CB w = Some (t1, o1, w1)
    \<and> fpga_large_matmul_naive2 fp env heap F' G M N out RA CA CB w = Some (t2, o2, w2)
    \<and> cpu_matmul fp env M N out RA CA CB w = Some (t3, o3, w3)
    \<and> (\<forall>i<RA. \<forall>j<CB. val (o1 ! (i * CB + j)) = Some (\<Sum>k<CA. X (i * CA + k) * Y (k * CB + j))
        \<and> val (o2 ! (i * CB + j)) = val (o1 ! (i * CB + j)) \<and> val (o3 ! (i * CB + j)) = val (o1 ! (i * CB + j)))"
proof -
  note S = assms(1) [unfolded exact_offload_def] and O = assms(2) [unfolded exact_factors_def]
  let ?e = "\<lambda>i j. \<Sum>k<CA. X (i * CA + k) * Y (k * CB + j)"
  have len: "RA * CB \<le> length out" using assms(10) by simp
  obtain t1 o1 w1 where 1: "fpga_large_matmul_naive fp env F W T O' M N out RA CA CB w = Some (t1, o1, w1)"
    "\<forall>i<RA. \<forall>j<CB. val (o1 ! (i * CB + j)) = Some (?e i j)"
    using fpga_large_matmul_naive_run [OF assms(1-3,6,8,9) len] by blast
  obtain t2 o2 w2 where 2: "fpga_large_matmul_naive2 fp env heap F' G M N out RA CA CB w = Some (t2, o2, w2)"
    "\<forall>i<RA. \<forall>j<CB. val (o2 ! (i * CB + j)) = Some (?e i j)"
    using fpga_large_matmul_naive2_run [OF assms(1,2,7,4,5) len] by blast
  obtain t3 o3 w3 where 3: "cpu_matmul fp env M N out RA CA CB w = Some (t3, o3, w3)"
    "\<forall>i<RA. \<forall>j<CB. o3 ! (i * CB + j) = dot fp 0 CA (\<lambda>k. M ! (i * CA + k)) (\<lambda>k. N ! (k * CB + j))"
    using cpu_matmul_run [of env RA CA M CB N out fp w] S O len by blast
  have "val (o3 ! (i * CB + j)) = Some (0 + ?e i j)" if i: "i < RA" and j: "j < CB" for i j
    unfolding 3(2) [rule_format, OF i j]
    using S O i j row_index_less [OF i, of _ CA] row_index_less [OF _ j, of _ CA] exact_fpu_zero
    by (intro dot_exact [where B = B]) auto
  then show ?thesis using 1 2 3(1) by simp
qed

lemma large_matmul_matches_cpu_witness:
  "\<exists>t1 o1 w1 t2 o2 w2 t3 o3 w3. fpga_large_matmul_naive fpu0 henv1 (\<lambda>_. replicate (SIZE * SIZE) 7) (\<lambda>_. replicate SIZE 7)
        (replicate (2 * 1) 0) (replicate (2 * 1) 0) [1, 2, 3, 4] [1, 2] (replicate (2 * 1) 0) 2 2 1 hworld0 = Some (t1, o1, w1)
    \<and> fpga_large_matmul_naive2 fpu0 henv1 (\<lambda>_. replicate (SIZE * SIZE) 5) (replicate (SIZE * SIZE) 7) (replicate (SIZE * SIZE) 7)
        [1, 2, 3, 4] [1, 2] (replicate (2 * 1) 0) 2 2 1 hworld0 = Some (t2, o2, w2)
    \<and> cpu_matmul fpu0 henv1 [1, 2, 3, 4] [1, 2] (replicate (2 * 1) 0) 2 2 1 hworld0 = Some (t3, o3, w3)
    \<and> (\<forall>i<2. \<forall>j<1. val0 (o1 ! (i * 1 + j)) = Some (\<Sum>k<2. (int (i * 2 + k) + 1) * (int (k * 1 + j) + 1))
        \<and> val0 (o2 ! (i * 1 + j)) = val0 (o1 ! (i * 1 + j)) \<and> val0 (o3 ! (i * 1 + j)) = val0 (o1 ! (i * 1 + j)))"
proof (rule large_matmul_matches_cpu [OF exact_offload0])
  show "exact_factors val0 (2 ^ 24) 2 2 1 [1, 2, 3, 4] [1, 2] (\<lambda>k. int k + 1) (\<lambda>k. int k + 1)"
    unfolding exact_factors_def val0_def
    by (auto simp: less_Suc_eq numeral_eq_Suc)
qed (simp_all only: length_replicate simp_thms)

end
