(* ===== verification/Spec2Isabelle.thy ===== *)
theory Spec2Isabelle
  imports Prelude Kernel Ledger Regs Sgm Desc Dma_Transfer Engine Cyclic Device Device_Account Chardev File_Ops
    Interfaces Bringup Sd_Accel Bitstream Bit_Header Download Download_Account Mcap Accel_Ioctl
    Host_Channel Host_Matrix Host_Offload Host_Tiling
begin

text \<open>
  A verification development for the XDMA PCIe driver and the host program that uses it.

  The program. \<open>src/pcie_dma_driver\<close> is a Linux driver for a PCIe card with DMA engines. A read or write
  of a device file becomes one transfer per 8 MB: the buffer is pinned and mapped (\<open>xdma-sgm.c\<close>), a list of
  descriptors is built for it, the transfer is queued on the engine of the channel, the engine is
  started, and its interrupt (or, in poll mode, its write-back word) completes the transfers and wakes
  the waiters (\<open>xdma-core.c\<close>). Streaming engines receive into a ring of pages that is never taken
  down. \<open>probe\<close> maps the BARs, looks for the engines, requests the interrupt lines and creates the
  device files; \<open>remove\<close> undoes it. With \<open>SD_ACCEL\<close> set, requests on the control file reset the card, scale
  its clock (\<open>xdma-ioctl.c\<close>) and download bitstreams to it (\<open>xdma-bit.c\<close>). \<open>src/host_code\<close> is a user program
  that drives a matrix unit on the card through these files.

  How it is modelled. A function of the driver is a HOL function into \<open>option\<close>: \<open>None\<close> is a stop of the
  kernel (\<open>BUG_ON\<close>, a dangling pointer, a spinlock taken twice), \<open>Some\<close> a return with its code and the new
  state; in the host program \<open>None\<close> is an assert that fails, an \<open>exit(1)\<close> or an access outside an array.
  What is not in the repository (the kernel, the card, the operating system) is a parameter: \<open>kenv\<close> and
  \<open>henv\<close> give its answers as functions of what happened before. What the code does to it is a trace of
  events, so that \<open>registers written in this order\<close> or \<open>memory given back\<close> are facts of lists. Structures
  are records, registers and addresses words of their width, engines and transfers sit in heaps
  under the keys that stand for their pointers.

  The theories and the sources they model:
  \<^item> \<open>Prelude\<close>, \<open>Kernel\<close>, \<open>Ledger\<close>: shared vocabulary; the kernel services and the trace; the balance of
    what a trace acquires and releases.
  \<^item> \<open>Regs\<close> (\<open>xdma-core.h\<close>): the register map. \<open>Sgm\<close> (\<open>xdma-sgm.c\<close>): pinned pages and scatterlists.
    \<open>Desc\<close>, \<open>Dma_Transfer\<close>: descriptors, \<open>transfer_create\<close> and \<open>transfer_destroy\<close>.
  \<^item> \<open>Engine\<close>: starting, queueing, servicing, the ring and polling. \<open>Cyclic\<close>: the receive ring and its
    reader. \<open>Device\<close>, \<open>Device_Account\<close>: interrupts, BARs, engines, and what they own.
  \<^item> \<open>Chardev\<close>, \<open>File_Ops\<close>: the file operations and what they deliver. \<open>Interfaces\<close>, \<open>Bringup\<close>: device nodes,
    \<open>probe\<close>, \<open>remove\<close> and \<open>xdma_init\<close>.
  \<^item> \<open>Sd_Accel\<close>, \<open>Accel_Ioctl\<close> (\<open>xdma-ioctl.c\<close>): the gate, compute units, clock, resets and the dispatcher.
    \<open>Bitstream\<close> (\<open>xdma-bit.c\<close>): header parser, ICAP and MCAP downloads; \<open>Bit_Header\<close>, \<open>Download\<close>, \<open>Mcap\<close> and
    \<open>Download_Account\<close> prove what they accept, write and give back.
  \<^item> \<open>Host_Channel\<close> (\<open>channel_readwrite.c\<close>, \<open>ctrl_register_read.c\<close>, \<open>device_check.c\<close>, the times of
    \<open>utils.c\<close>), \<open>Host_Matrix\<close> (\<open>utils.c\<close>), \<open>Host_Offload\<close> and \<open>Host_Tiling\<close> (\<open>fpga_offload.c\<close>).

  What is shown. The descriptor list of a transfer moves exactly the bytes of its buffer: \<open>maps_buffer\<close> ties
  the bus addresses to the pages pinned for the buffer, and \<open>host_map\<close> names the bus byte of every user
  byte. The card reads the list in array order and stops at the flag of its last descriptor; the list is
  released with its pages. The engine completes transfers in queue order and keeps an invariant over every
  sequence of queueing, servicing and freeing; a read or write delivers every chunk, and so the whole
  buffer, to its address. The ring delivers packets, and the slot that the card writes next by its
  credits is always free. Probing creates the devices of what the card shows by its identifiers and BARs
  (\<open>pcie_card\<close>, \<open>card_in_slot\<close>); probing and removing balance memory, lines and instance numbers, and so do
  the control requests. The header
  parser accepts exactly the printed headers, and the downloads write exactly the words of the payload.
  The tiled products of any dimensions equal the reference products wherever the arithmetic is exact:
  \<open>float\<close> operations are parameters, and the only law used is that integers up to a bound are added and
  multiplied exactly. The properties of kind error state what goes wrong on the paths where the code
  does not do what it means to. The locales (\<open>Prelude\<close>, \<open>Ledger\<close> and the components that state an interface)
  are interpreted on the definitions of the components that provide it.

  Termination and bounds. Loops over chunks and descriptors end because what remains shrinks; the
  loops of \<open>xdma-bit.c\<close> have the counts of the source (\<open>MCAP_LOOP_COUNT\<close>, \<open>EMCAP_EOS_RETRY_COUNT\<close>) and are
  counted in full. The loops that need not end (polling the ring, waiting, \<open>wait_done\<close> of the host program)
  are partial functions into \<open>option\<close>, and that they return, or do not, is proved. What other threads do
  while a function waits is an argument of it. The dimensions of the host program are natural numbers: their
  products stay below the range of \<open>int\<close> or are undefined in C, as is an overflow of the seconds of its
  times. The size of a transfer is 32 bits wide and wraps as in C; the theorems are about sizes that do not.

  Assumed outside. \<open>SD_ACCEL\<close> is 0 in \<open>xdma-core.h\<close>; the code under it is modelled as written with it set.
  \<open>interrupts_enable\<close>, which no file defines, and the content of a firmware file are parameters.

  Not modelled. The debug output (\<open>dump_desc\<close>, \<open>transfer_dump\<close>, the \<open>dbg\<close> macros); \<open>link_info\<close>, empty
  unless \<open>RTO\<close> is defined; \<open>xdma_config\<close>, compiled out by \<open>#if SD_ACCEL && 0\<close>, and the \<open>SD_ACCEL\<close> variants of
  functions of \<open>xdma-core.c\<close> that a plain build has too; the generated \<open>xdma.mod.c\<close>;
  \<open>perfmon_parameters.h\<close>, whose macros no function uses; the programs under \<open>tests\<close>; of the host program
  \<open>timespec_div\<close> (arithmetic of \<open>double\<close>), \<open>gettime_overhead\<close>, the profiling functions and \<open>main\<close>, which
  print times of functions that are modelled.
\<close>

end
